(* ===== verification/Rpc_Prelude.thy ===== *)
theory Rpc_Prelude
  imports Main "HOL-Library.Word" "HOL-Library.AList"
begin

text \<open>
  The vocabulary the component theories share: byte strings (a C++ \<open>std::string\<close> is a
  list of bytes, so a HOL \<open>string\<close>), the machine integers of the code, the outcome of a
  call that may lock a mutex it already holds or leave the defined behaviour of C++, the
  big-endian length prefix of the wire frames, and the list and association-list lemmas
  that several components use.
\<close>

type_synonym bytes = string
type_synonym u8 = "8 word"
type_synonym u32 = "32 word"
type_synonym u64 = "64 word"
type_synonym i32 = "32 word"
type_synonym i64 = "64 word"

named_theorems byte_simps \<open>lengths and values of encoded byte strings\<close>
named_theorems table_simps \<open>lookups in tables after an operation\<close>

section \<open>Outcomes of calls\<close>

text \<open>
  \<open>Deadlock\<close> is a call that locks a \<open>std::mutex\<close> its own thread holds, \<open>Undefined\<close> one
  that leaves the defined behaviour of C++ (an iterator before \<open>begin()\<close>).
\<close>

datatype 'a res = Ret 'a | Deadlock | Undefined

fun res_bind :: "'a res \<Rightarrow> ('a \<Rightarrow> 'b res) \<Rightarrow> 'b res" where
  "res_bind (Ret x) f = f x"
| "res_bind Deadlock f = Deadlock"
| "res_bind Undefined f = Undefined"

lemma res_bind_eq_Ret [simp]:
  "res_bind x f = Ret y \<longleftrightarrow> (\<exists>a. x = Ret a \<and> f a = Ret y)"
  by (cases x) auto

lemma res_bind_split:
  "P (res_bind x f) \<longleftrightarrow>
     ((\<forall>a. x = Ret a \<longrightarrow> P (f a)) \<and> (x = Deadlock \<longrightarrow> P Deadlock) \<and>
      (x = Undefined \<longrightarrow> P Undefined))"
  by (cases x) auto

section \<open>64-bit signed arithmetic on integers\<close>

text \<open>
  The Raft counters are \<open>int64_t\<close>. They are modelled as integers, and every addition of
  the code goes through \<open>wrap64\<close>.
\<close>

definition wrap64 :: "int \<Rightarrow> int" where
  "wrap64 x = (x + 2 ^ 63) mod 2 ^ 64 - 2 ^ 63"

definition in64 :: "int \<Rightarrow> bool" where
  "in64 x \<longleftrightarrow> - (2 ^ 63) \<le> x \<and> x < 2 ^ 63"

lemma wrap64_in64 [simp]: "in64 (wrap64 x)"
  by (simp add: wrap64_def in64_def)

lemma wrap64_id [simp]: "in64 x \<Longrightarrow> wrap64 x = x"
  by (simp add: wrap64_def in64_def)

section \<open>The four-byte length prefix\<close>

text \<open>
  \<open>htonl\<close> followed by copying the four bytes of the result: the value in network byte
  order, most significant byte first, on every host.
\<close>

definition be32 :: "u32 \<Rightarrow> bytes" where
  "be32 w = map (\<lambda>k. char_of (unat (drop_bit k w))) [24, 16, 8, 0]"

definition be32_val :: "bytes \<Rightarrow> u32" where
  "be32_val bs = word_of_nat (foldl (\<lambda>n c. 256 * n + of_char c) 0 bs)"

lemma length_be32 [byte_simps, simp]: "length (be32 w) = 4"
  by (simp add: be32_def)

lemma base256_digits:
  fixes n :: nat
  shows "256 * (256 * (256 * (n div 2 ^ 24) + n div 2 ^ 16 mod 256)
           + n div 2 ^ 8 mod 256) + n mod 256 = n"
proof -
  have "n div 2 ^ 24 = n div 2 ^ 16 div 256" by (simp flip: div_mult2_eq)
  then have a: "256 * (n div 2 ^ 24) + n div 2 ^ 16 mod 256 = n div 2 ^ 16" by simp
  have "n div 2 ^ 16 = n div 2 ^ 8 div 256" by (simp flip: div_mult2_eq)
  then have b: "256 * (n div 2 ^ 16) + n div 2 ^ 8 mod 256 = n div 2 ^ 8" by simp
  show ?thesis by (simp only: a b) simp
qed

lemma be32_digits: "foldl (\<lambda>n c. 256 * n + of_char c) 0 (be32 w) = unat w"
proof -
  have "unat w < 2 ^ 32" using unsigned_less [of w] by simp
  then have top: "unat w div 16777216 mod 256 = unat w div 16777216" by simp
  from base256_digits [of "unat w"] show ?thesis
    by (simp add: be32_def unat_drop_bit_eq drop_bit_eq_div [where 'a = nat] top)
qed

lemma be32_val_be32 [simp]: "be32_val (be32 w) = w"
  by (simp add: be32_val_def be32_digits)

lemma take_be32 [simp]: "take 4 (be32 w @ r) = be32 w"
  by simp

lemma drop_be32 [simp]: "drop 4 (be32 w @ r) = r"
  by simp

section \<open>Decimal numbers\<close>

text \<open>\<open>std::to_string\<close> of an \<open>int\<close>.\<close>

fun decimal :: "nat \<Rightarrow> bytes" where
  "decimal n = (if n < 10 then [char_of (48 + n)] else decimal (n div 10) @ [char_of (48 + n mod 10)])"

declare decimal.simps [simp del]

definition to_string :: "i32 \<Rightarrow> bytes" where
  "to_string w = (let i = sint w in if i < 0 then ''-'' @ decimal (nat (- i)) else decimal (nat i))"

section \<open>Lists updated at an index\<close>

lemma sum_list_set_nth:
  fixes f :: "'a \<Rightarrow> 'b :: comm_monoid_add"
  shows "i < length xs \<Longrightarrow> sum_list (map f (xs[i := x])) + f (xs ! i) = sum_list (map f xs) + f x"
proof (induction xs arbitrary: i)
  case (Cons y xs)
  then show ?case by (cases i) (simp_all add: ac_simps)
qed simp

section \<open>Updating the first match in a list\<close>

text \<open>A range-for over a vector that changes the first matching element and stops.\<close>

fun update_first :: "('a \<Rightarrow> bool) \<Rightarrow> ('a \<Rightarrow> 'a) \<Rightarrow> 'a list \<Rightarrow> 'a list" where
  "update_first P f [] = []"
| "update_first P f (x # xs) = (if P x then f x # xs else x # update_first P f xs)"

lemma length_update_first [simp]: "length (update_first P f xs) = length xs"
  by (induction xs) auto

lemma update_first_id: "\<not> (\<exists>x \<in> set xs. P x) \<Longrightarrow> update_first P f xs = xs"
  by (induction xs) auto

lemma update_first_Nil [simp]: "update_first P f xs = [] \<longleftrightarrow> xs = []"
  by (cases xs) auto

lemma map_update_first:
  "(\<And>x. g (f x) = g x) \<Longrightarrow> map g (update_first P f xs) = map g xs"
  by (induction xs) auto

lemma set_update_first:
  "set (update_first P f xs) \<subseteq> set xs \<union> f ` {x \<in> set xs. P x}"
  by (induction xs) auto

lemma map_of_update_first:
  assumes "\<And>x. key (f x) = key x" and "\<And>x. P x \<longleftrightarrow> key x = k"
    and "\<And>x. key x = k \<Longrightarrow> val (f x) = v"
  shows "map_of (map (\<lambda>x. (key x, val x)) (update_first P f xs)) =
    (if k \<in> key ` set xs then (map_of (map (\<lambda>x. (key x, val x)) xs))(k \<mapsto> v)
     else map_of (map (\<lambda>x. (key x, val x)) xs))"
  using assms by (induction xs) (auto simp: fun_eq_iff)

section \<open>Association lists as hash maps\<close>

text \<open>
  An \<open>unordered_map\<close> is an association list with distinct keys; its order stands for the
  iteration order, which the language leaves open.
\<close>

lemma map_of_AList_update [table_simps]:
  "map_of (AList.update k v al) = (map_of al)(k \<mapsto> v)"
  by (simp add: update_conv')

lemma map_of_AList_delete [table_simps]:
  "map_of (AList.delete k al) = (map_of al)(k := None)"
  by (simp add: delete_conv')

lemma map_of_map_val: "map_of (map (\<lambda>(k, v). (k, f v)) al) = map_option f \<circ> map_of al"
  by (induction al) (auto simp: fun_eq_iff)

lemma map_of_filter_val:
  "distinct (map fst al) \<Longrightarrow>
   map_of (filter (\<lambda>(k, v). P v) al) k =
     (case map_of al k of None \<Rightarrow> None | Some v \<Rightarrow> if P v then Some v else None)"
proof (induction al)
  case (Cons kv al)
  have "map_of al (fst kv) = None" if "fst kv = k"
    using Cons.prems that by (simp add: map_of_eq_None_iff)
  then show ?case using Cons by (cases kv) (auto split: option.splits)
qed simp

lemma distinct_map_fst_filter: "distinct (map fst al) \<Longrightarrow> distinct (map fst (filter P al))"
  by (induction al) auto

lemma map_fst_map_val [simp]: "map (fst \<circ> (\<lambda>(k, v). (k, f v))) al = map fst al"
  by (induction al) auto

lemma length_concat_map_le:
  "(\<And>x. x \<in> set xs \<Longrightarrow> f x \<noteq> []) \<Longrightarrow> length xs \<le> length (concat (map f xs))"
proof (induction xs)
  case (Cons x xs)
  have "f x \<noteq> []" using Cons.prems by simp
  then have "1 \<le> length (f x)" by (cases "f x") auto
  then show ?case using Cons by simp
qed simp

lemma update_same: "map_of al k = Some v \<Longrightarrow> AList.update k v al = al"
  by (induction al) (auto split: if_splits)

text \<open>Durations, in the unit of the clocks.\<close>

definition seconds :: "int \<Rightarrow> int" where
  "seconds n = n * 1000000000"

end
