(* ===== verification/Distributed_Registry_Messages.thy ===== *)
theory Distributed_Registry_Messages
  imports Rpc_Prelude
begin

text \<open>
  The messages of proto/distributed_registry.proto. Their C++ classes are generated at build
  time and are not part of the repository, so only the data is defined here: a record per
  message, its fields in the order of the file. An \<open>int64\<close> field is an integer, an \<open>int32\<close>
  field a 32-bit word, as in the code that uses them.
\<close>

record LogEntry =
  le_term :: int
  le_index :: int
  le_operation :: bytes
  le_data :: bytes

record RequestVoteRequest =
  rv_term :: int
  rv_candidate_id :: bytes
  rv_last_log_index :: int
  rv_last_log_term :: int

record RequestVoteResponse =
  rvr_term :: int
  rvr_vote_granted :: bool

record AppendEntriesRequest =
  ae_term :: int
  ae_leader_id :: bytes
  ae_prev_log_index :: int
  ae_prev_log_term :: int
  ae_entries :: "LogEntry list"
  ae_leader_commit :: int

record AppendEntriesResponse =
  aer_term :: int
  aer_success :: bool
  aer_match_index :: int

record ClusterNodeInfo =
  cn_node_id :: bytes
  cn_host :: bytes
  cn_port :: i32
  cn_role :: bytes
  cn_term :: int

record ClusterStatusResponse =
  cs_nodes :: "ClusterNodeInfo list"
  cs_leader_id :: bytes

record ServiceOperation =
  so_operation_type :: bytes
  so_service_name :: bytes
  so_host :: bytes
  so_port :: i32
  so_timestamp :: int

end
