(* ===== verification/Raft_Node.thy ===== *)
theory Raft_Node
  imports Distributed_Registry_Messages
begin

text \<open>
  registry/raft_node.cpp and registry/raft_node_rpc.cpp: the Raft node of the distributed
  registry. \<open>RaftNode\<close> is the object's state, polymorphic in the state of the
  \<open>RaftStateMachine\<close> it drives (the argument \<open>apply_entry\<close> is its \<open>applyLogEntry\<close>).

  \<open>state_mutex_\<close> and \<open>log_mutex_\<close> are plain \<open>std::mutex\<close>es. A function gets the mutexes its
  thread already holds, and locking one of them again is \<open>Deadlock\<close>; \<open>Undefined\<close> is an index
  or iterator outside a vector, or a signed overflow. What the network answers is an argument:
  \<open>None\<close> when connecting, sending, receiving or parsing failed (or threw), which the code
  treats alike. \<open>resetElectionTimer\<close> is empty in the source.
\<close>

section \<open>State\<close>

datatype RaftRole = FOLLOWER | CANDIDATE | LEADER

record RaftPeer =
  peer_node_id :: bytes
  peer_host :: bytes
  peer_port :: i32
  peer_next_index :: int
  peer_match_index :: int

record 'm RaftNode =
  rn_node_id :: bytes
  rn_host :: bytes
  rn_port :: i32
  rn_peers :: "RaftPeer list"
  rn_state_machine :: 'm
  rn_role :: RaftRole
  rn_current_term :: int
  rn_voted_for :: bytes
  rn_leader_id :: bytes
  rn_log :: "LogEntry list"
  rn_commit_index :: int
  rn_last_applied :: int
  rn_next_index :: "int list"
  rn_match_index :: "int list"
  rn_running :: bool

definition RaftNode_new ::
    "bytes \<Rightarrow> bytes \<Rightarrow> i32 \<Rightarrow> RaftPeer list \<Rightarrow> 'm \<Rightarrow> 'm RaftNode" where
  "RaftNode_new node_id host port peers machine =
     \<lparr>rn_node_id = node_id, rn_host = host, rn_port = port, rn_peers = peers,
      rn_state_machine = machine, rn_role = FOLLOWER, rn_current_term = 0, rn_voted_for = [],
      rn_leader_id = [], rn_log = [], rn_commit_index = 0, rn_last_applied = 0,
      rn_next_index = replicate (length peers) 1, rn_match_index = replicate (length peers) 0,
      rn_running = False\<rparr>"

datatype mutex = StateMutex | LogMutex

text \<open>\<open>std::lock_guard\<close> around the rest of a block.\<close>

definition with_lock :: "mutex \<Rightarrow> mutex list \<Rightarrow> (mutex list \<Rightarrow> 'a res) \<Rightarrow> 'a res" where
  "with_lock m held body = (if m \<in> set held then Deadlock else body (m # held))"

text \<open>\<open>int64_t\<close> addition: overflow is undefined.\<close>

definition add64 :: "int \<Rightarrow> int \<Rightarrow> int res" where
  "add64 x y = (if in64 (x + y) then Ret (x + y) else Undefined)"

section \<open>The log\<close>

definition getLastLogIndex :: "mutex list \<Rightarrow> 'm RaftNode \<Rightarrow> int res" where
  "getLastLogIndex held n = with_lock LogMutex held (\<lambda>_. Ret (int (length (rn_log n))))"

definition getLastLogTerm :: "mutex list \<Rightarrow> 'm RaftNode \<Rightarrow> int res" where
  "getLastLogTerm held n = with_lock LogMutex held
     (\<lambda>_. Ret (if rn_log n = [] then 0 else le_term (last (rn_log n))))"

definition appendLogEntry :: "mutex list \<Rightarrow> LogEntry \<Rightarrow> 'm RaftNode \<Rightarrow> 'm RaftNode res" where
  "appendLogEntry held entry n =
     with_lock LogMutex held (\<lambda>_. Ret (n\<lparr>rn_log := rn_log n @ [entry]\<rparr>))"

text \<open>The loop of \<open>applyCommittedEntries\<close>; the caller holds \<open>log_mutex_\<close>.\<close>

function applyCommittedEntries ::
    "(LogEntry \<Rightarrow> 'm \<Rightarrow> 'm) \<Rightarrow> 'm RaftNode \<Rightarrow> 'm RaftNode res" where
  "applyCommittedEntries apply_entry n =
     (if rn_last_applied n < rn_commit_index n then
        let index = rn_last_applied n + 1 in
        if index \<le> int (length (rn_log n)) then
          if index < 1 then Undefined
          else applyCommittedEntries apply_entry
                 (n\<lparr>rn_state_machine := apply_entry (rn_log n ! nat (index - 1)) (rn_state_machine n),
                    rn_last_applied := rn_last_applied n + 1\<rparr>)
        else Ret n
      else Ret n)"
  by pat_completeness auto
termination
  by (relation "measure (\<lambda>(apply_entry, n). nat (rn_commit_index n - rn_last_applied n))") auto

declare applyCommittedEntries.simps [simp del]

section \<open>Roles\<close>

definition becomeFollower :: "int \<Rightarrow> bytes \<Rightarrow> 'm RaftNode \<Rightarrow> 'm RaftNode" where
  "becomeFollower tm leader_id n =
     n\<lparr>rn_role := FOLLOWER, rn_current_term := tm, rn_voted_for := [], rn_leader_id := leader_id\<rparr>"

definition becomeCandidate :: "'m RaftNode \<Rightarrow> 'm RaftNode" where
  "becomeCandidate n = n\<lparr>rn_role := CANDIDATE, rn_leader_id := []\<rparr>"

definition becomeLeader :: "mutex list \<Rightarrow> 'm RaftNode \<Rightarrow> 'm RaftNode res" where
  "becomeLeader held n = res_bind (getLastLogIndex held n) (\<lambda>last_index.
     Ret (n\<lparr>rn_role := LEADER, rn_leader_id := rn_node_id n,
            rn_next_index := map (\<lambda>_. last_index + 1) (rn_next_index n),
            rn_match_index := map (\<lambda>_. 0) (rn_match_index n)\<rparr>))"

section \<open>Requests from other nodes\<close>

definition handleRequestVote ::
    "mutex list \<Rightarrow> RequestVoteRequest \<Rightarrow> 'm RaftNode \<Rightarrow> (RequestVoteResponse \<times> 'm RaftNode) res" where
  "handleRequestVote held request n = with_lock StateMutex held (\<lambda>held.
     let response = \<lparr>rvr_term = rn_current_term n, rvr_vote_granted = False\<rparr> in
     if rv_term request < rn_current_term n then Ret (response, n)
     else
       let n = (if rv_term request > rn_current_term n then becomeFollower (rv_term request) [] n else n);
           can_vote = (rn_voted_for n = [] \<or> rn_voted_for n = rv_candidate_id request)
       in if can_vote then
            res_bind (getLastLogIndex held n) (\<lambda>last_log_index.
            res_bind (getLastLogTerm held n) (\<lambda>last_log_term.
              let log_ok = (rv_last_log_term request > last_log_term \<or>
                    rv_last_log_term request = last_log_term \<and>
                    rv_last_log_index request \<ge> last_log_index)
              in if log_ok
                 then Ret (response\<lparr>rvr_vote_granted := True\<rparr>,
                           n\<lparr>rn_voted_for := rv_candidate_id request\<rparr>)
                 else Ret (response, n)))
          else Ret (response, n))"

text \<open>The entries from \<open>new_index\<close> on are erased whenever the request carries entries.\<close>

definition erase_append :: "int \<Rightarrow> LogEntry list \<Rightarrow> LogEntry list \<Rightarrow> LogEntry list res" where
  "erase_append prev_log_index entries log =
     (if entries = [] then Ret log
      else res_bind (add64 prev_log_index 1) (\<lambda>new_index.
        if new_index \<le> int (length log) then
          if new_index - 1 < 0 then Undefined
          else Ret (take (nat (new_index - 1)) log @ entries)
        else Ret (log @ entries)))"

definition handleAppendEntries ::
    "mutex list \<Rightarrow> AppendEntriesRequest \<Rightarrow> 'm RaftNode \<Rightarrow> (AppendEntriesResponse \<times> 'm RaftNode) res" where
  "handleAppendEntries held request n = with_lock StateMutex held (\<lambda>held.
     let response = \<lparr>aer_term = rn_current_term n, aer_success = False, aer_match_index = 0\<rparr> in
     if ae_term request < rn_current_term n then Ret (response, n)
     else
       let n = becomeFollower (ae_term request) (ae_leader_id request) n in
       with_lock LogMutex held (\<lambda>held.
         if ae_prev_log_index request > 0 \<and>
            (ae_prev_log_index request > int (length (rn_log n)) \<or>
             le_term (rn_log n ! nat (ae_prev_log_index request - 1)) \<noteq> ae_prev_log_term request)
         then Ret (response, n)
         else res_bind (erase_append (ae_prev_log_index request) (ae_entries request) (rn_log n)) (\<lambda>log.
           let n = n\<lparr>rn_log := log\<rparr>;
               n = (if ae_leader_commit request > rn_commit_index n
                    then n\<lparr>rn_commit_index := min (ae_leader_commit request) (int (length log))\<rparr>
                    else n)
           in Ret (response\<lparr>aer_success := True, aer_match_index := int (length log)\<rparr>, n))))"

text \<open>
  \<open>handleConnection\<close> on the bytes received: the parsers and serializers of the two request
  types are generated at build time. The result is the response sent, if any.
\<close>

definition RaftNode_handleConnection ::
    "(bytes \<Rightarrow> RequestVoteRequest option) \<Rightarrow> (bytes \<Rightarrow> AppendEntriesRequest option) \<Rightarrow>
     (RequestVoteResponse \<Rightarrow> bytes) \<Rightarrow> (AppendEntriesResponse \<Rightarrow> bytes) \<Rightarrow>
     bytes \<Rightarrow> 'm RaftNode \<Rightarrow> (bytes option \<times> 'm RaftNode) res" where
  "RaftNode_handleConnection parse_vote parse_append ser_vote ser_append data n =
     (if data = [] then Ret (None, n)
      else case parse_vote data of
        Some vote_request \<Rightarrow>
          res_bind (handleRequestVote [] vote_request n)
            (\<lambda>(vote_response, n'). Ret (Some (ser_vote vote_response), n'))
      | None \<Rightarrow>
          (case parse_append data of
             Some append_request \<Rightarrow>
               res_bind (handleAppendEntries [] append_request n)
                 (\<lambda>(append_response, n'). Ret (Some (ser_append append_response), n'))
           | None \<Rightarrow> Ret (None, n)))"

section \<open>Elections\<close>

definition sendRequestVote ::
    "mutex list \<Rightarrow> RequestVoteResponse option \<Rightarrow> 'm RaftNode \<Rightarrow> (bool \<times> 'm RaftNode) res" where
  "sendRequestVote held reply n = (case reply of
       None \<Rightarrow> Ret (False, n)
     | Some response \<Rightarrow>
         if rvr_term response > rn_current_term n
         then with_lock StateMutex held (\<lambda>_. Ret (False, becomeFollower (rvr_term response) [] n))
         else Ret (rvr_vote_granted response, n))"

text \<open>
  The requests to the peers in turn; \<open>net p request\<close> is the answer of peer \<open>p\<close>.
\<close>

fun request_votes ::
    "mutex list \<Rightarrow> (RaftPeer \<Rightarrow> RequestVoteRequest \<Rightarrow> RequestVoteResponse option) \<Rightarrow>
     RequestVoteRequest \<Rightarrow> RaftPeer list \<Rightarrow> nat \<Rightarrow> 'm RaftNode \<Rightarrow> (nat \<times> 'm RaftNode) res" where
  "request_votes held net request [] votes n = Ret (votes, n)"
| "request_votes held net request (peer # peers) votes n =
     res_bind (sendRequestVote held (net peer request) n)
       (\<lambda>(granted, n'). request_votes held net request peers (if granted then votes + 1 else votes) n')"

definition majority :: "'m RaftNode \<Rightarrow> nat" where
  "majority n = (length (rn_peers n) + 1) div 2 + 1"

definition startElection ::
    "mutex list \<Rightarrow> (RaftPeer \<Rightarrow> RequestVoteRequest \<Rightarrow> RequestVoteResponse option) \<Rightarrow> 'm RaftNode \<Rightarrow>
     'm RaftNode res" where
  "startElection held net n =
     (let n = becomeCandidate n;
          n = n\<lparr>rn_current_term := wrap64 (rn_current_term n + 1), rn_voted_for := rn_node_id n\<rparr>
      in res_bind (getLastLogIndex held n) (\<lambda>last_index.
         res_bind (getLastLogTerm held n) (\<lambda>last_term.
         let request = \<lparr>rv_term = rn_current_term n, rv_candidate_id = rn_node_id n,
               rv_last_log_index = last_index, rv_last_log_term = last_term\<rparr>
         in res_bind (request_votes held net request (rn_peers n) 1 n) (\<lambda>(votes, n).
            if votes \<ge> majority n then becomeLeader held n
            else Ret (becomeFollower (rn_current_term n) [] n)))))"

text \<open>
  The sleep of \<open>electionTimerLoop\<close> in milliseconds, where \<open>draw\<close> is the random choice, and the method
  that would restart it, which does nothing.
\<close>

definition getElectionTimeout :: "nat \<Rightarrow> int" where
  "getElectionTimeout draw = 150 + int (draw mod 151)"

definition resetElectionTimer :: "'m RaftNode \<Rightarrow> 'm RaftNode" where
  "resetElectionTimer n = n"

lemma election_timeout_range: "150 \<le> getElectionTimeout draw \<and> getElectionTimeout draw \<le> 300"
  by (simp add: getElectionTimeout_def)

text \<open>One pass of \<open>electionTimerLoop\<close> after its sleep.\<close>

definition election_timeout ::
    "(RaftPeer \<Rightarrow> RequestVoteRequest \<Rightarrow> RequestVoteResponse option) \<Rightarrow> 'm RaftNode \<Rightarrow> 'm RaftNode res" where
  "election_timeout net n =
     (if \<not> rn_running n then Ret n
      else with_lock StateMutex [] (\<lambda>held.
        if rn_role n \<noteq> LEADER then startElection held net n else Ret n))"

section \<open>Replication\<close>

text \<open>The search of \<open>updateCommitIndex\<close>, from the end of the log down to the commit index.\<close>

definition replicas :: "'m RaftNode \<Rightarrow> nat \<Rightarrow> nat" where
  "replicas n index = 1 + length (filter (\<lambda>m. m \<ge> int index) (rn_match_index n))"

fun commit_search :: "'m RaftNode \<Rightarrow> nat \<Rightarrow> int res" where
  "commit_search n 0 = (if rn_commit_index n < 0 then Undefined else Ret (rn_commit_index n))"
| "commit_search n (Suc k) =
     (if int (Suc k) > rn_commit_index n then
        if le_term (rn_log n ! k) \<noteq> rn_current_term n then commit_search n k
        else if replicas n (Suc k) \<ge> majority n then Ret (int (Suc k))
        else commit_search n k
      else Ret (rn_commit_index n))"

definition updateCommitIndex :: "mutex list \<Rightarrow> 'm RaftNode \<Rightarrow> 'm RaftNode res" where
  "updateCommitIndex held n =
     (if rn_role n \<noteq> LEADER then Ret n
      else with_lock LogMutex held (\<lambda>_.
        res_bind (commit_search n (length (rn_log n))) (\<lambda>c. Ret (n\<lparr>rn_commit_index := c\<rparr>))))"

text \<open>\<open>std::find_if\<close> over the peers.\<close>

fun find_peer :: "bytes \<Rightarrow> RaftPeer list \<Rightarrow> nat option" where
  "find_peer node_id [] = None"
| "find_peer node_id (p # ps) =
     (if peer_node_id p = node_id then Some 0 else map_option Suc (find_peer node_id ps))"

definition sendAppendEntries ::
    "mutex list \<Rightarrow> AppendEntriesResponse option \<Rightarrow> RaftPeer \<Rightarrow> 'm RaftNode \<Rightarrow> (bool \<times> 'm RaftNode) res" where
  "sendAppendEntries held reply peer n = (case reply of
       None \<Rightarrow> Ret (False, n)
     | Some response \<Rightarrow>
         if aer_term response > rn_current_term n
         then with_lock StateMutex held (\<lambda>_. Ret (False, becomeFollower (aer_term response) [] n))
         else
           res_bind (case find_peer (peer_node_id peer) (rn_peers n) of
               None \<Rightarrow> Ret n
             | Some peer_index \<Rightarrow>
                 if aer_success response then
                   res_bind (add64 (aer_match_index response) 1) (\<lambda>nxt.
                     updateCommitIndex held
                       (n\<lparr>rn_next_index := (rn_next_index n)[peer_index := nxt],
                          rn_match_index := (rn_match_index n)[peer_index := aer_match_index response]\<rparr>))
                 else if rn_next_index n ! peer_index > 1
                 then Ret (n\<lparr>rn_next_index := (rn_next_index n)
                               [peer_index := rn_next_index n ! peer_index - 1]\<rparr>)
                 else Ret n)
             (\<lambda>n. Ret (aer_success response, n)))"

text \<open>
  The request for one peer. An entry before the first one is read when \<open>next_index\<close> is not
  positive.
\<close>

definition append_request :: "nat \<Rightarrow> 'm RaftNode \<Rightarrow> AppendEntriesRequest res" where
  "append_request i n =
     (let log = rn_log n; nxt = rn_next_index n ! i in
      res_bind (add64 nxt (- 1)) (\<lambda>prev_log_index.
        if nxt < 1 then Undefined
        else Ret \<lparr>ae_term = rn_current_term n, ae_leader_id = rn_node_id n,
               ae_prev_log_index = prev_log_index,
               ae_prev_log_term =
                 (if prev_log_index > 0 \<and> prev_log_index \<le> int (length log)
                  then le_term (log ! nat (prev_log_index - 1)) else 0),
               ae_entries = drop (nat (nxt - 1)) log,
               ae_leader_commit = rn_commit_index n\<rparr>))"

fun heartbeat_peers ::
    "mutex list \<Rightarrow> (RaftPeer \<Rightarrow> AppendEntriesRequest \<Rightarrow> AppendEntriesResponse option) \<Rightarrow>
     (nat \<times> RaftPeer) list \<Rightarrow> 'm RaftNode \<Rightarrow> 'm RaftNode res" where
  "heartbeat_peers held net [] n = Ret n"
| "heartbeat_peers held net ((i, peer) # peers) n =
     res_bind (with_lock LogMutex held (\<lambda>held.
         res_bind (append_request i n) (\<lambda>request.
           sendAppendEntries held (net peer request) peer n)))
       (\<lambda>(ok, n'). heartbeat_peers held net peers n')"

text \<open>One pass of \<open>heartbeatLoop\<close> after its sleep.\<close>

definition heartbeat_round ::
    "(RaftPeer \<Rightarrow> AppendEntriesRequest \<Rightarrow> AppendEntriesResponse option) \<Rightarrow> 'm RaftNode \<Rightarrow> 'm RaftNode res" where
  "heartbeat_round net n =
     (if \<not> rn_running n then Ret n
      else with_lock StateMutex [] (\<lambda>held.
        if rn_role n = LEADER
        then heartbeat_peers held net (enumerate 0 (rn_peers n)) n
        else Ret n))"

section \<open>Clients\<close>

definition proposeLogEntry :: "bytes \<Rightarrow> bytes \<Rightarrow> 'm RaftNode \<Rightarrow> (bool \<times> 'm RaftNode) res" where
  "proposeLogEntry operation data n = with_lock StateMutex [] (\<lambda>held.
     if rn_role n \<noteq> LEADER then Ret (False, n)
     else res_bind (getLastLogIndex held n) (\<lambda>last_index.
          res_bind (appendLogEntry held \<lparr>le_term = rn_current_term n, le_index = last_index + 1,
              le_operation = operation, le_data = data\<rparr> n) (\<lambda>n'. Ret (True, n'))))"

definition getLeaderId :: "'m RaftNode \<Rightarrow> bytes" where
  "getLeaderId n = rn_leader_id n"

definition getRole :: "'m RaftNode \<Rightarrow> RaftRole" where
  "getRole n = rn_role n"

definition isLeader :: "'m RaftNode \<Rightarrow> bool" where
  "isLeader n \<longleftrightarrow> rn_role n = LEADER"

fun role_name :: "RaftRole \<Rightarrow> bytes" where
  "role_name LEADER = ''leader''"
| "role_name FOLLOWER = ''follower''"
| "role_name CANDIDATE = ''candidate''"

definition getClusterStatus :: "'m RaftNode \<Rightarrow> ClusterStatusResponse res" where
  "getClusterStatus n = with_lock StateMutex [] (\<lambda>_. Ret
     \<lparr>cs_nodes =
        \<lparr>cn_node_id = rn_node_id n, cn_host = rn_host n, cn_port = rn_port n,
         cn_role = role_name (rn_role n), cn_term = rn_current_term n\<rparr> #
        map (\<lambda>peer. \<lparr>cn_node_id = peer_node_id peer, cn_host = peer_host peer,
           cn_port = peer_port peer, cn_role = ''unknown'', cn_term = 0\<rparr>) (rn_peers n),
      cs_leader_id = rn_leader_id n\<rparr>)"

text \<open>One pass of \<open>logApplierLoop\<close>, once its wait is over.\<close>

definition applier_round :: "(LogEntry \<Rightarrow> 'm \<Rightarrow> 'm) \<Rightarrow> 'm RaftNode \<Rightarrow> 'm RaftNode res" where
  "applier_round apply_entry n = with_lock LogMutex [] (\<lambda>_.
     if \<not> rn_running n then Ret n else applyCommittedEntries apply_entry n)"

text \<open>
  \<open>start\<close> sets the flag before it tries to listen and leaves it set when that fails.
\<close>

definition RaftNode_start :: "'m RaftNode \<Rightarrow> 'm RaftNode" where
  "RaftNode_start n = (if rn_running n then n else n\<lparr>rn_running := True\<rparr>)"

definition RaftNode_stop :: "'m RaftNode \<Rightarrow> 'm RaftNode" where
  "RaftNode_stop n = (if \<not> rn_running n then n else n\<lparr>rn_running := False\<rparr>)"

end
