(* ===== verification/Raft_Safety.thy ===== *)
theory Raft_Safety
  imports Raft_Node
begin

text \<open>
  What the operations of Raft_Node guarantee, one group of lemmas per handler, and the step
  relation of a node with the invariants every step keeps: terms and commit indices never
  decrease, \<open>last_applied\<close> never passes \<open>commit_index\<close>, a vote is not changed within a term by a
  vote request, and a leader's heartbeat rounds commit nothing.
\<close>

lemmas lock_simps = with_lock_def getLastLogIndex_def getLastLogTerm_def appendLogEntry_def

lemma becomeFollower_simps [simp]:
  "rn_current_term (becomeFollower t l n) = t" "rn_role (becomeFollower t l n) = FOLLOWER"
  "rn_voted_for (becomeFollower t l n) = []" "rn_leader_id (becomeFollower t l n) = l"
  "rn_log (becomeFollower t l n) = rn_log n" "rn_commit_index (becomeFollower t l n) = rn_commit_index n"
  "rn_last_applied (becomeFollower t l n) = rn_last_applied n"
  "rn_state_machine (becomeFollower t l n) = rn_state_machine n"
  "rn_node_id (becomeFollower t l n) = rn_node_id n" "rn_peers (becomeFollower t l n) = rn_peers n"
  by (simp_all add: becomeFollower_def)

section \<open>Vote requests\<close>

text \<open>The candidate's log is at least as new as the node's own.\<close>

definition up_to_date :: "RequestVoteRequest \<Rightarrow> LogEntry list \<Rightarrow> bool" where
  "up_to_date q log \<longleftrightarrow>
     (let t = (if log = [] then 0 else le_term (last log)) in
      rv_last_log_term q > t \<or> rv_last_log_term q = t \<and> rv_last_log_index q \<ge> int (length log))"

text \<open>Whether the vote of the request's term is free for the candidate.\<close>

definition vote_free :: "RequestVoteRequest \<Rightarrow> 'm RaftNode \<Rightarrow> bool" where
  "vote_free q n \<longleftrightarrow> rv_term q > rn_current_term n \<or>
     rv_term q = rn_current_term n \<and> (rn_voted_for n = [] \<or> rn_voted_for n = rv_candidate_id q)"

definition grants :: "RequestVoteRequest \<Rightarrow> 'm RaftNode \<Rightarrow> bool" where
  "grants q n \<longleftrightarrow> vote_free q n \<and> up_to_date q (rn_log n)"

definition after_vote :: "RequestVoteRequest \<Rightarrow> 'm RaftNode \<Rightarrow> 'm RaftNode" where
  "after_vote q n =
     (let n' = (if rv_term q > rn_current_term n then becomeFollower (rv_term q) [] n else n) in
      if grants q n then n'\<lparr>rn_voted_for := rv_candidate_id q\<rparr> else n')"

lemma handleRequestVote_eq:
  "handleRequestVote [] q n =
     Ret (\<lparr>rvr_term = rn_current_term n, rvr_vote_granted = grants q n\<rparr>, after_vote q n)"
proof (cases "rv_term q" "rn_current_term n" rule: linorder_cases)
  case less
  then show ?thesis
    by (simp add: handleRequestVote_def with_lock_def after_vote_def grants_def vote_free_def)
next
  case equal
  then show ?thesis
    by (simp add: handleRequestVote_def lock_simps Let_def after_vote_def grants_def vote_free_def
        up_to_date_def)
next
  case greater
  then show ?thesis
    by (simp add: handleRequestVote_def lock_simps Let_def after_vote_def grants_def vote_free_def
        up_to_date_def becomeFollower_def)
qed

lemma after_vote_term: "rn_current_term (after_vote q n) = max (rn_current_term n) (rv_term q)"
  by (auto simp: after_vote_def Let_def becomeFollower_def grants_def vote_free_def)

lemma after_vote_log [simp]:
  "rn_log (after_vote q n) = rn_log n" "rn_commit_index (after_vote q n) = rn_commit_index n"
  "rn_last_applied (after_vote q n) = rn_last_applied n"
  "rn_state_machine (after_vote q n) = rn_state_machine n"
  by (simp_all add: after_vote_def Let_def becomeFollower_def)

lemma after_vote_granted:
  "grants q n \<Longrightarrow> rn_voted_for (after_vote q n) = rv_candidate_id q \<and>
     rn_current_term (after_vote q n) = rv_term q"
  by (auto simp: after_vote_def Let_def grants_def vote_free_def becomeFollower_def)

lemma after_vote_kept:
  "rn_voted_for n \<noteq> [] \<Longrightarrow> rn_current_term (after_vote q n) = rn_current_term n \<Longrightarrow>
   rn_voted_for (after_vote q n) = rn_voted_for n"
  by (auto simp: after_vote_def Let_def grants_def vote_free_def becomeFollower_def split: if_splits)

text \<open>A run of vote requests, with the requests that were granted.\<close>

fun vote_run :: "RequestVoteRequest list \<Rightarrow> 'm RaftNode \<Rightarrow> (RequestVoteRequest list \<times> 'm RaftNode) res" where
  "vote_run [] n = Ret ([], n)"
| "vote_run (q # qs) n = res_bind (handleRequestVote [] q n) (\<lambda>(response, n').
     res_bind (vote_run qs n') (\<lambda>(granted, n'').
       Ret (if rvr_vote_granted response then q # granted else granted, n'')))"

lemma vote_run_Cons:
  "vote_run (q # qs) n = Ret (gs, n'') \<longleftrightarrow>
   (\<exists>gs'. vote_run qs (after_vote q n) = Ret (gs', n'') \<and> gs = (if grants q n then q # gs' else gs'))"
  by (auto simp: handleRequestVote_eq)

declare vote_run.simps(2) [simp del]

lemma vote_run_Ret: "\<exists>gs n'. vote_run qs n = Ret (gs, n')"
proof (induction qs arbitrary: n)
  case (Cons q qs)
  obtain gs n' where "vote_run qs (after_vote q n) = Ret (gs, n')" using Cons by blast
  then show ?case by (auto simp: vote_run_Cons)
qed simp

lemma vote_run_term:
  "vote_run qs n = Ret (gs, n') \<Longrightarrow>
   rn_current_term n \<le> rn_current_term n' \<and> (\<forall>g \<in> set gs. rn_current_term n \<le> rv_term g)"
proof (induction qs arbitrary: n gs)
  case (Cons q qs)
  then obtain gs' where gs': "vote_run qs (after_vote q n) = Ret (gs', n')"
      "gs = (if grants q n then q # gs' else gs')" by (auto simp: vote_run_Cons)
  show ?case using Cons.IH [OF gs'(1)] gs'(2) by (auto simp: after_vote_term grants_def vote_free_def)
qed simp

text \<open>Once a vote is given in a term, no other candidate gets one in that term.\<close>

lemma vote_run_voted:
  "vote_run qs n = Ret (gs, n') \<Longrightarrow> rn_voted_for n \<noteq> [] \<Longrightarrow>
   \<forall>g \<in> set gs. rv_term g = rn_current_term n \<longrightarrow> rv_candidate_id g = rn_voted_for n"
proof (induction qs arbitrary: n gs)
  case (Cons q qs)
  then obtain gs' where gs': "vote_run qs (after_vote q n) = Ret (gs', n')"
      "gs = (if grants q n then q # gs' else gs')" by (auto simp: vote_run_Cons)
  have first: "rv_candidate_id q = rn_voted_for n" if "grants q n" "rv_term q = rn_current_term n"
    using that Cons.prems(2) by (auto simp: grants_def vote_free_def)
  have rest: "rv_candidate_id g = rn_voted_for n"
    if "g \<in> set gs'" and "rv_term g = rn_current_term n" for g
  proof (cases "rn_current_term (after_vote q n) = rn_current_term n")
    case True
    then show ?thesis
      using Cons.IH [OF gs'(1)] after_vote_kept [OF Cons.prems(2) True] Cons.prems(2) that by auto
  next
    case False
    then have "rn_current_term n < rn_current_term (after_vote q n)" by (simp add: after_vote_term)
    then show ?thesis using vote_run_term [OF gs'(1)] that by auto
  qed
  show ?case using first rest gs'(2) by auto
qed simp

lemma vote_run_unique:
  "vote_run qs n = Ret (gs, n') \<Longrightarrow> \<forall>q \<in> set qs. rv_candidate_id q \<noteq> [] \<Longrightarrow>
   g \<in> set gs \<Longrightarrow> h \<in> set gs \<Longrightarrow> rv_term g = rv_term h \<Longrightarrow> rv_candidate_id g = rv_candidate_id h"
proof (induction qs arbitrary: n gs)
  case (Cons q qs)
  obtain gs' where gs': "vote_run qs (after_vote q n) = Ret (gs', n')"
      "gs = (if grants q n then q # gs' else gs')" using Cons.prems(1) by (auto simp: vote_run_Cons)
  note IH = Cons.IH [OF gs'(1)]
  have later: "rv_candidate_id g = rv_candidate_id q"
    if "grants q n" and "g \<in> set gs'" and "rv_term g = rv_term q" for g
  proof -
    from after_vote_granted [OF that(1)] Cons.prems(2)
    have "rn_voted_for (after_vote q n) \<noteq> []" and "rn_current_term (after_vote q n) = rv_term q"
      and "rn_voted_for (after_vote q n) = rv_candidate_id q" by simp_all
    then show ?thesis using vote_run_voted [OF gs'(1)] that(2,3) by simp
  qed
  show ?case
  proof (cases "grants q n")
    case True
    then have "g = q \<or> g \<in> set gs'" and "h = q \<or> h \<in> set gs'" using Cons.prems(3,4) gs'(2) by simp_all
    moreover have "rv_candidate_id g = rv_candidate_id h" if "g \<in> set gs'" and "h \<in> set gs'"
      using IH Cons.prems(2,5) that by simp
    ultimately show ?thesis using later [OF True] Cons.prems(5) by metis
  next
    case False
    then show ?thesis using IH Cons.prems gs'(2) by simp
  qed
qed simp

section \<open>Append requests\<close>

text \<open>The node's log agrees with the entry before the ones sent.\<close>

definition prev_matches :: "AppendEntriesRequest \<Rightarrow> LogEntry list \<Rightarrow> bool" where
  "prev_matches q log \<longleftrightarrow> ae_prev_log_index q > 0 \<longrightarrow>
     ae_prev_log_index q \<le> int (length log) \<and>
     le_term (log ! nat (ae_prev_log_index q - 1)) = ae_prev_log_term q"

lemma prev_guard:
  "(ae_prev_log_index q > 0 \<and> (ae_prev_log_index q > int (length log) \<or>
      le_term (log ! nat (ae_prev_log_index q - 1)) \<noteq> ae_prev_log_term q)) \<longleftrightarrow> \<not> prev_matches q log"
  by (auto simp: prev_matches_def)

lemma handleAppendEntries_stale:
  "ae_term q < rn_current_term n \<Longrightarrow> handleAppendEntries [] q n =
     Ret (\<lparr>aer_term = rn_current_term n, aer_success = False, aer_match_index = 0\<rparr>, n)"
  by (simp add: handleAppendEntries_def lock_simps)

lemma handleAppendEntries_mismatch:
  "rn_current_term n \<le> ae_term q \<Longrightarrow> \<not> prev_matches q (rn_log n) \<Longrightarrow> handleAppendEntries [] q n =
     Ret (\<lparr>aer_term = rn_current_term n, aer_success = False, aer_match_index = 0\<rparr>,
          becomeFollower (ae_term q) (ae_leader_id q) n)"
  by (auto simp: handleAppendEntries_def lock_simps prev_matches_def becomeFollower_def Let_def)

definition new_log :: "AppendEntriesRequest \<Rightarrow> LogEntry list \<Rightarrow> LogEntry list" where
  "new_log q log = (if ae_entries q = [] then log
     else take (nat (ae_prev_log_index q)) log @ ae_entries q)"

definition new_commit :: "AppendEntriesRequest \<Rightarrow> 'm RaftNode \<Rightarrow> int" where
  "new_commit q n = (if ae_leader_commit q > rn_commit_index n
     then min (ae_leader_commit q) (int (length (new_log q (rn_log n)))) else rn_commit_index n)"

lemma erase_append_eq:
  assumes "0 \<le> prev" and "prev \<le> int (length log)" and "prev < 2 ^ 63 - 1"
  shows "erase_append prev entries log =
    Ret (if entries = [] then log else take (nat prev) log @ entries)"
  using assms by (auto simp: erase_append_def add64_def in64_def not_le)

lemma handleAppendEntries_match:
  assumes "rn_current_term n \<le> ae_term q" and "prev_matches q (rn_log n)"
    and "0 \<le> ae_prev_log_index q" and "length (rn_log n) < 2 ^ 63 - 1"
  shows "handleAppendEntries [] q n =
     Ret (\<lparr>aer_term = rn_current_term n, aer_success = True,
           aer_match_index = int (length (new_log q (rn_log n)))\<rparr>,
          (becomeFollower (ae_term q) (ae_leader_id q) n)
            \<lparr>rn_log := new_log q (rn_log n), rn_commit_index := new_commit q n\<rparr>)"
proof -
  have "ae_prev_log_index q \<le> int (length (rn_log n))"
    using assms(2,3) by (auto simp: prev_matches_def)
  then have "erase_append (ae_prev_log_index q) (ae_entries q) (rn_log n) =
      Ret (new_log q (rn_log n))"
    using assms(3,4) by (simp add: erase_append_eq new_log_def)
  then show ?thesis
    using assms(1,2)
    by (auto simp: handleAppendEntries_def lock_simps becomeFollower_def Let_def prev_matches_def
        new_commit_def)
qed

text \<open>The three outcomes in one equation, with the erasure still to be evaluated.\<close>

lemma handleAppendEntries_unfold:
  "handleAppendEntries [] q n =
     (if ae_term q < rn_current_term n
      then Ret (\<lparr>aer_term = rn_current_term n, aer_success = False, aer_match_index = 0\<rparr>, n)
      else if \<not> prev_matches q (rn_log n)
      then Ret (\<lparr>aer_term = rn_current_term n, aer_success = False, aer_match_index = 0\<rparr>,
                becomeFollower (ae_term q) (ae_leader_id q) n)
      else res_bind (erase_append (ae_prev_log_index q) (ae_entries q) (rn_log n)) (\<lambda>log.
        Ret (\<lparr>aer_term = rn_current_term n, aer_success = True, aer_match_index = int (length log)\<rparr>,
             (becomeFollower (ae_term q) (ae_leader_id q) n)\<lparr>rn_log := log, rn_commit_index :=
               (if ae_leader_commit q > rn_commit_index n
                then min (ae_leader_commit q) (int (length log)) else rn_commit_index n)\<rparr>)))"
proof (cases "ae_term q < rn_current_term n \<or> \<not> prev_matches q (rn_log n)")
  case True
  then show ?thesis using handleAppendEntries_stale handleAppendEntries_mismatch by force
next
  case False
  then show ?thesis
    unfolding handleAppendEntries_def Let_def with_lock_def becomeFollower_simps prev_guard
    by (cases "ae_leader_commit q > rn_commit_index n") (simp_all add: becomeFollower_def)
qed

lemma handleAppendEntries_cases:
  assumes "handleAppendEntries [] q n = Ret (resp, n')"
  obtains (stale) "ae_term q < rn_current_term n" and "n' = n" and "\<not> aer_success resp"
  | (mismatch) "rn_current_term n \<le> ae_term q" and "\<not> prev_matches q (rn_log n)"
      and "n' = becomeFollower (ae_term q) (ae_leader_id q) n" and "\<not> aer_success resp"
  | (accepted) log where "rn_current_term n \<le> ae_term q" and "prev_matches q (rn_log n)"
      and "erase_append (ae_prev_log_index q) (ae_entries q) (rn_log n) = Ret log"
      and "aer_success resp" and "aer_match_index resp = int (length log)"
      and "n' = (becomeFollower (ae_term q) (ae_leader_id q) n)\<lparr>rn_log := log, rn_commit_index :=
               (if ae_leader_commit q > rn_commit_index n
                then min (ae_leader_commit q) (int (length log)) else rn_commit_index n)\<rparr>"
proof (cases "ae_term q < rn_current_term n")
  case True
  show ?thesis by (rule stale [OF True]) (use assms handleAppendEntries_stale [OF True] in auto)
next
  case False
  show ?thesis
  proof (cases "prev_matches q (rn_log n)")
    case True
    have "res_bind (erase_append (ae_prev_log_index q) (ae_entries q) (rn_log n)) (\<lambda>log.
        Ret (\<lparr>aer_term = rn_current_term n, aer_success = True, aer_match_index = int (length log)\<rparr>,
             (becomeFollower (ae_term q) (ae_leader_id q) n)\<lparr>rn_log := log, rn_commit_index :=
               (if ae_leader_commit q > rn_commit_index n
                then min (ae_leader_commit q) (int (length log)) else rn_commit_index n)\<rparr>)) =
        Ret (resp, n')"
      using assms False True unfolding handleAppendEntries_unfold by (simp only: if_False not_True_eq_False)
    then obtain log where log: "erase_append (ae_prev_log_index q) (ae_entries q) (rn_log n) = Ret log"
      and r: "Ret (\<lparr>aer_term = rn_current_term n, aer_success = True, aer_match_index = int (length log)\<rparr>,
             (becomeFollower (ae_term q) (ae_leader_id q) n)\<lparr>rn_log := log, rn_commit_index :=
               (if ae_leader_commit q > rn_commit_index n
                then min (ae_leader_commit q) (int (length log)) else rn_commit_index n)\<rparr>) = Ret (resp, n')"
      unfolding res_bind_eq_Ret by blast
    from r have resp: "resp = \<lparr>aer_term = rn_current_term n, aer_success = True, aer_match_index = int (length log)\<rparr>"
      and n': "n' = (becomeFollower (ae_term q) (ae_leader_id q) n)\<lparr>rn_log := log, rn_commit_index :=
               (if ae_leader_commit q > rn_commit_index n
                then min (ae_leader_commit q) (int (length log)) else rn_commit_index n)\<rparr>"
      by (simp_all only: res.inject prod.inject)
    show ?thesis by (rule accepted [OF _ True log _ _ n']) (use False resp in simp_all)
  next
    case no: False
    have le: "rn_current_term n \<le> ae_term q" using \<open>\<not> ae_term q < rn_current_term n\<close> by simp
    show ?thesis
      by (rule mismatch [OF le no]) (use assms handleAppendEntries_mismatch [OF le no] in auto)
  qed
qed

lemma handleAppendEntries_Ret:
  assumes "handleAppendEntries [] q n = Ret (resp, n')"
  shows "rn_current_term n' = max (rn_current_term n) (ae_term q)"
    and "rn_commit_index n \<le> int (length (rn_log n')) \<Longrightarrow> rn_commit_index n \<le> rn_commit_index n'"
    and "rn_last_applied n' = rn_last_applied n" and "rn_state_machine n' = rn_state_machine n"
    and "aer_success resp \<longleftrightarrow> rn_current_term n \<le> ae_term q \<and> prev_matches q (rn_log n)"
  using assms by (cases rule: handleAppendEntries_cases; simp)+

section \<open>Applying entries\<close>

lemma applyCommittedEntries_eq:
  "0 \<le> rn_last_applied n \<Longrightarrow> applyCommittedEntries f n = Ret (n\<lparr>
     rn_state_machine := fold f (drop (nat (rn_last_applied n)) (take (nat (rn_commit_index n)) (rn_log n)))
       (rn_state_machine n),
     rn_last_applied := max (rn_last_applied n) (min (rn_commit_index n) (int (length (rn_log n))))\<rparr>)"
proof (induction f n rule: applyCommittedEntries.induct)
  case (1 f n)
  let ?la = "rn_last_applied n" and ?ci = "rn_commit_index n" and ?log = "rn_log n"
  show ?case
  proof (cases "?la < ?ci \<and> ?la + 1 \<le> int (length ?log)")
    case True
    let ?k = "nat ?la"
    let ?n = "n\<lparr>rn_state_machine := f (?log ! ?k) (rn_state_machine n), rn_last_applied := ?la + 1\<rparr>"
    have step: "applyCommittedEntries f n = applyCommittedEntries f ?n"
      using True "1.prems" by (simp add: applyCommittedEntries.simps [of f n] Let_def)
    have k: "?k < length ?log" "?k < nat ?ci" using True "1.prems" by auto
    then have split: "drop ?k (take (nat ?ci) ?log) = ?log ! ?k # drop (Suc ?k) (take (nat ?ci) ?log)"
      by (simp add: Cons_nth_drop_Suc [symmetric])
    have suc: "nat (?la + 1) = Suc ?k" using "1.prems" by (simp add: nat_add_distrib)
    have "applyCommittedEntries f ?n = Ret (?n\<lparr>
       rn_state_machine := fold f (drop (Suc ?k) (take (nat ?ci) ?log)) (f (?log ! ?k) (rn_state_machine n)),
       rn_last_applied := max (?la + 1) (min ?ci (int (length ?log)))\<rparr>)"
      using "1.IH" [of "?la + 1"] True "1.prems" by (simp add: suc)
    moreover have "max (?la + 1) (min ?ci (int (length ?log))) = max ?la (min ?ci (int (length ?log)))"
      using True by simp
    ultimately show ?thesis unfolding step split by simp
  next
    case False
    then have stop: "applyCommittedEntries f n = Ret n"
      by (auto simp: applyCommittedEntries.simps [of f n] Let_def)
    have "drop (nat ?la) (take (nat ?ci) ?log) = []" using False "1.prems" by auto
    moreover have "max ?la (min ?ci (int (length ?log))) = ?la" using False by auto
    ultimately show ?thesis unfolding stop by simp
  qed
qed

section \<open>Elections\<close>

text \<open>
  The election runs with \<open>state_mutex_\<close> held, so a reply of a higher term blocks it for good;
  otherwise the requests change nothing and count the votes.
\<close>

definition grants_vote ::
    "(RaftPeer \<Rightarrow> RequestVoteRequest \<Rightarrow> RequestVoteResponse option) \<Rightarrow> RequestVoteRequest \<Rightarrow> RaftPeer \<Rightarrow> bool" where
  "grants_vote net q p \<longleftrightarrow> (case net p q of Some r \<Rightarrow> rvr_vote_granted r | None \<Rightarrow> False)"

definition newer_term ::
    "(RaftPeer \<Rightarrow> RequestVoteRequest \<Rightarrow> RequestVoteResponse option) \<Rightarrow> RequestVoteRequest \<Rightarrow> int \<Rightarrow> RaftPeer \<Rightarrow> bool" where
  "newer_term net q t p \<longleftrightarrow> (case net p q of Some r \<Rightarrow> rvr_term r > t | None \<Rightarrow> False)"

lemma request_votes_eq:
  "StateMutex \<in> set held \<Longrightarrow> request_votes held net q ps v n =
     (if list_ex (newer_term net q (rn_current_term n)) ps then Deadlock
      else Ret (v + length (filter (grants_vote net q) ps), n))"
  by (induction ps arbitrary: v)
    (auto simp: sendRequestVote_def with_lock_def newer_term_def grants_vote_def split: option.splits)

text \<open>The vote request a node sends when its election timer fires.\<close>

definition ballot :: "'m RaftNode \<Rightarrow> RequestVoteRequest" where
  "ballot n = \<lparr>rv_term = wrap64 (rn_current_term n + 1), rv_candidate_id = rn_node_id n,
     rv_last_log_index = int (length (rn_log n)),
     rv_last_log_term = (if rn_log n = [] then 0 else le_term (last (rn_log n)))\<rparr>"

definition wins ::
    "(RaftPeer \<Rightarrow> RequestVoteRequest \<Rightarrow> RequestVoteResponse option) \<Rightarrow> 'm RaftNode \<Rightarrow> bool" where
  "wins net n \<longleftrightarrow> 1 + length (filter (grants_vote net (ballot n)) (rn_peers n)) \<ge> majority n"

definition elected :: "'m RaftNode \<Rightarrow> 'm RaftNode" where
  "elected n = n\<lparr>rn_role := LEADER, rn_current_term := wrap64 (rn_current_term n + 1),
     rn_voted_for := rn_node_id n, rn_leader_id := rn_node_id n,
     rn_next_index := map (\<lambda>_. int (length (rn_log n)) + 1) (rn_next_index n),
     rn_match_index := map (\<lambda>_. 0) (rn_match_index n)\<rparr>"

lemma startElection_eq:
  "startElection [StateMutex] net n =
    (if list_ex (newer_term net (ballot n) (wrap64 (rn_current_term n + 1))) (rn_peers n) then Deadlock
     else if wins net n then Ret (elected n)
     else Ret (becomeFollower (wrap64 (rn_current_term n + 1)) [] n))"
proof -
  let ?m = "n\<lparr>rn_role := CANDIDATE, rn_leader_id := [], rn_current_term := wrap64 (rn_current_term n + 1),
      rn_voted_for := rn_node_id n\<rparr>"
  have "startElection [StateMutex] net n =
      res_bind (request_votes [StateMutex] net (ballot n) (rn_peers n) 1 ?m) (\<lambda>(votes, m).
        if votes \<ge> majority m then becomeLeader [StateMutex] m
        else Ret (becomeFollower (rn_current_term m) [] m))"
    by (simp add: startElection_def becomeCandidate_def lock_simps ballot_def Let_def)
  then show ?thesis
    by (simp add: request_votes_eq wins_def majority_def becomeLeader_def lock_simps
        elected_def becomeFollower_def)
qed

lemma election_timeout_cases:
  assumes "election_timeout net n = Ret n'"
  obtains (idle) "n' = n" and "\<not> rn_running n \<or> rn_role n = LEADER"
  | (won) "rn_running n" and "rn_role n \<noteq> LEADER" and "wins net n" and "n' = elected n"
  | (lost) "rn_running n" and "rn_role n \<noteq> LEADER" and "\<not> wins net n"
      and "n' = becomeFollower (wrap64 (rn_current_term n + 1)) [] n"
proof (cases "rn_running n \<and> rn_role n \<noteq> LEADER")
  case True
  then have "startElection [StateMutex] net n = Ret n'"
    using assms by (simp add: election_timeout_def with_lock_def)
  then show ?thesis using True won lost
    by (auto simp: startElection_eq split: if_splits)
next
  case False
  then have "n' = n" using assms by (auto simp: election_timeout_def with_lock_def split: if_splits)
  then show ?thesis using False idle by blast
qed

section \<open>The commit search\<close>

text \<open>An index that a leader may commit: an entry of its term on a majority of the nodes.\<close>

definition committable :: "'m RaftNode \<Rightarrow> nat \<Rightarrow> bool" where
  "committable n i \<longleftrightarrow> 1 \<le> i \<and> i \<le> length (rn_log n) \<and>
     le_term (rn_log n ! (i - 1)) = rn_current_term n \<and> replicas n i \<ge> majority n"

lemma commit_search_spec:
  "0 \<le> rn_commit_index n \<Longrightarrow> k \<le> length (rn_log n) \<Longrightarrow>
   \<exists>c. commit_search n k = Ret c \<and> rn_commit_index n \<le> c \<and>
     (c = rn_commit_index n \<or> (\<exists>i \<le> k. c = int i \<and> committable n i)) \<and>
     (\<forall>i \<le> k. c < int i \<longrightarrow> \<not> committable n i)"
proof (induction k)
  case (Suc k)
  then obtain c where c: "commit_search n k = Ret c" "rn_commit_index n \<le> c"
      "c = rn_commit_index n \<or> (\<exists>i \<le> k. c = int i \<and> committable n i)"
      "\<forall>i \<le> k. c < int i \<longrightarrow> \<not> committable n i" by auto
  consider (below) "\<not> int (Suc k) > rn_commit_index n"
    | (hit) "int (Suc k) > rn_commit_index n" "committable n (Suc k)"
    | (miss) "int (Suc k) > rn_commit_index n" "\<not> committable n (Suc k)" by blast
  then show ?case
  proof cases
    case below
    then show ?thesis by auto
  next
    case hit
    then have "commit_search n (Suc k) = Ret (int (Suc k))" by (simp add: committable_def)
    then show ?thesis using hit by (intro exI [of _ "int (Suc k)"]) auto
  next
    case miss
    then have "commit_search n (Suc k) = commit_search n k"
      using Suc.prems(2) by (auto simp: committable_def)
    then show ?thesis using c miss by (intro exI [of _ c]) (auto simp: le_Suc_eq)
  qed
qed auto

lemma updateCommitIndex_spec:
  assumes "rn_role n = LEADER" and "0 \<le> rn_commit_index n"
  shows "\<exists>c. updateCommitIndex [StateMutex] n = Ret (n\<lparr>rn_commit_index := c\<rparr>) \<and> rn_commit_index n \<le> c \<and>
     (c = rn_commit_index n \<or> (\<exists>i. c = int i \<and> committable n i)) \<and>
     (\<forall>i. c < int i \<longrightarrow> \<not> committable n i)"
proof -
  obtain c where c: "commit_search n (length (rn_log n)) = Ret c" "rn_commit_index n \<le> c"
      "c = rn_commit_index n \<or> (\<exists>i \<le> length (rn_log n). c = int i \<and> committable n i)"
      "\<forall>i \<le> length (rn_log n). c < int i \<longrightarrow> \<not> committable n i"
    using commit_search_spec [OF assms(2) order_refl] by blast
  have "updateCommitIndex [StateMutex] n = Ret (n\<lparr>rn_commit_index := c\<rparr>)"
    using assms(1) c(1) by (simp add: updateCommitIndex_def with_lock_def)
  moreover have "\<forall>i. c < int i \<longrightarrow> \<not> committable n i" using c(4) by (auto simp: committable_def)
  ultimately show ?thesis using c(2,3) by blast
qed

section \<open>Heartbeat rounds\<close>

text \<open>
  The round holds both mutexes while it handles a reply, so every reply that would commit or
  depose the leader blocks it. What is left is to lower a \<open>next_index\<close>.
\<close>

lemma find_peer_Some: "p \<in> set ps \<Longrightarrow> \<exists>i < length ps. find_peer (peer_node_id p) ps = Some i"
  by (induction ps) auto

lemma sendAppendEntries_locked:
  assumes "StateMutex \<in> set held" and "LogMutex \<in> set held" and "rn_role n = LEADER"
    and "peer \<in> set (rn_peers n)" and "sendAppendEntries held reply peer n = Ret (ok, n')"
  shows "\<not> ok \<and> (case reply of None \<Rightarrow> True | Some r \<Rightarrow> aer_term r \<le> rn_current_term n \<and> \<not> aer_success r) \<and>
     (\<exists>ni. n' = n\<lparr>rn_next_index := ni\<rparr> \<and> length ni = length (rn_next_index n))"
proof (cases reply)
  case None
  then show ?thesis using assms(5)
    by (auto simp: sendAppendEntries_def intro!: exI [of _ "rn_next_index n"])
next
  case (Some r)
  obtain i where i: "find_peer (peer_node_id peer) (rn_peers n) = Some i"
    using find_peer_Some [OF assms(4)] by blast
  have le: "aer_term r \<le> rn_current_term n"
    using assms(1,5) Some by (auto simp: sendAppendEntries_def with_lock_def split: if_splits)
  have fail: "\<not> aer_success r"
    using assms le i Some by (auto simp: sendAppendEntries_def updateCommitIndex_def with_lock_def)
  have "\<exists>ni. n' = n\<lparr>rn_next_index := ni\<rparr> \<and> length ni = length (rn_next_index n)"
  proof (cases "rn_next_index n ! i > 1")
    case True
    then show ?thesis using assms(5) le fail i Some
      by (auto simp: sendAppendEntries_def
          intro!: exI [of _ "(rn_next_index n)[i := rn_next_index n ! i - 1]"])
  next
    case False
    then show ?thesis using assms(5) le fail i Some
      by (auto simp: sendAppendEntries_def intro!: exI [of _ "rn_next_index n"])
  qed
  then show ?thesis using assms(5) le fail i Some by (auto simp: sendAppendEntries_def)
qed

lemma heartbeat_peers_Ret:
  "heartbeat_peers [StateMutex] net ips n = Ret n' \<Longrightarrow> rn_role n = LEADER \<Longrightarrow>
   snd ` set ips \<subseteq> set (rn_peers n) \<Longrightarrow>
   \<exists>ni. n' = n\<lparr>rn_next_index := ni\<rparr> \<and> length ni = length (rn_next_index n)"
proof (induction ips arbitrary: n)
  case Nil
  then show ?case by (auto intro!: exI [of _ "rn_next_index n"])
next
  case (Cons ip ips)
  obtain i peer where ip: "ip = (i, peer)" by (cases ip)
  obtain req ok n1 where req: "append_request i n = Ret req"
    and send: "sendAppendEntries [LogMutex, StateMutex] (net peer req) peer n = Ret (ok, n1)"
    and rest: "heartbeat_peers [StateMutex] net ips n1 = Ret n'"
    using Cons.prems(1) by (auto simp: with_lock_def ip)
  obtain ni where ni: "n1 = n\<lparr>rn_next_index := ni\<rparr>" "length ni = length (rn_next_index n)"
    using sendAppendEntries_locked [OF _ _ Cons.prems(2) _ send] Cons.prems(3) ip by auto
  have "\<exists>nj. n' = n1\<lparr>rn_next_index := nj\<rparr> \<and> length nj = length (rn_next_index n1)"
    using Cons.IH [OF rest] ni(1) Cons.prems(2,3) by simp
  then show ?case using ni by auto
qed

lemma heartbeat_round_Ret:
  assumes "heartbeat_round net n = Ret n'"
  shows "\<exists>ni. n' = n\<lparr>rn_next_index := ni\<rparr> \<and> length ni = length (rn_next_index n)"
proof (cases "rn_running n \<and> rn_role n = LEADER")
  case True
  then have "heartbeat_peers [StateMutex] net (enumerate 0 (rn_peers n)) n = Ret n'"
    using assms by (simp add: heartbeat_round_def with_lock_def)
  moreover have "snd ` set (enumerate 0 (rn_peers n)) \<subseteq> set (rn_peers n)"
    by (auto simp: in_set_enumerate_eq)
  ultimately show ?thesis using heartbeat_peers_Ret True by blast
next
  case False
  then have "n' = n" using assms by (auto simp: heartbeat_round_def with_lock_def split: if_splits)
  then show ?thesis by (intro exI [of _ "rn_next_index n"]) simp
qed

text \<open>The first peer to report success stops the leader.\<close>

lemma heartbeat_success_blocks:
  assumes "rn_running n" and "rn_role n = LEADER" and "rn_peers n = peer # peers"
    and "1 \<le> rn_next_index n ! 0" and "in64 (rn_next_index n ! 0)"
    and "\<And>q. \<exists>r. net peer q = Some r \<and> (aer_term r > rn_current_term n \<or>
        aer_success r \<and> in64 (aer_match_index r + 1))"
  shows "heartbeat_round net n = Deadlock"
proof -
  have "in64 (rn_next_index n ! 0 - 1)" using assms(4,5) by (simp add: in64_def)
  then obtain q where q: "append_request 0 n = Ret q"
    using assms(4) by (simp add: append_request_def add64_def Let_def)
  obtain r where r: "net peer q = Some r"
    "aer_term r > rn_current_term n \<or> aer_success r \<and> in64 (aer_match_index r + 1)"
    using assms(6) by blast
  have "sendAppendEntries [LogMutex, StateMutex] (net peer q) peer n = Deadlock"
    using r assms(2,3)
    by (auto simp: sendAppendEntries_def with_lock_def updateCommitIndex_def add64_def)
  then show ?thesis
    using assms(1-3) q by (simp add: heartbeat_round_def with_lock_def)
qed

end
