(* ===== verification/Raft_System.thy ===== *)
theory Raft_System
  imports Raft_Safety
begin

text \<open>
  A running Raft node as a state machine: a step is a request from another node, a firing of
  the election timer, a heartbeat round, a pass of the applier thread, a proposal, or
  \<open>start\<close>/\<open>stop\<close>. Each locks what it needs for its whole body, so steps are atomic; a step that
  deadlocks or is undefined has no successor. The invariants hold in every reachable state,
  for all requests and all answers of the network.
\<close>

inductive local_step :: "(LogEntry \<Rightarrow> 'm \<Rightarrow> 'm) \<Rightarrow> 'm RaftNode \<Rightarrow> 'm RaftNode \<Rightarrow> bool" for f where
  vote: "handleRequestVote [] q n = Ret (resp, n') \<Longrightarrow> local_step f n n'"
| election: "election_timeout vnet n = Ret n' \<Longrightarrow> local_step f n n'"
| heartbeat: "heartbeat_round anet n = Ret n' \<Longrightarrow> local_step f n n'"
| applier: "applier_round f n = Ret n' \<Longrightarrow> local_step f n n'"
| propose: "proposeLogEntry operation data n = Ret (ok, n') \<Longrightarrow> local_step f n n'"
| start: "local_step f n (RaftNode_start n)"
| stop: "local_step f n (RaftNode_stop n)"

inductive raft_step :: "(LogEntry \<Rightarrow> 'm \<Rightarrow> 'm) \<Rightarrow> 'm RaftNode \<Rightarrow> 'm RaftNode \<Rightarrow> bool" for f where
  other: "local_step f n n' \<Longrightarrow> raft_step f n n'"
| append: "handleAppendEntries [] a n = Ret (resp, n') \<Longrightarrow> raft_step f n n'"

inductive raft_reachable :: "(LogEntry \<Rightarrow> 'm \<Rightarrow> 'm) \<Rightarrow> 'm RaftNode \<Rightarrow> 'm RaftNode \<Rightarrow> bool" for f n0 where
  init: "raft_reachable f n0 n0"
| step: "raft_reachable f n0 n \<Longrightarrow> raft_step f n n' \<Longrightarrow> raft_reachable f n0 n'"

section \<open>Proposals\<close>

lemma proposeLogEntry_eq:
  "proposeLogEntry operation data n =
     (if rn_role n = LEADER
      then Ret (True, n\<lparr>rn_log := rn_log n @ [\<lparr>le_term = rn_current_term n,
             le_index = int (length (rn_log n)) + 1, le_operation = operation, le_data = data\<rparr>]\<rparr>)
      else Ret (False, n))"
  by (simp add: proposeLogEntry_def lock_simps)

lemma applier_round_eq:
  "0 \<le> rn_last_applied n \<Longrightarrow> applier_round f n = (if rn_running n then Ret (n\<lparr>
     rn_state_machine := fold f (drop (nat (rn_last_applied n)) (take (nat (rn_commit_index n)) (rn_log n)))
       (rn_state_machine n),
     rn_last_applied := max (rn_last_applied n) (min (rn_commit_index n) (int (length (rn_log n))))\<rparr>)
   else Ret n)"
  by (simp add: applier_round_def with_lock_def applyCommittedEntries_eq)

section \<open>Invariants\<close>

text \<open>
  The indices are never negative, the leader's vectors have an entry per peer, and no peer is
  ever recorded as having replicated anything.
\<close>

definition raft_inv :: "'m RaftNode \<Rightarrow> bool" where
  "raft_inv n \<longleftrightarrow> 0 \<le> rn_commit_index n \<and> 0 \<le> rn_last_applied n \<and>
     length (rn_next_index n) = length (rn_peers n) \<and>
     rn_match_index n = replicate (length (rn_peers n)) 0"

lemma raft_inv_new: "raft_inv (RaftNode_new node_id host port peers machine)"
  by (simp add: raft_inv_def RaftNode_new_def)

lemma raft_inv_cong:
  "raft_inv n \<Longrightarrow> rn_commit_index n' \<ge> 0 \<Longrightarrow> rn_last_applied n' \<ge> 0 \<Longrightarrow>
   length (rn_next_index n') = length (rn_next_index n) \<Longrightarrow> rn_peers n' = rn_peers n \<Longrightarrow>
   rn_match_index n' = rn_match_index n \<Longrightarrow> raft_inv n'"
  by (simp add: raft_inv_def)

lemma raft_inv_follower: "raft_inv n \<Longrightarrow> raft_inv (becomeFollower t l n)"
  by (simp add: raft_inv_def becomeFollower_def)

lemma raft_inv_vote: "raft_inv n \<Longrightarrow> raft_inv (after_vote q n)"
  by (simp add: raft_inv_def after_vote_def becomeFollower_def Let_def)

lemma raft_inv_append:
  assumes "raft_inv n" and "handleAppendEntries [] a n = Ret (resp, n')"
  shows "raft_inv n'"
  using assms(2)
proof (cases rule: handleAppendEntries_cases)
  case stale
  then show ?thesis using assms(1) by simp
next
  case mismatch
  then show ?thesis using raft_inv_follower [OF assms(1)] by simp
next
  case (accepted log)
  show ?thesis unfolding accepted(6) using assms(1) by (simp add: raft_inv_def becomeFollower_def)
qed

lemma raft_inv_elected: "raft_inv n \<Longrightarrow> raft_inv (elected n)"
  by (simp add: raft_inv_def elected_def map_replicate_const)

lemma raft_inv_election:
  assumes "raft_inv n" and "election_timeout net n = Ret n'"
  shows "raft_inv n'"
  using assms(2) by (cases rule: election_timeout_cases)
    (simp_all add: assms(1) raft_inv_elected raft_inv_follower)

lemma raft_inv_heartbeat:
  assumes "raft_inv n" and "heartbeat_round net n = Ret n'"
  shows "raft_inv n'"
  using heartbeat_round_Ret [OF assms(2)] assms(1) by (auto simp: raft_inv_def)

lemma raft_inv_applier:
  assumes "raft_inv n" and "applier_round f n = Ret n'"
  shows "raft_inv n'"
  using assms by (auto simp: raft_inv_def applier_round_eq split: if_splits)

lemma raft_inv_local: "local_step f n n' \<Longrightarrow> raft_inv n \<Longrightarrow> raft_inv n'"
proof (induction rule: local_step.induct)
  case (vote q n resp n')
  then show ?case by (auto simp: handleRequestVote_eq raft_inv_vote)
next
  case (propose operation data n ok n')
  then show ?case by (auto simp: proposeLogEntry_eq raft_inv_def split: if_splits)
next
  case (start n)
  then show ?case by (simp add: RaftNode_start_def raft_inv_def)
next
  case (stop n)
  then show ?case by (simp add: RaftNode_stop_def raft_inv_def)
qed (blast intro: raft_inv_election raft_inv_heartbeat raft_inv_applier)+

lemma raft_inv_step: "raft_step f n n' \<Longrightarrow> raft_inv n \<Longrightarrow> raft_inv n'"
  by (induction rule: raft_step.induct) (auto intro: raft_inv_local raft_inv_append)

lemma raft_inv_reachable: "raft_reachable f n0 n \<Longrightarrow> raft_inv n0 \<Longrightarrow> raft_inv n"
  by (induction rule: raft_reachable.induct) (auto intro: raft_inv_step)

section \<open>Terms\<close>

lemma term_local:
  assumes "local_step f n n'" and "raft_inv n" and "in64 (rn_current_term n + 1)"
  shows "rn_current_term n \<le> rn_current_term n'"
  using assms
proof (induction rule: local_step.induct)
  case (vote q n resp n')
  then show ?case by (auto simp: handleRequestVote_eq after_vote_term)
next
  case (election vnet n n')
  from election(1) show ?case
    by (cases rule: election_timeout_cases) (use election(3) in \<open>simp_all add: elected_def\<close>)
next
  case (heartbeat anet n n')
  then show ?case using heartbeat_round_Ret by fastforce
next
  case (applier n n')
  then show ?case by (auto simp: raft_inv_def applier_round_eq split: if_splits)
next
  case (propose operation data n ok n')
  then show ?case by (auto simp: proposeLogEntry_eq split: if_splits)
qed (simp_all add: RaftNode_start_def RaftNode_stop_def)

lemma term_step:
  "raft_step f n n' \<Longrightarrow> raft_inv n \<Longrightarrow> in64 (rn_current_term n + 1) \<Longrightarrow>
   rn_current_term n \<le> rn_current_term n'"
  by (induction rule: raft_step.induct) (simp_all add: term_local handleAppendEntries_Ret(1))

section \<open>Committed entries\<close>

text \<open>
  A request whose new entries start behind the committed ones keeps them; no other step
  touches them.
\<close>

definition keeps_committed :: "'m RaftNode \<Rightarrow> 'm RaftNode \<Rightarrow> bool" where
  "keeps_committed n n' \<longleftrightarrow> rn_commit_index n \<le> rn_commit_index n' \<and>
     take (nat (rn_commit_index n)) (rn_log n') = take (nat (rn_commit_index n)) (rn_log n)"

lemma keeps_committed_append:
  assumes "handleAppendEntries [] a n = Ret (resp, n')" and "raft_inv n"
    and "rn_commit_index n \<le> int (length (rn_log n))"
    and "ae_entries a = [] \<or> rn_commit_index n \<le> ae_prev_log_index a"
  shows "keeps_committed n n' \<and> rn_commit_index n' \<le> int (length (rn_log n'))"
  using assms(1)
proof (cases rule: handleAppendEntries_cases)
  case stale
  then show ?thesis using assms(3) by (simp add: keeps_committed_def)
next
  case mismatch
  then show ?thesis using assms(3) by (simp add: keeps_committed_def)
next
  case (accepted log)
  let ?c = "nat (rn_commit_index n)"
  have c: "0 \<le> rn_commit_index n" "?c \<le> length (rn_log n)" using assms(2,3) by (auto simp: raft_inv_def)
  have "?c \<le> length log \<and> take ?c log = take ?c (rn_log n)"
  proof (cases "ae_entries a = []")
    case True
    then show ?thesis using accepted(3) c by (simp add: erase_append_def)
  next
    case False
    then have p: "rn_commit_index n \<le> ae_prev_log_index a" using assms(4) by simp
    have "log = take (nat (ae_prev_log_index a)) (rn_log n) @ ae_entries a"
    proof (cases "ae_prev_log_index a + 1 \<le> int (length (rn_log n))")
      case True
      then show ?thesis using accepted(3) False p c(1)
        by (auto simp: erase_append_def add64_def split: if_splits)
    next
      case False
      then show ?thesis using accepted(3) \<open>ae_entries a \<noteq> []\<close> p c(1)
        by (auto simp: erase_append_def add64_def split: if_splits)
    qed
    then show ?thesis using p c by auto
  qed
  then show ?thesis using accepted(6) c by (auto simp: keeps_committed_def)
qed

lemma keeps_committed_local:
  assumes "local_step f n n'" and "raft_inv n" and "rn_commit_index n \<le> int (length (rn_log n))"
  shows "keeps_committed n n' \<and> rn_commit_index n' \<le> int (length (rn_log n'))"
  using assms
proof (induction rule: local_step.induct)
  case (vote q n resp n')
  then show ?case by (auto simp: handleRequestVote_eq keeps_committed_def)
next
  case (election vnet n n')
  from election(1) show ?case
    by (cases rule: election_timeout_cases)
      (use election(3) in \<open>simp_all add: elected_def keeps_committed_def\<close>)
next
  case (heartbeat anet n n')
  then show ?case using heartbeat_round_Ret by (fastforce simp: keeps_committed_def)
next
  case (applier n n')
  then show ?case by (auto simp: raft_inv_def applier_round_eq keeps_committed_def split: if_splits)
next
  case (propose operation data n ok n')
  then show ?case
    by (auto simp: proposeLogEntry_eq keeps_committed_def raft_inv_def split: if_splits)
qed (simp_all add: RaftNode_start_def RaftNode_stop_def keeps_committed_def)

text \<open>A leader's own steps commit nothing.\<close>

lemma local_commit:
  assumes "local_step f n n'" and "raft_inv n"
  shows "rn_commit_index n' = rn_commit_index n"
  using assms
proof (induction rule: local_step.induct)
  case (vote q n resp n')
  then show ?case by (auto simp: handleRequestVote_eq)
next
  case (election vnet n n')
  from election(1) show ?case by (cases rule: election_timeout_cases) (simp_all add: elected_def)
next
  case (heartbeat anet n n')
  then show ?case using heartbeat_round_Ret by fastforce
next
  case (applier n n')
  then show ?case by (auto simp: raft_inv_def applier_round_eq split: if_splits)
next
  case (propose operation data n ok n')
  then show ?case by (auto simp: proposeLogEntry_eq split: if_splits)
qed (simp_all add: RaftNode_start_def RaftNode_stop_def)

section \<open>The state machine\<close>

text \<open>
  Runs in which no append request replaces committed entries: then the state machine is always
  the committed prefix up to \<open>last_applied\<close>, applied once and in order.
\<close>

inductive orderly_step :: "(LogEntry \<Rightarrow> 'm \<Rightarrow> 'm) \<Rightarrow> 'm RaftNode \<Rightarrow> 'm RaftNode \<Rightarrow> bool" for f where
  local: "local_step f n n' \<Longrightarrow> orderly_step f n n'"
| behind: "handleAppendEntries [] a n = Ret (resp, n') \<Longrightarrow>
    ae_entries a = [] \<or> rn_commit_index n \<le> ae_prev_log_index a \<Longrightarrow> orderly_step f n n'"

inductive orderly :: "(LogEntry \<Rightarrow> 'm \<Rightarrow> 'm) \<Rightarrow> 'm RaftNode \<Rightarrow> 'm RaftNode \<Rightarrow> bool" for f n0 where
  init: "orderly f n0 n0"
| step: "orderly f n0 n \<Longrightarrow> orderly_step f n n' \<Longrightarrow> orderly f n0 n'"

definition applied_inv :: "(LogEntry \<Rightarrow> 'm \<Rightarrow> 'm) \<Rightarrow> 'm \<Rightarrow> 'm RaftNode \<Rightarrow> bool" where
  "applied_inv f m0 n \<longleftrightarrow> raft_inv n \<and> rn_last_applied n \<le> rn_commit_index n \<and>
     rn_commit_index n \<le> int (length (rn_log n)) \<and>
     rn_state_machine n = fold f (take (nat (rn_last_applied n)) (rn_log n)) m0"

lemma take_prefix: "take b xs = take b ys \<Longrightarrow> a \<le> b \<Longrightarrow> take a xs = take a ys"
  by (metis min.absorb1 take_take)

lemma applied_kept:
  assumes "applied_inv f m0 n" and "keeps_committed n n'" and "raft_inv n'"
    and "rn_commit_index n' \<le> int (length (rn_log n'))"
    and "rn_last_applied n' = rn_last_applied n" and "rn_state_machine n' = rn_state_machine n"
  shows "applied_inv f m0 n'"
proof -
  have "take (nat (rn_last_applied n)) (rn_log n') = take (nat (rn_last_applied n)) (rn_log n)"
    by (rule take_prefix [of "nat (rn_commit_index n)"])
      (use assms(1,2) in \<open>auto simp: applied_inv_def keeps_committed_def\<close>)
  then show ?thesis using assms by (simp add: applied_inv_def keeps_committed_def)
qed

lemma applied_round:
  assumes "applied_inv f m0 n" and "applier_round f n = Ret n'"
  shows "applied_inv f m0 n'"
proof (cases "rn_running n")
  case True
  let ?la = "nat (rn_last_applied n)" and ?ci = "nat (rn_commit_index n)"
  have bounds: "0 \<le> rn_last_applied n" "rn_last_applied n \<le> rn_commit_index n"
      "rn_commit_index n \<le> int (length (rn_log n))"
    using assms(1) by (auto simp: applied_inv_def raft_inv_def)
  then have n': "n' = n\<lparr>rn_state_machine := fold f (drop ?la (take ?ci (rn_log n))) (rn_state_machine n),
      rn_last_applied := rn_commit_index n\<rparr>"
    using assms(2) True by (simp add: applier_round_eq)
  have "take ?ci (rn_log n) = take ?la (rn_log n) @ drop ?la (take ?ci (rn_log n))"
    using bounds by (metis append_take_drop_id min.absorb1 nat_mono take_take)
  then have "fold f (take ?ci (rn_log n)) m0 =
      fold f (drop ?la (take ?ci (rn_log n))) (fold f (take ?la (rn_log n)) m0)"
    by (metis comp_apply fold_append)
  then show ?thesis using assms(1) unfolding n' by (simp add: applied_inv_def raft_inv_def)
next
  case False
  then show ?thesis using assms by (simp add: applier_round_def with_lock_def)
qed

lemma applied_local: "local_step f n n' \<Longrightarrow> applied_inv f m0 n \<Longrightarrow> applied_inv f m0 n'"
proof -
  assume step: "local_step f n n'" and inv: "applied_inv f m0 n"
  then have raft: "raft_inv n" "rn_commit_index n \<le> int (length (rn_log n))"
    by (simp_all add: applied_inv_def)
  note keep = keeps_committed_local [OF step raft] raft_inv_local [OF step raft(1)]
  from step show ?thesis
  proof (cases rule: local_step.cases)
    case (vote q resp)
    then show ?thesis using keep by (auto intro!: applied_kept [OF inv] simp: handleRequestVote_eq)
  next
    case (election vnet)
    then have "rn_last_applied n' = rn_last_applied n \<and> rn_state_machine n' = rn_state_machine n"
      by (cases rule: election_timeout_cases) (simp_all add: elected_def)
    then show ?thesis using keep by (auto intro!: applied_kept [OF inv])
  next
    case (heartbeat anet)
    then obtain ni where "n' = n\<lparr>rn_next_index := ni\<rparr>" using heartbeat_round_Ret by blast
    then show ?thesis using keep by (intro applied_kept [OF inv]) simp_all
  next
    case applier
    then show ?thesis by (rule applied_round [OF inv])
  next
    case (propose operation data ok)
    then have "rn_last_applied n' = rn_last_applied n \<and> rn_state_machine n' = rn_state_machine n"
      by (auto simp: proposeLogEntry_eq split: if_splits)
    then show ?thesis using keep by (intro applied_kept [OF inv]) simp_all
  next
    case start
    then show ?thesis using keep by (intro applied_kept [OF inv]) (simp_all add: RaftNode_start_def)
  next
    case stop
    then show ?thesis using keep by (intro applied_kept [OF inv]) (simp_all add: RaftNode_stop_def)
  qed
qed

lemma applied_append:
  assumes "applied_inv f m0 n" and "handleAppendEntries [] a n = Ret (resp, n')"
    and "ae_entries a = [] \<or> rn_commit_index n \<le> ae_prev_log_index a"
  shows "applied_inv f m0 n'"
proof -
  have raft: "raft_inv n" "rn_commit_index n \<le> int (length (rn_log n))"
    using assms(1) by (simp_all add: applied_inv_def)
  show ?thesis
    using applied_kept [OF assms(1)] keeps_committed_append [OF assms(2) raft assms(3)]
      raft_inv_append [OF raft(1) assms(2)] handleAppendEntries_Ret(3,4) [OF assms(2)] by blast
qed

lemma applied_orderly: "orderly f n0 n \<Longrightarrow> applied_inv f m0 n0 \<Longrightarrow> applied_inv f m0 n"
proof (induction rule: orderly.induct)
  case (step n n')
  from step(2) show ?case
    by (cases rule: orderly_step.cases) (use step in \<open>auto intro: applied_local applied_append\<close>)
qed simp

lemma applied_new: "applied_inv f m0 (RaftNode_new node_id host port peers m0)"
  by (simp add: applied_inv_def raft_inv_new) (simp add: RaftNode_new_def)

end
