(* ===== verification/Pb_Runtime.thy ===== *)
theory Pb_Runtime
  imports Rpc_Prelude
begin

text \<open>
  The protobuf runtime the generated code of proto/*.pb.cc calls. The runtime is a library
  outside the repository, so it is the record \<open>pb_runtime\<close> of its entry points, an argument
  of every definition that uses it, and the locale \<open>pb_wire\<close> states what its documentation
  promises: a value that was written is read back, unknown fields are kept, sizes agree with
  what is written, and reading consumes input. The generated code itself is modelled in
  Pb_Rpc_Message and Pb_Service over the parse loop \<open>pb_loop\<close> defined here, which is the
  \<open>while (!ctx->Done(&ptr))\<close> loop that all generated parsers share, and common/serializer.cpp
  is modelled at the end of the first section.
\<close>

unbundle bit_operations_syntax

section \<open>The runtime and the parse loop of the generated code\<close>

text \<open>
  A read function gets the bytes from \<open>ptr\<close> to the limit and returns the value and the
  bytes after it; \<open>None\<close> is a null \<open>ptr\<close>. A write function returns the bytes it appends.
  \<open>rt_ParseUnknown\<close> returns the encoding under which the field is kept in the unknown
  field set, from which it is written out again.
\<close>

record pb_runtime =
  rt_ReadTag :: "bytes \<Rightarrow> (u32 \<times> bytes) option"
  rt_ReadVarint32 :: "bytes \<Rightarrow> (u32 \<times> bytes) option"
  rt_ReadVarint64 :: "bytes \<Rightarrow> (u64 \<times> bytes) option"
  rt_ReadString :: "bytes \<Rightarrow> (bytes \<times> bytes) option"
  rt_ReadMessage :: "bytes \<Rightarrow> (bytes \<times> bytes) option"
  rt_ExpectTag :: "nat \<Rightarrow> bytes \<Rightarrow> bool"
  rt_VerifyUTF8 :: "bytes \<Rightarrow> bool"
  rt_ParseUnknown :: "u32 \<Rightarrow> bytes \<Rightarrow> (bytes \<times> bytes) option"
  rt_WriteString :: "nat \<Rightarrow> bytes \<Rightarrow> bytes"
  rt_WriteBytes :: "nat \<Rightarrow> bytes \<Rightarrow> bytes"
  rt_WriteInt32 :: "nat \<Rightarrow> i32 \<Rightarrow> bytes"
  rt_WriteInt64 :: "nat \<Rightarrow> i64 \<Rightarrow> bytes"
  rt_WriteBool :: "nat \<Rightarrow> bool \<Rightarrow> bytes"
  rt_WriteMessage :: "nat \<Rightarrow> bytes \<Rightarrow> bytes"
  rt_StringSize :: "bytes \<Rightarrow> nat"
  rt_BytesSize :: "bytes \<Rightarrow> nat"
  rt_MessageSize :: "nat \<Rightarrow> nat"
  rt_Int32SizePlusOne :: "i32 \<Rightarrow> nat"
  rt_Int64SizePlusOne :: "i64 \<Rightarrow> nat"
  rt_SerializeOk :: "nat \<Rightarrow> bool"

text \<open>
  One pass of the \<open>switch\<close>: the field was read (\<open>continue\<close>), control went to
  \<open>handle_unusual\<close>, or a \<open>CHK_\<close> failed (\<open>goto failure\<close>).
\<close>

datatype 'm field_step = Handled 'm bytes | Unusual | Failed

definition get_string ::
  "pb_runtime \<Rightarrow> bool \<Rightarrow> bytes \<Rightarrow> (bytes \<Rightarrow> 'm) \<Rightarrow> 'm field_step" where
  "get_string rt utf8 p upd = (case rt_ReadString rt p of
       None \<Rightarrow> Failed
     | Some (s, q) \<Rightarrow> if utf8 \<longrightarrow> rt_VerifyUTF8 rt s then Handled (upd s) q else Failed)"

definition get_varint32 :: "pb_runtime \<Rightarrow> bytes \<Rightarrow> (u32 \<Rightarrow> 'm) \<Rightarrow> 'm field_step" where
  "get_varint32 rt p upd = (case rt_ReadVarint32 rt p of
       None \<Rightarrow> Failed | Some (v, q) \<Rightarrow> Handled (upd v) q)"

definition get_varint64 :: "pb_runtime \<Rightarrow> bytes \<Rightarrow> (u64 \<Rightarrow> 'm) \<Rightarrow> 'm field_step" where
  "get_varint64 rt p upd = (case rt_ReadVarint64 rt p of
       None \<Rightarrow> Failed | Some (v, q) \<Rightarrow> Handled (upd v) q)"

text \<open>
  The loop. \<open>PDone m q e\<close> is a return with a non-null pointer: \<open>e\<close> says that it returned at
  a zero or end-group tag (\<open>SetLastTag\<close>), not at the limit. \<open>PFuel\<close> is never returned
  with the fuel \<open>pb_parse\<close> gives (\<open>parse_not_PFuel\<close>).
\<close>

datatype 'm pb_outcome = PFail | PFuel | PDone 'm bytes bool

fun pb_loop :: "pb_runtime \<Rightarrow> (u32 \<Rightarrow> bytes \<Rightarrow> 'm \<Rightarrow> 'm field_step) \<Rightarrow>
    (bytes \<Rightarrow> 'm \<Rightarrow> 'm) \<Rightarrow> nat \<Rightarrow> bytes \<Rightarrow> 'm \<Rightarrow> 'm pb_outcome" where
  "pb_loop rt fld unk 0 p m = PFuel"
| "pb_loop rt fld unk (Suc n) p m =
     (if p = [] then PDone m [] False
      else case rt_ReadTag rt p of
        None \<Rightarrow> PFail
      | Some (tag, q) \<Rightarrow>
          (case fld tag q m of
             Handled m' r \<Rightarrow> pb_loop rt fld unk n r m'
           | Failed \<Rightarrow> PFail
           | Unusual \<Rightarrow>
               if tag = 0 \<or> tag AND 7 = 4 then PDone m q True
               else case rt_ParseUnknown rt tag q of
                 None \<Rightarrow> PFail
               | Some (u, r) \<Rightarrow> pb_loop rt fld unk n r (unk u m)))"

definition pb_parse :: "pb_runtime \<Rightarrow> (u32 \<Rightarrow> bytes \<Rightarrow> 'm \<Rightarrow> 'm field_step) \<Rightarrow>
    (bytes \<Rightarrow> 'm \<Rightarrow> 'm) \<Rightarrow> bytes \<Rightarrow> 'm \<Rightarrow> 'm pb_outcome" where
  "pb_parse rt fld unk p m = pb_loop rt fld unk (Suc (length p)) p m"

text \<open>
  \<open>ParseFromString\<close> clears the message, parses, and succeeds when the parser returned a
  pointer and ended at the limit.
\<close>

fun parse_result :: "'m pb_outcome \<Rightarrow> 'm option" where
  "parse_result (PDone m q False) = Some m"
| "parse_result _ = None"

text \<open>
  common/serializer.cpp: \<open>serialize\<close> returns the empty string when \<open>SerializeToString\<close>
  fails; \<open>deserialize\<close> returns whether \<open>ParseFromString\<close> succeeded.
\<close>

definition Serializer_serialize :: "pb_runtime \<Rightarrow> nat \<Rightarrow> bytes \<Rightarrow> bytes" where
  "Serializer_serialize rt n wire = (if rt_SerializeOk rt n then wire else [])"

definition Serializer_deserialize :: "(bytes \<Rightarrow> 'm pb_outcome) \<Rightarrow> bytes \<Rightarrow> 'm option" where
  "Serializer_deserialize parse data = parse_result (parse data)"

text \<open>
  Two parsers whose cases read the same fields into messages of the same shape have the same
  outcome on every input, whatever the runtime does.
\<close>

lemma pb_loop_map:
  assumes "\<And>t p m. fld' t p (g m) = map_field_step g (fld t p m)"
    and "\<And>u m. unk' u (g m) = g (unk u m)"
  shows "pb_loop rt fld' unk' n p (g m) = map_pb_outcome g (pb_loop rt fld unk n p m)"
proof (induction n arbitrary: p m)
  case (Suc n)
  then show ?case by (simp add: assms split: option.split field_step.split prod.split)
qed simp

lemma deserialize_map:
  assumes "\<And>t p m. fld' t p (g m) = map_field_step g (fld t p m)"
    and "\<And>u m. unk' u (g m) = g (unk u m)"
  shows "Serializer_deserialize (\<lambda>data. pb_parse rt fld' unk' data (g m)) data =
    map_option g (Serializer_deserialize (\<lambda>data. pb_parse rt fld unk data m) data)"
proof -
  have "parse_result (map_pb_outcome g x) = map_option g (parse_result x)" for x
    by (cases x rule: parse_result.cases) auto
  then show ?thesis
    using pb_loop_map [where fld' = fld' and fld = fld and unk' = unk' and unk = unk and g = g] assms
    by (simp add: Serializer_deserialize_def pb_parse_def del: pb_loop.simps)
qed

lemma map_get_string:
  "map_field_step g (get_string rt utf8 p f) = get_string rt utf8 p (\<lambda>s. g (f s))"
  by (simp add: get_string_def split: option.split)

lemma map_get_varint32: "map_field_step g (get_varint32 rt p f) = get_varint32 rt p (\<lambda>v. g (f v))"
  by (simp add: get_varint32_def split: option.split)

lemma map_get_varint64: "map_field_step g (get_varint64 rt p f) = get_varint64 rt p (\<lambda>v. g (f v))"
  by (simp add: get_varint64_def split: option.split)

lemmas map_get = map_get_string map_get_varint32 map_get_varint64

section \<open>What the runtime promises\<close>

definition consuming :: "(u32 \<Rightarrow> bytes \<Rightarrow> 'm \<Rightarrow> 'm field_step) \<Rightarrow> bool" where
  "consuming fld \<longleftrightarrow>
     (\<forall>t p m m' r. fld t p m = Handled m' r \<longrightarrow> length r \<le> length p)"

text \<open>Lengths below \<open>pb_limit\<close> are far from the runtime's limit of 2 GiB.\<close>

definition pb_limit :: nat where
  "pb_limit = 2 ^ 30"

definition field_tag :: "nat \<Rightarrow> nat \<Rightarrow> u32" where
  "field_tag k w = word_of_nat (8 * k + w)"

definition small_field :: "nat \<Rightarrow> bool" where
  "small_field k \<longleftrightarrow> 1 \<le> k \<and> k \<le> 15"

locale pb_wire =
  fixes rt :: pb_runtime
  assumes string_field: "small_field k \<Longrightarrow> length s < pb_limit \<Longrightarrow>
      \<exists>p. rt_ReadTag rt (rt_WriteString rt k s @ r) = Some (field_tag k 2, p) \<and>
          rt_ReadString rt p = Some (s, r) \<and>
          rt_ParseUnknown rt (field_tag k 2) p = Some (rt_WriteString rt k s, r)"
    and bytes_field: "small_field k \<Longrightarrow> length s < pb_limit \<Longrightarrow>
      \<exists>p. rt_ReadTag rt (rt_WriteBytes rt k s @ r) = Some (field_tag k 2, p) \<and>
          rt_ReadString rt p = Some (s, r) \<and>
          rt_ParseUnknown rt (field_tag k 2) p = Some (rt_WriteBytes rt k s, r)"
    and message_field: "small_field k \<Longrightarrow> length s < pb_limit \<Longrightarrow>
      \<exists>p. rt_ReadTag rt (rt_WriteMessage rt k s @ r) = Some (field_tag k 2, p) \<and>
          rt_WriteMessage rt k s @ r = char_of (8 * k + 2) # p \<and>
          rt_ReadMessage rt p = Some (s, r) \<and>
          rt_ParseUnknown rt (field_tag k 2) p = Some (rt_WriteMessage rt k s, r)"
    and int32_field: "small_field k \<Longrightarrow>
      \<exists>p. rt_ReadTag rt (rt_WriteInt32 rt k v @ r) = Some (field_tag k 0, p) \<and>
          rt_ReadVarint32 rt p = Some (v, r) \<and>
          rt_ParseUnknown rt (field_tag k 0) p = Some (rt_WriteInt32 rt k v, r)"
    and int64_field: "small_field k \<Longrightarrow>
      \<exists>p. rt_ReadTag rt (rt_WriteInt64 rt k x @ r) = Some (field_tag k 0, p) \<and>
          rt_ReadVarint64 rt p = Some (x, r) \<and>
          rt_ParseUnknown rt (field_tag k 0) p = Some (rt_WriteInt64 rt k x, r)"
    and bool_field: "small_field k \<Longrightarrow>
      \<exists>p. rt_ReadTag rt (rt_WriteBool rt k b @ r) = Some (field_tag k 0, p) \<and>
          rt_ReadVarint64 rt p = Some (if b then 1 else 0, r) \<and>
          rt_ParseUnknown rt (field_tag k 0) p = Some (rt_WriteBool rt k b, r)"
    and expect_tag: "c < 128 \<Longrightarrow>
      rt_ExpectTag rt c p \<longleftrightarrow> p \<noteq> [] \<and> hd p = char_of c"
    and string_size: "small_field k \<Longrightarrow> length s < pb_limit \<Longrightarrow>
      length (rt_WriteString rt k s) = 1 + rt_StringSize rt s"
    and bytes_size: "small_field k \<Longrightarrow> length s < pb_limit \<Longrightarrow>
      length (rt_WriteBytes rt k s) = 1 + rt_BytesSize rt s"
    and message_size: "small_field k \<Longrightarrow> length s < pb_limit \<Longrightarrow>
      length (rt_WriteMessage rt k s) = 1 + rt_MessageSize rt (length s)"
    and int32_size: "small_field k \<Longrightarrow>
      length (rt_WriteInt32 rt k v) = rt_Int32SizePlusOne rt v"
    and int64_size: "small_field k \<Longrightarrow>
      length (rt_WriteInt64 rt k x) = rt_Int64SizePlusOne rt x"
    and bool_size: "small_field k \<Longrightarrow> length (rt_WriteBool rt k b) = 2"
    and read_tag_consumes: "rt_ReadTag rt p = Some (t, q) \<Longrightarrow> length q < length p"
    and read_varint32_consumes: "rt_ReadVarint32 rt p = Some (v, q) \<Longrightarrow> length q < length p"
    and read_varint64_consumes: "rt_ReadVarint64 rt p = Some (x, q) \<Longrightarrow> length q < length p"
    and read_string_consumes: "rt_ReadString rt p = Some (s, q) \<Longrightarrow> length q < length p"
    and read_message_consumes: "rt_ReadMessage rt p = Some (s, q) \<Longrightarrow> length q < length p"
    and unknown_consumes: "rt_ParseUnknown rt t p = Some (s, q) \<Longrightarrow> length q \<le> length p"
    and ascii_is_utf8: "list_all (\<lambda>ch. of_char ch < (128 :: nat)) s \<Longrightarrow> rt_VerifyUTF8 rt s"
    and serialize_ok: "n < pb_limit \<Longrightarrow> rt_SerializeOk rt n"
begin

lemmas get_defs = get_string_def get_varint32_def get_varint64_def

lemma get_string_consumes: "get_string rt u p upd = Handled m r \<Longrightarrow> length r \<le> length p"
  by (auto simp: get_string_def split: option.splits if_splits dest!: read_string_consumes)

lemma get_varint32_consumes: "get_varint32 rt p f = Handled m r \<Longrightarrow> length r \<le> length p"
  by (auto simp: get_varint32_def split: option.splits dest!: read_varint32_consumes)

lemma get_varint64_consumes: "get_varint64 rt p f = Handled m r \<Longrightarrow> length r \<le> length p"
  by (auto simp: get_varint64_def split: option.splits dest!: read_varint64_consumes)

lemmas get_consumes = get_string_consumes get_varint32_consumes get_varint64_consumes

text \<open>The loop is never out of fuel, and more fuel changes nothing.\<close>

lemma loop_not_PFuel:
  "consuming fld \<Longrightarrow> length p < n \<Longrightarrow> pb_loop rt fld unk n p m \<noteq> PFuel"
proof (induction n arbitrary: p m)
  case (Suc n)
  show ?case
  proof (cases "rt_ReadTag rt p")
    case (Some tq)
    obtain t q where tq: "tq = (t, q)" by (cases tq)
    with Some have q: "length q < length p" by (simp add: read_tag_consumes)
    have "length r < n" if "fld t q m = Handled m' r" for m' r
      using that q Suc.prems by (auto simp: consuming_def dest!: spec)
    moreover have "length r < n" if "rt_ParseUnknown rt t q = Some (u, r)" for u r
      using unknown_consumes [OF that] q Suc.prems by simp
    ultimately show ?thesis
      using Suc Some tq by (auto split: field_step.splits option.splits)
  qed auto
qed simp

lemma loop_fuel:
  "consuming fld \<Longrightarrow> length p < n \<Longrightarrow> length p < n' \<Longrightarrow>
   pb_loop rt fld unk n p m = pb_loop rt fld unk n' p m"
proof (induction n arbitrary: n' p m)
  case (Suc n)
  obtain l where l: "n' = Suc l" using Suc.prems by (cases n') auto
  show ?case
  proof (cases "rt_ReadTag rt p")
    case (Some tq)
    obtain t q where tq: "tq = (t, q)" by (cases tq)
    with Some have q: "length q < length p" by (simp add: read_tag_consumes)
    have "length r < n \<and> length r < l" if "fld t q m = Handled m' r" for m' r
      using that q Suc.prems l by (auto simp: consuming_def dest!: spec)
    moreover have "length r < n \<and> length r < l" if "rt_ParseUnknown rt t q = Some (u, r)" for u r
      using unknown_consumes [OF that] q Suc.prems l by simp
    ultimately show ?thesis
      using Suc.IH [OF Suc.prems(1)] Some tq
      by (auto simp: l split: field_step.splits option.splits)
  qed (auto simp: l)
qed simp

lemma parse_not_PFuel: "consuming fld \<Longrightarrow> pb_parse rt fld unk p m \<noteq> PFuel"
  by (simp add: pb_parse_def loop_not_PFuel del: pb_loop.simps)

lemma parse_Nil [simp]: "pb_parse rt fld unk [] m = PDone m [] False"
  by (simp add: pb_parse_def)

lemma parse_step:
  assumes "consuming fld" and "rt_ReadTag rt p = Some (t, q)" and "fld t q m = Handled m' r"
  shows "pb_parse rt fld unk p m = pb_parse rt fld unk r m'"
proof -
  have "p \<noteq> []" and "length q < length p" using read_tag_consumes [OF assms(2)] by auto
  moreover have "length r \<le> length q" using assms(1,3) by (auto simp: consuming_def)
  ultimately show ?thesis
    using assms loop_fuel [OF assms(1), of r "length p" "Suc (length r)"]
    by (simp add: pb_parse_def del: pb_loop.simps(2)) (simp add: pb_loop.simps(2))
qed

lemma parse_skip:
  assumes "consuming fld" and "rt_ReadTag rt p = Some (t, q)" and "fld t q m = Unusual"
    and "t \<noteq> 0" and "t AND 7 \<noteq> 4" and "rt_ParseUnknown rt t q = Some (u, r)"
  shows "pb_parse rt fld unk p m = pb_parse rt fld unk r (unk u m)"
proof -
  have "p \<noteq> []" and "length q < length p" using read_tag_consumes [OF assms(2)] by auto
  moreover have "length r \<le> length q" using unknown_consumes [OF assms(6)] .
  ultimately show ?thesis
    using assms loop_fuel [OF assms(1), of r "length p" "Suc (length r)"]
    by (simp add: pb_parse_def del: pb_loop.simps(2)) (simp add: pb_loop.simps(2))
qed

text \<open>A written field is read by its case of the \<open>switch\<close>, or skipped if it has none.\<close>

lemma parse_read:
  assumes "consuming fld" and "\<exists>p. rt_ReadTag rt w = Some (t, p) \<and> rd p = Some (v, r) \<and> Q p"
    and "\<And>p. rd p = Some (v, r) \<Longrightarrow> fld t p m = Handled m' r"
  shows "pb_parse rt fld unk w m = pb_parse rt fld unk r m'"
  using assms(2,3) parse_step [OF assms(1)] by blast

lemma parse_string:
  assumes "consuming fld" and "small_field k" and "length s < pb_limit"
    and "\<And>p. fld (field_tag k 2) p m = get_string rt u p f" and "u \<longrightarrow> rt_VerifyUTF8 rt s"
  shows "pb_parse rt fld unk (rt_WriteString rt k s @ r) m = pb_parse rt fld unk r (f s)"
  by (rule parse_read [OF assms(1) string_field [OF assms(2,3)]])
    (simp add: assms(4,5) get_string_def)

lemma parse_bytes:
  assumes "consuming fld" and "small_field k" and "length s < pb_limit"
    and "\<And>p. fld (field_tag k 2) p m = get_string rt False p f"
  shows "pb_parse rt fld unk (rt_WriteBytes rt k s @ r) m = pb_parse rt fld unk r (f s)"
  by (rule parse_read [OF assms(1) bytes_field [OF assms(2,3)]])
    (simp add: assms(4) get_string_def)

lemma parse_int32:
  assumes "consuming fld" and "small_field k"
    and "\<And>p. fld (field_tag k 0) p m = get_varint32 rt p f"
  shows "pb_parse rt fld unk (rt_WriteInt32 rt k v @ r) m = pb_parse rt fld unk r (f v)"
  by (rule parse_read [OF assms(1) int32_field [OF assms(2)]])
    (simp add: assms(3) get_varint32_def)

lemma parse_int64:
  assumes "consuming fld" and "small_field k"
    and "\<And>p. fld (field_tag k 0) p m = get_varint64 rt p f"
  shows "pb_parse rt fld unk (rt_WriteInt64 rt k v @ r) m = pb_parse rt fld unk r (f v)"
  by (rule parse_read [OF assms(1) int64_field [OF assms(2)]])
    (simp add: assms(3) get_varint64_def)

lemma parse_bool:
  assumes "consuming fld" and "small_field k"
    and "\<And>p. fld (field_tag k 0) p m = get_varint64 rt p f"
  shows "pb_parse rt fld unk (rt_WriteBool rt k b @ r) m =
    pb_parse rt fld unk r (f (if b then 1 else 0))"
  by (rule parse_read [OF assms(1) bool_field [OF assms(2)]])
    (simp add: assms(3) get_varint64_def)

lemma known_tag:
  assumes "small_field k" and "w = 0 \<or> w = 2"
  shows "field_tag k w \<noteq> 0 \<and> field_tag k w AND 7 \<noteq> 4"
proof -
  have "k = 1 \<or> k = 2 \<or> k = 3 \<or> k = 4 \<or> k = 5 \<or> k = 6 \<or> k = 7 \<or> k = 8 \<or> k = 9 \<or> k = 10 \<or>
      k = 11 \<or> k = 12 \<or> k = 13 \<or> k = 14 \<or> k = 15"
    using assms(1) unfolding small_field_def by arith
  then show ?thesis using assms(2) by (elim disjE) (simp_all add: field_tag_def)
qed

lemma skip_read:
  assumes "consuming fld" and "small_field k" and "w = 0 \<or> w = 2"
    and "\<exists>p. rt_ReadTag rt x = Some (field_tag k w, p) \<and> Q p \<and>
        rt_ParseUnknown rt (field_tag k w) p = Some (e, r)"
    and "\<And>p. fld (field_tag k w) p m = Unusual"
  shows "pb_parse rt fld unk x m = pb_parse rt fld unk r (unk e m)"
  using assms parse_skip [OF assms(1)] known_tag [OF assms(2,3)] by blast

lemma skip_string:
  assumes "consuming fld" and "small_field k" and "length s < pb_limit"
    and "\<And>p. fld (field_tag k 2) p m = Unusual"
  shows "pb_parse rt fld unk (rt_WriteString rt k s @ r) m =
    pb_parse rt fld unk r (unk (rt_WriteString rt k s) m)"
  by (rule skip_read [OF assms(1,2) _ string_field [OF assms(2,3)]]) (simp_all add: assms(4))

lemma skip_int32:
  assumes "consuming fld" and "small_field k"
    and "\<And>p. fld (field_tag k 0) p m = Unusual"
  shows "pb_parse rt fld unk (rt_WriteInt32 rt k v @ r) m =
    pb_parse rt fld unk r (unk (rt_WriteInt32 rt k v) m)"
  by (rule skip_read [OF assms(1,2) _ int32_field [OF assms(2)]]) (simp_all add: assms(3))

end

end
