(* ===== verification/Pb_Rpc_Message.thy ===== *)
theory Pb_Rpc_Message
  imports Pb_Runtime
begin

text \<open>
  The generated code of proto/rpc_message.pb.cc: the nine messages of the RPC and registry
  protocol. For each message \<open>M\<close> the record \<open>M\<close> holds its fields and its unknown fields,
  \<open>M_field\<close> is the \<open>switch\<close> of \<open>_InternalParse\<close>, \<open>M_InternalParse\<close> the parser,
  \<open>M_InternalSerialize\<close>, \<open>M_ByteSizeLong\<close>, \<open>M_Clear\<close>, \<open>M_MergeFrom\<close> and \<open>M_CopyFrom\<close>
  the functions of that name, and \<open>M_serialize\<close> and \<open>M_deserialize\<close> are
  \<open>Serializer::serialize\<close> and \<open>Serializer::deserialize\<close> at that message. \<open>M_ok\<close> says that
  the strings are valid UTF-8 of less than \<open>pb_limit\<close> bytes, that there are no unknown
  fields and that the whole message is below the limit.

  The lemmas: the parser reads back what the serializer wrote, the size computed in advance is
  the size written, a copy equals its source.
\<close>

definition tag_byte :: "u32 \<Rightarrow> u8" where
  "tag_byte tag = ucast tag"

lemmas tag_simps = tag_byte_def field_tag_def small_field_def

section \<open>RpcRequest\<close>

record RpcRequest =
  rq_service_name :: bytes
  rq_method_name :: bytes
  rq_request_data :: bytes
  rq_request_id :: bytes
  rq_unknown :: bytes

definition RpcRequest_default :: RpcRequest where
  "RpcRequest_default = \<lparr>rq_service_name = [], rq_method_name = [], rq_request_data = [], rq_request_id = [], rq_unknown = []\<rparr>"

definition RpcRequest_Clear :: "RpcRequest \<Rightarrow> RpcRequest" where
  "RpcRequest_Clear m = m\<lparr>rq_service_name := [], rq_method_name := [], rq_request_data := [], rq_request_id := [], rq_unknown := []\<rparr>"

definition RpcRequest_field ::
    "pb_runtime \<Rightarrow> u32 \<Rightarrow> bytes \<Rightarrow> RpcRequest \<Rightarrow> RpcRequest field_step" where
  "RpcRequest_field rt tag p m =
     (if drop_bit 3 tag = 1 then
        (if tag_byte tag = 10 then get_string rt True p (\<lambda>s. m\<lparr>rq_service_name := s\<rparr>)
         else Unusual)
      else if drop_bit 3 tag = 2 then
        (if tag_byte tag = 18 then get_string rt True p (\<lambda>s. m\<lparr>rq_method_name := s\<rparr>)
         else Unusual)
      else if drop_bit 3 tag = 3 then
        (if tag_byte tag = 26 then get_string rt False p (\<lambda>s. m\<lparr>rq_request_data := s\<rparr>)
         else Unusual)
      else if drop_bit 3 tag = 4 then
        (if tag_byte tag = 34 then get_string rt True p (\<lambda>s. m\<lparr>rq_request_id := s\<rparr>)
         else Unusual)
      else Unusual)"

definition RpcRequest_InternalParse :: "pb_runtime \<Rightarrow> bytes \<Rightarrow> RpcRequest \<Rightarrow> RpcRequest pb_outcome" where
  "RpcRequest_InternalParse rt p m =
     pb_parse rt (RpcRequest_field rt) (\<lambda>u m. m\<lparr>rq_unknown := rq_unknown m @ u\<rparr>) p m"

definition RpcRequest_InternalSerialize :: "pb_runtime \<Rightarrow> RpcRequest \<Rightarrow> bytes" where
  "RpcRequest_InternalSerialize rt m =
     (if rq_service_name m \<noteq> [] then rt_WriteString rt 1 (rq_service_name m) else []) @
     (if rq_method_name m \<noteq> [] then rt_WriteString rt 2 (rq_method_name m) else []) @
     (if rq_request_data m \<noteq> [] then rt_WriteBytes rt 3 (rq_request_data m) else []) @
     (if rq_request_id m \<noteq> [] then rt_WriteString rt 4 (rq_request_id m) else []) @
     rq_unknown m"

definition RpcRequest_ByteSizeLong :: "pb_runtime \<Rightarrow> RpcRequest \<Rightarrow> nat" where
  "RpcRequest_ByteSizeLong rt m =
     (if rq_service_name m \<noteq> [] then 1 + rt_StringSize rt (rq_service_name m) else 0) +
     (if rq_method_name m \<noteq> [] then 1 + rt_StringSize rt (rq_method_name m) else 0) +
     (if rq_request_data m \<noteq> [] then 1 + rt_BytesSize rt (rq_request_data m) else 0) +
     (if rq_request_id m \<noteq> [] then 1 + rt_StringSize rt (rq_request_id m) else 0) +
     length (rq_unknown m)"

definition RpcRequest_MergeFrom :: "RpcRequest \<Rightarrow> RpcRequest \<Rightarrow> RpcRequest" where
  "RpcRequest_MergeFrom dst src = dst\<lparr>
     rq_service_name := (if rq_service_name src \<noteq> [] then rq_service_name src else rq_service_name dst),
     rq_method_name := (if rq_method_name src \<noteq> [] then rq_method_name src else rq_method_name dst),
     rq_request_data := (if rq_request_data src \<noteq> [] then rq_request_data src else rq_request_data dst),
     rq_request_id := (if rq_request_id src \<noteq> [] then rq_request_id src else rq_request_id dst),
     rq_unknown := rq_unknown dst @ rq_unknown src\<rparr>"

definition RpcRequest_CopyFrom :: "RpcRequest \<Rightarrow> RpcRequest \<Rightarrow> RpcRequest" where
  "RpcRequest_CopyFrom dst src = RpcRequest_MergeFrom (RpcRequest_Clear dst) src"

definition RpcRequest_serialize :: "pb_runtime \<Rightarrow> RpcRequest \<Rightarrow> bytes" where
  "RpcRequest_serialize rt m =
     Serializer_serialize rt (RpcRequest_ByteSizeLong rt m) (RpcRequest_InternalSerialize rt m)"

definition RpcRequest_deserialize :: "pb_runtime \<Rightarrow> bytes \<Rightarrow> RpcRequest option" where
  "RpcRequest_deserialize rt =
     Serializer_deserialize (\<lambda>data. RpcRequest_InternalParse rt data (RpcRequest_Clear RpcRequest_default))"

definition RpcRequest_ok :: "pb_runtime \<Rightarrow> RpcRequest \<Rightarrow> bool" where
  "RpcRequest_ok rt m \<longleftrightarrow> rq_unknown m = [] \<and>
     RpcRequest_ByteSizeLong rt m < pb_limit \<and>
     length (rq_service_name m) < pb_limit \<and>
     rt_VerifyUTF8 rt (rq_service_name m) \<and>
     length (rq_method_name m) < pb_limit \<and>
     rt_VerifyUTF8 rt (rq_method_name m) \<and>
     length (rq_request_data m) < pb_limit \<and>
     length (rq_request_id m) < pb_limit \<and>
     rt_VerifyUTF8 rt (rq_request_id m)"

lemma RpcRequest_copy: "RpcRequest_CopyFrom dst src = src"
  by (cases src; cases dst) (simp add: RpcRequest_CopyFrom_def RpcRequest_MergeFrom_def RpcRequest_Clear_def)

lemma RpcRequest_Clear_default: "RpcRequest_Clear RpcRequest_default = RpcRequest_default"
  by (simp add: RpcRequest_Clear_def RpcRequest_default_def)

context pb_wire
begin

lemma RpcRequest_consuming [simp]: "consuming (RpcRequest_field rt)"
  by (auto simp: consuming_def RpcRequest_field_def split: if_splits dest: get_consumes)

lemma RpcRequest_read_service_name: "length v < pb_limit \<Longrightarrow> rt_VerifyUTF8 rt v \<Longrightarrow>
    pb_parse rt (RpcRequest_field rt) k (rt_WriteString rt 1 v @ r) m =
    pb_parse rt (RpcRequest_field rt) k r (m\<lparr>rq_service_name := v\<rparr>)"
  by (rule parse_string [where u = True, OF RpcRequest_consuming]) (simp_all add: RpcRequest_field_def tag_simps)

lemma RpcRequest_read_method_name: "length v < pb_limit \<Longrightarrow> rt_VerifyUTF8 rt v \<Longrightarrow>
    pb_parse rt (RpcRequest_field rt) k (rt_WriteString rt 2 v @ r) m =
    pb_parse rt (RpcRequest_field rt) k r (m\<lparr>rq_method_name := v\<rparr>)"
  by (rule parse_string [where u = True, OF RpcRequest_consuming]) (simp_all add: RpcRequest_field_def tag_simps)

lemma RpcRequest_read_request_data: "length v < pb_limit \<Longrightarrow>
    pb_parse rt (RpcRequest_field rt) k (rt_WriteBytes rt 3 v @ r) m =
    pb_parse rt (RpcRequest_field rt) k r (m\<lparr>rq_request_data := v\<rparr>)"
  by (rule parse_bytes [OF RpcRequest_consuming]) (simp_all add: RpcRequest_field_def tag_simps)

lemma RpcRequest_read_request_id: "length v < pb_limit \<Longrightarrow> rt_VerifyUTF8 rt v \<Longrightarrow>
    pb_parse rt (RpcRequest_field rt) k (rt_WriteString rt 4 v @ r) m =
    pb_parse rt (RpcRequest_field rt) k r (m\<lparr>rq_request_id := v\<rparr>)"
  by (rule parse_string [where u = True, OF RpcRequest_consuming]) (simp_all add: RpcRequest_field_def tag_simps)

lemmas RpcRequest_reads = RpcRequest_read_service_name RpcRequest_read_method_name RpcRequest_read_request_data RpcRequest_read_request_id

lemmas RpcRequest_read_last = RpcRequest_reads [where r = "[]", unfolded append_Nil2 parse_Nil]

lemma RpcRequest_parse: "RpcRequest_ok rt m \<Longrightarrow>
    RpcRequest_InternalParse rt (RpcRequest_InternalSerialize rt m) RpcRequest_default = PDone m [] False"
  by (cases m) (auto simp: RpcRequest_ok_def RpcRequest_InternalParse_def RpcRequest_InternalSerialize_def
      RpcRequest_default_def RpcRequest_reads RpcRequest_read_last simp del: One_nat_def)

lemma RpcRequest_size: "RpcRequest_ok rt m \<Longrightarrow> length (RpcRequest_InternalSerialize rt m) = RpcRequest_ByteSizeLong rt m"
  by (simp add: RpcRequest_ok_def RpcRequest_InternalSerialize_def RpcRequest_ByteSizeLong_def tag_simps
      string_size bytes_size int32_size int64_size bool_size)

lemma RpcRequest_roundtrip: "RpcRequest_ok rt m \<Longrightarrow> RpcRequest_deserialize rt (RpcRequest_serialize rt m) = Some m"
  using RpcRequest_parse [of m] RpcRequest_Clear_default serialize_ok [of "RpcRequest_ByteSizeLong rt m"]
  by (simp add: RpcRequest_ok_def RpcRequest_serialize_def RpcRequest_deserialize_def
      Serializer_serialize_def Serializer_deserialize_def)

end

section \<open>RpcResponse\<close>

record RpcResponse =
  rs_request_id :: bytes
  rs_error_code :: i32
  rs_error_msg :: bytes
  rs_response_data :: bytes
  rs_unknown :: bytes

definition RpcResponse_default :: RpcResponse where
  "RpcResponse_default = \<lparr>rs_request_id = [], rs_error_code = 0, rs_error_msg = [], rs_response_data = [], rs_unknown = []\<rparr>"

definition RpcResponse_Clear :: "RpcResponse \<Rightarrow> RpcResponse" where
  "RpcResponse_Clear m = m\<lparr>rs_request_id := [], rs_error_msg := [], rs_response_data := [], rs_error_code := 0, rs_unknown := []\<rparr>"

definition RpcResponse_field ::
    "pb_runtime \<Rightarrow> u32 \<Rightarrow> bytes \<Rightarrow> RpcResponse \<Rightarrow> RpcResponse field_step" where
  "RpcResponse_field rt tag p m =
     (if drop_bit 3 tag = 1 then
        (if tag_byte tag = 10 then get_string rt True p (\<lambda>s. m\<lparr>rs_request_id := s\<rparr>)
         else Unusual)
      else if drop_bit 3 tag = 2 then
        (if tag_byte tag = 16 then get_varint32 rt p (\<lambda>v. m\<lparr>rs_error_code := v\<rparr>)
         else Unusual)
      else if drop_bit 3 tag = 3 then
        (if tag_byte tag = 26 then get_string rt True p (\<lambda>s. m\<lparr>rs_error_msg := s\<rparr>)
         else Unusual)
      else if drop_bit 3 tag = 4 then
        (if tag_byte tag = 34 then get_string rt False p (\<lambda>s. m\<lparr>rs_response_data := s\<rparr>)
         else Unusual)
      else Unusual)"

definition RpcResponse_InternalParse :: "pb_runtime \<Rightarrow> bytes \<Rightarrow> RpcResponse \<Rightarrow> RpcResponse pb_outcome" where
  "RpcResponse_InternalParse rt p m =
     pb_parse rt (RpcResponse_field rt) (\<lambda>u m. m\<lparr>rs_unknown := rs_unknown m @ u\<rparr>) p m"

definition RpcResponse_InternalSerialize :: "pb_runtime \<Rightarrow> RpcResponse \<Rightarrow> bytes" where
  "RpcResponse_InternalSerialize rt m =
     (if rs_request_id m \<noteq> [] then rt_WriteString rt 1 (rs_request_id m) else []) @
     (if rs_error_code m \<noteq> 0 then rt_WriteInt32 rt 2 (rs_error_code m) else []) @
     (if rs_error_msg m \<noteq> [] then rt_WriteString rt 3 (rs_error_msg m) else []) @
     (if rs_response_data m \<noteq> [] then rt_WriteBytes rt 4 (rs_response_data m) else []) @
     rs_unknown m"

definition RpcResponse_ByteSizeLong :: "pb_runtime \<Rightarrow> RpcResponse \<Rightarrow> nat" where
  "RpcResponse_ByteSizeLong rt m =
     (if rs_request_id m \<noteq> [] then 1 + rt_StringSize rt (rs_request_id m) else 0) +
     (if rs_error_msg m \<noteq> [] then 1 + rt_StringSize rt (rs_error_msg m) else 0) +
     (if rs_response_data m \<noteq> [] then 1 + rt_BytesSize rt (rs_response_data m) else 0) +
     (if rs_error_code m \<noteq> 0 then rt_Int32SizePlusOne rt (rs_error_code m) else 0) +
     length (rs_unknown m)"

definition RpcResponse_MergeFrom :: "RpcResponse \<Rightarrow> RpcResponse \<Rightarrow> RpcResponse" where
  "RpcResponse_MergeFrom dst src = dst\<lparr>
     rs_request_id := (if rs_request_id src \<noteq> [] then rs_request_id src else rs_request_id dst),
     rs_error_msg := (if rs_error_msg src \<noteq> [] then rs_error_msg src else rs_error_msg dst),
     rs_response_data := (if rs_response_data src \<noteq> [] then rs_response_data src else rs_response_data dst),
     rs_error_code := (if rs_error_code src \<noteq> 0 then rs_error_code src else rs_error_code dst),
     rs_unknown := rs_unknown dst @ rs_unknown src\<rparr>"

definition RpcResponse_CopyFrom :: "RpcResponse \<Rightarrow> RpcResponse \<Rightarrow> RpcResponse" where
  "RpcResponse_CopyFrom dst src = RpcResponse_MergeFrom (RpcResponse_Clear dst) src"

definition RpcResponse_serialize :: "pb_runtime \<Rightarrow> RpcResponse \<Rightarrow> bytes" where
  "RpcResponse_serialize rt m =
     Serializer_serialize rt (RpcResponse_ByteSizeLong rt m) (RpcResponse_InternalSerialize rt m)"

definition RpcResponse_deserialize :: "pb_runtime \<Rightarrow> bytes \<Rightarrow> RpcResponse option" where
  "RpcResponse_deserialize rt =
     Serializer_deserialize (\<lambda>data. RpcResponse_InternalParse rt data (RpcResponse_Clear RpcResponse_default))"

definition RpcResponse_ok :: "pb_runtime \<Rightarrow> RpcResponse \<Rightarrow> bool" where
  "RpcResponse_ok rt m \<longleftrightarrow> rs_unknown m = [] \<and>
     RpcResponse_ByteSizeLong rt m < pb_limit \<and>
     length (rs_request_id m) < pb_limit \<and>
     rt_VerifyUTF8 rt (rs_request_id m) \<and>
     length (rs_error_msg m) < pb_limit \<and>
     rt_VerifyUTF8 rt (rs_error_msg m) \<and>
     length (rs_response_data m) < pb_limit"

lemma RpcResponse_copy: "RpcResponse_CopyFrom dst src = src"
  by (cases src; cases dst) (simp add: RpcResponse_CopyFrom_def RpcResponse_MergeFrom_def RpcResponse_Clear_def)

lemma RpcResponse_Clear_default: "RpcResponse_Clear RpcResponse_default = RpcResponse_default"
  by (simp add: RpcResponse_Clear_def RpcResponse_default_def)

context pb_wire
begin

lemma RpcResponse_consuming [simp]: "consuming (RpcResponse_field rt)"
  by (auto simp: consuming_def RpcResponse_field_def split: if_splits dest: get_consumes)

lemma RpcResponse_read_request_id: "length v < pb_limit \<Longrightarrow> rt_VerifyUTF8 rt v \<Longrightarrow>
    pb_parse rt (RpcResponse_field rt) k (rt_WriteString rt 1 v @ r) m =
    pb_parse rt (RpcResponse_field rt) k r (m\<lparr>rs_request_id := v\<rparr>)"
  by (rule parse_string [where u = True, OF RpcResponse_consuming]) (simp_all add: RpcResponse_field_def tag_simps)

lemma RpcResponse_read_error_code: "pb_parse rt (RpcResponse_field rt) k (rt_WriteInt32 rt 2 v @ r) m =
    pb_parse rt (RpcResponse_field rt) k r (m\<lparr>rs_error_code := v\<rparr>)"
  by (rule parse_int32 [OF RpcResponse_consuming]) (simp_all add: RpcResponse_field_def tag_simps)

lemma RpcResponse_read_error_msg: "length v < pb_limit \<Longrightarrow> rt_VerifyUTF8 rt v \<Longrightarrow>
    pb_parse rt (RpcResponse_field rt) k (rt_WriteString rt 3 v @ r) m =
    pb_parse rt (RpcResponse_field rt) k r (m\<lparr>rs_error_msg := v\<rparr>)"
  by (rule parse_string [where u = True, OF RpcResponse_consuming]) (simp_all add: RpcResponse_field_def tag_simps)

lemma RpcResponse_read_response_data: "length v < pb_limit \<Longrightarrow>
    pb_parse rt (RpcResponse_field rt) k (rt_WriteBytes rt 4 v @ r) m =
    pb_parse rt (RpcResponse_field rt) k r (m\<lparr>rs_response_data := v\<rparr>)"
  by (rule parse_bytes [OF RpcResponse_consuming]) (simp_all add: RpcResponse_field_def tag_simps)

lemmas RpcResponse_reads = RpcResponse_read_request_id RpcResponse_read_error_code RpcResponse_read_error_msg RpcResponse_read_response_data

lemmas RpcResponse_read_last = RpcResponse_reads [where r = "[]", unfolded append_Nil2 parse_Nil]

lemma RpcResponse_parse: "RpcResponse_ok rt m \<Longrightarrow>
    RpcResponse_InternalParse rt (RpcResponse_InternalSerialize rt m) RpcResponse_default = PDone m [] False"
  by (cases m) (auto simp: RpcResponse_ok_def RpcResponse_InternalParse_def RpcResponse_InternalSerialize_def
      RpcResponse_default_def RpcResponse_reads RpcResponse_read_last simp del: One_nat_def)

lemma RpcResponse_size: "RpcResponse_ok rt m \<Longrightarrow> length (RpcResponse_InternalSerialize rt m) = RpcResponse_ByteSizeLong rt m"
  by (simp add: RpcResponse_ok_def RpcResponse_InternalSerialize_def RpcResponse_ByteSizeLong_def tag_simps
      string_size bytes_size int32_size int64_size bool_size)

lemma RpcResponse_roundtrip: "RpcResponse_ok rt m \<Longrightarrow> RpcResponse_deserialize rt (RpcResponse_serialize rt m) = Some m"
  using RpcResponse_parse [of m] RpcResponse_Clear_default serialize_ok [of "RpcResponse_ByteSizeLong rt m"]
  by (simp add: RpcResponse_ok_def RpcResponse_serialize_def RpcResponse_deserialize_def
      Serializer_serialize_def Serializer_deserialize_def)

end

section \<open>ServiceRegisterRequest\<close>

record ServiceRegisterRequest =
  srq_service_name :: bytes
  srq_host :: bytes
  srq_port :: i32
  srq_unknown :: bytes

definition ServiceRegisterRequest_default :: ServiceRegisterRequest where
  "ServiceRegisterRequest_default = \<lparr>srq_service_name = [], srq_host = [], srq_port = 0, srq_unknown = []\<rparr>"

definition ServiceRegisterRequest_Clear :: "ServiceRegisterRequest \<Rightarrow> ServiceRegisterRequest" where
  "ServiceRegisterRequest_Clear m = m\<lparr>srq_service_name := [], srq_host := [], srq_port := 0, srq_unknown := []\<rparr>"

definition ServiceRegisterRequest_field ::
    "pb_runtime \<Rightarrow> u32 \<Rightarrow> bytes \<Rightarrow> ServiceRegisterRequest \<Rightarrow> ServiceRegisterRequest field_step" where
  "ServiceRegisterRequest_field rt tag p m =
     (if drop_bit 3 tag = 1 then
        (if tag_byte tag = 10 then get_string rt True p (\<lambda>s. m\<lparr>srq_service_name := s\<rparr>)
         else Unusual)
      else if drop_bit 3 tag = 2 then
        (if tag_byte tag = 18 then get_string rt True p (\<lambda>s. m\<lparr>srq_host := s\<rparr>)
         else Unusual)
      else if drop_bit 3 tag = 3 then
        (if tag_byte tag = 24 then get_varint32 rt p (\<lambda>v. m\<lparr>srq_port := v\<rparr>)
         else Unusual)
      else Unusual)"

definition ServiceRegisterRequest_InternalParse :: "pb_runtime \<Rightarrow> bytes \<Rightarrow> ServiceRegisterRequest \<Rightarrow> ServiceRegisterRequest pb_outcome" where
  "ServiceRegisterRequest_InternalParse rt p m =
     pb_parse rt (ServiceRegisterRequest_field rt) (\<lambda>u m. m\<lparr>srq_unknown := srq_unknown m @ u\<rparr>) p m"

definition ServiceRegisterRequest_InternalSerialize :: "pb_runtime \<Rightarrow> ServiceRegisterRequest \<Rightarrow> bytes" where
  "ServiceRegisterRequest_InternalSerialize rt m =
     (if srq_service_name m \<noteq> [] then rt_WriteString rt 1 (srq_service_name m) else []) @
     (if srq_host m \<noteq> [] then rt_WriteString rt 2 (srq_host m) else []) @
     (if srq_port m \<noteq> 0 then rt_WriteInt32 rt 3 (srq_port m) else []) @
     srq_unknown m"

definition ServiceRegisterRequest_ByteSizeLong :: "pb_runtime \<Rightarrow> ServiceRegisterRequest \<Rightarrow> nat" where
  "ServiceRegisterRequest_ByteSizeLong rt m =
     (if srq_service_name m \<noteq> [] then 1 + rt_StringSize rt (srq_service_name m) else 0) +
     (if srq_host m \<noteq> [] then 1 + rt_StringSize rt (srq_host m) else 0) +
     (if srq_port m \<noteq> 0 then rt_Int32SizePlusOne rt (srq_port m) else 0) +
     length (srq_unknown m)"

definition ServiceRegisterRequest_MergeFrom :: "ServiceRegisterRequest \<Rightarrow> ServiceRegisterRequest \<Rightarrow> ServiceRegisterRequest" where
  "ServiceRegisterRequest_MergeFrom dst src = dst\<lparr>
     srq_service_name := (if srq_service_name src \<noteq> [] then srq_service_name src else srq_service_name dst),
     srq_host := (if srq_host src \<noteq> [] then srq_host src else srq_host dst),
     srq_port := (if srq_port src \<noteq> 0 then srq_port src else srq_port dst),
     srq_unknown := srq_unknown dst @ srq_unknown src\<rparr>"

definition ServiceRegisterRequest_CopyFrom :: "ServiceRegisterRequest \<Rightarrow> ServiceRegisterRequest \<Rightarrow> ServiceRegisterRequest" where
  "ServiceRegisterRequest_CopyFrom dst src = ServiceRegisterRequest_MergeFrom (ServiceRegisterRequest_Clear dst) src"

definition ServiceRegisterRequest_serialize :: "pb_runtime \<Rightarrow> ServiceRegisterRequest \<Rightarrow> bytes" where
  "ServiceRegisterRequest_serialize rt m =
     Serializer_serialize rt (ServiceRegisterRequest_ByteSizeLong rt m) (ServiceRegisterRequest_InternalSerialize rt m)"

definition ServiceRegisterRequest_deserialize :: "pb_runtime \<Rightarrow> bytes \<Rightarrow> ServiceRegisterRequest option" where
  "ServiceRegisterRequest_deserialize rt =
     Serializer_deserialize (\<lambda>data. ServiceRegisterRequest_InternalParse rt data (ServiceRegisterRequest_Clear ServiceRegisterRequest_default))"

definition ServiceRegisterRequest_ok :: "pb_runtime \<Rightarrow> ServiceRegisterRequest \<Rightarrow> bool" where
  "ServiceRegisterRequest_ok rt m \<longleftrightarrow> srq_unknown m = [] \<and>
     ServiceRegisterRequest_ByteSizeLong rt m < pb_limit \<and>
     length (srq_service_name m) < pb_limit \<and>
     rt_VerifyUTF8 rt (srq_service_name m) \<and>
     length (srq_host m) < pb_limit \<and>
     rt_VerifyUTF8 rt (srq_host m)"

lemma ServiceRegisterRequest_copy: "ServiceRegisterRequest_CopyFrom dst src = src"
  by (cases src; cases dst) (simp add: ServiceRegisterRequest_CopyFrom_def ServiceRegisterRequest_MergeFrom_def ServiceRegisterRequest_Clear_def)

lemma ServiceRegisterRequest_Clear_default: "ServiceRegisterRequest_Clear ServiceRegisterRequest_default = ServiceRegisterRequest_default"
  by (simp add: ServiceRegisterRequest_Clear_def ServiceRegisterRequest_default_def)

context pb_wire
begin

lemma ServiceRegisterRequest_consuming [simp]: "consuming (ServiceRegisterRequest_field rt)"
  by (auto simp: consuming_def ServiceRegisterRequest_field_def split: if_splits dest: get_consumes)

lemma ServiceRegisterRequest_read_service_name: "length v < pb_limit \<Longrightarrow> rt_VerifyUTF8 rt v \<Longrightarrow>
    pb_parse rt (ServiceRegisterRequest_field rt) k (rt_WriteString rt 1 v @ r) m =
    pb_parse rt (ServiceRegisterRequest_field rt) k r (m\<lparr>srq_service_name := v\<rparr>)"
  by (rule parse_string [where u = True, OF ServiceRegisterRequest_consuming]) (simp_all add: ServiceRegisterRequest_field_def tag_simps)

lemma ServiceRegisterRequest_read_host: "length v < pb_limit \<Longrightarrow> rt_VerifyUTF8 rt v \<Longrightarrow>
    pb_parse rt (ServiceRegisterRequest_field rt) k (rt_WriteString rt 2 v @ r) m =
    pb_parse rt (ServiceRegisterRequest_field rt) k r (m\<lparr>srq_host := v\<rparr>)"
  by (rule parse_string [where u = True, OF ServiceRegisterRequest_consuming]) (simp_all add: ServiceRegisterRequest_field_def tag_simps)

lemma ServiceRegisterRequest_read_port: "pb_parse rt (ServiceRegisterRequest_field rt) k (rt_WriteInt32 rt 3 v @ r) m =
    pb_parse rt (ServiceRegisterRequest_field rt) k r (m\<lparr>srq_port := v\<rparr>)"
  by (rule parse_int32 [OF ServiceRegisterRequest_consuming]) (simp_all add: ServiceRegisterRequest_field_def tag_simps)

lemmas ServiceRegisterRequest_reads = ServiceRegisterRequest_read_service_name ServiceRegisterRequest_read_host ServiceRegisterRequest_read_port

lemmas ServiceRegisterRequest_read_last = ServiceRegisterRequest_reads [where r = "[]", unfolded append_Nil2 parse_Nil]

lemma ServiceRegisterRequest_parse: "ServiceRegisterRequest_ok rt m \<Longrightarrow>
    ServiceRegisterRequest_InternalParse rt (ServiceRegisterRequest_InternalSerialize rt m) ServiceRegisterRequest_default = PDone m [] False"
  by (cases m) (auto simp: ServiceRegisterRequest_ok_def ServiceRegisterRequest_InternalParse_def ServiceRegisterRequest_InternalSerialize_def
      ServiceRegisterRequest_default_def ServiceRegisterRequest_reads ServiceRegisterRequest_read_last simp del: One_nat_def)

lemma ServiceRegisterRequest_size: "ServiceRegisterRequest_ok rt m \<Longrightarrow> length (ServiceRegisterRequest_InternalSerialize rt m) = ServiceRegisterRequest_ByteSizeLong rt m"
  by (simp add: ServiceRegisterRequest_ok_def ServiceRegisterRequest_InternalSerialize_def ServiceRegisterRequest_ByteSizeLong_def tag_simps
      string_size bytes_size int32_size int64_size bool_size)

lemma ServiceRegisterRequest_roundtrip: "ServiceRegisterRequest_ok rt m \<Longrightarrow> ServiceRegisterRequest_deserialize rt (ServiceRegisterRequest_serialize rt m) = Some m"
  using ServiceRegisterRequest_parse [of m] ServiceRegisterRequest_Clear_default serialize_ok [of "ServiceRegisterRequest_ByteSizeLong rt m"]
  by (simp add: ServiceRegisterRequest_ok_def ServiceRegisterRequest_serialize_def ServiceRegisterRequest_deserialize_def
      Serializer_serialize_def Serializer_deserialize_def)

end

section \<open>ServiceRegisterResponse\<close>

record ServiceRegisterResponse =
  srs_success :: bool
  srs_message :: bytes
  srs_unknown :: bytes

definition ServiceRegisterResponse_default :: ServiceRegisterResponse where
  "ServiceRegisterResponse_default = \<lparr>srs_success = False, srs_message = [], srs_unknown = []\<rparr>"

definition ServiceRegisterResponse_Clear :: "ServiceRegisterResponse \<Rightarrow> ServiceRegisterResponse" where
  "ServiceRegisterResponse_Clear m = m\<lparr>srs_message := [], srs_success := False, srs_unknown := []\<rparr>"

definition ServiceRegisterResponse_field ::
    "pb_runtime \<Rightarrow> u32 \<Rightarrow> bytes \<Rightarrow> ServiceRegisterResponse \<Rightarrow> ServiceRegisterResponse field_step" where
  "ServiceRegisterResponse_field rt tag p m =
     (if drop_bit 3 tag = 1 then
        (if tag_byte tag = 8 then get_varint64 rt p (\<lambda>v. m\<lparr>srs_success := v \<noteq> 0\<rparr>)
         else Unusual)
      else if drop_bit 3 tag = 2 then
        (if tag_byte tag = 18 then get_string rt True p (\<lambda>s. m\<lparr>srs_message := s\<rparr>)
         else Unusual)
      else Unusual)"

definition ServiceRegisterResponse_InternalParse :: "pb_runtime \<Rightarrow> bytes \<Rightarrow> ServiceRegisterResponse \<Rightarrow> ServiceRegisterResponse pb_outcome" where
  "ServiceRegisterResponse_InternalParse rt p m =
     pb_parse rt (ServiceRegisterResponse_field rt) (\<lambda>u m. m\<lparr>srs_unknown := srs_unknown m @ u\<rparr>) p m"

definition ServiceRegisterResponse_InternalSerialize :: "pb_runtime \<Rightarrow> ServiceRegisterResponse \<Rightarrow> bytes" where
  "ServiceRegisterResponse_InternalSerialize rt m =
     (if srs_success m then rt_WriteBool rt 1 (srs_success m) else []) @
     (if srs_message m \<noteq> [] then rt_WriteString rt 2 (srs_message m) else []) @
     srs_unknown m"

definition ServiceRegisterResponse_ByteSizeLong :: "pb_runtime \<Rightarrow> ServiceRegisterResponse \<Rightarrow> nat" where
  "ServiceRegisterResponse_ByteSizeLong rt m =
     (if srs_message m \<noteq> [] then 1 + rt_StringSize rt (srs_message m) else 0) +
     (if srs_success m then 1 + 1 else 0) +
     length (srs_unknown m)"

definition ServiceRegisterResponse_MergeFrom :: "ServiceRegisterResponse \<Rightarrow> ServiceRegisterResponse \<Rightarrow> ServiceRegisterResponse" where
  "ServiceRegisterResponse_MergeFrom dst src = dst\<lparr>
     srs_message := (if srs_message src \<noteq> [] then srs_message src else srs_message dst),
     srs_success := (if srs_success src  then srs_success src else srs_success dst),
     srs_unknown := srs_unknown dst @ srs_unknown src\<rparr>"

definition ServiceRegisterResponse_CopyFrom :: "ServiceRegisterResponse \<Rightarrow> ServiceRegisterResponse \<Rightarrow> ServiceRegisterResponse" where
  "ServiceRegisterResponse_CopyFrom dst src = ServiceRegisterResponse_MergeFrom (ServiceRegisterResponse_Clear dst) src"

definition ServiceRegisterResponse_serialize :: "pb_runtime \<Rightarrow> ServiceRegisterResponse \<Rightarrow> bytes" where
  "ServiceRegisterResponse_serialize rt m =
     Serializer_serialize rt (ServiceRegisterResponse_ByteSizeLong rt m) (ServiceRegisterResponse_InternalSerialize rt m)"

definition ServiceRegisterResponse_deserialize :: "pb_runtime \<Rightarrow> bytes \<Rightarrow> ServiceRegisterResponse option" where
  "ServiceRegisterResponse_deserialize rt =
     Serializer_deserialize (\<lambda>data. ServiceRegisterResponse_InternalParse rt data (ServiceRegisterResponse_Clear ServiceRegisterResponse_default))"

definition ServiceRegisterResponse_ok :: "pb_runtime \<Rightarrow> ServiceRegisterResponse \<Rightarrow> bool" where
  "ServiceRegisterResponse_ok rt m \<longleftrightarrow> srs_unknown m = [] \<and>
     ServiceRegisterResponse_ByteSizeLong rt m < pb_limit \<and>
     length (srs_message m) < pb_limit \<and>
     rt_VerifyUTF8 rt (srs_message m)"

lemma ServiceRegisterResponse_copy: "ServiceRegisterResponse_CopyFrom dst src = src"
  by (cases src; cases dst) (simp add: ServiceRegisterResponse_CopyFrom_def ServiceRegisterResponse_MergeFrom_def ServiceRegisterResponse_Clear_def)

lemma ServiceRegisterResponse_Clear_default: "ServiceRegisterResponse_Clear ServiceRegisterResponse_default = ServiceRegisterResponse_default"
  by (simp add: ServiceRegisterResponse_Clear_def ServiceRegisterResponse_default_def)

context pb_wire
begin

lemma ServiceRegisterResponse_consuming [simp]: "consuming (ServiceRegisterResponse_field rt)"
  by (auto simp: consuming_def ServiceRegisterResponse_field_def split: if_splits dest: get_consumes)

lemma ServiceRegisterResponse_read_success: "pb_parse rt (ServiceRegisterResponse_field rt) k (rt_WriteBool rt 1 v @ r) m =
    pb_parse rt (ServiceRegisterResponse_field rt) k r (m\<lparr>srs_success := v\<rparr>)"
  using parse_bool [OF ServiceRegisterResponse_consuming, of 1 m "\<lambda>v. m\<lparr>srs_success := v \<noteq> 0\<rparr>"]
  by (simp add: ServiceRegisterResponse_field_def tag_simps)

lemma ServiceRegisterResponse_read_message: "length v < pb_limit \<Longrightarrow> rt_VerifyUTF8 rt v \<Longrightarrow>
    pb_parse rt (ServiceRegisterResponse_field rt) k (rt_WriteString rt 2 v @ r) m =
    pb_parse rt (ServiceRegisterResponse_field rt) k r (m\<lparr>srs_message := v\<rparr>)"
  by (rule parse_string [where u = True, OF ServiceRegisterResponse_consuming]) (simp_all add: ServiceRegisterResponse_field_def tag_simps)

lemmas ServiceRegisterResponse_reads = ServiceRegisterResponse_read_success ServiceRegisterResponse_read_message

lemmas ServiceRegisterResponse_read_last = ServiceRegisterResponse_reads [where r = "[]", unfolded append_Nil2 parse_Nil]

lemma ServiceRegisterResponse_parse: "ServiceRegisterResponse_ok rt m \<Longrightarrow>
    ServiceRegisterResponse_InternalParse rt (ServiceRegisterResponse_InternalSerialize rt m) ServiceRegisterResponse_default = PDone m [] False"
  by (cases m) (auto simp: ServiceRegisterResponse_ok_def ServiceRegisterResponse_InternalParse_def ServiceRegisterResponse_InternalSerialize_def
      ServiceRegisterResponse_default_def ServiceRegisterResponse_reads ServiceRegisterResponse_read_last simp del: One_nat_def)

lemma ServiceRegisterResponse_size: "ServiceRegisterResponse_ok rt m \<Longrightarrow> length (ServiceRegisterResponse_InternalSerialize rt m) = ServiceRegisterResponse_ByteSizeLong rt m"
  by (simp add: ServiceRegisterResponse_ok_def ServiceRegisterResponse_InternalSerialize_def ServiceRegisterResponse_ByteSizeLong_def tag_simps
      string_size bytes_size int32_size int64_size bool_size)

lemma ServiceRegisterResponse_roundtrip: "ServiceRegisterResponse_ok rt m \<Longrightarrow> ServiceRegisterResponse_deserialize rt (ServiceRegisterResponse_serialize rt m) = Some m"
  using ServiceRegisterResponse_parse [of m] ServiceRegisterResponse_Clear_default serialize_ok [of "ServiceRegisterResponse_ByteSizeLong rt m"]
  by (simp add: ServiceRegisterResponse_ok_def ServiceRegisterResponse_serialize_def ServiceRegisterResponse_deserialize_def
      Serializer_serialize_def Serializer_deserialize_def)

end

section \<open>ServiceDiscoveryRequest\<close>

record ServiceDiscoveryRequest =
  dq_service_name :: bytes
  dq_unknown :: bytes

definition ServiceDiscoveryRequest_default :: ServiceDiscoveryRequest where
  "ServiceDiscoveryRequest_default = \<lparr>dq_service_name = [], dq_unknown = []\<rparr>"

definition ServiceDiscoveryRequest_Clear :: "ServiceDiscoveryRequest \<Rightarrow> ServiceDiscoveryRequest" where
  "ServiceDiscoveryRequest_Clear m = m\<lparr>dq_service_name := [], dq_unknown := []\<rparr>"

definition ServiceDiscoveryRequest_field ::
    "pb_runtime \<Rightarrow> u32 \<Rightarrow> bytes \<Rightarrow> ServiceDiscoveryRequest \<Rightarrow> ServiceDiscoveryRequest field_step" where
  "ServiceDiscoveryRequest_field rt tag p m =
     (if drop_bit 3 tag = 1 then
        (if tag_byte tag = 10 then get_string rt True p (\<lambda>s. m\<lparr>dq_service_name := s\<rparr>)
         else Unusual)
      else Unusual)"

definition ServiceDiscoveryRequest_InternalParse :: "pb_runtime \<Rightarrow> bytes \<Rightarrow> ServiceDiscoveryRequest \<Rightarrow> ServiceDiscoveryRequest pb_outcome" where
  "ServiceDiscoveryRequest_InternalParse rt p m =
     pb_parse rt (ServiceDiscoveryRequest_field rt) (\<lambda>u m. m\<lparr>dq_unknown := dq_unknown m @ u\<rparr>) p m"

definition ServiceDiscoveryRequest_InternalSerialize :: "pb_runtime \<Rightarrow> ServiceDiscoveryRequest \<Rightarrow> bytes" where
  "ServiceDiscoveryRequest_InternalSerialize rt m =
     (if dq_service_name m \<noteq> [] then rt_WriteString rt 1 (dq_service_name m) else []) @
     dq_unknown m"

definition ServiceDiscoveryRequest_ByteSizeLong :: "pb_runtime \<Rightarrow> ServiceDiscoveryRequest \<Rightarrow> nat" where
  "ServiceDiscoveryRequest_ByteSizeLong rt m =
     (if dq_service_name m \<noteq> [] then 1 + rt_StringSize rt (dq_service_name m) else 0) +
     length (dq_unknown m)"

definition ServiceDiscoveryRequest_MergeFrom :: "ServiceDiscoveryRequest \<Rightarrow> ServiceDiscoveryRequest \<Rightarrow> ServiceDiscoveryRequest" where
  "ServiceDiscoveryRequest_MergeFrom dst src = dst\<lparr>
     dq_service_name := (if dq_service_name src \<noteq> [] then dq_service_name src else dq_service_name dst),
     dq_unknown := dq_unknown dst @ dq_unknown src\<rparr>"

definition ServiceDiscoveryRequest_CopyFrom :: "ServiceDiscoveryRequest \<Rightarrow> ServiceDiscoveryRequest \<Rightarrow> ServiceDiscoveryRequest" where
  "ServiceDiscoveryRequest_CopyFrom dst src = ServiceDiscoveryRequest_MergeFrom (ServiceDiscoveryRequest_Clear dst) src"

definition ServiceDiscoveryRequest_serialize :: "pb_runtime \<Rightarrow> ServiceDiscoveryRequest \<Rightarrow> bytes" where
  "ServiceDiscoveryRequest_serialize rt m =
     Serializer_serialize rt (ServiceDiscoveryRequest_ByteSizeLong rt m) (ServiceDiscoveryRequest_InternalSerialize rt m)"

definition ServiceDiscoveryRequest_deserialize :: "pb_runtime \<Rightarrow> bytes \<Rightarrow> ServiceDiscoveryRequest option" where
  "ServiceDiscoveryRequest_deserialize rt =
     Serializer_deserialize (\<lambda>data. ServiceDiscoveryRequest_InternalParse rt data (ServiceDiscoveryRequest_Clear ServiceDiscoveryRequest_default))"

definition ServiceDiscoveryRequest_ok :: "pb_runtime \<Rightarrow> ServiceDiscoveryRequest \<Rightarrow> bool" where
  "ServiceDiscoveryRequest_ok rt m \<longleftrightarrow> dq_unknown m = [] \<and>
     ServiceDiscoveryRequest_ByteSizeLong rt m < pb_limit \<and>
     length (dq_service_name m) < pb_limit \<and>
     rt_VerifyUTF8 rt (dq_service_name m)"

lemma ServiceDiscoveryRequest_copy: "ServiceDiscoveryRequest_CopyFrom dst src = src"
  by (cases src; cases dst) (simp add: ServiceDiscoveryRequest_CopyFrom_def ServiceDiscoveryRequest_MergeFrom_def ServiceDiscoveryRequest_Clear_def)

lemma ServiceDiscoveryRequest_Clear_default: "ServiceDiscoveryRequest_Clear ServiceDiscoveryRequest_default = ServiceDiscoveryRequest_default"
  by (simp add: ServiceDiscoveryRequest_Clear_def ServiceDiscoveryRequest_default_def)

context pb_wire
begin

lemma ServiceDiscoveryRequest_consuming [simp]: "consuming (ServiceDiscoveryRequest_field rt)"
  by (auto simp: consuming_def ServiceDiscoveryRequest_field_def split: if_splits dest: get_consumes)

lemma ServiceDiscoveryRequest_read_service_name: "length v < pb_limit \<Longrightarrow> rt_VerifyUTF8 rt v \<Longrightarrow>
    pb_parse rt (ServiceDiscoveryRequest_field rt) k (rt_WriteString rt 1 v @ r) m =
    pb_parse rt (ServiceDiscoveryRequest_field rt) k r (m\<lparr>dq_service_name := v\<rparr>)"
  by (rule parse_string [where u = True, OF ServiceDiscoveryRequest_consuming]) (simp_all add: ServiceDiscoveryRequest_field_def tag_simps)

lemmas ServiceDiscoveryRequest_reads = ServiceDiscoveryRequest_read_service_name

lemmas ServiceDiscoveryRequest_read_last = ServiceDiscoveryRequest_reads [where r = "[]", unfolded append_Nil2 parse_Nil]

lemma ServiceDiscoveryRequest_parse: "ServiceDiscoveryRequest_ok rt m \<Longrightarrow>
    ServiceDiscoveryRequest_InternalParse rt (ServiceDiscoveryRequest_InternalSerialize rt m) ServiceDiscoveryRequest_default = PDone m [] False"
  by (cases m) (auto simp: ServiceDiscoveryRequest_ok_def ServiceDiscoveryRequest_InternalParse_def ServiceDiscoveryRequest_InternalSerialize_def
      ServiceDiscoveryRequest_default_def ServiceDiscoveryRequest_reads ServiceDiscoveryRequest_read_last simp del: One_nat_def)

lemma ServiceDiscoveryRequest_size: "ServiceDiscoveryRequest_ok rt m \<Longrightarrow> length (ServiceDiscoveryRequest_InternalSerialize rt m) = ServiceDiscoveryRequest_ByteSizeLong rt m"
  by (simp add: ServiceDiscoveryRequest_ok_def ServiceDiscoveryRequest_InternalSerialize_def ServiceDiscoveryRequest_ByteSizeLong_def tag_simps
      string_size bytes_size int32_size int64_size bool_size)

lemma ServiceDiscoveryRequest_roundtrip: "ServiceDiscoveryRequest_ok rt m \<Longrightarrow> ServiceDiscoveryRequest_deserialize rt (ServiceDiscoveryRequest_serialize rt m) = Some m"
  using ServiceDiscoveryRequest_parse [of m] ServiceDiscoveryRequest_Clear_default serialize_ok [of "ServiceDiscoveryRequest_ByteSizeLong rt m"]
  by (simp add: ServiceDiscoveryRequest_ok_def ServiceDiscoveryRequest_serialize_def ServiceDiscoveryRequest_deserialize_def
      Serializer_serialize_def Serializer_deserialize_def)

end

section \<open>ServiceInfo\<close>

record ServiceInfo =
  info_host :: bytes
  info_port :: i32
  info_last_heartbeat :: i64
  info_unknown :: bytes

definition ServiceInfo_default :: ServiceInfo where
  "ServiceInfo_default = \<lparr>info_host = [], info_port = 0, info_last_heartbeat = 0, info_unknown = []\<rparr>"

definition ServiceInfo_Clear :: "ServiceInfo \<Rightarrow> ServiceInfo" where
  "ServiceInfo_Clear m = m\<lparr>info_host := [], info_last_heartbeat := 0, info_port := 0, info_unknown := []\<rparr>"

definition ServiceInfo_field ::
    "pb_runtime \<Rightarrow> u32 \<Rightarrow> bytes \<Rightarrow> ServiceInfo \<Rightarrow> ServiceInfo field_step" where
  "ServiceInfo_field rt tag p m =
     (if drop_bit 3 tag = 1 then
        (if tag_byte tag = 10 then get_string rt True p (\<lambda>s. m\<lparr>info_host := s\<rparr>)
         else Unusual)
      else if drop_bit 3 tag = 2 then
        (if tag_byte tag = 16 then get_varint32 rt p (\<lambda>v. m\<lparr>info_port := v\<rparr>)
         else Unusual)
      else if drop_bit 3 tag = 3 then
        (if tag_byte tag = 24 then get_varint64 rt p (\<lambda>v. m\<lparr>info_last_heartbeat := v\<rparr>)
         else Unusual)
      else Unusual)"

definition ServiceInfo_InternalParse :: "pb_runtime \<Rightarrow> bytes \<Rightarrow> ServiceInfo \<Rightarrow> ServiceInfo pb_outcome" where
  "ServiceInfo_InternalParse rt p m =
     pb_parse rt (ServiceInfo_field rt) (\<lambda>u m. m\<lparr>info_unknown := info_unknown m @ u\<rparr>) p m"

definition ServiceInfo_InternalSerialize :: "pb_runtime \<Rightarrow> ServiceInfo \<Rightarrow> bytes" where
  "ServiceInfo_InternalSerialize rt m =
     (if info_host m \<noteq> [] then rt_WriteString rt 1 (info_host m) else []) @
     (if info_port m \<noteq> 0 then rt_WriteInt32 rt 2 (info_port m) else []) @
     (if info_last_heartbeat m \<noteq> 0 then rt_WriteInt64 rt 3 (info_last_heartbeat m) else []) @
     info_unknown m"

definition ServiceInfo_ByteSizeLong :: "pb_runtime \<Rightarrow> ServiceInfo \<Rightarrow> nat" where
  "ServiceInfo_ByteSizeLong rt m =
     (if info_host m \<noteq> [] then 1 + rt_StringSize rt (info_host m) else 0) +
     (if info_last_heartbeat m \<noteq> 0 then rt_Int64SizePlusOne rt (info_last_heartbeat m) else 0) +
     (if info_port m \<noteq> 0 then rt_Int32SizePlusOne rt (info_port m) else 0) +
     length (info_unknown m)"

definition ServiceInfo_MergeFrom :: "ServiceInfo \<Rightarrow> ServiceInfo \<Rightarrow> ServiceInfo" where
  "ServiceInfo_MergeFrom dst src = dst\<lparr>
     info_host := (if info_host src \<noteq> [] then info_host src else info_host dst),
     info_last_heartbeat := (if info_last_heartbeat src \<noteq> 0 then info_last_heartbeat src else info_last_heartbeat dst),
     info_port := (if info_port src \<noteq> 0 then info_port src else info_port dst),
     info_unknown := info_unknown dst @ info_unknown src\<rparr>"

definition ServiceInfo_CopyFrom :: "ServiceInfo \<Rightarrow> ServiceInfo \<Rightarrow> ServiceInfo" where
  "ServiceInfo_CopyFrom dst src = ServiceInfo_MergeFrom (ServiceInfo_Clear dst) src"

definition ServiceInfo_serialize :: "pb_runtime \<Rightarrow> ServiceInfo \<Rightarrow> bytes" where
  "ServiceInfo_serialize rt m =
     Serializer_serialize rt (ServiceInfo_ByteSizeLong rt m) (ServiceInfo_InternalSerialize rt m)"

definition ServiceInfo_deserialize :: "pb_runtime \<Rightarrow> bytes \<Rightarrow> ServiceInfo option" where
  "ServiceInfo_deserialize rt =
     Serializer_deserialize (\<lambda>data. ServiceInfo_InternalParse rt data (ServiceInfo_Clear ServiceInfo_default))"

definition ServiceInfo_ok :: "pb_runtime \<Rightarrow> ServiceInfo \<Rightarrow> bool" where
  "ServiceInfo_ok rt m \<longleftrightarrow> info_unknown m = [] \<and>
     ServiceInfo_ByteSizeLong rt m < pb_limit \<and>
     length (info_host m) < pb_limit \<and>
     rt_VerifyUTF8 rt (info_host m)"

lemma ServiceInfo_copy: "ServiceInfo_CopyFrom dst src = src"
  by (cases src; cases dst) (simp add: ServiceInfo_CopyFrom_def ServiceInfo_MergeFrom_def ServiceInfo_Clear_def)

lemma ServiceInfo_Clear_default: "ServiceInfo_Clear ServiceInfo_default = ServiceInfo_default"
  by (simp add: ServiceInfo_Clear_def ServiceInfo_default_def)

context pb_wire
begin

lemma ServiceInfo_consuming [simp]: "consuming (ServiceInfo_field rt)"
  by (auto simp: consuming_def ServiceInfo_field_def split: if_splits dest: get_consumes)

lemma ServiceInfo_read_host: "length v < pb_limit \<Longrightarrow> rt_VerifyUTF8 rt v \<Longrightarrow>
    pb_parse rt (ServiceInfo_field rt) k (rt_WriteString rt 1 v @ r) m =
    pb_parse rt (ServiceInfo_field rt) k r (m\<lparr>info_host := v\<rparr>)"
  by (rule parse_string [where u = True, OF ServiceInfo_consuming]) (simp_all add: ServiceInfo_field_def tag_simps)

lemma ServiceInfo_read_port: "pb_parse rt (ServiceInfo_field rt) k (rt_WriteInt32 rt 2 v @ r) m =
    pb_parse rt (ServiceInfo_field rt) k r (m\<lparr>info_port := v\<rparr>)"
  by (rule parse_int32 [OF ServiceInfo_consuming]) (simp_all add: ServiceInfo_field_def tag_simps)

lemma ServiceInfo_read_last_heartbeat: "pb_parse rt (ServiceInfo_field rt) k (rt_WriteInt64 rt 3 v @ r) m =
    pb_parse rt (ServiceInfo_field rt) k r (m\<lparr>info_last_heartbeat := v\<rparr>)"
  by (rule parse_int64 [OF ServiceInfo_consuming]) (simp_all add: ServiceInfo_field_def tag_simps)

lemmas ServiceInfo_reads = ServiceInfo_read_host ServiceInfo_read_port ServiceInfo_read_last_heartbeat

lemmas ServiceInfo_read_last = ServiceInfo_reads [where r = "[]", unfolded append_Nil2 parse_Nil]

lemma ServiceInfo_parse: "ServiceInfo_ok rt m \<Longrightarrow>
    ServiceInfo_InternalParse rt (ServiceInfo_InternalSerialize rt m) ServiceInfo_default = PDone m [] False"
  by (cases m) (auto simp: ServiceInfo_ok_def ServiceInfo_InternalParse_def ServiceInfo_InternalSerialize_def
      ServiceInfo_default_def ServiceInfo_reads ServiceInfo_read_last simp del: One_nat_def)

lemma ServiceInfo_size: "ServiceInfo_ok rt m \<Longrightarrow> length (ServiceInfo_InternalSerialize rt m) = ServiceInfo_ByteSizeLong rt m"
  by (simp add: ServiceInfo_ok_def ServiceInfo_InternalSerialize_def ServiceInfo_ByteSizeLong_def tag_simps
      string_size bytes_size int32_size int64_size bool_size)

lemma ServiceInfo_roundtrip: "ServiceInfo_ok rt m \<Longrightarrow> ServiceInfo_deserialize rt (ServiceInfo_serialize rt m) = Some m"
  using ServiceInfo_parse [of m] ServiceInfo_Clear_default serialize_ok [of "ServiceInfo_ByteSizeLong rt m"]
  by (simp add: ServiceInfo_ok_def ServiceInfo_serialize_def ServiceInfo_deserialize_def
      Serializer_serialize_def Serializer_deserialize_def)

end

section \<open>ServiceDiscoveryResponse\<close>

record ServiceDiscoveryResponse =
  ds_services :: "ServiceInfo list"
  ds_unknown :: bytes

definition ServiceDiscoveryResponse_default :: ServiceDiscoveryResponse where
  "ServiceDiscoveryResponse_default = \<lparr>ds_services = [], ds_unknown = []\<rparr>"

definition ServiceDiscoveryResponse_Clear :: "ServiceDiscoveryResponse \<Rightarrow> ServiceDiscoveryResponse" where
  "ServiceDiscoveryResponse_Clear m = m\<lparr>ds_services := [], ds_unknown := []\<rparr>"

text \<open>
  The repeated field: \<open>ctx->ParseMessage\<close> on a fresh element, repeated while the next byte
  is the tag 10 of the same field. A pass consumes input, so the fuel \<open>Suc (length p)\<close> that
  the field gives is never used up (\<open>services_loop_fuel\<close>).
\<close>

definition ParseMessage_ServiceInfo :: "pb_runtime \<Rightarrow> bytes \<Rightarrow> (ServiceInfo \<times> bytes) option" where
  "ParseMessage_ServiceInfo rt p = (case rt_ReadMessage rt p of
       None \<Rightarrow> None
     | Some (b, q) \<Rightarrow>
         (case parse_result (ServiceInfo_InternalParse rt b ServiceInfo_default) of
            None \<Rightarrow> None
          | Some s \<Rightarrow> Some (s, q)))"

fun services_loop :: "pb_runtime \<Rightarrow> nat \<Rightarrow> bytes \<Rightarrow> ServiceInfo list \<Rightarrow>
    (ServiceInfo list \<times> bytes) option" where
  "services_loop rt 0 p acc = None"
| "services_loop rt (Suc n) p acc = (case ParseMessage_ServiceInfo rt p of
       None \<Rightarrow> None
     | Some (s, q) \<Rightarrow>
         if q = [] then Some (acc @ [s], q)
         else if rt_ExpectTag rt 10 q then services_loop rt n (drop 1 q) (acc @ [s])
         else Some (acc @ [s], q))"

definition ServiceDiscoveryResponse_field ::
    "pb_runtime \<Rightarrow> u32 \<Rightarrow> bytes \<Rightarrow> ServiceDiscoveryResponse \<Rightarrow> ServiceDiscoveryResponse field_step" where
  "ServiceDiscoveryResponse_field rt tag p m =
     (if drop_bit 3 tag = 1 then
        (if tag_byte tag = 10 then (case services_loop rt (Suc (length p)) p (ds_services m) of
              None \<Rightarrow> Failed
            | Some (ss, q) \<Rightarrow> Handled (m\<lparr>ds_services := ss\<rparr>) q)
         else Unusual)
      else Unusual)"

definition ServiceDiscoveryResponse_InternalParse :: "pb_runtime \<Rightarrow> bytes \<Rightarrow> ServiceDiscoveryResponse \<Rightarrow> ServiceDiscoveryResponse pb_outcome" where
  "ServiceDiscoveryResponse_InternalParse rt p m =
     pb_parse rt (ServiceDiscoveryResponse_field rt) (\<lambda>u m. m\<lparr>ds_unknown := ds_unknown m @ u\<rparr>) p m"

definition ServiceDiscoveryResponse_InternalSerialize :: "pb_runtime \<Rightarrow> ServiceDiscoveryResponse \<Rightarrow> bytes" where
  "ServiceDiscoveryResponse_InternalSerialize rt m =
     concat (map (\<lambda>s. rt_WriteMessage rt 1 (ServiceInfo_InternalSerialize rt s)) (ds_services m)) @
     ds_unknown m"

definition ServiceDiscoveryResponse_ByteSizeLong :: "pb_runtime \<Rightarrow> ServiceDiscoveryResponse \<Rightarrow> nat" where
  "ServiceDiscoveryResponse_ByteSizeLong rt m =
     1 * length (ds_services m) +
     sum_list (map (\<lambda>s. rt_MessageSize rt (ServiceInfo_ByteSizeLong rt s)) (ds_services m)) +
     length (ds_unknown m)"

definition ServiceDiscoveryResponse_MergeFrom :: "ServiceDiscoveryResponse \<Rightarrow> ServiceDiscoveryResponse \<Rightarrow> ServiceDiscoveryResponse" where
  "ServiceDiscoveryResponse_MergeFrom dst src = dst\<lparr>
     ds_services := ds_services dst @ ds_services src,
     ds_unknown := ds_unknown dst @ ds_unknown src\<rparr>"

definition ServiceDiscoveryResponse_CopyFrom :: "ServiceDiscoveryResponse \<Rightarrow> ServiceDiscoveryResponse \<Rightarrow> ServiceDiscoveryResponse" where
  "ServiceDiscoveryResponse_CopyFrom dst src = ServiceDiscoveryResponse_MergeFrom (ServiceDiscoveryResponse_Clear dst) src"

definition ServiceDiscoveryResponse_serialize :: "pb_runtime \<Rightarrow> ServiceDiscoveryResponse \<Rightarrow> bytes" where
  "ServiceDiscoveryResponse_serialize rt m =
     Serializer_serialize rt (ServiceDiscoveryResponse_ByteSizeLong rt m) (ServiceDiscoveryResponse_InternalSerialize rt m)"

definition ServiceDiscoveryResponse_deserialize :: "pb_runtime \<Rightarrow> bytes \<Rightarrow> ServiceDiscoveryResponse option" where
  "ServiceDiscoveryResponse_deserialize rt =
     Serializer_deserialize (\<lambda>data. ServiceDiscoveryResponse_InternalParse rt data (ServiceDiscoveryResponse_Clear ServiceDiscoveryResponse_default))"

definition ServiceDiscoveryResponse_ok :: "pb_runtime \<Rightarrow> ServiceDiscoveryResponse \<Rightarrow> bool" where
  "ServiceDiscoveryResponse_ok rt m \<longleftrightarrow> ds_unknown m = [] \<and>
     ServiceDiscoveryResponse_ByteSizeLong rt m < pb_limit \<and>
     list_all (\<lambda>s. ServiceInfo_ok rt s \<and> length (ServiceInfo_InternalSerialize rt s) < pb_limit) (ds_services m)"

lemma ServiceDiscoveryResponse_copy: "ServiceDiscoveryResponse_CopyFrom dst src = src"
  by (cases src; cases dst) (simp add: ServiceDiscoveryResponse_CopyFrom_def ServiceDiscoveryResponse_MergeFrom_def ServiceDiscoveryResponse_Clear_def)

lemma ServiceDiscoveryResponse_Clear_default: "ServiceDiscoveryResponse_Clear ServiceDiscoveryResponse_default = ServiceDiscoveryResponse_default"
  by (simp add: ServiceDiscoveryResponse_Clear_def ServiceDiscoveryResponse_default_def)

context pb_wire
begin

lemma ParseMessage_consumes:
  "ParseMessage_ServiceInfo rt p = Some (s, q) \<Longrightarrow> length q < length p"
  by (auto simp: ParseMessage_ServiceInfo_def split: option.splits dest: read_message_consumes)

lemma services_loop_consumes:
  "services_loop rt n p acc = Some (ss, q) \<Longrightarrow> length q \<le> length p"
  by (induction n arbitrary: p acc)
    (fastforce split: option.splits if_splits dest: ParseMessage_consumes)+

lemma services_loop_fuel:
  "length p < n \<Longrightarrow> length p < n' \<Longrightarrow> services_loop rt n p acc = services_loop rt n' p acc"
proof (induction n arbitrary: n' p acc)
  case (Suc n)
  obtain l where l: "n' = Suc l" using Suc.prems by (cases n') auto
  have "length (drop 1 q) < n \<and> length (drop 1 q) < l"
    if "ParseMessage_ServiceInfo rt p = Some (s, q)" for s q
    using ParseMessage_consumes [OF that] Suc.prems l by auto
  then show ?case using Suc.IH by (auto simp: l split: option.splits)
qed simp

lemma ServiceDiscoveryResponse_consuming [simp]: "consuming (ServiceDiscoveryResponse_field rt)"
  by (auto simp: consuming_def ServiceDiscoveryResponse_field_def simp del: services_loop.simps
      split: if_splits option.splits dest: services_loop_consumes)

lemma ParseMessage_written:
  assumes "ServiceInfo_ok rt s" and "rt_ReadMessage rt p = Some (ServiceInfo_InternalSerialize rt s, r)"
  shows "ParseMessage_ServiceInfo rt p = Some (s, r)"
  using assms by (simp add: ParseMessage_ServiceInfo_def ServiceInfo_parse)

lemma small_field_1: "small_field 1"
  by (simp add: small_field_def)

lemma services_loop_written:
  assumes "list_all (\<lambda>s. ServiceInfo_ok rt s \<and> length (ServiceInfo_InternalSerialize rt s) < pb_limit) (s # ss)"
    and "rt_ReadMessage rt p = Some (ServiceInfo_InternalSerialize rt s,
      concat (map (\<lambda>s. rt_WriteMessage rt 1 (ServiceInfo_InternalSerialize rt s)) ss))"
    and "length ss < n"
  shows "services_loop rt n p acc = Some (acc @ s # ss, [])"
  using assms
proof (induction ss arbitrary: s p n acc)
  case Nil
  then show ?case by (cases n) (auto simp: ParseMessage_written)
next
  case (Cons t ss)
  let ?w = "\<lambda>s. rt_WriteMessage rt 1 (ServiceInfo_InternalSerialize rt s)"
  obtain l where l: "n = Suc l" using Cons.prems(3) by (cases n) auto
  obtain q where q: "?w t @ concat (map ?w ss) = char_of (8 * 1 + 2 :: nat) # q"
      "rt_ReadMessage rt q = Some (ServiceInfo_InternalSerialize rt t, concat (map ?w ss))"
    using message_field [OF small_field_1, of "ServiceInfo_InternalSerialize rt t"] Cons.prems(1)
    unfolding list.pred_inject by blast
  have "services_loop rt l q (acc @ [s]) = Some ((acc @ [s]) @ t # ss, [])"
    using Cons.prems q(2) l by (intro Cons.IH) auto
  moreover have "ParseMessage_ServiceInfo rt p = Some (s, char_of (10 :: nat) # q)"
    using Cons.prems(1,2) q(1) by (simp add: ParseMessage_written)
  ultimately show ?case using q(1) by (simp add: l expect_tag)
qed

lemma ServiceDiscoveryResponse_parse: "ServiceDiscoveryResponse_ok rt m \<Longrightarrow>
    ServiceDiscoveryResponse_InternalParse rt (ServiceDiscoveryResponse_InternalSerialize rt m)
      ServiceDiscoveryResponse_default = PDone m [] False"
proof (cases "ds_services m")
  case Nil
  then show "ServiceDiscoveryResponse_ok rt m \<Longrightarrow> ?thesis"
    by (cases m) (simp add: ServiceDiscoveryResponse_ok_def ServiceDiscoveryResponse_default_def
      ServiceDiscoveryResponse_InternalParse_def ServiceDiscoveryResponse_InternalSerialize_def)
next
  case (Cons s ss)
  assume ok: "ServiceDiscoveryResponse_ok rt m"
  let ?w = "\<lambda>s. rt_WriteMessage rt 1 (ServiceInfo_InternalSerialize rt s)"
  have all: "list_all (\<lambda>s. ServiceInfo_ok rt s \<and>
      length (ServiceInfo_InternalSerialize rt s) < pb_limit) (s # ss)"
    using ok Cons by (simp add: ServiceDiscoveryResponse_ok_def)
  obtain p where p: "rt_ReadTag rt (?w s @ concat (map ?w ss)) = Some (field_tag 1 2, p)"
      "?w s @ concat (map ?w ss) = char_of (8 * 1 + 2 :: nat) # p"
      "rt_ReadMessage rt p = Some (ServiceInfo_InternalSerialize rt s, concat (map ?w ss))"
    using message_field [OF small_field_1, of "ServiceInfo_InternalSerialize rt s"] all
    unfolding list.pred_inject by blast
  have "?w t \<noteq> []" if "t \<in> set ss" for t
    using all that message_size [OF small_field_1, of "ServiceInfo_InternalSerialize rt t"]
    by (auto simp: list_all_iff simp del: One_nat_def)
  then have "length ss \<le> length (concat (map ?w ss))" by (rule length_concat_map_le)
  then have "length ss < Suc (length p)" using read_message_consumes [OF p(3)] by simp
  then have "services_loop rt (Suc (length p)) p [] = Some ([] @ s # ss, [])"
    by (rule services_loop_written [OF all p(3)])
  then have "ServiceDiscoveryResponse_field rt (field_tag 1 2) p ServiceDiscoveryResponse_default =
      Handled m []"
    using ok Cons by (cases m) (simp add: ServiceDiscoveryResponse_field_def tag_simps
      ServiceDiscoveryResponse_default_def ServiceDiscoveryResponse_ok_def)
  from parse_step [OF ServiceDiscoveryResponse_consuming p(1) this] show ?thesis
    using ok Cons by (simp add: ServiceDiscoveryResponse_InternalParse_def
      ServiceDiscoveryResponse_InternalSerialize_def ServiceDiscoveryResponse_ok_def)
qed

lemma ServiceDiscoveryResponse_size: "ServiceDiscoveryResponse_ok rt m \<Longrightarrow>
    length (ServiceDiscoveryResponse_InternalSerialize rt m) = ServiceDiscoveryResponse_ByteSizeLong rt m"
proof -
  have "length (concat (map (\<lambda>s. rt_WriteMessage rt 1 (ServiceInfo_InternalSerialize rt s)) ss)) =
      length ss + sum_list (map (\<lambda>s. rt_MessageSize rt (ServiceInfo_ByteSizeLong rt s)) ss)"
    if "list_all (\<lambda>s. ServiceInfo_ok rt s \<and> length (ServiceInfo_InternalSerialize rt s) < pb_limit) ss"
    for ss using that
    by (induction ss) (auto simp: message_size small_field_def ServiceInfo_size)
  then show "ServiceDiscoveryResponse_ok rt m \<Longrightarrow> ?thesis"
    by (simp add: ServiceDiscoveryResponse_ok_def ServiceDiscoveryResponse_ByteSizeLong_def
      ServiceDiscoveryResponse_InternalSerialize_def)
qed

lemma ServiceDiscoveryResponse_roundtrip: "ServiceDiscoveryResponse_ok rt m \<Longrightarrow> ServiceDiscoveryResponse_deserialize rt (ServiceDiscoveryResponse_serialize rt m) = Some m"
  using ServiceDiscoveryResponse_parse [of m] ServiceDiscoveryResponse_Clear_default serialize_ok [of "ServiceDiscoveryResponse_ByteSizeLong rt m"]
  by (simp add: ServiceDiscoveryResponse_ok_def ServiceDiscoveryResponse_serialize_def ServiceDiscoveryResponse_deserialize_def
      Serializer_serialize_def Serializer_deserialize_def)

end

section \<open>HeartbeatRequest\<close>

record HeartbeatRequest =
  hq_service_name :: bytes
  hq_host :: bytes
  hq_port :: i32
  hq_unknown :: bytes

definition HeartbeatRequest_default :: HeartbeatRequest where
  "HeartbeatRequest_default = \<lparr>hq_service_name = [], hq_host = [], hq_port = 0, hq_unknown = []\<rparr>"

definition HeartbeatRequest_Clear :: "HeartbeatRequest \<Rightarrow> HeartbeatRequest" where
  "HeartbeatRequest_Clear m = m\<lparr>hq_service_name := [], hq_host := [], hq_port := 0, hq_unknown := []\<rparr>"

definition HeartbeatRequest_field ::
    "pb_runtime \<Rightarrow> u32 \<Rightarrow> bytes \<Rightarrow> HeartbeatRequest \<Rightarrow> HeartbeatRequest field_step" where
  "HeartbeatRequest_field rt tag p m =
     (if drop_bit 3 tag = 1 then
        (if tag_byte tag = 10 then get_string rt True p (\<lambda>s. m\<lparr>hq_service_name := s\<rparr>)
         else Unusual)
      else if drop_bit 3 tag = 2 then
        (if tag_byte tag = 18 then get_string rt True p (\<lambda>s. m\<lparr>hq_host := s\<rparr>)
         else Unusual)
      else if drop_bit 3 tag = 3 then
        (if tag_byte tag = 24 then get_varint32 rt p (\<lambda>v. m\<lparr>hq_port := v\<rparr>)
         else Unusual)
      else Unusual)"

definition HeartbeatRequest_InternalParse :: "pb_runtime \<Rightarrow> bytes \<Rightarrow> HeartbeatRequest \<Rightarrow> HeartbeatRequest pb_outcome" where
  "HeartbeatRequest_InternalParse rt p m =
     pb_parse rt (HeartbeatRequest_field rt) (\<lambda>u m. m\<lparr>hq_unknown := hq_unknown m @ u\<rparr>) p m"

definition HeartbeatRequest_InternalSerialize :: "pb_runtime \<Rightarrow> HeartbeatRequest \<Rightarrow> bytes" where
  "HeartbeatRequest_InternalSerialize rt m =
     (if hq_service_name m \<noteq> [] then rt_WriteString rt 1 (hq_service_name m) else []) @
     (if hq_host m \<noteq> [] then rt_WriteString rt 2 (hq_host m) else []) @
     (if hq_port m \<noteq> 0 then rt_WriteInt32 rt 3 (hq_port m) else []) @
     hq_unknown m"

definition HeartbeatRequest_ByteSizeLong :: "pb_runtime \<Rightarrow> HeartbeatRequest \<Rightarrow> nat" where
  "HeartbeatRequest_ByteSizeLong rt m =
     (if hq_service_name m \<noteq> [] then 1 + rt_StringSize rt (hq_service_name m) else 0) +
     (if hq_host m \<noteq> [] then 1 + rt_StringSize rt (hq_host m) else 0) +
     (if hq_port m \<noteq> 0 then rt_Int32SizePlusOne rt (hq_port m) else 0) +
     length (hq_unknown m)"

definition HeartbeatRequest_MergeFrom :: "HeartbeatRequest \<Rightarrow> HeartbeatRequest \<Rightarrow> HeartbeatRequest" where
  "HeartbeatRequest_MergeFrom dst src = dst\<lparr>
     hq_service_name := (if hq_service_name src \<noteq> [] then hq_service_name src else hq_service_name dst),
     hq_host := (if hq_host src \<noteq> [] then hq_host src else hq_host dst),
     hq_port := (if hq_port src \<noteq> 0 then hq_port src else hq_port dst),
     hq_unknown := hq_unknown dst @ hq_unknown src\<rparr>"

definition HeartbeatRequest_CopyFrom :: "HeartbeatRequest \<Rightarrow> HeartbeatRequest \<Rightarrow> HeartbeatRequest" where
  "HeartbeatRequest_CopyFrom dst src = HeartbeatRequest_MergeFrom (HeartbeatRequest_Clear dst) src"

definition HeartbeatRequest_serialize :: "pb_runtime \<Rightarrow> HeartbeatRequest \<Rightarrow> bytes" where
  "HeartbeatRequest_serialize rt m =
     Serializer_serialize rt (HeartbeatRequest_ByteSizeLong rt m) (HeartbeatRequest_InternalSerialize rt m)"

definition HeartbeatRequest_deserialize :: "pb_runtime \<Rightarrow> bytes \<Rightarrow> HeartbeatRequest option" where
  "HeartbeatRequest_deserialize rt =
     Serializer_deserialize (\<lambda>data. HeartbeatRequest_InternalParse rt data (HeartbeatRequest_Clear HeartbeatRequest_default))"

definition HeartbeatRequest_ok :: "pb_runtime \<Rightarrow> HeartbeatRequest \<Rightarrow> bool" where
  "HeartbeatRequest_ok rt m \<longleftrightarrow> hq_unknown m = [] \<and>
     HeartbeatRequest_ByteSizeLong rt m < pb_limit \<and>
     length (hq_service_name m) < pb_limit \<and>
     rt_VerifyUTF8 rt (hq_service_name m) \<and>
     length (hq_host m) < pb_limit \<and>
     rt_VerifyUTF8 rt (hq_host m)"

lemma HeartbeatRequest_copy: "HeartbeatRequest_CopyFrom dst src = src"
  by (cases src; cases dst) (simp add: HeartbeatRequest_CopyFrom_def HeartbeatRequest_MergeFrom_def HeartbeatRequest_Clear_def)

lemma HeartbeatRequest_Clear_default: "HeartbeatRequest_Clear HeartbeatRequest_default = HeartbeatRequest_default"
  by (simp add: HeartbeatRequest_Clear_def HeartbeatRequest_default_def)

context pb_wire
begin

lemma HeartbeatRequest_consuming [simp]: "consuming (HeartbeatRequest_field rt)"
  by (auto simp: consuming_def HeartbeatRequest_field_def split: if_splits dest: get_consumes)

lemma HeartbeatRequest_read_service_name: "length v < pb_limit \<Longrightarrow> rt_VerifyUTF8 rt v \<Longrightarrow>
    pb_parse rt (HeartbeatRequest_field rt) k (rt_WriteString rt 1 v @ r) m =
    pb_parse rt (HeartbeatRequest_field rt) k r (m\<lparr>hq_service_name := v\<rparr>)"
  by (rule parse_string [where u = True, OF HeartbeatRequest_consuming]) (simp_all add: HeartbeatRequest_field_def tag_simps)

lemma HeartbeatRequest_read_host: "length v < pb_limit \<Longrightarrow> rt_VerifyUTF8 rt v \<Longrightarrow>
    pb_parse rt (HeartbeatRequest_field rt) k (rt_WriteString rt 2 v @ r) m =
    pb_parse rt (HeartbeatRequest_field rt) k r (m\<lparr>hq_host := v\<rparr>)"
  by (rule parse_string [where u = True, OF HeartbeatRequest_consuming]) (simp_all add: HeartbeatRequest_field_def tag_simps)

lemma HeartbeatRequest_read_port: "pb_parse rt (HeartbeatRequest_field rt) k (rt_WriteInt32 rt 3 v @ r) m =
    pb_parse rt (HeartbeatRequest_field rt) k r (m\<lparr>hq_port := v\<rparr>)"
  by (rule parse_int32 [OF HeartbeatRequest_consuming]) (simp_all add: HeartbeatRequest_field_def tag_simps)

lemmas HeartbeatRequest_reads = HeartbeatRequest_read_service_name HeartbeatRequest_read_host HeartbeatRequest_read_port

lemmas HeartbeatRequest_read_last = HeartbeatRequest_reads [where r = "[]", unfolded append_Nil2 parse_Nil]

lemma HeartbeatRequest_parse: "HeartbeatRequest_ok rt m \<Longrightarrow>
    HeartbeatRequest_InternalParse rt (HeartbeatRequest_InternalSerialize rt m) HeartbeatRequest_default = PDone m [] False"
  by (cases m) (auto simp: HeartbeatRequest_ok_def HeartbeatRequest_InternalParse_def HeartbeatRequest_InternalSerialize_def
      HeartbeatRequest_default_def HeartbeatRequest_reads HeartbeatRequest_read_last simp del: One_nat_def)

lemma HeartbeatRequest_size: "HeartbeatRequest_ok rt m \<Longrightarrow> length (HeartbeatRequest_InternalSerialize rt m) = HeartbeatRequest_ByteSizeLong rt m"
  by (simp add: HeartbeatRequest_ok_def HeartbeatRequest_InternalSerialize_def HeartbeatRequest_ByteSizeLong_def tag_simps
      string_size bytes_size int32_size int64_size bool_size)

lemma HeartbeatRequest_roundtrip: "HeartbeatRequest_ok rt m \<Longrightarrow> HeartbeatRequest_deserialize rt (HeartbeatRequest_serialize rt m) = Some m"
  using HeartbeatRequest_parse [of m] HeartbeatRequest_Clear_default serialize_ok [of "HeartbeatRequest_ByteSizeLong rt m"]
  by (simp add: HeartbeatRequest_ok_def HeartbeatRequest_serialize_def HeartbeatRequest_deserialize_def
      Serializer_serialize_def Serializer_deserialize_def)

end

section \<open>HeartbeatResponse\<close>

record HeartbeatResponse =
  hs_success :: bool
  hs_message :: bytes
  hs_unknown :: bytes

definition HeartbeatResponse_default :: HeartbeatResponse where
  "HeartbeatResponse_default = \<lparr>hs_success = False, hs_message = [], hs_unknown = []\<rparr>"

definition HeartbeatResponse_Clear :: "HeartbeatResponse \<Rightarrow> HeartbeatResponse" where
  "HeartbeatResponse_Clear m = m\<lparr>hs_message := [], hs_success := False, hs_unknown := []\<rparr>"

definition HeartbeatResponse_field ::
    "pb_runtime \<Rightarrow> u32 \<Rightarrow> bytes \<Rightarrow> HeartbeatResponse \<Rightarrow> HeartbeatResponse field_step" where
  "HeartbeatResponse_field rt tag p m =
     (if drop_bit 3 tag = 1 then
        (if tag_byte tag = 8 then get_varint64 rt p (\<lambda>v. m\<lparr>hs_success := v \<noteq> 0\<rparr>)
         else Unusual)
      else if drop_bit 3 tag = 2 then
        (if tag_byte tag = 18 then get_string rt True p (\<lambda>s. m\<lparr>hs_message := s\<rparr>)
         else Unusual)
      else Unusual)"

definition HeartbeatResponse_InternalParse :: "pb_runtime \<Rightarrow> bytes \<Rightarrow> HeartbeatResponse \<Rightarrow> HeartbeatResponse pb_outcome" where
  "HeartbeatResponse_InternalParse rt p m =
     pb_parse rt (HeartbeatResponse_field rt) (\<lambda>u m. m\<lparr>hs_unknown := hs_unknown m @ u\<rparr>) p m"

definition HeartbeatResponse_InternalSerialize :: "pb_runtime \<Rightarrow> HeartbeatResponse \<Rightarrow> bytes" where
  "HeartbeatResponse_InternalSerialize rt m =
     (if hs_success m then rt_WriteBool rt 1 (hs_success m) else []) @
     (if hs_message m \<noteq> [] then rt_WriteString rt 2 (hs_message m) else []) @
     hs_unknown m"

definition HeartbeatResponse_ByteSizeLong :: "pb_runtime \<Rightarrow> HeartbeatResponse \<Rightarrow> nat" where
  "HeartbeatResponse_ByteSizeLong rt m =
     (if hs_message m \<noteq> [] then 1 + rt_StringSize rt (hs_message m) else 0) +
     (if hs_success m then 1 + 1 else 0) +
     length (hs_unknown m)"

definition HeartbeatResponse_MergeFrom :: "HeartbeatResponse \<Rightarrow> HeartbeatResponse \<Rightarrow> HeartbeatResponse" where
  "HeartbeatResponse_MergeFrom dst src = dst\<lparr>
     hs_message := (if hs_message src \<noteq> [] then hs_message src else hs_message dst),
     hs_success := (if hs_success src  then hs_success src else hs_success dst),
     hs_unknown := hs_unknown dst @ hs_unknown src\<rparr>"

definition HeartbeatResponse_CopyFrom :: "HeartbeatResponse \<Rightarrow> HeartbeatResponse \<Rightarrow> HeartbeatResponse" where
  "HeartbeatResponse_CopyFrom dst src = HeartbeatResponse_MergeFrom (HeartbeatResponse_Clear dst) src"

definition HeartbeatResponse_serialize :: "pb_runtime \<Rightarrow> HeartbeatResponse \<Rightarrow> bytes" where
  "HeartbeatResponse_serialize rt m =
     Serializer_serialize rt (HeartbeatResponse_ByteSizeLong rt m) (HeartbeatResponse_InternalSerialize rt m)"

definition HeartbeatResponse_deserialize :: "pb_runtime \<Rightarrow> bytes \<Rightarrow> HeartbeatResponse option" where
  "HeartbeatResponse_deserialize rt =
     Serializer_deserialize (\<lambda>data. HeartbeatResponse_InternalParse rt data (HeartbeatResponse_Clear HeartbeatResponse_default))"

definition HeartbeatResponse_ok :: "pb_runtime \<Rightarrow> HeartbeatResponse \<Rightarrow> bool" where
  "HeartbeatResponse_ok rt m \<longleftrightarrow> hs_unknown m = [] \<and>
     HeartbeatResponse_ByteSizeLong rt m < pb_limit \<and>
     length (hs_message m) < pb_limit \<and>
     rt_VerifyUTF8 rt (hs_message m)"

lemma HeartbeatResponse_copy: "HeartbeatResponse_CopyFrom dst src = src"
  by (cases src; cases dst) (simp add: HeartbeatResponse_CopyFrom_def HeartbeatResponse_MergeFrom_def HeartbeatResponse_Clear_def)

lemma HeartbeatResponse_Clear_default: "HeartbeatResponse_Clear HeartbeatResponse_default = HeartbeatResponse_default"
  by (simp add: HeartbeatResponse_Clear_def HeartbeatResponse_default_def)

context pb_wire
begin

lemma HeartbeatResponse_consuming [simp]: "consuming (HeartbeatResponse_field rt)"
  by (auto simp: consuming_def HeartbeatResponse_field_def split: if_splits dest: get_consumes)

lemma HeartbeatResponse_read_success: "pb_parse rt (HeartbeatResponse_field rt) k (rt_WriteBool rt 1 v @ r) m =
    pb_parse rt (HeartbeatResponse_field rt) k r (m\<lparr>hs_success := v\<rparr>)"
  using parse_bool [OF HeartbeatResponse_consuming, of 1 m "\<lambda>v. m\<lparr>hs_success := v \<noteq> 0\<rparr>"]
  by (simp add: HeartbeatResponse_field_def tag_simps)

lemma HeartbeatResponse_read_message: "length v < pb_limit \<Longrightarrow> rt_VerifyUTF8 rt v \<Longrightarrow>
    pb_parse rt (HeartbeatResponse_field rt) k (rt_WriteString rt 2 v @ r) m =
    pb_parse rt (HeartbeatResponse_field rt) k r (m\<lparr>hs_message := v\<rparr>)"
  by (rule parse_string [where u = True, OF HeartbeatResponse_consuming]) (simp_all add: HeartbeatResponse_field_def tag_simps)

lemmas HeartbeatResponse_reads = HeartbeatResponse_read_success HeartbeatResponse_read_message

lemmas HeartbeatResponse_read_last = HeartbeatResponse_reads [where r = "[]", unfolded append_Nil2 parse_Nil]

lemma HeartbeatResponse_parse: "HeartbeatResponse_ok rt m \<Longrightarrow>
    HeartbeatResponse_InternalParse rt (HeartbeatResponse_InternalSerialize rt m) HeartbeatResponse_default = PDone m [] False"
  by (cases m) (auto simp: HeartbeatResponse_ok_def HeartbeatResponse_InternalParse_def HeartbeatResponse_InternalSerialize_def
      HeartbeatResponse_default_def HeartbeatResponse_reads HeartbeatResponse_read_last simp del: One_nat_def)

lemma HeartbeatResponse_size: "HeartbeatResponse_ok rt m \<Longrightarrow> length (HeartbeatResponse_InternalSerialize rt m) = HeartbeatResponse_ByteSizeLong rt m"
  by (simp add: HeartbeatResponse_ok_def HeartbeatResponse_InternalSerialize_def HeartbeatResponse_ByteSizeLong_def tag_simps
      string_size bytes_size int32_size int64_size bool_size)

lemma HeartbeatResponse_roundtrip: "HeartbeatResponse_ok rt m \<Longrightarrow> HeartbeatResponse_deserialize rt (HeartbeatResponse_serialize rt m) = Some m"
  using HeartbeatResponse_parse [of m] HeartbeatResponse_Clear_default serialize_ok [of "HeartbeatResponse_ByteSizeLong rt m"]
  by (simp add: HeartbeatResponse_ok_def HeartbeatResponse_serialize_def HeartbeatResponse_deserialize_def
      Serializer_serialize_def Serializer_deserialize_def)

end

end
