(* ===== verification/Pb_Reference.thy ===== *)
theory Pb_Reference
  imports Pb_Runtime
begin

text \<open>
  A protobuf runtime that follows the published wire format: base-128 varints, a tag
  \<open>8 * field + wire type\<close>, length-delimited strings and messages, negative \<open>int32\<close> values
  sign-extended to ten bytes, unknown fields kept and written again. It is not the code of the
  protobuf library, which is outside the repository; it shows that the laws of \<open>pb_wire\<close>
  hold together, and it is the runtime the witnesses evaluate with. Groups, which proto3 never
  writes, are refused by its \<open>rt_ParseUnknown\<close>.
\<close>

unbundle bit_operations_syntax

section \<open>Varints\<close>

fun varint_enc :: "nat \<Rightarrow> bytes" where
  "varint_enc n = (if n < 128 then [char_of n]
                   else char_of (n mod 128 + 128) # varint_enc (n div 128))"

declare varint_enc.simps [simp del]

fun varint_dec :: "nat \<Rightarrow> bytes \<Rightarrow> (nat \<times> bytes) option" where
  "varint_dec 0 bs = None"
| "varint_dec (Suc k) [] = None"
| "varint_dec (Suc k) (c # cs) =
     (let b = of_char c in
      if b < 128 then Some (b, cs)
      else case varint_dec k cs of
        None \<Rightarrow> None | Some (n, r) \<Rightarrow> Some (b - 128 + 128 * n, r))"

lemma varint_roundtrip: "n < 128 ^ k \<Longrightarrow> 0 < k \<Longrightarrow> varint_dec k (varint_enc n @ r) = Some (n, r)"
proof (induction n arbitrary: k rule: varint_enc.induct)
  case (1 n)
  obtain l where k: "k = Suc l" using 1 by (cases k) auto
  show ?case
  proof (cases "n < 128")
    case True
    then show ?thesis by (simp add: k varint_enc.simps)
  next
    case False
    then have "0 < l" using 1 k by (cases l) auto
    moreover have "n div 128 < 128 ^ l" using 1 k by (simp add: less_mult_imp_div_less mult.commute)
    ultimately have "varint_dec l (varint_enc (n div 128) @ r) = Some (n div 128, r)"
      using 1 False by simp
    moreover have "(n mod 128 + 128) mod 256 = n mod 128 + 128" by simp
    ultimately show ?thesis
      using False by (simp add: k varint_enc.simps [of n] Let_def)
  qed
qed

lemma varint_dec_consumes: "varint_dec k p = Some (n, q) \<Longrightarrow> length q < length p"
proof (induction k p arbitrary: n rule: varint_dec.induct)
  case (3 k c cs)
  then show ?case by (auto simp: Let_def split: if_splits option.splits) fastforce
qed simp_all

section \<open>UTF-8\<close>

fun utf8_tail :: "nat \<Rightarrow> nat list \<Rightarrow> nat list option" where
  "utf8_tail 0 bs = Some bs"
| "utf8_tail (Suc k) (b # bs) = (if 128 \<le> b \<and> b < 192 then utf8_tail k bs else None)"
| "utf8_tail (Suc k) [] = None"

lemma utf8_tail_length: "utf8_tail k bs = Some cs \<Longrightarrow> length cs \<le> length bs"
  by (induction k bs rule: utf8_tail.induct) (auto split: if_splits)

text \<open>Overlong forms, surrogates and values above U+10FFFF are refused.\<close>

definition utf8_lead :: "nat \<Rightarrow> nat list \<Rightarrow> nat option" where
  "utf8_lead b bs =
     (if b < 128 then Some 0
      else if 194 \<le> b \<and> b < 224 then Some 1
      else if b = 224 then (if bs \<noteq> [] \<and> 160 \<le> hd bs then Some 2 else None)
      else if b = 237 then (if bs \<noteq> [] \<and> hd bs < 160 then Some 2 else None)
      else if 225 \<le> b \<and> b < 240 then Some 2
      else if b = 240 then (if bs \<noteq> [] \<and> 144 \<le> hd bs then Some 3 else None)
      else if b = 244 then (if bs \<noteq> [] \<and> hd bs < 144 then Some 3 else None)
      else if 241 \<le> b \<and> b < 244 then Some 3 else None)"

function utf8_valid :: "nat list \<Rightarrow> bool" where
  "utf8_valid [] = True"
| "utf8_valid (b # bs) = (case utf8_lead b bs of
       None \<Rightarrow> False
     | Some k \<Rightarrow> (case utf8_tail k bs of None \<Rightarrow> False | Some cs \<Rightarrow> utf8_valid cs))"
  by pat_completeness auto
termination
  by (relation "measure length") (auto dest: utf8_tail_length)

lemma utf8_ascii: "list_all (\<lambda>b. b < 128) bs \<Longrightarrow> utf8_valid bs"
  by (induction bs) (auto simp: utf8_lead_def)

section \<open>The runtime\<close>

definition map_fst_opt :: "('a \<Rightarrow> 'b) \<Rightarrow> ('a \<times> 'c) option \<Rightarrow> ('b \<times> 'c) option" where
  "map_fst_opt f x = map_option (\<lambda>(a, c). (f a, c)) x"

definition read_delimited :: "bytes \<Rightarrow> (bytes \<times> bytes) option" where
  "read_delimited p = (case varint_dec 5 p of
       None \<Rightarrow> None
     | Some (n, q) \<Rightarrow> if n \<le> length q then Some (take n q, drop n q) else None)"

definition write_delimited :: "nat \<Rightarrow> bytes \<Rightarrow> bytes" where
  "write_delimited k s = varint_enc (8 * k + 2) @ varint_enc (length s) @ s"

definition read_fixed :: "nat \<Rightarrow> bytes \<Rightarrow> (bytes \<times> bytes) option" where
  "read_fixed n p = (if n \<le> length p then Some (take n p, drop n p) else None)"

definition skip_unknown :: "u32 \<Rightarrow> bytes \<Rightarrow> (bytes \<times> bytes) option" where
  "skip_unknown t p =
     map_fst_opt (\<lambda>v. varint_enc (unat t) @ v)
       (if t AND 7 = 0 then map_fst_opt (\<lambda>n. varint_enc (unat (word_of_nat n :: u64))) (varint_dec 10 p)
        else if t AND 7 = 1 then read_fixed 8 p
        else if t AND 7 = 2 then map_fst_opt (\<lambda>s. varint_enc (length s) @ s) (read_delimited p)
        else if t AND 7 = 5 then read_fixed 4 p
        else None)"

definition std_runtime :: pb_runtime where
  "std_runtime = \<lparr>
     rt_ReadTag = (\<lambda>p. map_fst_opt word_of_nat (varint_dec 5 p)),
     rt_ReadVarint32 = (\<lambda>p. map_fst_opt word_of_nat (varint_dec 10 p)),
     rt_ReadVarint64 = (\<lambda>p. map_fst_opt word_of_nat (varint_dec 10 p)),
     rt_ReadString = read_delimited,
     rt_ReadMessage = read_delimited,
     rt_ExpectTag = (\<lambda>t p. p \<noteq> [] \<and> hd p = char_of t),
     rt_VerifyUTF8 = (\<lambda>s. utf8_valid (map of_char s)),
     rt_ParseUnknown = skip_unknown,
     rt_WriteString = write_delimited,
     rt_WriteBytes = write_delimited,
     rt_WriteInt32 = (\<lambda>k v. varint_enc (8 * k) @ varint_enc (unat (scast v :: u64))),
     rt_WriteInt64 = (\<lambda>k v. varint_enc (8 * k) @ varint_enc (unat v)),
     rt_WriteBool = (\<lambda>k b. varint_enc (8 * k) @ varint_enc (if b then 1 else 0)),
     rt_WriteMessage = write_delimited,
     rt_StringSize = (\<lambda>s. length (varint_enc (length s)) + length s),
     rt_BytesSize = (\<lambda>s. length (varint_enc (length s)) + length s),
     rt_MessageSize = (\<lambda>n. length (varint_enc n) + n),
     rt_Int32SizePlusOne = (\<lambda>v. 1 + length (varint_enc (unat (scast v :: u64)))),
     rt_Int64SizePlusOne = (\<lambda>v. 1 + length (varint_enc (unat v))),
     rt_SerializeOk = (\<lambda>n. int n < 2 ^ 31)\<rparr>"

lemma field_tag_range:
  assumes "small_field k" and "w \<le> 2"
  shows "8 * k + w < 128" and "unat (field_tag k w) = 8 * k + w"
proof -
  show "8 * k + w < 128" using assms by (simp add: small_field_def)
  then show "unat (field_tag k w) = 8 * k + w"
    unfolding field_tag_def by (simp only: unat_of_nat) simp
qed

lemma field_tag_wire: "w \<le> 2 \<Longrightarrow> small_field k \<Longrightarrow> field_tag k w AND 7 = word_of_nat w"
proof -
  assume "w \<le> 2" and k: "small_field k"
  then have w: "w = 0 \<or> w = 1 \<or> w = 2" by arith
  have "k = 1 \<or> k = 2 \<or> k = 3 \<or> k = 4 \<or> k = 5 \<or> k = 6 \<or> k = 7 \<or> k = 8 \<or> k = 9 \<or> k = 10 \<or>
      k = 11 \<or> k = 12 \<or> k = 13 \<or> k = 14 \<or> k = 15"
    using k unfolding small_field_def by arith
  then show ?thesis using w by (elim disjE) (simp_all add: field_tag_def)
qed

lemma tag_read:
  assumes "small_field k" and "w \<le> 2"
  shows "varint_enc (8 * k + w) = [char_of (8 * k + w)]"
    and "map_fst_opt word_of_nat (varint_dec 5 (varint_enc (8 * k + w) @ r)) = Some (field_tag k w, r)"
proof -
  have small: "8 * k + w < 128" using field_tag_range [OF assms] by simp
  then show "varint_enc (8 * k + w) = [char_of (8 * k + w)]"
    by (simp add: varint_enc.simps [of "8 * k + w"])
  have "varint_dec 5 (varint_enc (8 * k + w) @ r) = Some (8 * k + w, r)"
    using small by (intro varint_roundtrip) simp_all
  then show "map_fst_opt word_of_nat (varint_dec 5 (varint_enc (8 * k + w) @ r)) = Some (field_tag k w, r)"
    by (simp add: map_fst_opt_def field_tag_def)
qed

lemma delimited_read: "length s < pb_limit \<Longrightarrow>
    read_delimited (varint_enc (length s) @ s @ r) = Some (s, r)"
  by (simp add: read_delimited_def varint_roundtrip pb_limit_def)

lemma varint10_read: "n < 2 ^ 64 \<Longrightarrow> varint_dec 10 (varint_enc n @ r) = Some (n, r)"
  by (rule varint_roundtrip) simp_all

lemma ucast_scast_i32: "ucast (scast (v :: i32) :: u64) = v"
  by (rule bit_word_eqI) (simp add: bit_simps)

lemma scast_ucast_i32: "(word_of_nat (unat (scast (v :: i32) :: u64)) :: u32) = v"
  by (simp add: ucast_scast_i32 flip: unsigned_of_nat)

lemma map_fst_opt_simps [simp]:
  "map_fst_opt f None = None" "map_fst_opt f (Some (a, c)) = Some (f a, c)"
  by (simp_all add: map_fst_opt_def)

lemma map_fst_opt_Some: "map_fst_opt f x = Some (b, c) \<longleftrightarrow> (\<exists>a. x = Some (a, c) \<and> b = f a)"
  by (auto simp: map_fst_opt_def)

lemma read_delimited_consumes: "read_delimited p = Some (s, q) \<Longrightarrow> length q < length p"
  by (fastforce simp: read_delimited_def split: option.splits if_splits dest: varint_dec_consumes)

lemma skip_consumes: "skip_unknown t p = Some (s, q) \<Longrightarrow> length q \<le> length p"
  by (auto simp: skip_unknown_def map_fst_opt_Some read_fixed_def split: if_splits
      dest: varint_dec_consumes read_delimited_consumes)

lemma skip_delimited: "small_field k \<Longrightarrow> length s < pb_limit \<Longrightarrow>
    skip_unknown (field_tag k 2) (varint_enc (length s) @ s @ r) = Some (write_delimited k s, r)"
  by (simp add: skip_unknown_def field_tag_wire delimited_read write_delimited_def field_tag_range)

lemma skip_varint: "small_field k \<Longrightarrow> n < 2 ^ 64 \<Longrightarrow>
    skip_unknown (field_tag k 0) (varint_enc n @ r) = Some (varint_enc (8 * k) @ varint_enc n, r)"
  using field_tag_range [of k 0] field_tag_wire [of 0 k]
  by (simp add: skip_unknown_def varint10_read unat_of_nat)

lemma unat_u64: "unat (x :: u64) < 2 ^ 64"
  using unsigned_less [of x] by simp

interpretation std: pb_wire std_runtime
proof (unfold_locales, goal_cases)
  case (1 k s r)
  then show ?case using tag_read [of k 2] delimited_read [of s r] skip_delimited [of k s r]
    by (simp add: std_runtime_def write_delimited_def)
next
  case (2 k s r)
  then show ?case using tag_read [of k 2] delimited_read [of s r] skip_delimited [of k s r]
    by (simp add: std_runtime_def write_delimited_def)
next
  case (3 k s r)
  then show ?case using tag_read [of k 2] delimited_read [of s r] skip_delimited [of k s r]
    by (simp add: std_runtime_def write_delimited_def)
next
  case (4 k v r)
  then show ?case
    using tag_read [of k 0] varint10_read [OF unat_u64, of "scast v"] skip_varint [OF _ unat_u64, of k "scast v" r]
    by (simp add: std_runtime_def ucast_scast_i32)
next
  case (5 k x r)
  then show ?case
    using tag_read [of k 0] varint10_read [OF unat_u64, of x] skip_varint [OF _ unat_u64, of k x r]
    by (simp add: std_runtime_def)
next
  case (6 k b r)
  then show ?case
    using tag_read [of k 0] varint10_read [of "if b then 1 else 0" r] skip_varint [of k "if b then 1 else 0" r]
    by (simp add: std_runtime_def)
qed (auto simp: std_runtime_def write_delimited_def tag_read(1) map_fst_opt_Some pb_limit_def list_all_iff
    tag_read(1) [where w = 0, simplified] tag_read(1) [where w = 2, simplified]
    varint_enc.simps [of "Suc 0"] varint_enc.simps [of 0]
    intro!: utf8_ascii dest: varint_dec_consumes read_delimited_consumes skip_consumes)

end
