(* ===== verification/Tcp_Connection.thy ===== *)
theory Tcp_Connection
  imports Rpc_Prelude
begin

text \<open>
  common/network.cpp, class \<open>TcpConnection\<close>: a message is sent as its length in four bytes,
  network byte order, followed by its bytes; a receiver takes the length first, refuses 0 and
  more than 1 MiB, and marks the connection dead on every failure.

  The socket is the environment: \<open>sock\<close> holds the results the coming \<open>::send\<close> calls return
  (any integers; a call returns at most the number of bytes it was given, a missing result is
  a call that never returns), the bytes the kernel has accepted, the bytes the peer sends
  before the stream ends, and whether the descriptor was closed. All theorems hold for every
  such environment.
\<close>

section \<open>State\<close>

record TcpConnection =
  tc_fd :: int
  tc_connected :: bool

record sock =
  sk_sends :: "int list"
  sk_tx :: bytes
  sk_rx :: bytes
  sk_closed :: bool

definition TcpConnection_new :: "int \<Rightarrow> TcpConnection" where
  "TcpConnection_new fd = \<lparr>tc_fd = fd, tc_connected = True\<rparr>"

text \<open>The largest message \<open>receive\<close> accepts.\<close>

definition max_message :: nat where
  "max_message = 1024 * 1024"

section \<open>Operations\<close>

text \<open>
  \<open>::send\<close> and the loop that sends the rest of the data. \<open>None\<close>: a call never returned.
\<close>

definition os_send :: "bytes \<Rightarrow> sock \<Rightarrow> (int \<times> sock) option" where
  "os_send buf s = (case sk_sends s of
       [] \<Rightarrow> None
     | r # rs \<Rightarrow>
         let n = min r (int (length buf))
         in Some (n, s\<lparr>sk_sends := rs, sk_tx := sk_tx s @ take (nat n) buf\<rparr>))"

function send_loop :: "bytes \<Rightarrow> nat \<Rightarrow> sock \<Rightarrow> (bool \<times> sock) option" where
  "send_loop data total_sent s =
     (if total_sent < length data then
        case os_send (drop total_sent data) s of
          None \<Rightarrow> None
        | Some (sent, s') \<Rightarrow>
            if sent \<le> 0 then Some (False, s') else send_loop data (total_sent + nat sent) s'
      else Some (True, s))"
  by pat_completeness auto
termination
  by (relation "measure (\<lambda>(data, total_sent, s). length data - total_sent)") auto

declare send_loop.simps [simp del]

definition TcpConnection_send ::
    "bytes \<Rightarrow> TcpConnection \<Rightarrow> sock \<Rightarrow> (bool \<times> TcpConnection \<times> sock) option" where
  "TcpConnection_send data c s =
     (if \<not> tc_connected c then Some (False, c, s)
      else case os_send (be32 (word_of_nat (length data))) s of
        None \<Rightarrow> None
      | Some (n, s1) \<Rightarrow>
          if n \<noteq> 4 then Some (False, c\<lparr>tc_connected := False\<rparr>, s1)
          else case send_loop data 0 s1 of
            None \<Rightarrow> None
          | Some (ok, s2) \<Rightarrow> Some (ok, c\<lparr>tc_connected := ok\<rparr>, s2))"

text \<open>
  \<open>recv\<close> with \<open>MSG_WAITALL\<close>: all the bytes asked for, or fewer if the stream ends first.
\<close>

definition os_recv_all :: "nat \<Rightarrow> sock \<Rightarrow> bytes \<times> sock" where
  "os_recv_all n s = (take n (sk_rx s), s\<lparr>sk_rx := drop n (sk_rx s)\<rparr>)"

definition TcpConnection_receive ::
    "TcpConnection \<Rightarrow> sock \<Rightarrow> bytes \<times> TcpConnection \<times> sock" where
  "TcpConnection_receive c s =
     (if \<not> tc_connected c then ([], c, s)
      else
        let (hdr, s1) = os_recv_all 4 s in
        if length hdr \<noteq> 4 then ([], c\<lparr>tc_connected := False\<rparr>, s1)
        else
          let len = be32_val hdr in
          if len = 0 \<or> len > 1024 * 1024 then ([], c\<lparr>tc_connected := False\<rparr>, s1)
          else
            let (data, s2) = os_recv_all (unat len) s1 in
            if length data \<noteq> unat len then ([], c\<lparr>tc_connected := False\<rparr>, s2)
            else (data, c, s2))"

definition TcpConnection_close :: "TcpConnection \<Rightarrow> sock \<Rightarrow> TcpConnection \<times> sock" where
  "TcpConnection_close c s =
     (if tc_connected c then (c\<lparr>tc_connected := False\<rparr>, s\<lparr>sk_closed := True\<rparr>) else (c, s))"

text \<open>
  \<open>TcpClient\<close>: the connection is a \<open>shared_ptr\<close> that is null until \<open>connect\<close> succeeds. \<open>fd\<close> is
  the descriptor of the new socket, \<open>None\<close> if \<open>socket\<close> or \<open>::connect\<close> failed, and \<open>s\<close> its
  environment.
\<close>

record TcpClient =
  tcl_connection :: "(TcpConnection \<times> sock) option"

definition TcpClient_new :: TcpClient where
  "TcpClient_new = \<lparr>tcl_connection = None\<rparr>"

definition TcpClient_connect :: "int option \<Rightarrow> sock \<Rightarrow> TcpClient \<Rightarrow> bool \<times> TcpClient" where
  "TcpClient_connect new_fd s c = (case new_fd of
       None \<Rightarrow> (False, c)
     | Some fd \<Rightarrow> (True, c\<lparr>tcl_connection := Some (TcpConnection_new fd, s)\<rparr>))"

text \<open>The old connection, closed, and the client without one.\<close>

definition TcpClient_disconnect :: "TcpClient \<Rightarrow> (TcpConnection \<times> sock) option \<times> TcpClient" where
  "TcpClient_disconnect c =
     (map_option (\<lambda>(conn, s). TcpConnection_close conn s) (tcl_connection c),
      c\<lparr>tcl_connection := None\<rparr>)"

definition TcpClient_send :: "bytes \<Rightarrow> TcpClient \<Rightarrow> (bool \<times> TcpClient) option" where
  "TcpClient_send data c = (case tcl_connection c of
       None \<Rightarrow> Some (False, c)
     | Some (conn, s) \<Rightarrow>
         map_option (\<lambda>(ok, conn, s). (ok, c\<lparr>tcl_connection := Some (conn, s)\<rparr>))
           (TcpConnection_send data conn s))"

definition TcpClient_receive :: "TcpClient \<Rightarrow> bytes \<times> TcpClient" where
  "TcpClient_receive c = (case tcl_connection c of
       None \<Rightarrow> ([], c)
     | Some (conn, s) \<Rightarrow>
         let (data, conn, s) = TcpConnection_receive conn s
         in (data, c\<lparr>tcl_connection := Some (conn, s)\<rparr>))"

definition TcpClient_isConnected :: "TcpClient \<Rightarrow> bool" where
  "TcpClient_isConnected c = (case tcl_connection c of
       None \<Rightarrow> False | Some (conn, s) \<Rightarrow> tc_connected conn)"

section \<open>Frames\<close>

text \<open>The bytes of one message on the wire.\<close>

definition frame :: "bytes \<Rightarrow> bytes" where
  "frame data = be32 (word_of_nat (length data)) @ data"

lemma length_frame [byte_simps]: "length (frame data) = 4 + length data"
  by (simp add: frame_def)

lemma frame_not_Nil [simp]: "frame data \<noteq> []"
  using length_frame [of data] by (cases "frame data") auto

lemma os_send_Some:
  "os_send buf s = Some (n, s') \<Longrightarrow>
   n \<le> int (length buf) \<and> s' = s\<lparr>sk_sends := tl (sk_sends s), sk_tx := sk_tx s @ take (nat n) buf\<rparr>"
  by (auto simp: os_send_def Let_def split: list.splits)

text \<open>The loop appends a prefix of the rest, and all of it when it succeeds.\<close>

lemma send_loop_tx:
  "send_loop data total_sent s = Some (ok, s') \<Longrightarrow>
   \<exists>n. sk_tx s' = sk_tx s @ take n (drop total_sent data) \<and> (ok \<longleftrightarrow> total_sent + n \<ge> length data) \<and>
       sk_rx s' = sk_rx s"
proof (induction data total_sent s arbitrary: s' rule: send_loop.induct)
  case (1 data total_sent s)
  show ?case
  proof (cases "total_sent < length data")
    case False
    then show ?thesis using 1 by (auto simp: send_loop.simps [of data total_sent s] intro: exI [of _ 0])
  next
    case True
    then obtain sent s1 where s1: "os_send (drop total_sent data) s = Some (sent, s1)"
      using 1(2) by (auto simp: send_loop.simps [of data total_sent s] split: option.splits)
    note s1' = os_send_Some [OF s1]
    show ?thesis
    proof (cases "sent \<le> 0")
      case True
      then show ?thesis using 1(2) s1 s1' \<open>total_sent < length data\<close>
        by (auto simp: send_loop.simps [of data total_sent s] intro!: exI [of _ 0])
    next
      case False
      then have "send_loop data (total_sent + nat sent) s1 = Some (ok, s')"
        using 1(2) s1 True by (simp add: send_loop.simps [of data total_sent s])
      then obtain n where n: "sk_tx s' = sk_tx s1 @ take n (drop (total_sent + nat sent) data)"
          "ok \<longleftrightarrow> total_sent + nat sent + n \<ge> length data" "sk_rx s' = sk_rx s1"
        using 1(1) True s1 False by (metis (no_types, lifting))
      have "take (nat sent) (drop total_sent data) @ take n (drop (total_sent + nat sent) data) =
          take (nat sent + n) (drop total_sent data)"
        unfolding take_add by (simp add: add.commute)
      then show ?thesis using n s1' by (intro exI [of _ "nat sent + n"]) (simp add: add.assoc)
    qed
  qed
qed

text \<open>With results that accept at least one byte per call, the loop returns.\<close>

lemma send_loop_returns:
  "list_all (\<lambda>r. 0 < r) (sk_sends s) \<Longrightarrow> length data - total_sent \<le> length (sk_sends s) \<Longrightarrow>
   \<exists>s'. send_loop data total_sent s = Some (True, s')"
proof (induction data total_sent s rule: send_loop.induct)
  case (1 data total_sent s)
  show ?case
  proof (cases "total_sent < length data")
    case True
    then obtain r rs where rs: "sk_sends s = r # rs" using "1.prems"(2) by (cases "sk_sends s") auto
    let ?n = "min r (int (length data - total_sent))"
    obtain s1 where s1: "os_send (drop total_sent data) s = Some (?n, s1)" "sk_sends s1 = rs"
      using rs by (simp add: os_send_def Let_def)
    have "0 < ?n" using rs "1.prems"(1) True by simp
    then have "1 \<le> nat ?n" by linarith
    then have "length data - (total_sent + nat ?n) \<le> length rs"
      using rs "1.prems"(2) by (simp only: list.size)
    moreover have "\<not> ?n \<le> 0" using \<open>0 < ?n\<close> by linarith
    ultimately have "\<exists>s'. send_loop data (total_sent + nat ?n) s1 = Some (True, s')"
      using "1.IH" [OF True s1(1) refl] s1(2) "1.prems"(1) rs by simp_all
    then show ?thesis using True s1(1) \<open>0 < ?n\<close> by (simp add: send_loop.simps [of data total_sent s])
  qed (simp add: send_loop.simps)
qed

lemma be32_word_of_nat [simp]: "n < 2 ^ 32 \<Longrightarrow> unat (word_of_nat n :: u32) = n"
  by (simp add: unat_of_nat)

lemma receive_frame:
  assumes "tc_connected c" and "sk_rx s = frame data @ rest"
    and "data \<noteq> []" and "length data \<le> max_message"
  shows "TcpConnection_receive c s = (data, c, s\<lparr>sk_rx := rest\<rparr>)"
proof -
  let ?n = "length data"
  have n: "?n < 2 ^ 32" "0 < ?n" "?n \<le> 1048576"
    using assms(3,4) by (simp_all add: max_message_def)
  have u: "unat (word_of_nat ?n :: u32) = ?n" using n(1) by (rule be32_word_of_nat)
  have "(word_of_nat ?n :: u32) \<noteq> 0"
    using u n(2) by (metis less_numeral_extra(3) unsigned_0)
  moreover have "\<not> (word_of_nat ?n :: u32) > 1024 * 1024"
    using u n(3) by (simp add: word_less_nat_alt)
  ultimately show ?thesis
    using assms(1,2) u by (simp add: TcpConnection_receive_def os_recv_all_def frame_def)
qed

lemma receive_empty:
  assumes "TcpConnection_receive c s = (data, c', s')"
  shows "data = [] \<longleftrightarrow> \<not> tc_connected c'"
proof (cases "tc_connected c \<and> 4 \<le> length (sk_rx s)")
  case True
  define len where "len = be32_val (take 4 (sk_rx s))"
  let ?d = "take (unat len) (drop 4 (sk_rx s))"
  have full: "?d \<noteq> []" if "len \<noteq> 0" and "length ?d = unat len"
    using that by (metis list.size(3) unat_eq_zero)
  have eq: "TcpConnection_receive c s =
      (if len = 0 \<or> len > 1024 * 1024
       then ([], c\<lparr>tc_connected := False\<rparr>, s\<lparr>sk_rx := drop 4 (sk_rx s)\<rparr>)
       else if length ?d \<noteq> unat len
       then ([], c\<lparr>tc_connected := False\<rparr>, s\<lparr>sk_rx := drop (unat len) (drop 4 (sk_rx s))\<rparr>)
       else (?d, c, s\<lparr>sk_rx := drop (unat len) (drop 4 (sk_rx s))\<rparr>))"
    unfolding TcpConnection_receive_def os_recv_all_def Let_def prod.case len_def
    using True by simp
  consider (bad) "data = []" and "c' = c\<lparr>tc_connected := False\<rparr>"
    | (good) "len \<noteq> 0" and "length ?d = unat len" and "data = ?d" and "c' = c"
    using assms unfolding eq by (simp only: prod.inject split: if_splits) blast+
  then show ?thesis
  proof cases
    case bad
    then show ?thesis by simp
  next
    case good
    have "data \<noteq> []" using full [OF good(1,2)] unfolding good(3) .
    then show ?thesis using True good(4) by blast
  qed
next
  case False
  then show ?thesis using assms
    by (auto simp: TcpConnection_receive_def os_recv_all_def split: if_splits)
qed

text \<open>A socket that takes the length and at least one byte with every later call.\<close>

definition takes :: "nat \<Rightarrow> sock \<Rightarrow> bool" where
  "takes n s \<longleftrightarrow> (case sk_sends s of [] \<Rightarrow> False | r # rs \<Rightarrow> 4 \<le> r \<and> list_all (\<lambda>r. 0 < r) rs \<and> n \<le> length rs)"

lemma send_whole:
  assumes "tc_connected c" and "takes (length data) s"
  obtains s' where "TcpConnection_send data c s = Some (True, c, s')" and "sk_tx s' = sk_tx s @ frame data"
    and "sk_rx s' = sk_rx s"
proof -
  obtain r rs where r: "sk_sends s = r # rs" "4 \<le> r" "list_all (\<lambda>r. 0 < r) rs" "length data \<le> length rs"
    using assms(2) by (auto simp: takes_def split: list.splits)
  let ?b = "be32 (word_of_nat (length data))"
  define s1 where "s1 = s\<lparr>sk_sends := rs, sk_tx := sk_tx s @ ?b\<rparr>"
  have s1: "os_send ?b s = Some (4, s1)" "sk_sends s1 = rs" "sk_tx s1 = sk_tx s @ ?b" "sk_rx s1 = sk_rx s"
    using r(1,2) by (simp_all add: os_send_def Let_def s1_def)
  obtain s2 where s2: "send_loop data 0 s1 = Some (True, s2)"
    using send_loop_returns [of s1 data 0] r(3,4) s1(2) by auto
  obtain n where n: "sk_tx s2 = sk_tx s1 @ take n data" "n \<ge> length data" "sk_rx s2 = sk_rx s1"
    using send_loop_tx [OF s2] by auto
  have "TcpConnection_send data c s = Some (True, c, s2)"
    using assms(1) s1(1) s2 by (simp add: TcpConnection_send_def)
  then show ?thesis using n s1 by (intro that [of s2]) (simp_all add: frame_def)
qed

end
