(* ===== verification/Service_Table.thy ===== *)
theory Service_Table
  imports Rpc_Prelude
begin

text \<open>
  The table of service instances that registry/registry_server.cpp and
  registry/raft_state_machine.cpp both keep (an \<open>unordered_map\<close> from service names to vectors
  of \<open>ServiceInstance\<close>), and its abstract view as a map from (service, host, port) to the time
  of the last heartbeat.

  A \<open>steady_clock::time_point\<close> is the integer number of nanoseconds since the clock's epoch;
  the clock's 64-bit representation does not overflow in 292 years of uptime.
\<close>

section \<open>Data\<close>

record ServiceInstance =
  si_host :: bytes
  si_port :: i32
  si_last_heartbeat :: int

type_synonym services = "(bytes \<times> ServiceInstance list) list"

abbreviation at_endpoint :: "bytes \<Rightarrow> i32 \<Rightarrow> ServiceInstance \<Rightarrow> bool" where
  "at_endpoint h p i \<equiv> si_host i = h \<and> si_port i = p"

text \<open>\<open>services_[name]\<close>: the vector of the name, a new empty one if there is none.\<close>

definition instances_of :: "services \<Rightarrow> bytes \<Rightarrow> ServiceInstance list" where
  "instances_of sv name = (case map_of sv name of None \<Rightarrow> [] | Some is \<Rightarrow> is)"

section \<open>The abstract view\<close>

type_synonym endpoint = "bytes \<times> bytes \<times> i32"

abbreviation key_of :: "ServiceInstance \<Rightarrow> bytes \<times> i32" where
  "key_of i \<equiv> (si_host i, si_port i)"

definition endpoints :: "ServiceInstance list \<Rightarrow> (bytes \<times> i32) \<rightharpoonup> int" where
  "endpoints is = map_of (map (\<lambda>i. (key_of i, si_last_heartbeat i)) is)"

definition registered :: "services \<Rightarrow> endpoint \<rightharpoonup> int" where
  "registered sv = (\<lambda>(name, ep). endpoints (instances_of sv name) ep)"

definition table_ok :: "services \<Rightarrow> bool" where
  "table_ok sv \<longleftrightarrow> distinct (map fst sv) \<and>
     (\<forall>(name, is) \<in> set sv. is \<noteq> [] \<and> distinct (map key_of is))"

lemma table_ok_instances: "table_ok sv \<Longrightarrow> distinct (map key_of (instances_of sv name))"
  by (auto simp: table_ok_def instances_of_def split: option.splits dest!: map_of_SomeD)

lemma table_ok_lookup:
  "table_ok sv \<Longrightarrow> map_of sv name = Some is \<Longrightarrow>
   is \<noteq> [] \<and> distinct (map key_of is) \<and> instances_of sv name = is"
  by (auto simp: table_ok_def instances_of_def dest!: map_of_SomeD)

lemma table_ok_Nil [simp]: "table_ok []"
  by (simp add: table_ok_def)

lemma registered_Nil [simp]: "registered [] = Map.empty"
  by (simp add: registered_def instances_of_def endpoints_def fun_eq_iff)

lemma set_AList_update: "set (AList.update k v al) \<subseteq> insert (k, v) (set al)"
  by (induction al) auto

lemma table_ok_update:
  assumes "table_ok sv" and "is \<noteq> []" and "distinct (map key_of is)"
  shows "table_ok (AList.update n is sv)"
  unfolding table_ok_def
proof (intro conjI ballI)
  show "distinct (map fst (AList.update n is sv))"
    using assms(1) by (simp add: table_ok_def distinct_update)
next
  fix x
  assume "x \<in> set (AList.update n is sv)"
  then have "x = (n, is) \<or> x \<in> set sv" using set_AList_update [of n "is" sv] by blast
  then show "case x of (name, is) \<Rightarrow> is \<noteq> [] \<and> distinct (map key_of is)"
  proof
    assume "x = (n, is)"
    then show ?thesis using assms(2,3) by simp
  next
    assume "x \<in> set sv"
    then show ?thesis using assms(1) by (simp add: table_ok_def)
  qed
qed

lemma instances_of_update [table_simps]:
  "instances_of (AList.update n is sv) = (instances_of sv)(n := is)"
  by (auto simp: instances_of_def table_simps)

lemma registered_update:
  "registered (AList.update n is sv) (m, ep) =
   (if m = n then endpoints is ep else registered sv (m, ep))"
  by (simp add: registered_def table_simps)

lemma endpoints_update_first:
  assumes "\<And>i. key_of (f i) = key_of i" and "\<And>i. P i \<longleftrightarrow> key_of i = k"
    and "\<And>i. key_of i = k \<Longrightarrow> si_last_heartbeat (f i) = t"
  shows "endpoints (update_first P f is) =
    (if k \<in> key_of ` set is then (endpoints is)(k \<mapsto> t) else endpoints is)"
  unfolding endpoints_def by (rule map_of_update_first) (use assms in auto)

lemma endpoints_snoc:
  "key_of i \<notin> key_of ` set is \<Longrightarrow>
   endpoints (is @ [i]) = (endpoints is)(key_of i \<mapsto> si_last_heartbeat i)"
  by (induction "is") (auto simp: endpoints_def fun_upd_twist)

lemma endpoints_eq_None: "endpoints is k = None \<longleftrightarrow> k \<notin> key_of ` set is"
  by (force simp: endpoints_def map_of_eq_None_iff)

lemma endpoints_Some:
  "distinct (map key_of is) \<Longrightarrow> i \<in> set is \<Longrightarrow> endpoints is (key_of i) = Some (si_last_heartbeat i)"
  unfolding endpoints_def by (rule map_of_is_SomeI) (auto simp: comp_def)

lemma endpoints_SomeD:
  "endpoints is (h, p) = Some t \<Longrightarrow>
   \<exists>i \<in> set is. si_host i = h \<and> si_port i = p \<and> si_last_heartbeat i = t"
  by (force simp: endpoints_def dest: map_of_SomeD)

lemma endpoints_filter:
  "distinct (map key_of is) \<Longrightarrow>
   endpoints (filter (\<lambda>i. P (key_of i) (si_last_heartbeat i)) is) k =
     (case endpoints is k of None \<Rightarrow> None | Some t \<Rightarrow> if P k t then Some t else None)"
proof (induction "is")
  case (Cons i "is")
  have "endpoints is (key_of i) = None" using Cons.prems by (simp add: endpoints_eq_None)
  then show ?case using Cons by (auto simp: endpoints_def)
qed (simp add: endpoints_def)

lemma list_ex_at_endpoint: "list_ex (at_endpoint h p) is \<longleftrightarrow> (h, p) \<in> key_of ` set is"
  by (force simp: list_ex_iff)

lemma endpoints_touch:
  "endpoints (update_first (at_endpoint h p) (\<lambda>i. i\<lparr>si_last_heartbeat := t\<rparr>) is) =
     (if (h, p) \<in> key_of ` set is then (endpoints is)((h, p) \<mapsto> t) else endpoints is)"
  by (rule endpoints_update_first) auto

lemma keys_touch:
  "map key_of (update_first (at_endpoint h p) (\<lambda>i. i\<lparr>si_last_heartbeat := t\<rparr>) is) = map key_of is"
  by (rule map_update_first) simp

lemma touch_absent:
  "(h, p) \<notin> key_of ` set is \<Longrightarrow> update_first (at_endpoint h p) f is = is"
  by (rule update_first_id) force

text \<open>Refreshing one instance of one service in the table.\<close>

lemma registered_touch:
  assumes "(h, p) \<in> key_of ` set (instances_of sv n)"
  shows "registered (AList.update n (update_first (at_endpoint h p)
      (\<lambda>i. i\<lparr>si_last_heartbeat := t\<rparr>) (instances_of sv n)) sv) = (registered sv)((n, h, p) \<mapsto> t)"
proof (rule ext)
  fix k :: endpoint
  obtain m ep where k: "k = (m, ep)" by (cases k) auto
  show "registered (AList.update n (update_first (at_endpoint h p)
      (\<lambda>i. i\<lparr>si_last_heartbeat := t\<rparr>) (instances_of sv n)) sv) k =
      ((registered sv)((n, h, p) \<mapsto> t)) k"
    unfolding k registered_update endpoints_touch using assms by (simp add: registered_def)
qed

lemma registered_snoc:
  assumes "key_of i \<notin> key_of ` set (instances_of sv n)"
  shows "registered (AList.update n (instances_of sv n @ [i]) sv) =
    (registered sv)((n, key_of i) \<mapsto> si_last_heartbeat i)"
proof (rule ext)
  fix k :: endpoint
  obtain m ep where k: "k = (m, ep)" by (cases k) auto
  show "registered (AList.update n (instances_of sv n @ [i]) sv) k =
      ((registered sv)((n, key_of i) \<mapsto> si_last_heartbeat i)) k"
    unfolding k registered_update using assms by (simp add: endpoints_snoc registered_def)
qed

lemma registered_eq_None:
  "registered sv (n, h, p) = None \<longleftrightarrow> (h, p) \<notin> key_of ` set (instances_of sv n)"
  by (simp add: registered_def endpoints_eq_None)

text \<open>Dropping instances everywhere, and then the services without instances.\<close>

definition prune :: "(ServiceInstance \<Rightarrow> bool) \<Rightarrow> services \<Rightarrow> services" where
  "prune keep sv =
     filter (\<lambda>(_, is). is \<noteq> []) (map (\<lambda>(name, is). (name, filter keep is)) sv)"

lemma instances_of_prune:
  assumes "distinct (map fst sv)"
  shows "instances_of (prune keep sv) name = filter keep (instances_of sv name)"
proof -
  have "distinct (map fst (map (\<lambda>(name, is). (name, filter keep is)) sv))" using assms by simp
  note map_of_filter_val [OF this, of "\<lambda>is. is \<noteq> []"]
  then show ?thesis
    by (simp add: instances_of_def prune_def map_of_map_val split: option.splits)
qed

lemma distinct_key_filter: "distinct (map key_of is) \<Longrightarrow> distinct (map key_of (filter P is))"
  by (induction "is") auto

lemma table_ok_prune: "table_ok sv \<Longrightarrow> table_ok (prune keep sv)"
  by (auto simp: table_ok_def prune_def intro!: distinct_map_fst_filter distinct_key_filter)

lemma registered_prune:
  assumes "table_ok sv"
  shows "registered (prune (\<lambda>i. P (key_of i) (si_last_heartbeat i)) sv) (n, k) =
     (case registered sv (n, k) of None \<Rightarrow> None | Some t \<Rightarrow> if P k t then Some t else None)"
  using endpoints_filter [OF table_ok_instances [OF assms], of P n k] assms
  by (simp add: registered_def table_ok_def instances_of_prune)

end
