(* ===== verification/Registry_Interface.thy ===== *)
theory Registry_Interface
  imports Service_Table
begin

text \<open>
  What a service registry promises its clients, as a locale over the abstract view of
  Service_Table: registering makes an instance known, a heartbeat refreshes a known instance
  and no other, a check at time \<open>now\<close> forgets exactly the instances without a heartbeat for
  more than 30 seconds. Every lemma is about arbitrary sequences of these operations. The
  locale is interpreted on RegistryServer (Registry_Server) and, extended by the removal of an
  instance, on RegistryStateMachine (Registry_State_Machine).
\<close>

datatype registry_op =
    Register bytes bytes i32 int
  | Heartbeat bytes bytes i32 int
  | Expire int

section \<open>Operations on the view\<close>

definition expired :: "int \<Rightarrow> int \<Rightarrow> bool" where
  "expired now t \<longleftrightarrow> now - t > seconds 30"

definition view_expire :: "int \<Rightarrow> (endpoint \<rightharpoonup> int) \<Rightarrow> (endpoint \<rightharpoonup> int)" where
  "view_expire now r = (\<lambda>k. case r k of
       None \<Rightarrow> None | Some t \<Rightarrow> if expired now t then None else Some t)"

definition view_heartbeat :: "endpoint \<Rightarrow> int \<Rightarrow> (endpoint \<rightharpoonup> int) \<Rightarrow> (endpoint \<rightharpoonup> int)" where
  "view_heartbeat k t r = (if r k = None then r else r(k \<mapsto> t))"

fun view_op :: "registry_op \<Rightarrow> (endpoint \<rightharpoonup> int) \<Rightarrow> (endpoint \<rightharpoonup> int)" where
  "view_op (Register n h p t) r = r((n, h, p) \<mapsto> t)"
| "view_op (Heartbeat n h p t) r = view_heartbeat (n, h, p) t r"
| "view_op (Expire now) r = view_expire now r"

text \<open>The instance and time an operation reports, if it reports one.\<close>

fun touches :: "endpoint \<Rightarrow> registry_op \<Rightarrow> bool" where
  "touches k (Register n h p t) \<longleftrightarrow> k = (n, h, p)"
| "touches k (Heartbeat n h p t) \<longleftrightarrow> k = (n, h, p)"
| "touches k (Expire now) \<longleftrightarrow> False"

fun op_time :: "registry_op \<Rightarrow> int" where
  "op_time (Register n h p t) = t"
| "op_time (Heartbeat n h p t) = t"
| "op_time (Expire now) = now"

lemma view_op_other:
  "\<not> touches k op \<Longrightarrow> view_op op r k = None \<or> view_op op r k = r k"
  by (cases op) (auto simp: view_heartbeat_def view_expire_def split: option.splits)

lemma view_op_touches:
  "touches k op \<Longrightarrow> r k = Some t \<Longrightarrow> view_op op r k = Some (op_time op)"
  by (cases op) (auto simp: view_heartbeat_def)

lemma view_op_None:
  "r k = None \<Longrightarrow> view_op op r k = Some t \<Longrightarrow> \<exists>n h p. op = Register n h p t \<and> k = (n, h, p)"
  by (cases op) (auto simp: view_heartbeat_def view_expire_def split: if_splits)

lemma view_op_time:
  "view_op op r k = Some t \<Longrightarrow> r k = Some t \<or> touches k op \<and> op_time op = t"
  by (cases op) (auto simp: view_heartbeat_def view_expire_def split: if_splits option.splits)

text \<open>An instance survives while no check finds it expired.\<close>

lemma view_alive:
  "\<exists>t1 \<ge> t. r k = Some t1 \<Longrightarrow> \<forall>op \<in> set ops. (touches k op \<longrightarrow> t \<le> op_time op) \<Longrightarrow>
   \<forall>now. Expire now \<in> set ops \<longrightarrow> \<not> expired now t \<Longrightarrow>
   \<exists>t' \<ge> t. fold view_op ops r k = Some t'"
proof (induction ops arbitrary: r)
  case (Cons op ops)
  obtain t1 where t1: "t \<le> t1" "r k = Some t1" using Cons.prems(1) by blast
  have "\<exists>t2 \<ge> t. view_op op r k = Some t2"
    using t1 Cons.prems(2,3)
    by (cases op) (auto simp: view_heartbeat_def view_expire_def expired_def)
  then show ?case using Cons.IH [of "view_op op r"] Cons.prems(2,3) by simp
qed simp

text \<open>An instance that nobody reports is gone after the first check that finds it expired.\<close>

lemma view_gone:
  "r k = None \<or> r k = Some t \<Longrightarrow> \<forall>op \<in> set ops. \<not> touches k op \<Longrightarrow>
   r k = None \<or> (\<exists>now. Expire now \<in> set ops \<and> expired now t) \<Longrightarrow>
   fold view_op ops r k = None"
proof (induction ops arbitrary: r)
  case (Cons op ops)
  have other: "view_op op r k = None \<or> view_op op r k = r k"
    using Cons.prems(2) by (simp add: view_op_other)
  have "view_op op r k = None" if "op = Expire now" "expired now t" for now
    using that Cons.prems(1) by (auto simp: view_expire_def)
  then have "view_op op r k = None \<or> (\<exists>now. Expire now \<in> set ops \<and> expired now t)"
    using Cons.prems(3) other by auto
  then show ?case using Cons.IH [of "view_op op r"] other Cons.prems(1,2) by auto
qed auto

text \<open>Only a registration makes an instance known.\<close>

lemma view_registered:
  "fold view_op ops Map.empty k = Some t \<Longrightarrow>
   (\<exists>op \<in> set ops. touches k op \<and> op_time op = t) \<and>
   (\<exists>n h p t0. k = (n, h, p) \<and> Register n h p t0 \<in> set ops)"
proof (induction ops arbitrary: t rule: rev_induct)
  case (snoc op ops)
  let ?r = "fold view_op ops Map.empty"
  have step: "view_op op ?r k = Some t" using snoc.prems by simp
  show ?case
  proof (cases "?r k")
    case None
    then show ?thesis using view_op_None [OF _ step] by fastforce
  next
    case (Some t0)
    then show ?thesis using snoc.IH [OF Some] view_op_time [OF step] snoc.IH [of t] by fastforce
  qed
qed simp

section \<open>The interface\<close>

fun do_op :: "(bytes \<Rightarrow> bytes \<Rightarrow> i32 \<Rightarrow> int \<Rightarrow> 's \<Rightarrow> 's) \<Rightarrow> (bytes \<Rightarrow> bytes \<Rightarrow> i32 \<Rightarrow> int \<Rightarrow> 's \<Rightarrow> 's) \<Rightarrow>
    (int \<Rightarrow> 's \<Rightarrow> 's) \<Rightarrow> registry_op \<Rightarrow> 's \<Rightarrow> 's" where
  "do_op reg hb exp (Register n h p t) s = reg n h p t s"
| "do_op reg hb exp (Heartbeat n h p t) s = hb n h p t s"
| "do_op reg hb exp (Expire now) s = exp now s"

locale service_registry =
  fixes initial :: 's
    and register :: "bytes \<Rightarrow> bytes \<Rightarrow> i32 \<Rightarrow> int \<Rightarrow> 's \<Rightarrow> 's"
    and heartbeat :: "bytes \<Rightarrow> bytes \<Rightarrow> i32 \<Rightarrow> int \<Rightarrow> 's \<Rightarrow> 's"
    and expire :: "int \<Rightarrow> 's \<Rightarrow> 's"
    and view :: "'s \<Rightarrow> endpoint \<rightharpoonup> int"
    and ok :: "'s \<Rightarrow> bool"
  assumes ok_initial: "ok initial"
    and ok_register: "ok s \<Longrightarrow> ok (register n h p t s)"
    and ok_heartbeat: "ok s \<Longrightarrow> ok (heartbeat n h p t s)"
    and ok_expire: "ok s \<Longrightarrow> ok (expire now s)"
    and view_initial: "view initial = Map.empty"
    and view_register: "ok s \<Longrightarrow> view (register n h p t s) = (view s)((n, h, p) \<mapsto> t)"
    and view_heartbeat: "ok s \<Longrightarrow> view (heartbeat n h p t s) = view_heartbeat (n, h, p) t (view s)"
    and view_expire: "ok s \<Longrightarrow> view (expire now s) = view_expire now (view s)"
begin

abbreviation exec :: "registry_op list \<Rightarrow> 's \<Rightarrow> 's" where
  "exec \<equiv> fold (do_op register heartbeat expire)"

lemma ok_op: "ok s \<Longrightarrow> ok (do_op register heartbeat expire op s)"
  by (cases op) (simp_all add: ok_register ok_heartbeat ok_expire)

lemma view_do_op: "ok s \<Longrightarrow> view (do_op register heartbeat expire op s) = view_op op (view s)"
  by (cases op) (simp_all add: view_register view_heartbeat view_expire)

lemma ok_exec: "ok s \<Longrightarrow> ok (exec ops s)"
  by (induction ops arbitrary: s) (simp_all add: ok_op)

lemma view_exec: "ok s \<Longrightarrow> view (exec ops s) = fold view_op ops (view s)"
  by (induction ops arbitrary: s) (simp_all add: ok_op view_do_op)

lemma view_run: "view (exec ops initial) = fold view_op ops Map.empty"
  by (simp add: view_exec ok_initial view_initial)

lemma alive:
  assumes "ok s" and "view s k = Some t"
    and "\<forall>op \<in> set ops. touches k op \<longrightarrow> t \<le> op_time op"
    and "\<forall>now. Expire now \<in> set ops \<longrightarrow> \<not> expired now t"
  shows "\<exists>t' \<ge> t. view (exec ops s) k = Some t'"
  using view_alive [of t "view s" k ops] assms by (auto simp: view_exec)

lemma gone:
  assumes "ok s" and "view s k = Some t" and "\<forall>op \<in> set ops. \<not> touches k op"
    and "Expire now \<in> set ops" and "expired now t"
  shows "view (exec ops s) k = None"
  using view_gone [of "view s" k t ops] assms by (auto simp: view_exec)

lemma known_registered:
  "view (exec ops initial) k = Some t \<Longrightarrow>
   (\<exists>op \<in> set ops. touches k op \<and> op_time op = t) \<and>
   (\<exists>n h p t0. k = (n, h, p) \<and> Register n h p t0 \<in> set ops)"
  unfolding view_run by (rule view_registered)

end

text \<open>A registry from which instances can also be removed.\<close>

locale unregistering_registry = service_registry +
  fixes unregister :: "bytes \<Rightarrow> bytes \<Rightarrow> i32 \<Rightarrow> 'a \<Rightarrow> 'a"
  assumes ok_unregister: "ok s \<Longrightarrow> ok (unregister n h p s)"
    and view_unregister: "ok s \<Longrightarrow> view (unregister n h p s) = (view s)((n, h, p) := None)"
begin

lemma unregister_heartbeat:
  "ok s \<Longrightarrow> view (heartbeat n h p t (unregister n h p s)) = view (unregister n h p s)"
  by (simp add: view_heartbeat ok_unregister view_unregister Registry_Interface.view_heartbeat_def)

lemma unregister_register:
  "ok s \<Longrightarrow> view (register n h p t (unregister n h p s)) = view (register n h p t s)"
  by (simp add: view_register ok_unregister view_unregister)

lemma unregister_exec:
  assumes "ok s" and "\<forall>op \<in> set ops. \<forall>t. op \<noteq> Register n h p t"
  shows "view (exec ops (unregister n h p s)) (n, h, p) = None"
proof -
  have "fold view_op ops r (n, h, p) = None" if "r (n, h, p) = None" for r
    using that assms(2)
  proof (induction ops arbitrary: r)
    case (Cons op ops)
    then have "view_op op r (n, h, p) = None"
      using view_op_None [of r "(n, h, p)" op] by (cases "view_op op r (n, h, p)") auto
    then show ?case using Cons by simp
  qed simp
  then show ?thesis using assms(1) by (simp add: view_exec ok_unregister view_unregister)
qed

end

end
