(* ===== verification/Registry_Server.thy ===== *)
theory Registry_Server
  imports Pb_Rpc_Message Pb_Reference Tcp_Connection Registry_Interface "HOL-Library.Signed_Division"
begin

text \<open>
  registry/registry_server.cpp: the service registry that keeps its table in one process.
  \<open>RegistryServer\<close> is the object's state; the handlers run under \<open>services_mutex_\<close>, so each is
  one step. The value of \<open>steady_clock::now()\<close> is an argument of every operation that reads the
  clock. \<open>RegistryServer_handleConnection\<close> is the whole handler of a connection, from the
  bytes received to the bytes sent; \<open>registry_step\<close> the steps of the running server.
\<close>

section \<open>State\<close>

record RegistryServer =
  rg_services :: services
  rg_running :: bool

definition RegistryServer_new :: RegistryServer where
  "RegistryServer_new = \<lparr>rg_services = [], rg_running = False\<rparr>"

text \<open>\<open>start\<close> and \<open>stop\<close>; \<open>listening\<close> is the result of \<open>server_.start()\<close>.\<close>

definition RegistryServer_start :: "bool \<Rightarrow> RegistryServer \<Rightarrow> RegistryServer" where
  "RegistryServer_start listening r = (if \<not> listening then r else r\<lparr>rg_running := True\<rparr>)"

definition RegistryServer_stop :: "RegistryServer \<Rightarrow> RegistryServer" where
  "RegistryServer_stop r = r\<lparr>rg_running := False\<rparr>"

section \<open>Handlers\<close>

definition handleServiceRegister ::
    "int \<Rightarrow> ServiceRegisterRequest \<Rightarrow> RegistryServer \<Rightarrow> ServiceRegisterResponse \<times> RegistryServer" where
  "handleServiceRegister now request r =
     (let inst = \<lparr>si_host = srq_host request, si_port = srq_port request, si_last_heartbeat = now\<rparr>;
          instances = instances_of (rg_services r) (srq_service_name request);
          found = list_ex (at_endpoint (si_host inst) (si_port inst)) instances;
          updated = update_first (at_endpoint (si_host inst) (si_port inst))
                      (\<lambda>existing. existing\<lparr>si_last_heartbeat := si_last_heartbeat inst\<rparr>) instances;
          instances' = (if \<not> found then updated @ [inst] else updated)
      in (ServiceRegisterResponse_default\<lparr>srs_success := True,
            srs_message := ''Service registered successfully''\<rparr>,
          r\<lparr>rg_services := AList.update (srq_service_name request) instances' (rg_services r)\<rparr>))"

text \<open>The heartbeat time is cast from nanoseconds to milliseconds (towards 0) and to \<open>int64\<close>.\<close>

definition instance_info :: "ServiceInstance \<Rightarrow> ServiceInfo" where
  "instance_info inst = ServiceInfo_default\<lparr>info_host := si_host inst, info_port := si_port inst,
     info_last_heartbeat := word_of_int (si_last_heartbeat inst sdiv 1000000)\<rparr>"

definition handleServiceDiscovery ::
    "ServiceDiscoveryRequest \<Rightarrow> RegistryServer \<Rightarrow> ServiceDiscoveryResponse" where
  "handleServiceDiscovery request r =
     (case map_of (rg_services r) (dq_service_name request) of
        Some instances \<Rightarrow> ServiceDiscoveryResponse_default\<lparr>ds_services :=
          map instance_info (filter (\<lambda>i. si_host i \<noteq> [] \<and> 0 < sint (si_port i)) instances)\<rparr>
      | None \<Rightarrow> ServiceDiscoveryResponse_default)"

definition handleHeartbeat ::
    "int \<Rightarrow> HeartbeatRequest \<Rightarrow> RegistryServer \<Rightarrow> HeartbeatResponse \<times> RegistryServer" where
  "handleHeartbeat now request r =
     (let this = at_endpoint (hq_host request) (hq_port request);
          missing = HeartbeatResponse_default\<lparr>hs_success := False,
            hs_message := ''Service instance not found''\<rparr>
      in case map_of (rg_services r) (hq_service_name request) of
           None \<Rightarrow> (missing, r)
         | Some instances \<Rightarrow>
             if list_ex this instances
             then (HeartbeatResponse_default\<lparr>hs_success := True, hs_message := ''Heartbeat received''\<rparr>,
                   r\<lparr>rg_services := AList.update (hq_service_name request)
                       (update_first this (\<lambda>i. i\<lparr>si_last_heartbeat := now\<rparr>) instances) (rg_services r)\<rparr>)
             else (missing, r))"

text \<open>The expired instances of every service are erased, then the services without any.\<close>

definition checkHeartbeat :: "int \<Rightarrow> RegistryServer \<Rightarrow> RegistryServer" where
  "checkHeartbeat now r =
     (let remaining = map (\<lambda>(name, instances).
            (name, filter (\<lambda>i. \<not> now - si_last_heartbeat i > seconds 30) instances)) (rg_services r)
      in r\<lparr>rg_services := filter (\<lambda>(_, instances). instances \<noteq> []) remaining\<rparr>)"

section \<open>Connections\<close>

text \<open>
  The three attempts of \<open>handleConnection\<close>, in its order: each parses the data, checks the
  fields, and if both succeed answers the request; otherwise the next one is tried. The result
  is the serialized response and the new state.
\<close>

fun or_else :: "'a option \<Rightarrow> 'a option \<Rightarrow> 'a option" where
  "or_else (Some x) y = Some x"
| "or_else None y = y"

definition try_register ::
    "pb_runtime \<Rightarrow> int \<Rightarrow> bytes \<Rightarrow> RegistryServer \<Rightarrow> (bytes \<times> RegistryServer) option" where
  "try_register rt now data r = (case ServiceRegisterRequest_deserialize rt data of
       None \<Rightarrow> None
     | Some request \<Rightarrow>
         if srq_service_name request \<noteq> [] \<and> srq_host request \<noteq> [] \<and> 0 < sint (srq_port request)
         then let (response, r') = handleServiceRegister now request r
              in Some (ServiceRegisterResponse_serialize rt response, r')
         else None)"

definition try_discovery ::
    "pb_runtime \<Rightarrow> bytes \<Rightarrow> RegistryServer \<Rightarrow> (bytes \<times> RegistryServer) option" where
  "try_discovery rt data r = (case ServiceDiscoveryRequest_deserialize rt data of
       None \<Rightarrow> None
     | Some request \<Rightarrow>
         if dq_service_name request \<noteq> []
         then Some (ServiceDiscoveryResponse_serialize rt (handleServiceDiscovery request r), r)
         else None)"

definition try_heartbeat ::
    "pb_runtime \<Rightarrow> int \<Rightarrow> bytes \<Rightarrow> RegistryServer \<Rightarrow> (bytes \<times> RegistryServer) option" where
  "try_heartbeat rt now data r = (case HeartbeatRequest_deserialize rt data of
       None \<Rightarrow> None
     | Some request \<Rightarrow>
         if hq_service_name request \<noteq> [] \<and> hq_host request \<noteq> [] \<and> 0 < sint (hq_port request)
         then let (response, r') = handleHeartbeat now request r
              in Some (HeartbeatResponse_serialize rt response, r')
         else None)"

definition registry_dispatch ::
    "pb_runtime \<Rightarrow> int \<Rightarrow> bytes \<Rightarrow> RegistryServer \<Rightarrow> (bytes \<times> RegistryServer) option" where
  "registry_dispatch rt now data r =
     or_else (try_register rt now data r)
       (or_else (try_discovery rt data r) (try_heartbeat rt now data r))"

text \<open>
  The new state, and the connection afterwards; \<open>None\<close> there: a \<open>::send\<close> never returned.
\<close>

definition RegistryServer_handleConnection ::
    "pb_runtime \<Rightarrow> int \<Rightarrow> RegistryServer \<Rightarrow> TcpConnection \<Rightarrow> sock \<Rightarrow>
     RegistryServer \<times> (TcpConnection \<times> sock) option" where
  "RegistryServer_handleConnection rt now r conn s =
     (let (data, conn, s) = TcpConnection_receive conn s in
      if data = [] then (r, Some (conn, s))
      else case registry_dispatch rt now data r of
        None \<Rightarrow> (r, Some (conn, s))
      | Some (response_data, r') \<Rightarrow>
          (r', map_option snd (TcpConnection_send response_data conn s)))"

text \<open>
  The running server: a connection's handler, the periodic heartbeat check of the thread
  \<open>start\<close> creates, and \<open>stop\<close>. Connections that are being handled when the server stops
  finish.
\<close>

inductive registry_step :: "pb_runtime \<Rightarrow> RegistryServer \<Rightarrow> RegistryServer \<Rightarrow> bool" for rt where
  connection: "registry_step rt r (fst (RegistryServer_handleConnection rt now r conn s))"
| check: "rg_running r \<Longrightarrow> registry_step rt r (checkHeartbeat now r)"
| start: "registry_step rt r (RegistryServer_start listening r)"
| stop: "registry_step rt r (RegistryServer_stop r)"

inductive registry_reachable :: "pb_runtime \<Rightarrow> RegistryServer \<Rightarrow> bool" for rt where
  init: "registry_reachable rt RegistryServer_new"
| step: "registry_reachable rt r \<Longrightarrow> registry_step rt r r' \<Longrightarrow> registry_reachable rt r'"

inductive_cases registry_stepE: "registry_step rt r r'"

section \<open>The table after an operation\<close>

lemma register_table:
  "rg_services (snd (handleServiceRegister now request r)) =
     (let is = instances_of (rg_services r) (srq_service_name request);
          i = \<lparr>si_host = srq_host request, si_port = srq_port request, si_last_heartbeat = now\<rparr>
      in AList.update (srq_service_name request)
           (if key_of i \<in> key_of ` set is
            then update_first (at_endpoint (si_host i) (si_port i)) (\<lambda>i. i\<lparr>si_last_heartbeat := now\<rparr>) is
            else is @ [i]) (rg_services r))"
  by (simp add: handleServiceRegister_def Let_def list_ex_at_endpoint)
    (simp add: touch_absent)

lemma register_ok:
  "table_ok (rg_services r) \<Longrightarrow> table_ok (rg_services (snd (handleServiceRegister now request r)))"
  using table_ok_instances [of "rg_services r" "srq_service_name request"]
  by (auto simp: register_table Let_def keys_touch intro!: table_ok_update)

lemma register_view:
  "registered (rg_services (snd (handleServiceRegister now request r))) =
   (registered (rg_services r))((srq_service_name request, srq_host request, srq_port request) \<mapsto> now)"
  using registered_snoc [of "\<lparr>si_host = srq_host request, si_port = srq_port request, si_last_heartbeat = now\<rparr>"]
  by (simp add: register_table Let_def registered_touch)

lemma heartbeat_table:
  "rg_services (snd (handleHeartbeat now request r)) =
     (let is = instances_of (rg_services r) (hq_service_name request) in
      if (hq_host request, hq_port request) \<in> key_of ` set is
      then AList.update (hq_service_name request)
             (update_first (at_endpoint (hq_host request) (hq_port request))
               (\<lambda>i. i\<lparr>si_last_heartbeat := now\<rparr>) is) (rg_services r)
      else rg_services r)"
  by (simp add: handleHeartbeat_def Let_def list_ex_at_endpoint instances_of_def split: option.splits)

lemma heartbeat_ok:
  "table_ok (rg_services r) \<Longrightarrow> table_ok (rg_services (snd (handleHeartbeat now request r)))"
  by (auto simp: handleHeartbeat_def Let_def keys_touch dest: table_ok_lookup
      intro!: table_ok_update split: option.splits)

lemma heartbeat_view:
  "registered (rg_services (snd (handleHeartbeat now request r))) =
   view_heartbeat (hq_service_name request, hq_host request, hq_port request) now
     (registered (rg_services r))"
  unfolding heartbeat_table view_heartbeat_def registered_eq_None Let_def
  by (simp add: registered_touch)

lemma check_table:
  "rg_services (checkHeartbeat now r) = prune (\<lambda>i. \<not> expired now (si_last_heartbeat i)) (rg_services r)"
  by (simp add: checkHeartbeat_def prune_def expired_def Let_def)

lemma check_ok: "table_ok (rg_services r) \<Longrightarrow> table_ok (rg_services (checkHeartbeat now r))"
  by (simp add: check_table table_ok_prune)

lemma check_view:
  "table_ok (rg_services r) \<Longrightarrow>
   registered (rg_services (checkHeartbeat now r)) = view_expire now (registered (rg_services r))"
  using registered_prune [of "rg_services r" "\<lambda>_ t. \<not> expired now t"]
  by (auto simp: check_table view_expire_def fun_eq_iff split: option.splits)

text \<open>The server provides the interface of Registry_Interface.\<close>

definition registry_register :: "bytes \<Rightarrow> bytes \<Rightarrow> i32 \<Rightarrow> int \<Rightarrow> RegistryServer \<Rightarrow> RegistryServer" where
  "registry_register n h p t r = snd (handleServiceRegister t (ServiceRegisterRequest_default
     \<lparr>srq_service_name := n, srq_host := h, srq_port := p\<rparr>) r)"

definition registry_heartbeat :: "bytes \<Rightarrow> bytes \<Rightarrow> i32 \<Rightarrow> int \<Rightarrow> RegistryServer \<Rightarrow> RegistryServer" where
  "registry_heartbeat n h p t r = snd (handleHeartbeat t (HeartbeatRequest_default
     \<lparr>hq_service_name := n, hq_host := h, hq_port := p\<rparr>) r)"

definition registry_view :: "RegistryServer \<Rightarrow> endpoint \<rightharpoonup> int" where
  "registry_view r = registered (rg_services r)"

definition registry_ok :: "RegistryServer \<Rightarrow> bool" where
  "registry_ok r = table_ok (rg_services r)"

interpretation reg: service_registry RegistryServer_new registry_register registry_heartbeat
    checkHeartbeat registry_view registry_ok
  by unfold_locales
    (simp_all add: registry_ok_def registry_view_def registry_register_def registry_heartbeat_def
      RegistryServer_new_def register_ok register_view heartbeat_ok heartbeat_view check_view
      check_ok)

end
