(* ===== verification/Registry_State_Machine.thy ===== *)
theory Registry_State_Machine
  imports Distributed_Registry_Messages Registry_Server
begin

text \<open>
  registry/raft_state_machine.cpp: the registry table as a replicated state machine. A committed
  log entry carries a serialized \<open>ServiceOperation\<close>; its parser is generated at build time, so
  it is the argument \<open>parse\<close>. \<open>services_mutex_\<close> is held for the whole of every operation.
\<close>

section \<open>State\<close>

record RegistryStateMachine =
  sm_services :: services

definition RegistryStateMachine_new :: RegistryStateMachine where
  "RegistryStateMachine_new = \<lparr>sm_services = []\<rparr>"

section \<open>Operations\<close>

definition registerService ::
    "bytes \<Rightarrow> bytes \<Rightarrow> i32 \<Rightarrow> int \<Rightarrow> RegistryStateMachine \<Rightarrow> RegistryStateMachine" where
  "registerService service_name host port now m =
     (let instances = instances_of (sm_services m) service_name in
      m\<lparr>sm_services := AList.update service_name
          (if list_ex (at_endpoint host port) instances
           then update_first (at_endpoint host port) (\<lambda>i. i\<lparr>si_last_heartbeat := now\<rparr>) instances
           else instances @ [\<lparr>si_host = host, si_port = port, si_last_heartbeat = now\<rparr>])
          (sm_services m)\<rparr>)"

definition unregisterService ::
    "bytes \<Rightarrow> bytes \<Rightarrow> i32 \<Rightarrow> RegistryStateMachine \<Rightarrow> RegistryStateMachine" where
  "unregisterService service_name host port m =
     (case map_of (sm_services m) service_name of
        None \<Rightarrow> m
      | Some instances \<Rightarrow>
          (let instances' = filter (\<lambda>i. \<not> at_endpoint host port i) instances in
           if instances' = [] then m\<lparr>sm_services := AList.delete service_name (sm_services m)\<rparr>
           else m\<lparr>sm_services := AList.update service_name instances' (sm_services m)\<rparr>))"

definition updateHeartbeat ::
    "bytes \<Rightarrow> bytes \<Rightarrow> i32 \<Rightarrow> int \<Rightarrow> RegistryStateMachine \<Rightarrow> RegistryStateMachine" where
  "updateHeartbeat service_name host port now m =
     (case map_of (sm_services m) service_name of
        None \<Rightarrow> m
      | Some instances \<Rightarrow> m\<lparr>sm_services := AList.update service_name
          (update_first (at_endpoint host port) (\<lambda>i. i\<lparr>si_last_heartbeat := now\<rparr>) instances)
          (sm_services m)\<rparr>)"

text \<open>The loop over the iterator that erases or advances.\<close>

fun removeExpired_loop :: "int \<Rightarrow> services \<Rightarrow> services" where
  "removeExpired_loop now [] = []"
| "removeExpired_loop now ((service_name, instances) # rest) =
     (let instances' = filter (\<lambda>i. \<not> now - si_last_heartbeat i > seconds 30) instances in
      if instances' = [] then removeExpired_loop now rest
      else (service_name, instances') # removeExpired_loop now rest)"

definition removeExpiredServices :: "int \<Rightarrow> RegistryStateMachine \<Rightarrow> RegistryStateMachine" where
  "removeExpiredServices now m = m\<lparr>sm_services := removeExpired_loop now (sm_services m)\<rparr>"

definition getServiceInstances :: "bytes \<Rightarrow> RegistryStateMachine \<Rightarrow> ServiceInstance list" where
  "getServiceInstances service_name m =
     (case map_of (sm_services m) service_name of Some instances \<Rightarrow> instances | None \<Rightarrow> [])"

definition getServiceCount :: "RegistryStateMachine \<Rightarrow> nat" where
  "getServiceCount m = length (sm_services m)"

definition getAllServiceNames :: "RegistryStateMachine \<Rightarrow> bytes list" where
  "getAllServiceNames m = map fst (sm_services m)"

definition applyServiceOperation ::
    "ServiceOperation \<Rightarrow> int \<Rightarrow> RegistryStateMachine \<Rightarrow> RegistryStateMachine" where
  "applyServiceOperation op now m =
     (if so_operation_type op = ''register''
      then registerService (so_service_name op) (so_host op) (so_port op) now m
      else if so_operation_type op = ''unregister''
      then unregisterService (so_service_name op) (so_host op) (so_port op) m
      else if so_operation_type op = ''heartbeat''
      then updateHeartbeat (so_service_name op) (so_host op) (so_port op) now m
      else m)"

definition applyLogEntry ::
    "(bytes \<Rightarrow> ServiceOperation option) \<Rightarrow> LogEntry \<Rightarrow> int \<Rightarrow> RegistryStateMachine \<Rightarrow>
     RegistryStateMachine" where
  "applyLogEntry parse entry now m =
     (if le_operation entry = ''service_operation''
      then case parse (le_data entry) of
        Some op \<Rightarrow> applyServiceOperation op now m
      | None \<Rightarrow> m
      else m)"

section \<open>The table after an operation\<close>

lemma registerService_table:
  "sm_services (registerService n h p t m) =
     (let is = instances_of (sm_services m) n; i = \<lparr>si_host = h, si_port = p, si_last_heartbeat = t\<rparr>
      in AList.update n (if key_of i \<in> key_of ` set is
            then update_first (at_endpoint h p) (\<lambda>i. i\<lparr>si_last_heartbeat := t\<rparr>) is
            else is @ [i]) (sm_services m))"
  by (simp add: registerService_def Let_def list_ex_at_endpoint)

lemma registerService_view:
  "registered (sm_services (registerService n h p t m)) = (registered (sm_services m))((n, h, p) \<mapsto> t)"
  using registered_snoc [of "\<lparr>si_host = h, si_port = p, si_last_heartbeat = t\<rparr>"]
  by (simp add: registerService_table Let_def registered_touch)

lemma registerService_ok:
  "table_ok (sm_services m) \<Longrightarrow> table_ok (sm_services (registerService n h p t m))"
  using table_ok_instances [of "sm_services m" n]
  by (auto simp: registerService_table Let_def keys_touch intro!: table_ok_update)

lemma updateHeartbeat_table:
  "sm_services (updateHeartbeat n h p t m) =
     (let is = instances_of (sm_services m) n in
      if (h, p) \<in> key_of ` set is
      then AList.update n (update_first (at_endpoint h p) (\<lambda>i. i\<lparr>si_last_heartbeat := t\<rparr>) is)
             (sm_services m)
      else sm_services m)"
  by (simp add: updateHeartbeat_def Let_def instances_of_def touch_absent update_same
      split: option.splits)

lemma updateHeartbeat_view:
  "registered (sm_services (updateHeartbeat n h p t m)) =
   view_heartbeat (n, h, p) t (registered (sm_services m))"
  unfolding updateHeartbeat_table view_heartbeat_def registered_eq_None Let_def
  by (simp add: registered_touch)

lemma updateHeartbeat_ok:
  "table_ok (sm_services m) \<Longrightarrow> table_ok (sm_services (updateHeartbeat n h p t m))"
  using table_ok_instances [of "sm_services m" n]
  by (auto simp: updateHeartbeat_table Let_def keys_touch intro!: table_ok_update)

lemma removeExpired_prune:
  "removeExpired_loop now sv = prune (\<lambda>i. \<not> expired now (si_last_heartbeat i)) sv"
  by (induction now sv rule: removeExpired_loop.induct) (simp_all add: prune_def expired_def Let_def)

lemma removeExpired_view:
  "table_ok (sm_services m) \<Longrightarrow>
   registered (sm_services (removeExpiredServices now m)) = view_expire now (registered (sm_services m))"
  using registered_prune [of "sm_services m" "\<lambda>_ t. \<not> expired now t"]
  by (auto simp: removeExpiredServices_def removeExpired_prune view_expire_def fun_eq_iff
      split: option.splits)

lemma removeExpired_ok:
  "table_ok (sm_services m) \<Longrightarrow> table_ok (sm_services (removeExpiredServices now m))"
  by (simp add: removeExpiredServices_def removeExpired_prune table_ok_prune)

lemma table_ok_delete: "table_ok sv \<Longrightarrow> table_ok (AList.delete n sv)"
  by (auto simp: table_ok_def distinct_delete AList.delete_eq distinct_map_fst_filter)

lemma unregisterService_ok:
  "table_ok (sm_services m) \<Longrightarrow> table_ok (sm_services (unregisterService n h p m))"
  by (auto simp: unregisterService_def Let_def table_ok_delete dest: table_ok_lookup
      intro!: table_ok_update distinct_key_filter split: option.splits)

lemma unregisterService_instances:
  "instances_of (sm_services (unregisterService n h p m)) =
   (instances_of (sm_services m))(n := filter (\<lambda>i. \<not> at_endpoint h p i) (instances_of (sm_services m) n))"
  by (rule ext) (auto simp: unregisterService_def Let_def instances_of_def table_simps
      split: option.splits)

lemma unregisterService_view:
  assumes "table_ok (sm_services m)"
  shows "registered (sm_services (unregisterService n h p m)) = (registered (sm_services m))((n, h, p) := None)"
proof (rule ext)
  fix k :: endpoint
  obtain a b c where k: "k = (a, b, c)" by (cases k) auto
  have "endpoints (filter (\<lambda>i. \<not> at_endpoint h p i) (instances_of (sm_services m) n)) (b, c) =
      (if (b, c) = (h, p) then None else endpoints (instances_of (sm_services m) n) (b, c))"
    using endpoints_filter [OF table_ok_instances [OF assms, of n], of "\<lambda>x _. x \<noteq> (h, p)" "(b, c)"]
    by (auto split: option.splits)
  then show "registered (sm_services (unregisterService n h p m)) k =
      ((registered (sm_services m))((n, h, p) := None)) k"
    by (cases "(b, c) = (h, p)") (auto simp: k registered_def unregisterService_instances)
qed

definition sm_view :: "RegistryStateMachine \<Rightarrow> endpoint \<rightharpoonup> int" where
  "sm_view m = registered (sm_services m)"

definition sm_ok :: "RegistryStateMachine \<Rightarrow> bool" where
  "sm_ok m = table_ok (sm_services m)"

interpretation sm: unregistering_registry RegistryStateMachine_new registerService updateHeartbeat
    removeExpiredServices sm_view sm_ok unregisterService
  by unfold_locales
    (simp_all add: sm_ok_def sm_view_def RegistryStateMachine_new_def registerService_ok
      registerService_view updateHeartbeat_ok updateHeartbeat_view removeExpired_ok
      removeExpired_view unregisterService_ok unregisterService_view)

section \<open>The two registries\<close>

text \<open>After the same operations both implementations hold the same table.\<close>

definition same_table :: "RegistryServer \<Rightarrow> RegistryStateMachine \<Rightarrow> bool" where
  "same_table r m \<longleftrightarrow> rg_services r = sm_services m"

lemma same_table_op:
  "same_table r m \<Longrightarrow>
   same_table (do_op registry_register registry_heartbeat checkHeartbeat op r)
     (do_op registerService updateHeartbeat removeExpiredServices op m)"
  by (cases op)
    (simp_all add: same_table_def registry_register_def registry_heartbeat_def register_table
      registerService_table heartbeat_table updateHeartbeat_table check_table
      removeExpiredServices_def removeExpired_prune ServiceRegisterRequest_default_def
      HeartbeatRequest_default_def Let_def)

lemma same_table_exec:
  "same_table r m \<Longrightarrow> same_table (reg.exec ops r) (sm.exec ops m)"
  by (induction ops arbitrary: r m) (simp_all add: same_table_op)

end
