(* ===== verification/Raft_Properties.thy ===== *)
theory Raft_Properties
  imports Raft_System Registry_State_Machine
begin

text \<open>
  The properties of the Raft node: what each handler does, the invariants of a running node,
  and the runs in which the guarantees of the protocol are lost. A small cluster of concrete
  nodes, whose state machine is the list of the applied entries, serves as the example.
\<close>

section \<open>Examples\<close>

definition peers2 :: "RaftPeer list" where
  "peers2 = [\<lparr>peer_node_id = ''b'', peer_host = ''hb'', peer_port = 2, peer_next_index = 1, peer_match_index = 0\<rparr>,
             \<lparr>peer_node_id = ''c'', peer_host = ''hc'', peer_port = 3, peer_next_index = 1, peer_match_index = 0\<rparr>]"

definition node_a :: "LogEntry list RaftNode" where
  "node_a = RaftNode_start (RaftNode_new ''a'' ''ha'' 1 peers2 [])"

definition entry :: "int \<Rightarrow> int \<Rightarrow> LogEntry" where
  "entry t i = \<lparr>le_term = t, le_index = i, le_operation = ''service_operation'', le_data = ''''\<rparr>"

definition record_entry :: "LogEntry \<Rightarrow> LogEntry list \<Rightarrow> LogEntry list" where
  "record_entry e m = m @ [e]"

definition vote_from :: "bytes \<Rightarrow> int \<Rightarrow> RequestVoteRequest" where
  "vote_from c t = \<lparr>rv_term = t, rv_candidate_id = c, rv_last_log_index = 9, rv_last_log_term = 9\<rparr>"

definition append_from :: "bytes \<Rightarrow> int \<Rightarrow> int \<Rightarrow> int \<Rightarrow> LogEntry list \<Rightarrow> int \<Rightarrow> AppendEntriesRequest" where
  "append_from l t pi pt es c = \<lparr>ae_term = t, ae_leader_id = l, ae_prev_log_index = pi,
     ae_prev_log_term = pt, ae_entries = es, ae_leader_commit = c\<rparr>"

lemmas example_defs = peers2_def node_a_def entry_def vote_from_def append_from_def
  RaftNode_start_def RaftNode_new_def

section \<open>Votes\<close>

text \<open>\<open>handleRequestVote\<close> always answers: it reports the node's term before the request,
  grants the vote exactly when the request's term is newer, or equal with the vote free or
  already given to this candidate, and the candidate's log is at least as new, and then
  records the vote; a newer term is adopted either way.\<close>

theorem handleRequestVote_result:
  "handleRequestVote [] q n = Ret (\<lparr>rvr_term = rn_current_term n, rvr_vote_granted = grants q n\<rparr>,
     (if rv_term q > rn_current_term n then becomeFollower (rv_term q) [] n else n)
       \<lparr>rn_voted_for := (if grants q n then rv_candidate_id q
          else if rv_term q > rn_current_term n then [] else rn_voted_for n)\<rparr>)"
  by (simp add: handleRequestVote_eq after_vote_def becomeFollower_def)

text \<open>C21. In any run of vote requests from named candidates, two requests of the same term that
  were both granted came from the same candidate: a node votes at most once per term.\<close>

theorem vote_once_per_term:
  "vote_run qs n = Ret (granted, n') \<Longrightarrow> \<forall>q \<in> set qs. rv_candidate_id q \<noteq> [] \<Longrightarrow>
   g \<in> set granted \<Longrightarrow> h \<in> set granted \<Longrightarrow> rv_term g = rv_term h \<Longrightarrow>
   rv_candidate_id g = rv_candidate_id h"
  by (rule vote_run_unique)

lemma vote_once_per_term_witness:
  "\<exists>g h n'. vote_run [vote_from ''b'' 1, vote_from ''c'' 1, (vote_from ''b'' 1)\<lparr>rv_last_log_index := 12\<rparr>] node_a =
     Ret ([g, h], n') \<and> g \<noteq> h \<and> rv_candidate_id g = rv_candidate_id h"
proof -
  let ?g = "vote_from ''b'' 1" and ?h = "(vote_from ''b'' 1)\<lparr>rv_last_log_index := 12\<rparr>"
  have run: "vote_run [?g, vote_from ''c'' 1, ?h] node_a =
      Ret ([?g, ?h], node_a\<lparr>rn_current_term := 1, rn_voted_for := ''b''\<rparr>)"
    by (simp add: vote_run_Cons grants_def vote_free_def up_to_date_def after_vote_def
        becomeFollower_def example_defs)
  have "rv_candidate_id ?g = rv_candidate_id ?h"
    by (rule vote_once_per_term [OF run]) (simp_all add: vote_from_def)
  then show ?thesis using run by (intro exI conjI) (assumption, simp add: vote_from_def)
qed


text \<open>An election that ends makes the node leader exactly when its own vote and the votes
  granted by the peers are a majority of the cluster; otherwise it falls back to follower of
  the new term, its own vote forgotten. Its log and commit index stay as they were.\<close>

theorem election_outcome:
  "rn_running n \<Longrightarrow> rn_role n \<noteq> LEADER \<Longrightarrow> election_timeout net n = Ret n' \<Longrightarrow>
   rn_current_term n' = wrap64 (rn_current_term n + 1) \<and>
   (isLeader n' \<longleftrightarrow>
      (length (rn_peers n) + 1) div 2 + 1 \<le> 1 + length (filter (grants_vote net (ballot n)) (rn_peers n))) \<and>
   rn_voted_for n' = (if isLeader n' then rn_node_id n else []) \<and>
   rn_log n' = rn_log n \<and> rn_commit_index n' = rn_commit_index n"
  by (erule election_timeout_cases) (auto simp: elected_def isLeader_def wins_def majority_def)

definition yes_votes :: "RaftPeer \<Rightarrow> RequestVoteRequest \<Rightarrow> RequestVoteResponse option" where
  "yes_votes p q = Some \<lparr>rvr_term = 0, rvr_vote_granted = True\<rparr>"

lemma election_outcome_witness: "\<exists>n'. election_timeout yes_votes node_a = Ret n' \<and> isLeader n'"
proof -
  have e: "election_timeout yes_votes node_a = Ret (elected node_a)"
    by (simp add: election_timeout_def with_lock_def startElection_eq newer_term_def yes_votes_def
        wins_def majority_def grants_vote_def example_defs wrap64_def)
  have "isLeader (elected node_a) \<longleftrightarrow> (length (rn_peers node_a) + 1) div 2 + 1 \<le>
      1 + length (filter (grants_vote yes_votes (ballot node_a)) (rn_peers node_a))"
    using election_outcome [OF _ _ e] by (simp add: example_defs)
  then show ?thesis using e by (simp add: example_defs grants_vote_def yes_votes_def)
qed

text \<open>A vote reply of a higher term blocks the candidate for good: the election holds
  \<open>state_mutex_\<close> and \<open>sendRequestVote\<close> locks it again to step down.\<close>

theorem election_newer_term_blocks:
  "rn_running n \<Longrightarrow> rn_role n \<noteq> LEADER \<Longrightarrow> peer \<in> set (rn_peers n) \<Longrightarrow> net peer (ballot n) = Some r \<Longrightarrow>
   rvr_term r > wrap64 (rn_current_term n + 1) \<Longrightarrow> election_timeout net n = Deadlock"
  by (auto simp: election_timeout_def with_lock_def startElection_eq list_ex_iff newer_term_def
      intro!: bexI [of _ peer])

lemma election_newer_term_blocks_witness:
  "election_timeout (\<lambda>p q. Some \<lparr>rvr_term = 7, rvr_vote_granted = False\<rparr>) node_a = Deadlock"
  by (rule election_newer_term_blocks [where peer = "hd peers2" and r = "\<lparr>rvr_term = 7, rvr_vote_granted = False\<rparr>"])
    (simp_all add: example_defs wrap64_def)

section \<open>Replication\<close>

text \<open>An append request of a current term whose previous entry matches is accepted: with
  entries, the log becomes its first \<open>prev_log_index\<close> entries followed by them; the commit
  index rises to the leader's, bounded by the new log; the reply reports the whole log as
  matched.\<close>

theorem handleAppendEntries_accepts:
  "rn_current_term n \<le> ae_term q \<Longrightarrow> prev_matches q (rn_log n) \<Longrightarrow> 0 \<le> ae_prev_log_index q \<Longrightarrow>
   length (rn_log n) < 2 ^ 63 - 1 \<Longrightarrow>
   handleAppendEntries [] q n =
     Ret (\<lparr>aer_term = rn_current_term n, aer_success = True,
           aer_match_index = int (length (new_log q (rn_log n)))\<rparr>,
          (becomeFollower (ae_term q) (ae_leader_id q) n)
            \<lparr>rn_log := new_log q (rn_log n), rn_commit_index := new_commit q n\<rparr>)"
  by (rule handleAppendEntries_match)

lemma handleAppendEntries_accepts_witness:
  "\<exists>n'. handleAppendEntries [] (append_from ''b'' 1 1 1 [entry 1 2] 2) (node_a\<lparr>rn_log := [entry 1 1, entry 1 9]\<rparr>) =
     Ret (\<lparr>aer_term = 0, aer_success = True, aer_match_index = 2\<rparr>, n') \<and>
     rn_log n' = [entry 1 1, entry 1 2] \<and> rn_commit_index n' = 2"
  by (subst handleAppendEntries_accepts)
    (simp_all add: example_defs prev_matches_def new_log_def new_commit_def becomeFollower_def)

text \<open>A stale term or a mismatch of the previous entry is refused, and the log and the commit
  index stay as they are.\<close>

theorem handleAppendEntries_refuses:
  "ae_term q < rn_current_term n \<or> \<not> prev_matches q (rn_log n) \<Longrightarrow>
   \<exists>n'. handleAppendEntries [] q n =
       Ret (\<lparr>aer_term = rn_current_term n, aer_success = False, aer_match_index = 0\<rparr>, n') \<and>
     rn_log n' = rn_log n \<and> rn_commit_index n' = rn_commit_index n \<and>
     rn_current_term n' = max (rn_current_term n) (ae_term q)"
  by (auto simp: handleAppendEntries_unfold)

lemma handleAppendEntries_refuses_witness:
  "\<exists>n'. handleAppendEntries [] (append_from ''b'' 1 3 1 [entry 1 4] 2) node_a =
       Ret (\<lparr>aer_term = 0, aer_success = False, aer_match_index = 0\<rparr>, n') \<and> rn_log n' = []"
  using handleAppendEntries_refuses [of "append_from ''b'' 1 3 1 [entry 1 4] 2" node_a]
  by (auto simp: example_defs prev_matches_def)


text \<open>A request with entries and a negative \<open>prev_log_index\<close> passes the consistency check and
  erases from before the beginning of the log: the behaviour is undefined.\<close>

theorem negative_prev_index_undefined:
  "rn_current_term n \<le> ae_term q \<Longrightarrow> ae_prev_log_index q < 0 \<Longrightarrow> in64 (ae_prev_log_index q) \<Longrightarrow>
   ae_entries q \<noteq> [] \<Longrightarrow> handleAppendEntries [] q n = Undefined"
  by (auto simp: handleAppendEntries_unfold prev_matches_def erase_append_def add64_def in64_def)

lemma negative_prev_index_undefined_witness:
  "handleAppendEntries [] (append_from ''b'' 1 (- 1) 0 [entry 1 1] 0) node_a = Undefined"
  by (rule negative_prev_index_undefined) (simp_all add: example_defs in64_def)

text \<open>What \<open>updateCommitIndex\<close> computes for a leader (when its caller does not hold the log
  mutex): the commit index never falls, a new one is an entry of the current term stored on a
  majority, and no larger index qualifies.\<close>

theorem updateCommitIndex_correct:
  "rn_role n = LEADER \<Longrightarrow> 0 \<le> rn_commit_index n \<Longrightarrow>
   \<exists>c. updateCommitIndex [StateMutex] n = Ret (n\<lparr>rn_commit_index := c\<rparr>) \<and> rn_commit_index n \<le> c \<and>
     (c = rn_commit_index n \<or> (\<exists>i. c = int i \<and> committable n i)) \<and>
     (\<forall>i. c < int i \<longrightarrow> \<not> committable n i)"
  by (rule updateCommitIndex_spec)

lemma updateCommitIndex_correct_witness:
  "\<exists>c. updateCommitIndex [StateMutex] (node_a\<lparr>rn_role := LEADER, rn_log := [entry 0 1], rn_match_index := [1, 0]\<rparr>) =
     Ret (node_a\<lparr>rn_role := LEADER, rn_log := [entry 0 1], rn_match_index := [1, 0], rn_commit_index := c\<rparr>)"
  using updateCommitIndex_correct [of "node_a\<lparr>rn_role := LEADER, rn_log := [entry 0 1], rn_match_index := [1, 0]\<rparr>"]
  by (auto simp: example_defs)

text \<open>But every caller holds it: as soon as the first peer of a running leader accepts an
  append request, or answers with a newer term, the heartbeat round deadlocks with both
  mutexes locked.\<close>

theorem heartbeat_reply_blocks_leader:
  "rn_running n \<Longrightarrow> rn_role n = LEADER \<Longrightarrow> rn_peers n = peer # peers \<Longrightarrow>
   1 \<le> rn_next_index n ! 0 \<Longrightarrow> in64 (rn_next_index n ! 0) \<Longrightarrow>
   (\<And>q. \<exists>r. net peer q = Some r \<and> (aer_term r > rn_current_term n \<or>
        aer_success r \<and> in64 (aer_match_index r + 1))) \<Longrightarrow>
   heartbeat_round net n = Deadlock"
  by (rule heartbeat_success_blocks)

lemma heartbeat_reply_blocks_leader_witness:
  "heartbeat_round (\<lambda>p q. Some \<lparr>aer_term = 1, aer_success = True, aer_match_index = 0\<rparr>)
     (elected node_a) = Deadlock"
  by (rule heartbeat_reply_blocks_leader) (simp_all add: example_defs elected_def in64_def wrap64_def)

text \<open>A leader cannot commit: no step of a running node but an append request from another
  leader changes the commit index, whatever the peers answer.\<close>

theorem leader_never_commits:
  "raft_reachable f (RaftNode_new node_id host port peers machine) n \<Longrightarrow> local_step f n n' \<Longrightarrow>
   rn_commit_index n' = rn_commit_index n \<and> rn_match_index n' = replicate (length (rn_peers n')) 0"
  using raft_inv_reachable [OF _ raft_inv_new] raft_inv_local local_commit
  by (metis raft_inv_def)

lemma leader_never_commits_witness:
  "rn_commit_index (RaftNode_stop (RaftNode_new ''a'' ''h'' 1 peers2 ([] :: LogEntry list))) = 0"
proof -
  let ?n = "RaftNode_new ''a'' ''h'' 1 peers2 ([] :: LogEntry list)"
  have "raft_reachable record_entry ?n ?n" and "local_step record_entry ?n (RaftNode_stop ?n)"
    by (rule raft_reachable.init, rule local_step.stop)
  from leader_never_commits [OF this] show ?thesis by (simp add: RaftNode_new_def)
qed

section \<open>The running node\<close>

text \<open>The current term never decreases in a step of a running node, as long as it is below
  the largest 64-bit value.\<close>

theorem term_monotone:
  "raft_reachable f (RaftNode_new node_id host port peers machine) n \<Longrightarrow> raft_step f n n' \<Longrightarrow>
   in64 (rn_current_term n + 1) \<Longrightarrow> rn_current_term n \<le> rn_current_term n'"
  by (rule term_step [OF _ raft_inv_reachable [OF _ raft_inv_new]])

lemma term_monotone_witness:
  "rn_current_term (RaftNode_new ''a'' ''h'' 1 peers2 ([] :: LogEntry list)) \<le>
   rn_current_term (after_vote (vote_from ''b'' 4) (RaftNode_new ''a'' ''h'' 1 peers2 ([] :: LogEntry list)))"
proof -
  let ?n = "RaftNode_new ''a'' ''h'' 1 peers2 ([] :: LogEntry list)"
  have "raft_reachable record_entry ?n ?n" by (rule raft_reachable.init)
  moreover have "raft_step record_entry ?n (after_vote (vote_from ''b'' 4) ?n)"
    by (rule raft_step.other [OF local_step.vote [OF handleRequestVote_eq]])
  ultimately show ?thesis by (rule term_monotone) (simp add: RaftNode_new_def in64_def)
qed

text \<open>C26. In a run in which append requests only add behind the commit index, committed entries
  are applied exactly once and in log order: the state machine is always the initial one with
  the first \<open>last_applied\<close> entries of the log applied, and \<open>last_applied\<close>, the commit index and
  the log's length are ordered.\<close>

theorem applied_in_order:
  "orderly f (RaftNode_new node_id host port peers machine) n \<Longrightarrow>
   rn_state_machine n = fold f (take (nat (rn_last_applied n)) (rn_log n)) machine \<and>
   0 \<le> rn_last_applied n \<and> rn_last_applied n \<le> rn_commit_index n \<and>
   rn_commit_index n \<le> int (length (rn_log n))"
  using applied_orderly [OF _ applied_new] by (metis applied_inv_def raft_inv_def)

lemma applied_in_order_witness:
  "\<exists>n. orderly record_entry (RaftNode_new ''a'' ''ha'' 1 peers2 []) n \<and>
     rn_state_machine n = [entry 1 1] \<and>
     rn_state_machine n = fold record_entry (take (nat (rn_last_applied n)) (rn_log n)) []"
proof -
  let ?n1 = "(becomeFollower 1 ''b'' node_a)\<lparr>rn_log := [entry 1 1, entry 1 2], rn_commit_index := 1\<rparr>"
  let ?n2 = "?n1\<lparr>rn_state_machine := [entry 1 1], rn_last_applied := 1\<rparr>"
  have "orderly record_entry (RaftNode_new ''a'' ''ha'' 1 peers2 []) node_a"
    unfolding node_a_def by (blast intro: orderly.intros orderly_step.intros local_step.intros)
  moreover have "handleAppendEntries [] (append_from ''b'' 1 0 0 [entry 1 1, entry 1 2] 1) node_a =
      Ret (\<lparr>aer_term = 0, aer_success = True, aer_match_index = 2\<rparr>, ?n1)"
    by (simp add: handleAppendEntries_unfold prev_matches_def erase_append_def add64_def in64_def
        example_defs)
  moreover have "rn_commit_index node_a \<le> ae_prev_log_index (append_from ''b'' 1 0 0 [entry 1 1, entry 1 2] 1)"
    by (simp add: example_defs)
  moreover have "applier_round record_entry ?n1 = Ret ?n2"
    by (simp add: applier_round_eq becomeFollower_def record_entry_def example_defs)
  ultimately have "orderly record_entry (RaftNode_new ''a'' ''ha'' 1 peers2 []) ?n2"
    by (blast intro: orderly.step orderly_step.behind orderly_step.local local_step.applier)
  moreover from applied_in_order [OF this]
  have "rn_state_machine ?n2 = fold record_entry (take (nat (rn_last_applied ?n2)) (rn_log ?n2)) []" by blast
  ultimately show ?thesis by (intro exI [of _ ?n2] conjI) (assumption, simp, assumption)
qed

text \<open>A proposal is accepted by a leader only; it appends one entry with the leader's term and
  the next index, and nothing else changes.\<close>

theorem propose_result:
  "proposeLogEntry operation data n =
     (if isLeader n
      then Ret (True, n\<lparr>rn_log := rn_log n @ [\<lparr>le_term = rn_current_term n,
             le_index = int (length (rn_log n)) + 1, le_operation = operation, le_data = data\<rparr>]\<rparr>)
      else Ret (False, n))"
  by (simp add: proposeLogEntry_eq isLeader_def)

text \<open>When the serialized append requests also parse as vote requests (their first four fields
  have the same numbers and types, and protobuf skips unknown fields), a connection never
  reaches \<open>handleAppendEntries\<close>: an append request is answered as a vote request of its leader,
  and no connection ever changes the log, the commit index or the state machine.\<close>

theorem append_requests_taken_for_votes:
  assumes "\<forall>data a. parse_append data = Some a \<longrightarrow> parse_vote data =
    Some \<lparr>rv_term = ae_term a, rv_candidate_id = ae_leader_id a,
      rv_last_log_index = ae_prev_log_index a, rv_last_log_term = ae_prev_log_term a\<rparr>"
    and "RaftNode_handleConnection parse_vote parse_append ser_vote ser_append data n = Ret (resp, n')"
  shows "rn_log n' = rn_log n \<and> rn_commit_index n' = rn_commit_index n \<and>
    rn_state_machine n' = rn_state_machine n"
proof (cases "data = [] \<or> parse_vote data = None")
  case True
  then have "n' = n"
    using assms by (cases "parse_append data") (auto simp: RaftNode_handleConnection_def split: option.splits if_splits)
  then show ?thesis by simp
next
  case False
  then obtain q where "parse_vote data = Some q" by blast
  then have "n' = after_vote q n"
    using assms(2) False by (simp add: RaftNode_handleConnection_def handleRequestVote_eq)
  then show ?thesis by simp
qed

lemma append_requests_taken_for_votes_witness:
  "\<exists>resp n'. RaftNode_handleConnection
      (\<lambda>d. Some \<lparr>rv_term = 1, rv_candidate_id = d, rv_last_log_index = 0, rv_last_log_term = 0\<rparr>)
      (\<lambda>d. Some (append_from d 1 0 0 [entry 1 1] 1)) (\<lambda>_. ''v'') (\<lambda>_. ''a'') ''b'' node_a = Ret (resp, n') \<and>
    rn_log n' = []"
proof -
  let ?run = "RaftNode_handleConnection
      (\<lambda>d. Some \<lparr>rv_term = 1, rv_candidate_id = d, rv_last_log_index = 0, rv_last_log_term = 0\<rparr>)
      (\<lambda>d. Some (append_from d 1 0 0 [entry 1 1] 1)) (\<lambda>_. ''v'') (\<lambda>_. ''a'') ''b'' node_a"
  have "\<exists>resp n'. ?run = Ret (resp, n')"
    by (simp add: RaftNode_handleConnection_def handleRequestVote_eq)
  then obtain resp n' where run: "?run = Ret (resp, n')" by blast
  from append_requests_taken_for_votes [OF _ run] show ?thesis
    using run by (auto simp: append_from_def node_a_def RaftNode_start_def RaftNode_new_def)
qed

end
