(* ===== verification/Registry_Protocol.thy ===== *)
theory Registry_Protocol
  imports Registry_Server
begin

text \<open>
  The registry protocol end to end: which handler of \<open>handleConnection\<close> a serialized request
  reaches. The requests carry no type, so the dispatch parses the bytes as one message after
  the other; messages with the same field numbers are indistinguishable on the wire. The
  lemmas about overlap hold for every protobuf runtime and every input, the end-to-end lemmas
  for every runtime that satisfies \<open>pb_wire\<close>.
\<close>

section \<open>Messages of the same shape\<close>

definition heartbeat_as_register :: "HeartbeatRequest \<Rightarrow> ServiceRegisterRequest" where
  "heartbeat_as_register q = \<lparr>srq_service_name = hq_service_name q, srq_host = hq_host q,
     srq_port = hq_port q, srq_unknown = hq_unknown q\<rparr>"

definition register_response_as_heartbeat :: "ServiceRegisterResponse \<Rightarrow> HeartbeatResponse" where
  "register_response_as_heartbeat q = \<lparr>hs_success = srs_success q, hs_message = srs_message q,
     hs_unknown = srs_unknown q\<rparr>"

lemma heartbeat_parses_as_register:
  "ServiceRegisterRequest_deserialize rt data =
   map_option heartbeat_as_register (HeartbeatRequest_deserialize rt data)"
proof -
  have init: "ServiceRegisterRequest_Clear ServiceRegisterRequest_default =
      heartbeat_as_register (HeartbeatRequest_Clear HeartbeatRequest_default)"
    by (simp add: heartbeat_as_register_def ServiceRegisterRequest_Clear_def
        ServiceRegisterRequest_default_def HeartbeatRequest_Clear_def HeartbeatRequest_default_def)
  show ?thesis
    unfolding ServiceRegisterRequest_deserialize_def HeartbeatRequest_deserialize_def
      ServiceRegisterRequest_InternalParse_def HeartbeatRequest_InternalParse_def init
    by (rule deserialize_map)
      (simp_all add: ServiceRegisterRequest_field_def HeartbeatRequest_field_def map_get
        heartbeat_as_register_def)
qed

lemma register_response_parses_as_heartbeat:
  "HeartbeatResponse_deserialize rt data =
   map_option register_response_as_heartbeat (ServiceRegisterResponse_deserialize rt data)"
proof -
  have init: "HeartbeatResponse_Clear HeartbeatResponse_default =
      register_response_as_heartbeat (ServiceRegisterResponse_Clear ServiceRegisterResponse_default)"
    by (simp add: register_response_as_heartbeat_def ServiceRegisterResponse_Clear_def
        ServiceRegisterResponse_default_def HeartbeatResponse_Clear_def HeartbeatResponse_default_def)
  show ?thesis
    unfolding ServiceRegisterResponse_deserialize_def HeartbeatResponse_deserialize_def
      ServiceRegisterResponse_InternalParse_def HeartbeatResponse_InternalParse_def init
    by (rule deserialize_map)
      (simp_all add: ServiceRegisterResponse_field_def HeartbeatResponse_field_def map_get
        register_response_as_heartbeat_def)
qed

lemma heartbeat_serializes_as_register:
  "HeartbeatRequest_serialize rt q = ServiceRegisterRequest_serialize rt (heartbeat_as_register q)"
  by (simp add: HeartbeatRequest_serialize_def ServiceRegisterRequest_serialize_def
      HeartbeatRequest_ByteSizeLong_def ServiceRegisterRequest_ByteSizeLong_def
      HeartbeatRequest_InternalSerialize_def ServiceRegisterRequest_InternalSerialize_def
      heartbeat_as_register_def)

text \<open>So the third attempt of \<open>handleConnection\<close> never answers.\<close>

lemma heartbeat_needs_register_failure:
  "try_register rt now data r = None \<Longrightarrow> try_heartbeat rt now data r = None"
  by (auto simp: try_register_def try_heartbeat_def heartbeat_parses_as_register
      heartbeat_as_register_def split: option.splits if_splits prod.splits)

lemma dispatch_two:
  "registry_dispatch rt now data r = or_else (try_register rt now data r) (try_discovery rt data r)"
  unfolding registry_dispatch_def
  by (cases "try_register rt now data r"; cases "try_discovery rt data r")
    (simp_all add: heartbeat_needs_register_failure)

section \<open>Requests that arrive as they were written\<close>

context pb_wire
begin

lemmas discovery_tags = ServiceDiscoveryRequest_field_def tag_simps

lemma discovery_skips_host: "length v < pb_limit \<Longrightarrow>
    pb_parse rt (ServiceDiscoveryRequest_field rt) k (rt_WriteString rt 2 v @ r) m =
    pb_parse rt (ServiceDiscoveryRequest_field rt) k r (k (rt_WriteString rt 2 v) m)"
  by (rule skip_string [OF ServiceDiscoveryRequest_consuming]) (simp_all add: discovery_tags)

lemma discovery_skips_port:
  "pb_parse rt (ServiceDiscoveryRequest_field rt) k (rt_WriteInt32 rt 3 v @ r) m =
   pb_parse rt (ServiceDiscoveryRequest_field rt) k r (k (rt_WriteInt32 rt 3 v) m)"
  by (rule skip_int32 [OF ServiceDiscoveryRequest_consuming]) (simp_all add: discovery_tags)

lemmas discovery_skips = discovery_skips_host discovery_skips_port
  ServiceDiscoveryRequest_read_service_name

lemmas discovery_skips_last = discovery_skips [where r = "[]", unfolded append_Nil2 parse_Nil]

lemma register_parses_as_discovery:
  assumes "ServiceRegisterRequest_ok rt q"
  shows "\<exists>d. ServiceDiscoveryRequest_deserialize rt (ServiceRegisterRequest_serialize rt q) = Some d \<and>
    dq_service_name d = srq_service_name q"
  using assms serialize_ok [of "ServiceRegisterRequest_ByteSizeLong rt q"]
  by (cases q) (auto simp: ServiceRegisterRequest_ok_def ServiceRegisterRequest_serialize_def
      ServiceDiscoveryRequest_deserialize_def ServiceDiscoveryRequest_InternalParse_def
      ServiceDiscoveryRequest_Clear_def ServiceDiscoveryRequest_default_def
      Serializer_serialize_def Serializer_deserialize_def
      ServiceRegisterRequest_InternalSerialize_def discovery_skips discovery_skips_last
      simp del: One_nat_def)

lemma discovery_parses_as_register:
  assumes "ServiceDiscoveryRequest_ok rt q"
  shows "ServiceRegisterRequest_deserialize rt (ServiceDiscoveryRequest_serialize rt q) =
    Some (ServiceRegisterRequest_default\<lparr>srq_service_name := dq_service_name q\<rparr>)"
  using assms serialize_ok [of "ServiceDiscoveryRequest_ByteSizeLong rt q"]
  by (cases q) (auto simp: ServiceDiscoveryRequest_ok_def ServiceDiscoveryRequest_serialize_def
      ServiceRegisterRequest_deserialize_def ServiceRegisterRequest_InternalParse_def
      ServiceRegisterRequest_Clear_def ServiceRegisterRequest_default_def
      Serializer_serialize_def Serializer_deserialize_def
      ServiceDiscoveryRequest_InternalSerialize_def ServiceRegisterRequest_reads
      ServiceRegisterRequest_read_last simp del: One_nat_def)

lemma dispatch_register:
  assumes "ServiceRegisterRequest_ok rt q"
    and "srq_service_name q \<noteq> []" and "srq_host q \<noteq> []" and "0 < sint (srq_port q)"
  shows "registry_dispatch rt now (ServiceRegisterRequest_serialize rt q) r =
    Some (ServiceRegisterResponse_serialize rt (fst (handleServiceRegister now q r)),
          snd (handleServiceRegister now q r))"
  using assms ServiceRegisterRequest_roundtrip [OF assms(1)]
  by (simp add: dispatch_two try_register_def case_prod_unfold Let_def)

lemma dispatch_incomplete_register:
  assumes "ServiceRegisterRequest_ok rt q" and "srq_service_name q \<noteq> []"
    and "srq_host q = [] \<or> \<not> 0 < sint (srq_port q)"
  shows "\<exists>d. dq_service_name d = srq_service_name q \<and>
    registry_dispatch rt now (ServiceRegisterRequest_serialize rt q) r =
    Some (ServiceDiscoveryResponse_serialize rt (handleServiceDiscovery d r), r)"
proof -
  obtain d where d: "ServiceDiscoveryRequest_deserialize rt (ServiceRegisterRequest_serialize rt q) = Some d"
      "dq_service_name d = srq_service_name q"
    using register_parses_as_discovery [OF assms(1)] by blast
  have "try_register rt now (ServiceRegisterRequest_serialize rt q) r = None"
    using ServiceRegisterRequest_roundtrip [OF assms(1)] assms(3) by (auto simp: try_register_def)
  then show ?thesis using d assms(2) by (auto simp: dispatch_two try_discovery_def)
qed

lemma dispatch_discovery:
  assumes "ServiceDiscoveryRequest_ok rt q" and "dq_service_name q \<noteq> []"
  shows "registry_dispatch rt now (ServiceDiscoveryRequest_serialize rt q) r =
    Some (ServiceDiscoveryResponse_serialize rt (handleServiceDiscovery q r), r)"
  using discovery_parses_as_register [OF assms(1)] ServiceDiscoveryRequest_roundtrip [OF assms(1)]
    assms(2)
  by (simp add: dispatch_two try_register_def try_discovery_def ServiceRegisterRequest_default_def)

lemma heartbeat_ok_register:
  "HeartbeatRequest_ok rt q \<Longrightarrow> ServiceRegisterRequest_ok rt (heartbeat_as_register q)"
  unfolding HeartbeatRequest_ok_def ServiceRegisterRequest_ok_def heartbeat_as_register_def
    HeartbeatRequest_ByteSizeLong_def ServiceRegisterRequest_ByteSizeLong_def
    ServiceRegisterRequest.select_convs .

lemma dispatch_heartbeat:
  assumes "HeartbeatRequest_ok rt q"
    and "hq_service_name q \<noteq> []" and "hq_host q \<noteq> []" and "0 < sint (hq_port q)"
  shows "registry_dispatch rt now (HeartbeatRequest_serialize rt q) r =
    Some (ServiceRegisterResponse_serialize rt (fst (handleServiceRegister now (heartbeat_as_register q) r)),
          snd (handleServiceRegister now (heartbeat_as_register q) r))"
  unfolding heartbeat_serializes_as_register
  by (rule dispatch_register) (use assms in \<open>simp_all add: heartbeat_ok_register, simp_all add: heartbeat_as_register_def\<close>)

end

section \<open>Invariants of the running server\<close>

text \<open>A connection registers a complete instance or leaves the table alone.\<close>

lemma dispatch_cases:
  assumes "registry_dispatch rt now data r = Some (resp, r')"
  shows "r' = r \<or> (\<exists>q. srq_service_name q \<noteq> [] \<and> srq_host q \<noteq> [] \<and> 0 < sint (srq_port q) \<and>
    r' = snd (handleServiceRegister now q r))"
proof (cases "try_register rt now data r")
  case None
  then show ?thesis using assms
    by (auto simp: dispatch_two try_discovery_def split: option.splits if_splits)
next
  case (Some x)
  then show ?thesis using assms
    by (auto simp: dispatch_two try_register_def Let_def case_prod_unfold
        split: option.splits if_splits)
qed

lemma handleConnection_cases:
  "fst (RegistryServer_handleConnection rt now r conn s) = r \<or>
   (\<exists>q. srq_service_name q \<noteq> [] \<and> srq_host q \<noteq> [] \<and> 0 < sint (srq_port q) \<and>
    fst (RegistryServer_handleConnection rt now r conn s) = snd (handleServiceRegister now q r))"
proof -
  obtain data c1 s1 where rx: "TcpConnection_receive conn s = (data, c1, s1)"
    by (cases "TcpConnection_receive conn s")
  show ?thesis
  proof (cases "registry_dispatch rt now data r")
    case None
    then show ?thesis by (simp add: RegistryServer_handleConnection_def rx)
  next
    case (Some x)
    obtain resp r' where x: "x = (resp, r')" by (cases x)
    show ?thesis using dispatch_cases [OF Some [unfolded x]]
      by (simp add: RegistryServer_handleConnection_def rx Some x)
  qed
qed

definition registry_valid :: "RegistryServer \<Rightarrow> bool" where
  "registry_valid r \<longleftrightarrow> table_ok (rg_services r) \<and>
     (\<forall>n h p. registered (rg_services r) (n, h, p) \<noteq> None \<longrightarrow> n \<noteq> [] \<and> h \<noteq> [] \<and> 0 < sint p)"

lemma register_valid:
  "registry_valid r \<Longrightarrow> srq_service_name q \<noteq> [] \<Longrightarrow> srq_host q \<noteq> [] \<Longrightarrow> 0 < sint (srq_port q) \<Longrightarrow>
   registry_valid (snd (handleServiceRegister now q r))"
  by (simp add: registry_valid_def register_ok register_view)

lemma check_valid: "registry_valid r \<Longrightarrow> registry_valid (checkHeartbeat now r)"
  by (auto simp: registry_valid_def check_ok check_view view_expire_def split: option.splits if_splits)

lemma handleConnection_valid:
  "registry_valid r \<Longrightarrow> registry_valid (fst (RegistryServer_handleConnection rt now r conn s))"
  using handleConnection_cases [of rt now r conn s] by (auto intro: register_valid)

lemma step_valid: "registry_step rt r r' \<Longrightarrow> registry_valid r \<Longrightarrow> registry_valid r'"
  by (auto elim!: registry_stepE simp: handleConnection_valid check_valid RegistryServer_start_def
      RegistryServer_stop_def) (simp_all add: registry_valid_def)

lemma reachable_valid: "registry_reachable rt r \<Longrightarrow> registry_valid r"
proof (induction rule: registry_reachable.induct)
  case init
  then show ?case by (simp add: registry_valid_def RegistryServer_new_def)
qed (rule step_valid)

text \<open>What a discovery lists: the registered instances of the service, once each.\<close>

lemma discovery_infos:
  "table_ok (rg_services r) \<Longrightarrow> ds_services (handleServiceDiscovery q r) =
     map instance_info (filter (\<lambda>i. si_host i \<noteq> [] \<and> 0 < sint (si_port i))
       (instances_of (rg_services r) (dq_service_name q)))"
  by (simp add: handleServiceDiscovery_def instances_of_def ServiceDiscoveryResponse_default_def
      split: option.splits)

lemma instances_registered:
  assumes "table_ok sv"
  shows "i \<in> set (instances_of sv n) \<longleftrightarrow>
    registered sv (n, si_host i, si_port i) = Some (si_last_heartbeat i)"
proof
  assume "i \<in> set (instances_of sv n)"
  then show "registered sv (n, si_host i, si_port i) = Some (si_last_heartbeat i)"
    using endpoints_Some [OF table_ok_instances [OF assms]] by (simp add: registered_def)
next
  assume "registered sv (n, si_host i, si_port i) = Some (si_last_heartbeat i)"
  then obtain j where "j \<in> set (instances_of sv n)" "si_host j = si_host i" "si_port j = si_port i"
      "si_last_heartbeat j = si_last_heartbeat i"
    using endpoints_SomeD by (fastforce simp: registered_def)
  moreover from this(2-4) have "j = i" by simp
  ultimately show "i \<in> set (instances_of sv n)" by simp
qed

lemma discovery_set:
  assumes "registry_valid r"
  shows "set (ds_services (handleServiceDiscovery q r)) =
    {instance_info i |i. registered (rg_services r) (dq_service_name q, si_host i, si_port i) =
       Some (si_last_heartbeat i)}"
proof -
  have ok: "table_ok (rg_services r)" using assms by (simp add: registry_valid_def)
  have "{i \<in> set (instances_of (rg_services r) (dq_service_name q)). si_host i \<noteq> [] \<and> 0 < sint (si_port i)} =
      {i. registered (rg_services r) (dq_service_name q, si_host i, si_port i) = Some (si_last_heartbeat i)}"
    using assms by (auto simp: instances_registered [OF ok] registry_valid_def)
  then show ?thesis by (simp add: discovery_infos [OF ok] setcompr_eq_image)
qed

lemma discovery_distinct:
  assumes "table_ok (rg_services r)"
  shows "distinct (map (\<lambda>i. (info_host i, info_port i)) (ds_services (handleServiceDiscovery q r)))"
  using distinct_key_filter [OF table_ok_instances [OF assms]]
  by (simp add: discovery_infos assms comp_def instance_info_def ServiceInfo_default_def)

end
