(* ===== verification/Registry_Properties.thy ===== *)
theory Registry_Properties
  imports Registry_Protocol Registry_State_Machine
begin

text \<open>
  The properties of the two service registries and of the protocol their clients speak.
\<close>

section \<open>Examples\<close>

definition req_ex :: ServiceRegisterRequest where
  "req_ex = \<lparr>srq_service_name = ''Echo'', srq_host = ''h'', srq_port = 80, srq_unknown = []\<rparr>"

definition bad_ex :: ServiceRegisterRequest where
  "bad_ex = \<lparr>srq_service_name = ''Echo'', srq_host = ''h'', srq_port = 0, srq_unknown = []\<rparr>"

definition hb_ex :: HeartbeatRequest where
  "hb_ex = \<lparr>hq_service_name = ''Echo'', hq_host = ''h'', hq_port = 80, hq_unknown = []\<rparr>"

definition disc_ex :: ServiceDiscoveryRequest where
  "disc_ex = \<lparr>dq_service_name = ''Echo'', dq_unknown = []\<rparr>"

lemma ok_examples:
  "ServiceRegisterRequest_ok std_runtime req_ex" "ServiceRegisterRequest_ok std_runtime bad_ex"
  "HeartbeatRequest_ok std_runtime hb_ex" "ServiceDiscoveryRequest_ok std_runtime disc_ex"
proof -
  have s: "ServiceRegisterRequest_ByteSizeLong std_runtime req_ex = 11"
    "ServiceRegisterRequest_ByteSizeLong std_runtime bad_ex = 9"
    "HeartbeatRequest_ByteSizeLong std_runtime hb_ex = 11"
    "ServiceDiscoveryRequest_ByteSizeLong std_runtime disc_ex = 6"
    and u: "rt_VerifyUTF8 std_runtime ''Echo''" "rt_VerifyUTF8 std_runtime ''h''" by code_simp+
  show "ServiceRegisterRequest_ok std_runtime req_ex" "ServiceRegisterRequest_ok std_runtime bad_ex"
    "HeartbeatRequest_ok std_runtime hb_ex" "ServiceDiscoveryRequest_ok std_runtime disc_ex"
    unfolding ServiceRegisterRequest_ok_def HeartbeatRequest_ok_def ServiceDiscoveryRequest_ok_def s
    using u by (simp_all add: req_ex_def bad_ex_def hb_ex_def disc_ex_def pb_limit_def)
qed

section \<open>The table\<close>

text \<open>C20. The registry server refines its abstract specification: after any sequence of
  registrations, heartbeats and heartbeat checks, the instances in its table, with the times of
  their last heartbeats, are those the specification computes on the map from
  (service, host, port) to time.\<close>

theorem registry_refines_view:
  "registered (rg_services (fold (do_op registry_register registry_heartbeat checkHeartbeat) ops
     RegistryServer_new)) = fold view_op ops Map.empty"
  using reg.view_run by (simp add: registry_view_def)

text \<open>C27. The replicated state machine of the distributed registry and the stand-alone registry
  server hold the same table, entry for entry, after the same operations.\<close>

theorem registries_equivalent:
  "rg_services (fold (do_op registry_register registry_heartbeat checkHeartbeat) ops RegistryServer_new) =
   sm_services (fold (do_op registerService updateHeartbeat removeExpiredServices) ops RegistryStateMachine_new)"
  using same_table_exec [of RegistryServer_new RegistryStateMachine_new ops]
  by (simp add: same_table_def RegistryServer_new_def RegistryStateMachine_new_def)

text \<open>An instance that is registered at time t stays registered through any operations, as
  long as no heartbeat check happens more than 30 seconds after t and the clock does not run
  backwards for its own reports.\<close>

theorem instance_stays_registered:
  "table_ok (rg_services r) \<Longrightarrow> registered (rg_services r) k = Some t \<Longrightarrow>
   \<forall>op \<in> set ops. touches k op \<longrightarrow> t \<le> op_time op \<Longrightarrow>
   \<forall>now. Expire now \<in> set ops \<longrightarrow> \<not> now - t > seconds 30 \<Longrightarrow>
   \<exists>t' \<ge> t. registered (rg_services
     (fold (do_op registry_register registry_heartbeat checkHeartbeat) ops r)) k = Some t'"
  using reg.alive [of r k t ops] by (auto simp: registry_ok_def registry_view_def expired_def)

lemma instance_stays_registered_witness:
  "\<exists>t' \<ge> 0. registered (rg_services (fold (do_op registry_register registry_heartbeat checkHeartbeat)
     [Expire (seconds 30), Register ''x'' ''y'' 1 5, Expire (seconds 7)]
     (registry_register ''Echo'' ''h'' 80 0 RegistryServer_new))) (''Echo'', ''h'', 80) = Some t'"
  by (rule instance_stays_registered)
    (simp_all add: registry_register_def register_ok register_view RegistryServer_new_def
      ServiceRegisterRequest_default_def seconds_def)

text \<open>An instance whose last report is t and that does not report again is removed by the
  first heartbeat check more than 30 seconds after t, and stays away.\<close>

theorem silent_instance_removed:
  "table_ok (rg_services r) \<Longrightarrow> registered (rg_services r) k = Some t \<Longrightarrow>
   \<forall>op \<in> set ops. \<not> touches k op \<Longrightarrow> Expire now \<in> set ops \<Longrightarrow> now - t > seconds 30 \<Longrightarrow>
   registered (rg_services
     (fold (do_op registry_register registry_heartbeat checkHeartbeat) ops r)) k = None"
  using reg.gone [of r k t ops now] by (simp add: registry_ok_def registry_view_def expired_def)

lemma silent_instance_removed_witness:
  "registered (rg_services (fold (do_op registry_register registry_heartbeat checkHeartbeat)
     [Register ''x'' ''y'' 1 5, Expire (seconds 30 + 1), Expire 0]
     (registry_register ''Echo'' ''h'' 80 0 RegistryServer_new))) (''Echo'', ''h'', 80) = None"
  by (rule silent_instance_removed [where now = "seconds 30 + 1" and t = 0])
    (simp_all add: registry_register_def register_ok register_view RegistryServer_new_def
      ServiceRegisterRequest_default_def seconds_def)

text \<open>In the state machine, an instance that was unregistered stays unknown, heartbeats
  included, until it registers again.\<close>

theorem unregistered_stays_away:
  "table_ok (sm_services m) \<Longrightarrow> \<forall>op \<in> set ops. \<forall>t. op \<noteq> Register n h p t \<Longrightarrow>
   registered (sm_services (fold (do_op registerService updateHeartbeat removeExpiredServices) ops
     (unregisterService n h p m))) (n, h, p) = None"
  using sm.unregister_exec [of m ops n h p] by (simp add: sm_ok_def sm_view_def)

lemma unregistered_stays_away_witness:
  "registered (sm_services (fold (do_op registerService updateHeartbeat removeExpiredServices)
     [Heartbeat ''Echo'' ''h'' 80 3, Register ''Echo'' ''h'' 81 4]
     (unregisterService ''Echo'' ''h'' 80
       (registerService ''Echo'' ''h'' 80 0 RegistryStateMachine_new)))) (''Echo'', ''h'', 80) = None"
  by (rule unregistered_stays_away) (simp_all add: registerService_ok RegistryStateMachine_new_def)

text \<open>Applying a log entry does what its operation says on the abstract view: it registers,
  removes or refreshes exactly the named instance, and an entry of another kind, an unreadable
  one or an unknown operation type changes nothing.\<close>

theorem applyLogEntry_result:
  "table_ok (sm_services m) \<Longrightarrow>
   registered (sm_services (applyLogEntry parse e now m)) =
    (case (if le_operation e = ''service_operation'' then parse (le_data e) else None) of
       None \<Rightarrow> registered (sm_services m)
     | Some op \<Rightarrow>
         let k = (so_service_name op, so_host op, so_port op) in
         if so_operation_type op = ''register'' then (registered (sm_services m))(k \<mapsto> now)
         else if so_operation_type op = ''unregister'' then (registered (sm_services m))(k := None)
         else if so_operation_type op = ''heartbeat'' \<and> registered (sm_services m) k \<noteq> None
         then (registered (sm_services m))(k \<mapsto> now)
         else registered (sm_services m))"
  by (auto simp: applyLogEntry_def applyServiceOperation_def registerService_view
      unregisterService_view updateHeartbeat_view view_heartbeat_def Let_def split: option.splits)

lemma applyLogEntry_result_witness:
  "registered (sm_services (applyLogEntry
     (\<lambda>d. Some \<lparr>so_operation_type = ''register'', so_service_name = d, so_host = ''h'', so_port = 80,
        so_timestamp = 0\<rparr>)
     \<lparr>le_term = 1, le_index = 1, le_operation = ''service_operation'', le_data = ''Echo''\<rparr> 5
     RegistryStateMachine_new)) (''Echo'', ''h'', 80) = Some 5"
  by (subst applyLogEntry_result) (simp_all add: RegistryStateMachine_new_def)

section \<open>The protocol\<close>

text \<open>The heartbeat branch of \<open>handleConnection\<close> is dead code: for every runtime and every
  message the connection is answered by the registration or the discovery attempt, or not at
  all.\<close>

theorem heartbeat_branch_unreachable:
  "registry_dispatch rt now data r = or_else (try_register rt now data r) (try_discovery rt data r)"
  by (rule dispatch_two)

text \<open>A client's heartbeat is therefore handled as a registration: it makes the instance known
  even if it was not (or no longer) registered, and the reply, read as a heartbeat response,
  reports success.\<close>

theorem heartbeat_registers:
  assumes "pb_wire rt" and "HeartbeatRequest_ok rt q" and "hq_service_name q \<noteq> []"
    and "hq_host q \<noteq> []" and "0 < sint (hq_port q)"
  shows "\<exists>resp r'. registry_dispatch rt now (HeartbeatRequest_serialize rt q) r = Some (resp, r') \<and>
    registered (rg_services r') =
      (registered (rg_services r))((hq_service_name q, hq_host q, hq_port q) \<mapsto> now) \<and>
    resp = ServiceRegisterResponse_serialize rt (ServiceRegisterResponse_default\<lparr>srs_success := True,
      srs_message := ''Service registered successfully''\<rparr>)"
  using pb_wire.dispatch_heartbeat [OF assms]
  by (simp add: register_view) (simp add: heartbeat_as_register_def handleServiceRegister_def Let_def)

lemma heartbeat_registers_witness:
  "\<exists>resp r'. registry_dispatch std_runtime 7 (HeartbeatRequest_serialize std_runtime hb_ex)
      RegistryServer_new = Some (resp, r') \<and> registered (rg_services r') (''Echo'', ''h'', 80) = Some 7"
  using heartbeat_registers [OF std.pb_wire_axioms ok_examples(3), of 7 RegistryServer_new]
  by (auto simp: hb_ex_def)

text \<open>A complete registration request is carried out and confirmed: exactly its instance is
  added or refreshed.\<close>

theorem registration_carried_out:
  assumes "pb_wire rt" and "ServiceRegisterRequest_ok rt q" and "srq_service_name q \<noteq> []"
    and "srq_host q \<noteq> []" and "0 < sint (srq_port q)"
  shows "\<exists>r'. registry_dispatch rt now (ServiceRegisterRequest_serialize rt q) r =
      Some (ServiceRegisterResponse_serialize rt (ServiceRegisterResponse_default\<lparr>srs_success := True,
        srs_message := ''Service registered successfully''\<rparr>), r') \<and>
    registered (rg_services r') =
      (registered (rg_services r))((srq_service_name q, srq_host q, srq_port q) \<mapsto> now)"
  using pb_wire.dispatch_register [OF assms]
  by (simp add: register_view) (simp add: handleServiceRegister_def Let_def)

lemma registration_carried_out_witness:
  "\<exists>resp r'. registry_dispatch std_runtime 7 (ServiceRegisterRequest_serialize std_runtime req_ex)
      RegistryServer_new = Some (resp, r') \<and> registered (rg_services r') (''Echo'', ''h'', 80) = Some 7"
  using registration_carried_out [OF std.pb_wire_axioms ok_examples(1), of 7 RegistryServer_new]
  by (auto simp: req_ex_def)

text \<open>A registration request without a host or with a port that is not positive is not
  refused: the connection takes it for a discovery of its service, answers with the list of
  instances and leaves the table alone.\<close>

theorem incomplete_registration_is_discovery:
  assumes "pb_wire rt" and "ServiceRegisterRequest_ok rt q" and "srq_service_name q \<noteq> []"
    and "srq_host q = [] \<or> \<not> 0 < sint (srq_port q)"
  shows "registry_dispatch rt now (ServiceRegisterRequest_serialize rt q) r =
    Some (ServiceDiscoveryResponse_serialize rt
      (handleServiceDiscovery (ServiceDiscoveryRequest_default\<lparr>dq_service_name := srq_service_name q\<rparr>) r), r)"
proof -
  obtain d where d: "dq_service_name d = srq_service_name q"
      "registry_dispatch rt now (ServiceRegisterRequest_serialize rt q) r =
       Some (ServiceDiscoveryResponse_serialize rt (handleServiceDiscovery d r), r)"
    using pb_wire.dispatch_incomplete_register [OF assms] by blast
  have "handleServiceDiscovery d r = handleServiceDiscovery
      (ServiceDiscoveryRequest_default\<lparr>dq_service_name := srq_service_name q\<rparr>) r"
    by (simp add: handleServiceDiscovery_def d(1))
  then show ?thesis using d(2) by simp
qed

lemma incomplete_registration_is_discovery_witness:
  "registry_dispatch std_runtime 7 (ServiceRegisterRequest_serialize std_runtime bad_ex) RegistryServer_new =
   Some ('''', RegistryServer_new)"
proof -
  have "ServiceDiscoveryResponse_serialize std_runtime (handleServiceDiscovery
      (ServiceDiscoveryRequest_default\<lparr>dq_service_name := ''Echo''\<rparr>) RegistryServer_new) = ''''"
    by code_simp
  then show ?thesis
    using incomplete_registration_is_discovery [OF std.pb_wire_axioms ok_examples(2), of 7 RegistryServer_new]
    by (simp add: bad_ex_def)
qed

text \<open>C28. Every reachable registry has a well-formed table: a service has one vector, without
  duplicate or missing instances, and every instance has a name, a host and a positive port.\<close>

theorem registry_invariant:
  "registry_reachable rt r \<Longrightarrow> table_ok (rg_services r) \<and>
     (\<forall>n h p. registered (rg_services r) (n, h, p) \<noteq> None \<longrightarrow> n \<noteq> [] \<and> h \<noteq> [] \<and> 0 < sint p)"
  using reachable_valid by (simp add: registry_valid_def)

lemma registry_invariant_witness:
  "table_ok (rg_services (checkHeartbeat 5 (RegistryServer_start True RegistryServer_new)))"
proof -
  have "registry_reachable std_runtime (RegistryServer_start True RegistryServer_new)"
    by (blast intro: registry_reachable.intros registry_step.start)
  then have "registry_reachable std_runtime (checkHeartbeat 5 (RegistryServer_start True RegistryServer_new))"
    by (rule registry_reachable.step) (simp add: registry_step.check RegistryServer_start_def)
  from registry_invariant [OF this] show ?thesis by simp
qed

text \<open>C25. A discovery is answered from the serialized request to the parsed response: the client
  reads every registered instance of the service, each once, with its heartbeat time in
  milliseconds, and nothing else; the table stays as it was.\<close>

theorem discovery_lists_registered:
  assumes "pb_wire rt" and "registry_reachable rt r" and "ServiceDiscoveryRequest_ok rt q"
    and "dq_service_name q \<noteq> []" and "ServiceDiscoveryResponse_ok rt (handleServiceDiscovery q r)"
  shows "\<exists>resp m. registry_dispatch rt now (ServiceDiscoveryRequest_serialize rt q) r = Some (resp, r) \<and>
    ServiceDiscoveryResponse_deserialize rt resp = Some m \<and>
    set (ds_services m) = {instance_info i |i.
      registered (rg_services r) (dq_service_name q, si_host i, si_port i) = Some (si_last_heartbeat i)} \<and>
    distinct (map (\<lambda>i. (info_host i, info_port i)) (ds_services m))"
  using pb_wire.dispatch_discovery [OF assms(1,3,4)] pb_wire.ServiceDiscoveryResponse_roundtrip [OF assms(1,5)]
    discovery_set [OF reachable_valid [OF assms(2)]] discovery_distinct
    reachable_valid [OF assms(2), unfolded registry_valid_def]
  by (intro exI conjI) (assumption, assumption, auto)

definition one_instance :: RegistryServer where
  "one_instance = \<lparr>rg_services = [(''Echo'', [\<lparr>si_host = ''h'', si_port = 80, si_last_heartbeat = 7000000\<rparr>])],
     rg_running = False\<rparr>"

lemma discovery_lists_registered_witness:
  "\<exists>resp m. registry_dispatch std_runtime 9 (ServiceDiscoveryRequest_serialize std_runtime disc_ex) one_instance =
      Some (resp, one_instance) \<and> ServiceDiscoveryResponse_deserialize std_runtime resp = Some m \<and>
    instance_info \<lparr>si_host = ''h'', si_port = 80, si_last_heartbeat = 7000000\<rparr> \<in> set (ds_services m)"
proof -
  let ?conn = "TcpConnection_new 3"
  let ?sock = "\<lparr>sk_sends = [], sk_tx = [], sk_rx = frame (ServiceRegisterRequest_serialize std_runtime req_ex),
      sk_closed = False\<rparr>"
  have one: "fst (RegistryServer_handleConnection std_runtime 7000000 RegistryServer_new ?conn ?sock) = one_instance"
    by code_simp
  have r: "registry_reachable std_runtime one_instance"
    by (subst one [symmetric]) (blast intro: registry_reachable.intros registry_step.connection)
  let ?m = "handleServiceDiscovery disc_ex one_instance"
  have s: "ServiceDiscoveryResponse_ByteSizeLong std_runtime ?m = 9"
    and l: "ds_services ?m = [\<lparr>info_host = ''h'', info_port = 80, info_last_heartbeat = 7, info_unknown = []\<rparr>]"
    and d: "ds_unknown ?m = []" by code_simp+
  have i: "ServiceInfo_ByteSizeLong std_runtime \<lparr>info_host = ''h'', info_port = 80, info_last_heartbeat = 7, info_unknown = []\<rparr> = 7"
    "length (ServiceInfo_InternalSerialize std_runtime \<lparr>info_host = ''h'', info_port = 80, info_last_heartbeat = 7, info_unknown = []\<rparr>) = 7"
    and u: "rt_VerifyUTF8 std_runtime ''h''" by code_simp+
  have ok: "ServiceDiscoveryResponse_ok std_runtime ?m"
    unfolding ServiceDiscoveryResponse_ok_def ServiceInfo_ok_def s d l list.pred_inject i
    using u by (simp add: pb_limit_def)
  obtain resp m where m:
    "registry_dispatch std_runtime 9 (ServiceDiscoveryRequest_serialize std_runtime disc_ex) one_instance = Some (resp, one_instance)"
    "ServiceDiscoveryResponse_deserialize std_runtime resp = Some m"
    "set (ds_services m) = {instance_info i |i.
      registered (rg_services one_instance) (dq_service_name disc_ex, si_host i, si_port i) = Some (si_last_heartbeat i)}"
    using discovery_lists_registered [OF std.pb_wire_axioms r ok_examples(4) _ ok, of 9] by (auto simp: disc_ex_def)
  have "registered (rg_services one_instance) (''Echo'', ''h'', 80) = Some 7000000"
    by (simp add: registered_def instances_of_def endpoints_def one_instance_def)
  then show ?thesis using m by (fastforce simp: disc_ex_def)
qed

end
