(* ===== verification/Stream_Framing.thy ===== *)
theory Stream_Framing
  imports Rpc_Prelude
begin

text \<open>
  The interface between a byte stream and the messages in it: \<open>encode\<close> is what a sender writes
  for a message, \<open>decode\<close> takes the complete messages off a receive buffer and leaves the rest.
  The laws are that an encoded message is taken off whole, that nothing is lost, and that more
  bytes behind a buffer never change the messages already complete in it. What follows is that
  a receiver sees the sender's messages, in order, however the stream is cut into chunks.
\<close>

text \<open>One chunk: append it to the buffer, decode; the messages so far and the new buffer.\<close>

definition feed :: "(bytes \<Rightarrow> bytes list \<times> bytes) \<Rightarrow> bytes \<Rightarrow> bytes list \<times> bytes \<Rightarrow> bytes list \<times> bytes" where
  "feed decode chunk st = (let (ms, r) = decode (snd st @ chunk) in (fst st @ ms, r))"

locale stream_framing =
  fixes encode :: "bytes \<Rightarrow> bytes"
    and decode :: "bytes \<Rightarrow> bytes list \<times> bytes"
    and valid :: "bytes \<Rightarrow> bool"
  assumes decode_encode:
      "valid m \<Longrightarrow> decode (encode m @ r) = (m # fst (decode r), snd (decode r))"
    and decode_lossless: "decode b = (ms, r) \<Longrightarrow> b = concat (map encode ms) @ r"
    and decode_rest: "decode b = (ms, r) \<Longrightarrow> decode r = ([], r)"
    and decode_Nil: "decode [] = ([], [])"
    and decode_append: "decode (a @ b) =
        (fst (decode a) @ fst (decode (snd (decode a) @ b)), snd (decode (snd (decode a) @ b)))"
begin

lemma feed_chunks:
  "decode b = ([], b) \<Longrightarrow> fold (feed decode) chunks (ms, b) =
     (ms @ fst (decode (b @ concat chunks)), snd (decode (b @ concat chunks)))"
proof (induction chunks arbitrary: ms b)
  case (Cons c cs)
  obtain ms1 r1 where e: "decode (b @ c) = (ms1, r1)" by (cases "decode (b @ c)")
  show ?case
    using Cons.IH [OF decode_rest [OF e], of "ms @ ms1"] decode_append [of "b @ c" "concat cs"]
    by (simp add: e feed_def)
qed simp

lemma decode_encoded:
  "list_all valid ms \<Longrightarrow> decode (concat (map encode ms) @ r) = (ms @ fst (decode r), snd (decode r))"
  by (induction ms) (simp_all add: decode_encode)

text \<open>The messages do not depend on how the stream is cut.\<close>

lemma chunks_irrelevant:
  "concat cs = concat ds \<Longrightarrow> fold (feed decode) cs ([], []) = fold (feed decode) ds ([], [])"
  by (simp add: feed_chunks [OF decode_Nil])

lemma receive_all:
  assumes "list_all valid ms" and "concat cs = concat (map encode ms)"
  shows "fold (feed decode) cs ([], []) = (ms, [])"
  using decode_encoded [OF assms(1), of "[]"]
  by (simp add: feed_chunks [OF decode_Nil] assms(2) decode_Nil)

text \<open>A prefix of the stream yields a prefix of the messages.\<close>

lemma receive_prefix:
  assumes "list_all valid ms" and "concat cs @ t = concat (map encode ms)"
  shows "\<exists>later. fst (fold (feed decode) cs ([], [])) @ later = ms"
proof -
  have "fst (decode (concat cs @ t)) = ms"
    using decode_encoded [OF assms(1), of "[]"] assms(2) by (simp add: decode_Nil)
  then show ?thesis
    using decode_append [of "concat cs" t] by (auto simp: feed_chunks [OF decode_Nil])
qed

end

end
