(* ===== verification/Epoll_Server.thy ===== *)
theory Epoll_Server
  imports Stream_Framing Tcp_Connection
begin

text \<open>
  common/epoll_server.cpp: the event-driven server of the RPC framework. The event loop is one
  thread, so accepting, reading and closing are steps of one state; the results of the system
  calls are arguments. A complete message is handed to the thread pool: \<open>ep_tasks\<close> is the
  sequence of \<open>enqueue\<close> calls, each the descriptor and the message the lambda captures. The
  \<open>send_queue\<close> and \<open>last_activity\<close> of a connection are never read.
\<close>

section \<open>State\<close>

record ClientConnection =
  cc_fd :: int
  cc_receive_buffer :: bytes
  cc_closed :: bool

definition ClientConnection_new :: "int \<Rightarrow> ClientConnection" where
  "ClientConnection_new f = \<lparr>cc_fd = f, cc_receive_buffer = [], cc_closed = False\<rparr>"

record EpollServer =
  ep_listen_fd :: int
  ep_epoll_fd :: int
  ep_max_connections :: u64
  ep_running :: bool
  ep_connections :: "(int \<times> ClientConnection) list"
  ep_has_handler :: bool
  ep_tasks :: "(int \<times> bytes) list"
  ep_closed_fds :: "int list"
  ep_total_connections :: u64
  ep_active_connections :: u64
  ep_total_requests :: u64
  ep_failed_requests :: u64
  ep_bytes_received :: u64
  ep_bytes_sent :: u64

definition EpollServer_new :: "u64 \<Rightarrow> EpollServer" where
  "EpollServer_new max_connections = \<lparr>ep_listen_fd = -1, ep_epoll_fd = -1,
     ep_max_connections = max_connections, ep_running = False, ep_connections = [],
     ep_has_handler = False, ep_tasks = [], ep_closed_fds = [], ep_total_connections = 0,
     ep_active_connections = 0, ep_total_requests = 0, ep_failed_requests = 0,
     ep_bytes_received = 0, ep_bytes_sent = 0\<rparr>"

text \<open>
  \<open>start\<close>: the results of the system calls of \<open>setupListenSocket\<close> and \<open>setupEpoll\<close>, negative for a
  failure. Both assign the new descriptor to their field before they know whether they succeed.
  \<open>ep_closed_fds\<close> records every call of \<open>close\<close>.
\<close>

record setup_calls =
  su_socket :: int
  su_reuse :: int
  su_getfl :: int
  su_setfl :: int
  su_bind :: int
  su_listen :: int
  su_epoll :: int
  su_add :: int

definition setNonBlocking :: "int \<Rightarrow> int \<Rightarrow> bool" where
  "setNonBlocking flags result = (if flags < 0 then False else result \<ge> 0)"

definition setupListenSocket :: "setup_calls \<Rightarrow> EpollServer \<Rightarrow> bool \<times> EpollServer" where
  "setupListenSocket c s =
     (let s = s\<lparr>ep_listen_fd := su_socket c\<rparr> in
      if su_socket c < 0 then (False, s)
      else if su_reuse c < 0 then (False, s)
      else if \<not> setNonBlocking (su_getfl c) (su_setfl c) then (False, s)
      else if su_bind c < 0 then (False, s)
      else if su_listen c < 0 then (False, s)
      else (True, s))"

definition setupEpoll :: "setup_calls \<Rightarrow> EpollServer \<Rightarrow> bool \<times> EpollServer" where
  "setupEpoll c s =
     (let s = s\<lparr>ep_epoll_fd := su_epoll c\<rparr> in
      if su_epoll c < 0 then (False, s) else if su_add c < 0 then (False, s) else (True, s))"

definition EpollServer_start :: "setup_calls \<Rightarrow> EpollServer \<Rightarrow> bool \<times> EpollServer" where
  "EpollServer_start c s =
     (let (ok, s) = setupListenSocket c s in
      if \<not> ok then (False, s)
      else let (ok, s) = setupEpoll c s in
        if \<not> ok then (False, s\<lparr>ep_closed_fds := ep_closed_fds s @ [ep_listen_fd s]\<rparr>)
        else (True, s\<lparr>ep_running := True\<rparr>))"

definition EpollServer_stop :: "EpollServer \<Rightarrow> EpollServer" where
  "EpollServer_stop s =
     (if \<not> ep_running s then s
      else
        let s = s\<lparr>ep_running := False\<rparr>;
            s = s\<lparr>ep_closed_fds := ep_closed_fds s @ map fst (ep_connections s), ep_connections := []\<rparr>;
            s = (if ep_epoll_fd s \<ge> 0
                 then s\<lparr>ep_closed_fds := ep_closed_fds s @ [ep_epoll_fd s], ep_epoll_fd := -1\<rparr> else s);
            s = (if ep_listen_fd s \<ge> 0
                 then s\<lparr>ep_closed_fds := ep_closed_fds s @ [ep_listen_fd s], ep_listen_fd := -1\<rparr> else s)
        in s)"

record epoll_stats =
  es_total_connections :: u64
  es_active_connections :: u64
  es_total_requests :: u64
  es_failed_requests :: u64
  es_bytes_received :: u64
  es_bytes_sent :: u64

definition EpollServer_getStats :: "EpollServer \<Rightarrow> epoll_stats" where
  "EpollServer_getStats s = \<lparr>es_total_connections = ep_total_connections s,
     es_active_connections = ep_active_connections s, es_total_requests = ep_total_requests s,
     es_failed_requests = ep_failed_requests s, es_bytes_received = ep_bytes_received s,
     es_bytes_sent = ep_bytes_sent s\<rparr>"

definition setConnectionHandler :: "EpollServer \<Rightarrow> EpollServer" where
  "setConnectionHandler s = s\<lparr>ep_has_handler := True\<rparr>"

section \<open>Messages\<close>

text \<open>
  The loop of \<open>extractMessages\<close>: the messages and the buffer that is left. The 4-byte length is
  read into a \<open>uint32_t\<close>, and \<open>total_len\<close> is a 64-bit \<open>size_t\<close> that cannot overflow.
\<close>

function extractMessages :: "bytes \<Rightarrow> bytes list \<times> bytes" where
  "extractMessages receive_buffer =
     (if 4 \<le> length receive_buffer then
        let message_len = be32_val (take 4 receive_buffer);
            total_len = 4 + unat message_len
        in if length receive_buffer < total_len then ([], receive_buffer)
           else
             let message = take (unat message_len) (drop 4 receive_buffer);
                 (messages, rest) = extractMessages (drop total_len receive_buffer)
             in (message # messages, rest)
      else ([], receive_buffer))"
  by pat_completeness auto
termination
  by (relation "measure length") auto

declare extractMessages.simps [simp del]

section \<open>Connections\<close>

definition closeConnection :: "int \<Rightarrow> EpollServer \<Rightarrow> EpollServer" where
  "closeConnection fd s = (case map_of (ep_connections s) fd of
       None \<Rightarrow> s
     | Some conn \<Rightarrow>
         if cc_closed conn then s
         else s\<lparr>ep_connections := AList.delete fd (ep_connections s),
                ep_closed_fds := ep_closed_fds s @ [fd],
                ep_active_connections := ep_active_connections s - 1\<rparr>)"

text \<open>
  One accepted descriptor of the loop in \<open>handleNewConnection\<close>, with the results of
  \<open>setNonBlocking\<close> and \<open>epoll_ctl\<close>.
\<close>

definition accept_one :: "int \<times> bool \<times> bool \<Rightarrow> EpollServer \<Rightarrow> EpollServer" where
  "accept_one = (\<lambda>(fd, nonblocking, added) s.
     if ep_active_connections s \<ge> ep_max_connections s \<or> \<not> nonblocking \<or> \<not> added
     then s\<lparr>ep_closed_fds := ep_closed_fds s @ [fd]\<rparr>
     else s\<lparr>ep_connections := AList.update fd (ClientConnection_new fd) (ep_connections s),
            ep_total_connections := ep_total_connections s + 1,
            ep_active_connections := ep_active_connections s + 1\<rparr>)"

definition handleNewConnection :: "(int \<times> bool \<times> bool) list \<Rightarrow> EpollServer \<Rightarrow> EpollServer" where
  "handleNewConnection accepted s = fold accept_one accepted s"

text \<open>How a sequence of \<open>recv\<close> calls ends: the peer closed, no more data, or an error.\<close>

datatype read_end = PeerClosed | WouldBlock | ReadError

definition read_chunk :: "int \<Rightarrow> bytes \<Rightarrow> EpollServer \<Rightarrow> EpollServer" where
  "read_chunk fd chunk s = (case map_of (ep_connections s) fd of
       None \<Rightarrow> s
     | Some conn \<Rightarrow>
         let (messages, rest) = extractMessages (cc_receive_buffer conn @ chunk)
         in s\<lparr>ep_bytes_received := ep_bytes_received s + word_of_nat (length chunk),
              ep_connections := AList.update fd (conn\<lparr>cc_receive_buffer := rest\<rparr>) (ep_connections s),
              ep_total_requests := ep_total_requests s + word_of_nat (length messages),
              ep_tasks := ep_tasks s @ (if ep_has_handler s then map (Pair fd) messages else [])\<rparr>)"

definition handleClientData :: "int \<Rightarrow> bytes list \<Rightarrow> read_end \<Rightarrow> EpollServer \<Rightarrow> EpollServer" where
  "handleClientData fd chunks end_of_read s = (case map_of (ep_connections s) fd of
       None \<Rightarrow> s
     | Some conn \<Rightarrow>
         if cc_closed conn then s
         else
           let s = fold (read_chunk fd) chunks s
           in if end_of_read = PeerClosed \<or> end_of_read = ReadError then closeConnection fd s else s)"

text \<open>
  \<open>sendResponse\<close>: one \<open>send\<close> call of the whole frame, which returns \<open>sent\<close> (at most the length
  of the frame). The result, the bytes on the wire and the new state.
\<close>

definition sendResponse :: "int \<Rightarrow> bytes \<Rightarrow> int \<Rightarrow> EpollServer \<Rightarrow> bool \<times> bytes \<times> EpollServer" where
  "sendResponse client_fd data result s = (case map_of (ep_connections s) client_fd of
       None \<Rightarrow> (False, [], s)
     | Some conn \<Rightarrow>
         let message = be32 (word_of_nat (length data)) @ data;
             sent = min result (int (length message))
         in if sent > 0
            then (sent = int (length message), take (nat sent) message,
                  s\<lparr>ep_bytes_sent := ep_bytes_sent s + word_of_int sent\<rparr>)
            else (False, [], s))"

text \<open>A descriptor that can be written to: nothing happens, \<open>sendResponse\<close> writes by itself.\<close>

definition handleClientWrite :: "int \<Rightarrow> EpollServer \<Rightarrow> EpollServer" where
  "handleClientWrite fd s = s"

declare handleClientWrite_def [simp]

text \<open>One event of \<open>run\<close>.\<close>

datatype epoll_event =
    Incoming "(int \<times> bool \<times> bool) list"
  | Readable int "bytes list" read_end
  | Writable int
  | HangUp int

fun epoll_dispatch :: "epoll_event \<Rightarrow> EpollServer \<Rightarrow> EpollServer" where
  "epoll_dispatch (Incoming accepted) s = handleNewConnection accepted s"
| "epoll_dispatch (Readable fd chunks e) s = handleClientData fd chunks e s"
| "epoll_dispatch (Writable fd) s = handleClientWrite fd s"
| "epoll_dispatch (HangUp fd) s = closeConnection fd s"

section \<open>Framing\<close>

text \<open>Messages whose length fits the prefix.\<close>

definition short :: "bytes \<Rightarrow> bool" where
  "short m \<longleftrightarrow> length m < 2 ^ 32"

lemma extract_short [simp]: "length b < 4 \<Longrightarrow> extractMessages b = ([], b)"
  by (simp add: extractMessages.simps [of b])

lemma extract_incomplete:
  "4 \<le> length b \<Longrightarrow> length b < 4 + unat (be32_val (take 4 b)) \<Longrightarrow> extractMessages b = ([], b)"
  by (simp add: extractMessages.simps [of b] Let_def)

lemma extract_stop:
  "\<not> (4 \<le> length b \<and> 4 + unat (be32_val (take 4 b)) \<le> length b) \<Longrightarrow> extractMessages b = ([], b)"
  by (cases "length b < 4") (simp_all add: extract_incomplete not_le)

lemma extract_complete:
  "4 \<le> length b \<Longrightarrow> 4 + unat (be32_val (take 4 b)) \<le> length b \<Longrightarrow>
   extractMessages b =
     (take (unat (be32_val (take 4 b))) (drop 4 b) #
        fst (extractMessages (drop (4 + unat (be32_val (take 4 b))) b)),
      snd (extractMessages (drop (4 + unat (be32_val (take 4 b))) b)))"
  by (subst extractMessages.simps) (simp add: Let_def case_prod_unfold)

lemma extract_frame:
  assumes "short m"
  shows "extractMessages (frame m @ r) = (m # fst (extractMessages r), snd (extractMessages r))"
proof -
  have l: "unat (be32_val (take 4 (frame m @ r))) = length m"
    using assms by (simp add: frame_def short_def)
  show ?thesis
    using extract_complete [of "frame m @ r"] unfolding l
    by (simp add: frame_def)
qed

lemma digits256:
  fixes d0 d1 d2 d3 :: nat
  assumes "d0 < 256" and "d1 < 256" and "d2 < 256" and "d3 < 256"
  shows "(((d0 * 256 + d1) * 256 + d2) * 256 + d3) div 2 ^ 24 mod 256 = d0 \<and>
    (((d0 * 256 + d1) * 256 + d2) * 256 + d3) div 2 ^ 16 mod 256 = d1 \<and>
    (((d0 * 256 + d1) * 256 + d2) * 256 + d3) div 2 ^ 8 mod 256 = d2 \<and>
    (((d0 * 256 + d1) * 256 + d2) * 256 + d3) mod 256 = d3"
proof -
  let ?n = "((d0 * 256 + d1) * 256 + d2) * 256 + d3"
  have digit: "(x * 256 + y) div 256 = x" "(x * 256 + y) mod 256 = y" if "y < 256" for x y :: nat
    using that by simp_all
  note 1 = digit [OF assms(4), of "(d0 * 256 + d1) * 256 + d2"]
  note 2 = digit [OF assms(3), of "d0 * 256 + d1"]
  note 3 = digit [OF assms(2), of d0]
  have "?n div 2 ^ 16 = ?n div 256 div 256" "?n div 2 ^ 24 = ?n div 256 div 256 div 256"
    "?n div 2 ^ 8 = ?n div 256"
    by (simp_all flip: div_mult2_eq)
  then show ?thesis by (simp only: 1 2 3 mod_less [OF assms(1)] simp_thms)
qed

lemma be32_of_val:
  assumes "length b = 4"
  shows "be32 (be32_val b) = b"
proof -
  obtain c0 c1 c2 c3 where b: "b = [c0, c1, c2, c3]"
    using assms by (auto simp: numeral_eq_Suc length_Suc_conv)
  let ?d = "\<lambda>c. of_char c :: nat"
  have lt: "?d c < 256" for c by simp
  let ?n = "((?d c0 * 256 + ?d c1) * 256 + ?d c2) * 256 + ?d c3"
  have n: "?n < 4294967296"
  proof -
    have "a < 256 \<Longrightarrow> b < 256 \<Longrightarrow> c < 256 \<Longrightarrow> d < 256 \<Longrightarrow>
        ((a * 256 + b) * 256 + c) * 256 + d < 4294967296" for a b c d :: nat by simp
    from this [OF lt lt lt lt] show ?thesis .
  qed
  have v: "unat (be32_val b) = ?n"
  proof -
    have "be32_val b = word_of_nat ?n" by (simp add: b be32_val_def mult.commute)
    moreover have "?n < 2 ^ 32" using n by simp
    ultimately show ?thesis by (simp only: be32_word_of_nat)
  qed
  have chr: "char_of (x :: nat) = c" if "x mod 256 = ?d c" for x c
    using that char_of_take_bit_eq [of 8 x] by (simp add: take_bit_eq_mod)
  have "?n div 2 ^ 24 mod 256 = ?d c0" "?n div 2 ^ 16 mod 256 = ?d c1"
    "?n div 2 ^ 8 mod 256 = ?d c2" "?n mod 256 = ?d c3"
    using digits256 [OF lt lt lt lt] by blast+
  then have "char_of (?n div 2 ^ 24) = c0" "char_of (?n div 2 ^ 16) = c1"
    "char_of (?n div 2 ^ 8) = c2" "char_of ?n = c3" by (simp_all only: chr)
  moreover have "be32 (be32_val b) = map (\<lambda>k. char_of (?n div 2 ^ k)) [24, 16, 8, 0]"
    by (simp only: be32_def unat_drop_bit_eq v drop_bit_eq_div [where 'a = nat])
  ultimately show ?thesis by (simp only: list.map b power_0 div_by_1)
qed

lemma extract_lossless:
  "extractMessages b = (ms, r) \<Longrightarrow> b = concat (map frame ms) @ r"
proof (induction b arbitrary: ms rule: extractMessages.induct)
  case (1 b)
  let ?n = "unat (be32_val (take 4 b))"
  show ?case
  proof (cases "4 \<le> length b \<and> 4 + ?n \<le> length b")
    case True
    obtain ms' where e: "extractMessages (drop (4 + ?n) b) = (ms', r)"
        "ms = take ?n (drop 4 b) # ms'"
      using "1.prems" extract_complete [of b] True by (cases "extractMessages (drop (4 + ?n) b)") auto
    have ih: "drop (4 + ?n) b = concat (map frame ms') @ r"
      using "1.IH" [OF _ refl refl _ refl e(1)] True by simp
    have "be32 (word_of_nat (length (take ?n (drop 4 b)))) = take 4 b"
      using True be32_of_val [of "take 4 b"] by (simp add: min_absorb2 le_diff_conv2 add.commute)
    then have "frame (take ?n (drop 4 b)) = take (4 + ?n) b"
      unfolding frame_def by (simp add: take_add)
    then show ?thesis using ih by (simp add: e(2)) (metis append_take_drop_id)
  next
    case False
    then have "extractMessages b = ([], b)" by (rule extract_stop)
    then show ?thesis using "1.prems" by simp
  qed
qed

lemma extract_append:
  "extractMessages (a @ b) = (fst (extractMessages a) @ fst (extractMessages (snd (extractMessages a) @ b)),
     snd (extractMessages (snd (extractMessages a) @ b)))"
proof (induction a rule: extractMessages.induct)
  case (1 a)
  let ?n = "unat (be32_val (take 4 a))"
  show ?case
  proof (cases "4 \<le> length a \<and> 4 + ?n \<le> length a")
    case True
    then have ab: "4 \<le> length (a @ b)" "take 4 (a @ b) = take 4 a" "4 + ?n \<le> length (a @ b)"
      "drop (4 + ?n) (a @ b) = drop (4 + ?n) a @ b"
      "take ?n (drop 4 (a @ b)) = take ?n (drop 4 a)" by simp_all
    note ih = "1.IH" [OF _ refl refl _ refl]
    show ?thesis
      using extract_complete [of a] extract_complete [of "a @ b"] ih True unfolding ab by simp
  next
    case False
    then have "extractMessages a = ([], a)" by (rule extract_stop)
    then show ?thesis by simp
  qed
qed

lemma extract_rest: "extractMessages b = (ms, r) \<Longrightarrow> extractMessages r = ([], r)"
proof (induction b arbitrary: ms rule: extractMessages.induct)
  case (1 b)
  let ?n = "unat (be32_val (take 4 b))"
  show ?case
  proof (cases "4 \<le> length b \<and> 4 + ?n \<le> length b")
    case True
    obtain ms' where e: "extractMessages (drop (4 + ?n) b) = (ms', r)"
      using "1.prems" extract_complete [of b] True by (cases "extractMessages (drop (4 + ?n) b)") auto
    show ?thesis using "1.IH" [OF _ refl refl _ refl e] True by simp
  next
    case False
    then have "extractMessages b = ([], b)" by (rule extract_stop)
    then show ?thesis using "1.prems" by simp
  qed
qed

interpretation ep: stream_framing frame extractMessages short
  by unfold_locales (auto simp: extract_frame intro: extract_lossless extract_rest extract_append)

section \<open>Reading a connection\<close>

lemma feed_shift:
  "fold (feed decode) cs (xs @ ms, b) =
     (xs @ fst (fold (feed decode) cs (ms, b)), snd (fold (feed decode) cs (ms, b)))"
proof (induction cs arbitrary: ms b)
  case (Cons c cs)
  obtain ms1 r where "decode (b @ c) = (ms1, r)" by (cases "decode (b @ c)")
  then show ?case using Cons.IH [of "ms @ ms1" r] by (simp add: feed_def)
qed simp

text \<open>A sequence of reads is the framing's \<open>feed\<close> on the connection's buffer.\<close>

lemma read_chunks:
  assumes "map_of (ep_connections s) fd = Some conn" and "ep_has_handler s"
    and "fold (feed extractMessages) chunks ([], cc_receive_buffer conn) = (ms, r)"
  shows "ep_tasks (fold (read_chunk fd) chunks s) = ep_tasks s @ map (Pair fd) ms \<and>
    map_of (ep_connections (fold (read_chunk fd) chunks s)) fd = Some (conn\<lparr>cc_receive_buffer := r\<rparr>)"
  using assms
proof (induction chunks arbitrary: s conn ms)
  case (Cons c cs)
  obtain ms1 r1 where e: "extractMessages (cc_receive_buffer conn @ c) = (ms1, r1)"
    by (cases "extractMessages (cc_receive_buffer conn @ c)")
  let ?s = "read_chunk fd c s" and ?conn = "conn\<lparr>cc_receive_buffer := r1\<rparr>"
  have s: "map_of (ep_connections ?s) fd = Some ?conn" "ep_has_handler ?s"
    "ep_tasks ?s = ep_tasks s @ map (Pair fd) ms1"
    using Cons.prems(1,2) by (simp_all add: read_chunk_def e table_simps)
  have "feed extractMessages c ([], cc_receive_buffer conn) = (ms1, r1)" by (simp add: feed_def e)
  then have "fold (feed extractMessages) cs (ms1 @ [], r1) = (ms, r)" using Cons.prems(3) by simp
  then obtain ms2 where ms2: "fold (feed extractMessages) cs ([], cc_receive_buffer ?conn) = (ms2, r)"
      "ms = ms1 @ ms2"
    unfolding feed_shift by (cases "fold (feed extractMessages) cs ([], r1)") simp
  show ?case using Cons.IH [OF s(1,2) ms2(1)] ms2(2) s(3) by simp
qed simp

lemma handleClientData_open:
  assumes "map_of (ep_connections s) fd = Some conn" and "\<not> cc_closed conn" and "ep_has_handler s"
    and "fold (feed extractMessages) chunks ([], cc_receive_buffer conn) = (ms, r)"
  shows "ep_tasks (handleClientData fd chunks e s) = ep_tasks s @ map (Pair fd) ms"
proof -
  have "ep_tasks (closeConnection fd t) = ep_tasks t" for t
    by (simp add: closeConnection_def split: option.split)
  then show ?thesis
    using read_chunks [OF assms(1,3,4)] assms(1,2) by (simp add: handleClientData_def Let_def)
qed

section \<open>Bookkeeping\<close>

text \<open>
  The kernel never accepts a descriptor that is still open. Under that condition the counter of
  active connections is the size of the table, which never passes the configured maximum, and
  no closed connection stays in the table.
\<close>

fun event_ok :: "epoll_event \<Rightarrow> EpollServer \<Rightarrow> bool" where
  "event_ok (Incoming accepted) s \<longleftrightarrow>
     distinct (map fst accepted) \<and> fst ` set accepted \<inter> fst ` set (ep_connections s) = {}"
| "event_ok _ s \<longleftrightarrow> True"

definition epoll_inv :: "EpollServer \<Rightarrow> bool" where
  "epoll_inv s \<longleftrightarrow> distinct (map fst (ep_connections s)) \<and>
     (\<forall>(fd, conn) \<in> set (ep_connections s). cc_fd conn = fd \<and> \<not> cc_closed conn) \<and>
     length (ep_connections s) \<le> unat (ep_max_connections s) \<and>
     ep_active_connections s = word_of_nat (length (ep_connections s))"

inductive epoll_reachable :: "u64 \<Rightarrow> EpollServer \<Rightarrow> bool" for max where
  init: "epoll_reachable max (setConnectionHandler (EpollServer_new max))"
| started: "epoll_reachable max s \<Longrightarrow> epoll_reachable max (snd (EpollServer_start calls s))"
| event: "epoll_reachable max s \<Longrightarrow> ep_running s \<Longrightarrow> event_ok ev s \<Longrightarrow>
    epoll_reachable max (epoll_dispatch ev s)"
| respond: "epoll_reachable max s \<Longrightarrow> epoll_reachable max (snd (snd (sendResponse fd data result s)))"

lemma map_of_update_Some:
  assumes "distinct (map fst al)" and "map_of al k = Some v"
  shows "length (AList.update k w al) = length al"
    and "set (AList.update k w al) \<subseteq> insert (k, w) (set al)"
proof -
  have "map fst (AList.update k w al) = map fst al"
    using assms(2) by (simp add: update_keys) (metis domI dom_map_of_conv_image_fst)
  then show "length (AList.update k w al) = length al" by (metis length_map)
  show "set (AList.update k w al) \<subseteq> insert (k, w) (set al)" by (induction al) auto
qed

lemma length_delete:
  assumes "distinct (map fst al)" and "map_of al k = Some v"
  shows "Suc (length (AList.delete k al)) = length al"
  using assms
proof (induction al)
  case (Cons x al)
  show ?case
  proof (cases "fst x = k")
    case True
    then have "k \<notin> fst ` set al" using Cons.prems(1) by auto
    then show ?thesis using True by simp
  next
    case False
    then show ?thesis using Cons by (cases x) auto
  qed
qed simp

lemma epoll_inv_close: "epoll_inv s \<Longrightarrow> epoll_inv (closeConnection fd s)"
proof (cases "map_of (ep_connections s) fd")
  case (Some conn)
  assume inv: "epoll_inv s"
  then have d: "distinct (map fst (ep_connections s))" by (simp add: epoll_inv_def)
  note len = length_delete [OF d Some]
  have sub: "set (AList.delete fd (ep_connections s)) \<subseteq> set (ep_connections s)"
    by (auto simp: AList.delete_eq)
  have "word_of_nat (length (ep_connections s)) - 1 =
      (word_of_nat (length (AList.delete fd (ep_connections s))) :: u64)"
    using len [symmetric] by simp
  then show ?thesis
    using inv Some len sub
    by (auto simp: closeConnection_def epoll_inv_def distinct_delete)
qed (simp add: closeConnection_def)

lemma epoll_inv_read: "epoll_inv s \<Longrightarrow> epoll_inv (read_chunk fd c s)"
proof (cases "map_of (ep_connections s) fd")
  case (Some conn)
  assume inv: "epoll_inv s"
  then have d: "distinct (map fst (ep_connections s))" by (simp add: epoll_inv_def)
  obtain ms r where e: "extractMessages (cc_receive_buffer conn @ c) = (ms, r)"
    by (cases "extractMessages (cc_receive_buffer conn @ c)")
  note upd = map_of_update_Some [OF d Some, of "conn\<lparr>cc_receive_buffer := r\<rparr>"]
  have conn: "cc_fd conn = fd \<and> \<not> cc_closed conn"
    using inv map_of_SomeD [OF Some] by (auto simp: epoll_inv_def)
  show ?thesis
    using inv Some conn upd by (auto simp: read_chunk_def e epoll_inv_def distinct_update)
qed (simp add: read_chunk_def)

lemma epoll_inv_reads: "epoll_inv s \<Longrightarrow> epoll_inv (fold (read_chunk fd) cs s)"
  by (induction cs arbitrary: s) (simp_all add: epoll_inv_read)

lemma epoll_inv_data: "epoll_inv s \<Longrightarrow> epoll_inv (handleClientData fd cs e s)"
  by (simp add: handleClientData_def Let_def epoll_inv_reads epoll_inv_close split: option.split)

lemma update_nonmem: "k \<notin> fst ` set al \<Longrightarrow> AList.update k v al = al @ [(k, v)]"
  by (induction al) auto

lemma epoll_inv_accept_one:
  assumes "epoll_inv s" and "fst a \<notin> fst ` set (ep_connections s)"
  shows "epoll_inv (accept_one a s)"
proof -
  obtain fd b1 b2 where a: "a = (fd, b1, b2)" by (cases a)
  show ?thesis
  proof (cases "ep_active_connections s \<ge> ep_max_connections s")
    case True
    then show ?thesis using assms(1) by (simp add: a accept_one_def epoll_inv_def)
  next
    case False
    have le: "length (ep_connections s) \<le> unat (ep_max_connections s)"
      and act: "ep_active_connections s = word_of_nat (length (ep_connections s))"
      using assms(1) by (simp_all add: epoll_inv_def)
    have "unat (ep_max_connections s) < 2 ^ 64" using unsigned_less [of "ep_max_connections s"] by simp
    then have "unat (ep_active_connections s) = length (ep_connections s)"
      using le by (simp add: act unat_of_nat)
    then have "length (ep_connections s) < unat (ep_max_connections s)"
      using False by (simp add: word_le_nat_alt)
    then show ?thesis using assms False
      by (auto simp: a accept_one_def epoll_inv_def update_nonmem ClientConnection_new_def add.commute)
  qed
qed

lemma accept_one_keys:
  "fst ` set (ep_connections (accept_one a s)) \<subseteq> insert (fst a) (fst ` set (ep_connections s))"
proof -
  obtain fd b1 b2 where a: "a = (fd, b1, b2)" by (cases a)
  have "fst ` set (AList.update fd v al) \<subseteq> insert fd (fst ` set al)" for v and al :: "(int \<times> ClientConnection) list"
    by (induction al) auto
  then show ?thesis by (simp add: a accept_one_def subset_insertI)
qed

lemma epoll_inv_accept:
  "epoll_inv s \<Longrightarrow> distinct (map fst as) \<Longrightarrow> fst ` set as \<inter> fst ` set (ep_connections s) = {} \<Longrightarrow>
   epoll_inv (fold accept_one as s)"
proof (induction as arbitrary: s)
  case (Cons a as)
  have new: "fst a \<notin> fst ` set as" "fst ` set as \<inter> fst ` set (ep_connections s) = {}"
    using Cons.prems(2,3) by auto
  have "fst ` set as \<inter> fst ` set (ep_connections (accept_one a s)) \<subseteq>
      fst ` set as \<inter> insert (fst a) (fst ` set (ep_connections s))"
    by (rule Int_mono [OF order_refl accept_one_keys])
  also have "\<dots> = {}" using new by simp
  finally have "fst ` set as \<inter> fst ` set (ep_connections (accept_one a s)) = {}" by simp
  then show ?case using Cons epoll_inv_accept_one [of s a] by simp
qed simp

lemma epoll_inv_dispatch: "epoll_inv s \<Longrightarrow> event_ok ev s \<Longrightarrow> epoll_inv (epoll_dispatch ev s)"
  by (cases ev) (simp_all add: handleNewConnection_def epoll_inv_accept epoll_inv_data epoll_inv_close)

lemma start_keeps:
  "ep_connections (snd (EpollServer_start c s)) = ep_connections s"
  "ep_max_connections (snd (EpollServer_start c s)) = ep_max_connections s"
  "ep_active_connections (snd (EpollServer_start c s)) = ep_active_connections s"
  by (simp_all add: EpollServer_start_def setupListenSocket_def setupEpoll_def Let_def)

lemma epoll_inv_reachable:
  "epoll_reachable m s \<Longrightarrow> epoll_inv s \<and> ep_max_connections s = m"
proof (induction rule: epoll_reachable.induct)
  case init
  then show ?case by (simp add: epoll_inv_def setConnectionHandler_def EpollServer_new_def)
next
  case (started s calls)
  then show ?case unfolding epoll_inv_def start_keeps by blast
next
  case (event s ev)
  have acc: "ep_max_connections (accept_one a t) = ep_max_connections t" for a t
    by (simp add: accept_one_def case_prod_unfold)
  have "ep_max_connections (fold accept_one as t) = ep_max_connections t" for as t
    by (induction as arbitrary: t) (simp_all add: acc)
  moreover have rd: "ep_max_connections (read_chunk fd c t) = ep_max_connections t" for fd c t
    by (simp add: read_chunk_def case_prod_unfold Let_def split: option.split)
  have "ep_max_connections (fold (read_chunk fd) cs t) = ep_max_connections t" for fd cs t
    by (induction cs arbitrary: t) (simp_all add: rd)
  moreover have "ep_max_connections (closeConnection fd t) = ep_max_connections t" for fd t
    by (simp add: closeConnection_def split: option.split)
  ultimately have "ep_max_connections (epoll_dispatch ev s) = ep_max_connections s"
    by (cases ev) (simp_all add: handleNewConnection_def handleClientData_def Let_def split: option.split)
  then show ?case using event epoll_inv_dispatch by simp
next
  case (respond s fd data result)
  then show ?case by (auto simp: sendResponse_def epoll_inv_def Let_def split: option.splits)
qed

end
