(* ===== verification/Network_Properties.thy ===== *)
theory Network_Properties
  imports Epoll_Server
begin

text \<open>
  The properties of the two transports: the blocking \<open>TcpConnection\<close> and the event-driven
  \<open>EpollServer\<close>, which speak the same frames.
\<close>

section \<open>TcpConnection\<close>

lemma send_Some_cases:
  assumes "TcpConnection_send data c s = Some (ok, c', s')"
  shows "tc_connected c' \<longleftrightarrow> tc_connected c \<and> ok"
    and "\<exists>k. sk_tx s' = sk_tx s @ take k (frame data) \<and> (ok \<longrightarrow> k = length (frame data))"
proof -
  show "tc_connected c' \<longleftrightarrow> tc_connected c \<and> ok"
    using assms by (auto simp: TcpConnection_send_def split: option.splits if_splits)
  show "\<exists>k. sk_tx s' = sk_tx s @ take k (frame data) \<and> (ok \<longrightarrow> k = length (frame data))"
  proof (cases "tc_connected c")
    case False
    then show ?thesis using assms by (auto simp: TcpConnection_send_def intro!: exI [of _ 0])
  next
    case True
    let ?h = "be32 (word_of_nat (length data))"
    obtain n s1 where h: "os_send ?h s = Some (n, s1)"
      using assms True by (auto simp: TcpConnection_send_def split: option.splits)
    have s1: "sk_tx s1 = sk_tx s @ take (nat n) ?h" "n \<le> 4" using os_send_Some [OF h] by auto
    show ?thesis
    proof (cases "n = 4")
      case False
      then have "s' = s1 \<and> \<not> ok" using assms True h by (simp add: TcpConnection_send_def)
      moreover have "take (nat n) ?h = take (nat n) (frame data)" using s1(2) by (simp add: frame_def)
      ultimately show ?thesis using s1(1) by (intro exI [of _ "nat n"]) simp
    next
      case True
      then have "send_loop data 0 s1 = Some (ok, s')"
        using assms h \<open>tc_connected c\<close> by (auto simp: TcpConnection_send_def split: option.splits)
      from send_loop_tx [OF this] obtain m where m: "sk_tx s' = sk_tx s1 @ take m data"
        "ok \<longleftrightarrow> length data \<le> m" by auto
      have "sk_tx s' = sk_tx s @ take (4 + (if ok then length data else m)) (frame data)"
        using m s1(1) True by (auto simp: frame_def)
      then show ?thesis
        by (intro exI [of _ "4 + (if ok then length data else m)"]) (simp add: length_frame)
    qed
  qed
qed

text \<open>C30. A successful send has put exactly the frame of the message on the wire; a failed one a
  proper or improper prefix of it, and the connection is marked dead so that nothing is sent
  behind a torn frame.\<close>

theorem send_transmits_frame:
  "TcpConnection_send data c s = Some (ok, c', s') \<Longrightarrow>
   (ok \<longrightarrow> sk_tx s' = sk_tx s @ frame data \<and> tc_connected c') \<and>
   (\<not> ok \<longrightarrow> \<not> tc_connected c' \<and> (\<exists>k. sk_tx s' = sk_tx s @ take k (frame data)))"
  using send_Some_cases [of data c s ok c' s']
  by (auto simp: TcpConnection_send_def split: if_splits option.splits)

lemma send_transmits_frame_witness:
  "\<exists>c' s'. TcpConnection_send ''hello'' (TcpConnection_new 3)
      \<lparr>sk_sends = [4, 2, 100], sk_tx = [], sk_rx = [], sk_closed = False\<rparr> = Some (True, c', s') \<and>
    sk_tx s' = frame ''hello''"
proof -
  obtain c' s' where r: "TcpConnection_send ''hello'' (TcpConnection_new 3)
      \<lparr>sk_sends = [4, 2, 100], sk_tx = [], sk_rx = [], sk_closed = False\<rparr> = Some (True, c', s')"
    by (simp add: TcpConnection_send_def TcpConnection_new_def os_send_def Let_def send_loop.simps)
  from send_transmits_frame [OF r] show ?thesis using r by simp
qed

text \<open>Sending returns and succeeds when the socket takes the four bytes of the length and at
  least one byte with every later call.\<close>

theorem send_completes:
  assumes "tc_connected c" and "sk_sends s = r # rs" and "4 \<le> r" and "list_all (\<lambda>r. 0 < r) rs"
    and "length data \<le> length rs"
  shows "\<exists>c' s'. TcpConnection_send data c s = Some (True, c', s')"
proof -
  obtain s1 where s1: "os_send (be32 (word_of_nat (length data))) s = Some (4, s1)" "sk_sends s1 = rs"
    using assms(2,3) by (simp add: os_send_def Let_def)
  obtain s2 where "send_loop data 0 s1 = Some (True, s2)"
    using send_loop_returns [of s1 data 0] assms(4,5) s1(2) by auto
  then show ?thesis using assms(1) s1(1) by (simp add: TcpConnection_send_def)
qed

lemma send_completes_witness:
  "\<exists>c' s'. TcpConnection_send ''ab'' (TcpConnection_new 3)
     \<lparr>sk_sends = [9, 1, 1], sk_tx = [], sk_rx = [], sk_closed = False\<rparr> = Some (True, c', s')"
  by (rule send_completes [where r = 9 and rs = "[1, 1]"]) (simp_all add: TcpConnection_new_def)

text \<open>A frame of a message of 1 to 1048576 bytes is received as that message, and the bytes
  behind it stay in the stream.\<close>

theorem receive_reads_frame:
  "tc_connected c \<Longrightarrow> sk_rx s = frame data @ rest \<Longrightarrow> data \<noteq> [] \<Longrightarrow> length data \<le> max_message \<Longrightarrow>
   TcpConnection_receive c s = (data, c, s\<lparr>sk_rx := rest\<rparr>)"
  by (rule receive_frame)

lemma receive_reads_frame_witness:
  "TcpConnection_receive (TcpConnection_new 3)
     \<lparr>sk_sends = [], sk_tx = [], sk_rx = frame ''hi'' @ ''xyz'', sk_closed = False\<rparr> =
   (''hi'', TcpConnection_new 3, \<lparr>sk_sends = [], sk_tx = [], sk_rx = ''xyz'', sk_closed = False\<rparr>)"
  using receive_reads_frame [of "TcpConnection_new 3"
      "\<lparr>sk_sends = [], sk_tx = [], sk_rx = frame ''hi'' @ ''xyz'', sk_closed = False\<rparr>" "''hi''" "''xyz''"]
  by (simp add: TcpConnection_new_def max_message_def)

text \<open>The empty string that reports a failure is never a message: \<open>receive\<close> returns it exactly
  when it leaves the connection dead.\<close>

theorem receive_empty_iff_dead:
  "TcpConnection_receive c s = (data, c', s') \<Longrightarrow> data = [] \<longleftrightarrow> \<not> tc_connected c'"
  by (rule receive_empty)

lemma receive_empty_iff_dead_witness:
  "\<not> tc_connected (fst (snd (TcpConnection_receive (TcpConnection_new 3)
     \<lparr>sk_sends = [], sk_tx = [], sk_rx = ''ab'', sk_closed = False\<rparr>)))"
  using receive_empty_iff_dead [of "TcpConnection_new 3"
      "\<lparr>sk_sends = [], sk_tx = [], sk_rx = ''ab'', sk_closed = False\<rparr>" "[]"]
  by (simp add: TcpConnection_receive_def TcpConnection_new_def os_recv_all_def)

text \<open>So an empty message, which \<open>send\<close> transmits like any other, and one of more than
  1048576 bytes kill the receiving connection: a sender's success says nothing about them.\<close>

theorem frame_refused:
  assumes "tc_connected c" and "sk_rx s = frame data @ rest" and "length data < 2 ^ 32"
    and "data = [] \<or> length data > max_message"
  shows "TcpConnection_receive c s =
    ([], c\<lparr>tc_connected := False\<rparr>, s\<lparr>sk_rx := data @ rest\<rparr>)"
proof -
  let ?w = "word_of_nat (length data) :: u32"
  have u: "unat ?w = length data" using assms(3) by (rule be32_word_of_nat)
  have "?w = 0 \<or> ?w > 1024 * 1024"
    using assms(4)
  proof
    assume "data = []"
    then show ?thesis by simp
  next
    assume "length data > max_message"
    then show ?thesis using u by (simp add: word_less_nat_alt max_message_def)
  qed
  then show ?thesis
    using assms(1,2) by (auto simp: TcpConnection_receive_def os_recv_all_def frame_def Let_def)
qed

lemma frame_refused_witness:
  "TcpConnection_receive (TcpConnection_new 3)
     \<lparr>sk_sends = [], sk_tx = [], sk_rx = frame [] @ ''x'', sk_closed = False\<rparr> =
   ([], \<lparr>tc_fd = 3, tc_connected = False\<rparr>, \<lparr>sk_sends = [], sk_tx = [], sk_rx = ''x'', sk_closed = False\<rparr>)"
  using frame_refused [of "TcpConnection_new 3"
      "\<lparr>sk_sends = [], sk_tx = [], sk_rx = frame [] @ ''x'', sk_closed = False\<rparr>" "[]" "''x''"]
  by (simp add: TcpConnection_new_def)

section \<open>EpollServer\<close>


definition epoll_ex :: EpollServer where
  "epoll_ex = (EpollServer_new 5)\<lparr>ep_has_handler := True, ep_connections := [(7, ClientConnection_new 7)]\<rparr>"


text \<open>Extraction is lossless: the messages taken off a buffer, framed again, and the rest are
  the buffer, and the rest holds no complete message.\<close>

theorem extractMessages_lossless:
  "extractMessages b = (ms, r) \<Longrightarrow> b = concat (map frame ms) @ r \<and> extractMessages r = ([], r)"
  using extract_lossless extract_rest by blast

lemma extractMessages_lossless_witness:
  "frame ''ab'' @ ''xy'' = concat (map frame [''ab'']) @ ''xy'' \<and> extractMessages ''xy'' = ([], ''xy'')"
  by (rule extractMessages_lossless) (simp add: extract_frame short_def)

text \<open>In every reachable state of the server the counter of active connections equals the
  number of open connections, which never exceeds the configured maximum, each stored under its
  own descriptor and none closed.\<close>

theorem epoll_connections_counted:
  "epoll_reachable m s \<Longrightarrow> ep_active_connections s = word_of_nat (length (ep_connections s)) \<and>
     length (ep_connections s) \<le> unat m \<and> distinct (map fst (ep_connections s)) \<and>
     (\<forall>(fd, conn) \<in> set (ep_connections s). cc_fd conn = fd \<and> \<not> cc_closed conn)"
  using epoll_inv_reachable [of m s] by (auto simp: epoll_inv_def)

definition setup_ex :: setup_calls where
  "setup_ex = \<lparr>su_socket = 3, su_reuse = 0, su_getfl = 2, su_setfl = 0, su_bind = 0, su_listen = 0, su_epoll = 4, su_add = 0\<rparr>"

lemma setup_ex_started:
  "EpollServer_start setup_ex (setConnectionHandler (EpollServer_new 1)) =
     (True, (EpollServer_new 1)\<lparr>ep_listen_fd := 3, ep_epoll_fd := 4, ep_running := True, ep_has_handler := True\<rparr>)"
  "ep_connections (EpollServer_new m) = []" "ep_active_connections (EpollServer_new m) = 0"
  "ep_max_connections (EpollServer_new m) = m"
  by (simp_all add: EpollServer_start_def setupListenSocket_def setupEpoll_def setNonBlocking_def setup_ex_def
      setConnectionHandler_def EpollServer_new_def Let_def)

lemma epoll_connections_counted_witness:
  "ep_active_connections (epoll_dispatch (Incoming [(7, True, True), (8, True, True)])
     (snd (EpollServer_start setup_ex (setConnectionHandler (EpollServer_new 1))))) = 1"
proof -
  have "epoll_reachable 1 (epoll_dispatch (Incoming [(7, True, True), (8, True, True)])
     (snd (EpollServer_start setup_ex (setConnectionHandler (EpollServer_new 1)))))"
    by (intro epoll_reachable.intros)
      (simp_all add: setup_ex_started)
  from epoll_connections_counted [OF this] show ?thesis
    by (simp add: setup_ex_started handleNewConnection_def accept_one_def)
qed

text \<open>A response that \<open>sendResponse\<close> reports as sent is received by a blocking client as the
  response, if it is neither empty nor longer than 1048576 bytes; \<open>sendResponse\<close> itself checks
  neither.\<close>

theorem response_received:
  assumes "sendResponse fd data result s = (True, wire, s')" and "tc_connected c"
    and "sk_rx k = wire @ rest" and "data \<noteq> []" and "length data \<le> max_message"
  shows "TcpConnection_receive c k = (data, c, k\<lparr>sk_rx := rest\<rparr>)"
proof -
  have "wire = frame data"
    using assms(1) by (auto simp: sendResponse_def frame_def Let_def split: option.splits if_splits)
  then show ?thesis using assms(2-5) by (simp add: receive_frame)
qed

lemma response_received_witness:
  "TcpConnection_receive (TcpConnection_new 3)
     \<lparr>sk_sends = [], sk_tx = [], sk_rx = frame ''ok'', sk_closed = False\<rparr> =
   (''ok'', TcpConnection_new 3, \<lparr>sk_sends = [], sk_tx = [], sk_rx = [], sk_closed = False\<rparr>)"
  using response_received [of 7 "''ok''" 6 epoll_ex "frame ''ok''" _ "TcpConnection_new 3"
      "\<lparr>sk_sends = [], sk_tx = [], sk_rx = frame ''ok'', sk_closed = False\<rparr>" "[]"]
  by (simp add: sendResponse_def epoll_ex_def EpollServer_new_def TcpConnection_new_def frame_def
      max_message_def)

end
