(* ===== verification/Pb_Service.thy ===== *)
theory Pb_Service
  imports Pb_Rpc_Message
begin

text \<open>
  The generated code of proto/service.pb.cc: the four messages of the example services, with
  the same definitions and lemmas for each as in Pb_Rpc_Message.
\<close>

section \<open>EchoRequest\<close>

record EchoRequest =
  eq_message :: bytes
  eq_unknown :: bytes

definition EchoRequest_default :: EchoRequest where
  "EchoRequest_default = \<lparr>eq_message = [], eq_unknown = []\<rparr>"

definition EchoRequest_Clear :: "EchoRequest \<Rightarrow> EchoRequest" where
  "EchoRequest_Clear m = m\<lparr>eq_message := [], eq_unknown := []\<rparr>"

definition EchoRequest_field ::
    "pb_runtime \<Rightarrow> u32 \<Rightarrow> bytes \<Rightarrow> EchoRequest \<Rightarrow> EchoRequest field_step" where
  "EchoRequest_field rt tag p m =
     (if drop_bit 3 tag = 1 then
        (if tag_byte tag = 10 then get_string rt True p (\<lambda>s. m\<lparr>eq_message := s\<rparr>)
         else Unusual)
      else Unusual)"

definition EchoRequest_InternalParse :: "pb_runtime \<Rightarrow> bytes \<Rightarrow> EchoRequest \<Rightarrow> EchoRequest pb_outcome" where
  "EchoRequest_InternalParse rt p m =
     pb_parse rt (EchoRequest_field rt) (\<lambda>u m. m\<lparr>eq_unknown := eq_unknown m @ u\<rparr>) p m"

definition EchoRequest_InternalSerialize :: "pb_runtime \<Rightarrow> EchoRequest \<Rightarrow> bytes" where
  "EchoRequest_InternalSerialize rt m =
     (if eq_message m \<noteq> [] then rt_WriteString rt 1 (eq_message m) else []) @
     eq_unknown m"

definition EchoRequest_ByteSizeLong :: "pb_runtime \<Rightarrow> EchoRequest \<Rightarrow> nat" where
  "EchoRequest_ByteSizeLong rt m =
     (if eq_message m \<noteq> [] then 1 + rt_StringSize rt (eq_message m) else 0) +
     length (eq_unknown m)"

definition EchoRequest_MergeFrom :: "EchoRequest \<Rightarrow> EchoRequest \<Rightarrow> EchoRequest" where
  "EchoRequest_MergeFrom dst src = dst\<lparr>
     eq_message := (if eq_message src \<noteq> [] then eq_message src else eq_message dst),
     eq_unknown := eq_unknown dst @ eq_unknown src\<rparr>"

definition EchoRequest_CopyFrom :: "EchoRequest \<Rightarrow> EchoRequest \<Rightarrow> EchoRequest" where
  "EchoRequest_CopyFrom dst src = EchoRequest_MergeFrom (EchoRequest_Clear dst) src"

definition EchoRequest_serialize :: "pb_runtime \<Rightarrow> EchoRequest \<Rightarrow> bytes" where
  "EchoRequest_serialize rt m =
     Serializer_serialize rt (EchoRequest_ByteSizeLong rt m) (EchoRequest_InternalSerialize rt m)"

definition EchoRequest_deserialize :: "pb_runtime \<Rightarrow> bytes \<Rightarrow> EchoRequest option" where
  "EchoRequest_deserialize rt =
     Serializer_deserialize (\<lambda>data. EchoRequest_InternalParse rt data (EchoRequest_Clear EchoRequest_default))"

definition EchoRequest_ok :: "pb_runtime \<Rightarrow> EchoRequest \<Rightarrow> bool" where
  "EchoRequest_ok rt m \<longleftrightarrow> eq_unknown m = [] \<and>
     EchoRequest_ByteSizeLong rt m < pb_limit \<and>
     length (eq_message m) < pb_limit \<and>
     rt_VerifyUTF8 rt (eq_message m)"

lemma EchoRequest_copy: "EchoRequest_CopyFrom dst src = src"
  by (cases src; cases dst) (simp add: EchoRequest_CopyFrom_def EchoRequest_MergeFrom_def EchoRequest_Clear_def)

lemma EchoRequest_Clear_default: "EchoRequest_Clear EchoRequest_default = EchoRequest_default"
  by (simp add: EchoRequest_Clear_def EchoRequest_default_def)

context pb_wire
begin

lemma EchoRequest_consuming [simp]: "consuming (EchoRequest_field rt)"
  by (auto simp: consuming_def EchoRequest_field_def split: if_splits dest: get_consumes)

lemma EchoRequest_read_message: "length v < pb_limit \<Longrightarrow> rt_VerifyUTF8 rt v \<Longrightarrow>
    pb_parse rt (EchoRequest_field rt) k (rt_WriteString rt 1 v @ r) m =
    pb_parse rt (EchoRequest_field rt) k r (m\<lparr>eq_message := v\<rparr>)"
  by (rule parse_string [where u = True, OF EchoRequest_consuming]) (simp_all add: EchoRequest_field_def tag_simps)

lemmas EchoRequest_reads = EchoRequest_read_message

lemmas EchoRequest_read_last = EchoRequest_reads [where r = "[]", unfolded append_Nil2 parse_Nil]

lemma EchoRequest_parse: "EchoRequest_ok rt m \<Longrightarrow>
    EchoRequest_InternalParse rt (EchoRequest_InternalSerialize rt m) EchoRequest_default = PDone m [] False"
  by (cases m) (auto simp: EchoRequest_ok_def EchoRequest_InternalParse_def EchoRequest_InternalSerialize_def
      EchoRequest_default_def EchoRequest_reads EchoRequest_read_last simp del: One_nat_def)

lemma EchoRequest_size: "EchoRequest_ok rt m \<Longrightarrow> length (EchoRequest_InternalSerialize rt m) = EchoRequest_ByteSizeLong rt m"
  by (simp add: EchoRequest_ok_def EchoRequest_InternalSerialize_def EchoRequest_ByteSizeLong_def tag_simps
      string_size bytes_size int32_size int64_size bool_size)

lemma EchoRequest_roundtrip: "EchoRequest_ok rt m \<Longrightarrow> EchoRequest_deserialize rt (EchoRequest_serialize rt m) = Some m"
  using EchoRequest_parse [of m] EchoRequest_Clear_default serialize_ok [of "EchoRequest_ByteSizeLong rt m"]
  by (simp add: EchoRequest_ok_def EchoRequest_serialize_def EchoRequest_deserialize_def
      Serializer_serialize_def Serializer_deserialize_def)

end

section \<open>EchoResponse\<close>

record EchoResponse =
  es_message :: bytes
  es_unknown :: bytes

definition EchoResponse_default :: EchoResponse where
  "EchoResponse_default = \<lparr>es_message = [], es_unknown = []\<rparr>"

definition EchoResponse_Clear :: "EchoResponse \<Rightarrow> EchoResponse" where
  "EchoResponse_Clear m = m\<lparr>es_message := [], es_unknown := []\<rparr>"

definition EchoResponse_field ::
    "pb_runtime \<Rightarrow> u32 \<Rightarrow> bytes \<Rightarrow> EchoResponse \<Rightarrow> EchoResponse field_step" where
  "EchoResponse_field rt tag p m =
     (if drop_bit 3 tag = 1 then
        (if tag_byte tag = 10 then get_string rt True p (\<lambda>s. m\<lparr>es_message := s\<rparr>)
         else Unusual)
      else Unusual)"

definition EchoResponse_InternalParse :: "pb_runtime \<Rightarrow> bytes \<Rightarrow> EchoResponse \<Rightarrow> EchoResponse pb_outcome" where
  "EchoResponse_InternalParse rt p m =
     pb_parse rt (EchoResponse_field rt) (\<lambda>u m. m\<lparr>es_unknown := es_unknown m @ u\<rparr>) p m"

definition EchoResponse_InternalSerialize :: "pb_runtime \<Rightarrow> EchoResponse \<Rightarrow> bytes" where
  "EchoResponse_InternalSerialize rt m =
     (if es_message m \<noteq> [] then rt_WriteString rt 1 (es_message m) else []) @
     es_unknown m"

definition EchoResponse_ByteSizeLong :: "pb_runtime \<Rightarrow> EchoResponse \<Rightarrow> nat" where
  "EchoResponse_ByteSizeLong rt m =
     (if es_message m \<noteq> [] then 1 + rt_StringSize rt (es_message m) else 0) +
     length (es_unknown m)"

definition EchoResponse_MergeFrom :: "EchoResponse \<Rightarrow> EchoResponse \<Rightarrow> EchoResponse" where
  "EchoResponse_MergeFrom dst src = dst\<lparr>
     es_message := (if es_message src \<noteq> [] then es_message src else es_message dst),
     es_unknown := es_unknown dst @ es_unknown src\<rparr>"

definition EchoResponse_CopyFrom :: "EchoResponse \<Rightarrow> EchoResponse \<Rightarrow> EchoResponse" where
  "EchoResponse_CopyFrom dst src = EchoResponse_MergeFrom (EchoResponse_Clear dst) src"

definition EchoResponse_serialize :: "pb_runtime \<Rightarrow> EchoResponse \<Rightarrow> bytes" where
  "EchoResponse_serialize rt m =
     Serializer_serialize rt (EchoResponse_ByteSizeLong rt m) (EchoResponse_InternalSerialize rt m)"

definition EchoResponse_deserialize :: "pb_runtime \<Rightarrow> bytes \<Rightarrow> EchoResponse option" where
  "EchoResponse_deserialize rt =
     Serializer_deserialize (\<lambda>data. EchoResponse_InternalParse rt data (EchoResponse_Clear EchoResponse_default))"

definition EchoResponse_ok :: "pb_runtime \<Rightarrow> EchoResponse \<Rightarrow> bool" where
  "EchoResponse_ok rt m \<longleftrightarrow> es_unknown m = [] \<and>
     EchoResponse_ByteSizeLong rt m < pb_limit \<and>
     length (es_message m) < pb_limit \<and>
     rt_VerifyUTF8 rt (es_message m)"

lemma EchoResponse_copy: "EchoResponse_CopyFrom dst src = src"
  by (cases src; cases dst) (simp add: EchoResponse_CopyFrom_def EchoResponse_MergeFrom_def EchoResponse_Clear_def)

lemma EchoResponse_Clear_default: "EchoResponse_Clear EchoResponse_default = EchoResponse_default"
  by (simp add: EchoResponse_Clear_def EchoResponse_default_def)

context pb_wire
begin

lemma EchoResponse_consuming [simp]: "consuming (EchoResponse_field rt)"
  by (auto simp: consuming_def EchoResponse_field_def split: if_splits dest: get_consumes)

lemma EchoResponse_read_message: "length v < pb_limit \<Longrightarrow> rt_VerifyUTF8 rt v \<Longrightarrow>
    pb_parse rt (EchoResponse_field rt) k (rt_WriteString rt 1 v @ r) m =
    pb_parse rt (EchoResponse_field rt) k r (m\<lparr>es_message := v\<rparr>)"
  by (rule parse_string [where u = True, OF EchoResponse_consuming]) (simp_all add: EchoResponse_field_def tag_simps)

lemmas EchoResponse_reads = EchoResponse_read_message

lemmas EchoResponse_read_last = EchoResponse_reads [where r = "[]", unfolded append_Nil2 parse_Nil]

lemma EchoResponse_parse: "EchoResponse_ok rt m \<Longrightarrow>
    EchoResponse_InternalParse rt (EchoResponse_InternalSerialize rt m) EchoResponse_default = PDone m [] False"
  by (cases m) (auto simp: EchoResponse_ok_def EchoResponse_InternalParse_def EchoResponse_InternalSerialize_def
      EchoResponse_default_def EchoResponse_reads EchoResponse_read_last simp del: One_nat_def)

lemma EchoResponse_size: "EchoResponse_ok rt m \<Longrightarrow> length (EchoResponse_InternalSerialize rt m) = EchoResponse_ByteSizeLong rt m"
  by (simp add: EchoResponse_ok_def EchoResponse_InternalSerialize_def EchoResponse_ByteSizeLong_def tag_simps
      string_size bytes_size int32_size int64_size bool_size)

lemma EchoResponse_roundtrip: "EchoResponse_ok rt m \<Longrightarrow> EchoResponse_deserialize rt (EchoResponse_serialize rt m) = Some m"
  using EchoResponse_parse [of m] EchoResponse_Clear_default serialize_ok [of "EchoResponse_ByteSizeLong rt m"]
  by (simp add: EchoResponse_ok_def EchoResponse_serialize_def EchoResponse_deserialize_def
      Serializer_serialize_def Serializer_deserialize_def)

end

section \<open>AddRequest\<close>

record AddRequest =
  aq_a :: i32
  aq_b :: i32
  aq_unknown :: bytes

definition AddRequest_default :: AddRequest where
  "AddRequest_default = \<lparr>aq_a = 0, aq_b = 0, aq_unknown = []\<rparr>"

definition AddRequest_Clear :: "AddRequest \<Rightarrow> AddRequest" where
  "AddRequest_Clear m = m\<lparr>aq_a := 0, aq_b := 0, aq_unknown := []\<rparr>"

definition AddRequest_field ::
    "pb_runtime \<Rightarrow> u32 \<Rightarrow> bytes \<Rightarrow> AddRequest \<Rightarrow> AddRequest field_step" where
  "AddRequest_field rt tag p m =
     (if drop_bit 3 tag = 1 then
        (if tag_byte tag = 8 then get_varint32 rt p (\<lambda>v. m\<lparr>aq_a := v\<rparr>)
         else Unusual)
      else if drop_bit 3 tag = 2 then
        (if tag_byte tag = 16 then get_varint32 rt p (\<lambda>v. m\<lparr>aq_b := v\<rparr>)
         else Unusual)
      else Unusual)"

definition AddRequest_InternalParse :: "pb_runtime \<Rightarrow> bytes \<Rightarrow> AddRequest \<Rightarrow> AddRequest pb_outcome" where
  "AddRequest_InternalParse rt p m =
     pb_parse rt (AddRequest_field rt) (\<lambda>u m. m\<lparr>aq_unknown := aq_unknown m @ u\<rparr>) p m"

definition AddRequest_InternalSerialize :: "pb_runtime \<Rightarrow> AddRequest \<Rightarrow> bytes" where
  "AddRequest_InternalSerialize rt m =
     (if aq_a m \<noteq> 0 then rt_WriteInt32 rt 1 (aq_a m) else []) @
     (if aq_b m \<noteq> 0 then rt_WriteInt32 rt 2 (aq_b m) else []) @
     aq_unknown m"

definition AddRequest_ByteSizeLong :: "pb_runtime \<Rightarrow> AddRequest \<Rightarrow> nat" where
  "AddRequest_ByteSizeLong rt m =
     (if aq_a m \<noteq> 0 then rt_Int32SizePlusOne rt (aq_a m) else 0) +
     (if aq_b m \<noteq> 0 then rt_Int32SizePlusOne rt (aq_b m) else 0) +
     length (aq_unknown m)"

definition AddRequest_MergeFrom :: "AddRequest \<Rightarrow> AddRequest \<Rightarrow> AddRequest" where
  "AddRequest_MergeFrom dst src = dst\<lparr>
     aq_a := (if aq_a src \<noteq> 0 then aq_a src else aq_a dst),
     aq_b := (if aq_b src \<noteq> 0 then aq_b src else aq_b dst),
     aq_unknown := aq_unknown dst @ aq_unknown src\<rparr>"

definition AddRequest_CopyFrom :: "AddRequest \<Rightarrow> AddRequest \<Rightarrow> AddRequest" where
  "AddRequest_CopyFrom dst src = AddRequest_MergeFrom (AddRequest_Clear dst) src"

definition AddRequest_serialize :: "pb_runtime \<Rightarrow> AddRequest \<Rightarrow> bytes" where
  "AddRequest_serialize rt m =
     Serializer_serialize rt (AddRequest_ByteSizeLong rt m) (AddRequest_InternalSerialize rt m)"

definition AddRequest_deserialize :: "pb_runtime \<Rightarrow> bytes \<Rightarrow> AddRequest option" where
  "AddRequest_deserialize rt =
     Serializer_deserialize (\<lambda>data. AddRequest_InternalParse rt data (AddRequest_Clear AddRequest_default))"

definition AddRequest_ok :: "pb_runtime \<Rightarrow> AddRequest \<Rightarrow> bool" where
  "AddRequest_ok rt m \<longleftrightarrow> aq_unknown m = [] \<and>
     AddRequest_ByteSizeLong rt m < pb_limit"

lemma AddRequest_copy: "AddRequest_CopyFrom dst src = src"
  by (cases src; cases dst) (simp add: AddRequest_CopyFrom_def AddRequest_MergeFrom_def AddRequest_Clear_def)

lemma AddRequest_Clear_default: "AddRequest_Clear AddRequest_default = AddRequest_default"
  by (simp add: AddRequest_Clear_def AddRequest_default_def)

context pb_wire
begin

lemma AddRequest_consuming [simp]: "consuming (AddRequest_field rt)"
  by (auto simp: consuming_def AddRequest_field_def split: if_splits dest: get_consumes)

lemma AddRequest_read_a: "pb_parse rt (AddRequest_field rt) k (rt_WriteInt32 rt 1 v @ r) m =
    pb_parse rt (AddRequest_field rt) k r (m\<lparr>aq_a := v\<rparr>)"
  by (rule parse_int32 [OF AddRequest_consuming]) (simp_all add: AddRequest_field_def tag_simps)

lemma AddRequest_read_b: "pb_parse rt (AddRequest_field rt) k (rt_WriteInt32 rt 2 v @ r) m =
    pb_parse rt (AddRequest_field rt) k r (m\<lparr>aq_b := v\<rparr>)"
  by (rule parse_int32 [OF AddRequest_consuming]) (simp_all add: AddRequest_field_def tag_simps)

lemmas AddRequest_reads = AddRequest_read_a AddRequest_read_b

lemmas AddRequest_read_last = AddRequest_reads [where r = "[]", unfolded append_Nil2 parse_Nil]

lemma AddRequest_parse: "AddRequest_ok rt m \<Longrightarrow>
    AddRequest_InternalParse rt (AddRequest_InternalSerialize rt m) AddRequest_default = PDone m [] False"
  by (cases m) (auto simp: AddRequest_ok_def AddRequest_InternalParse_def AddRequest_InternalSerialize_def
      AddRequest_default_def AddRequest_reads AddRequest_read_last simp del: One_nat_def)

lemma AddRequest_size: "AddRequest_ok rt m \<Longrightarrow> length (AddRequest_InternalSerialize rt m) = AddRequest_ByteSizeLong rt m"
  by (simp add: AddRequest_ok_def AddRequest_InternalSerialize_def AddRequest_ByteSizeLong_def tag_simps
      string_size bytes_size int32_size int64_size bool_size)

lemma AddRequest_roundtrip: "AddRequest_ok rt m \<Longrightarrow> AddRequest_deserialize rt (AddRequest_serialize rt m) = Some m"
  using AddRequest_parse [of m] AddRequest_Clear_default serialize_ok [of "AddRequest_ByteSizeLong rt m"]
  by (simp add: AddRequest_ok_def AddRequest_serialize_def AddRequest_deserialize_def
      Serializer_serialize_def Serializer_deserialize_def)

end

section \<open>AddResponse\<close>

record AddResponse =
  ar_result :: i32
  ar_unknown :: bytes

definition AddResponse_default :: AddResponse where
  "AddResponse_default = \<lparr>ar_result = 0, ar_unknown = []\<rparr>"

definition AddResponse_Clear :: "AddResponse \<Rightarrow> AddResponse" where
  "AddResponse_Clear m = m\<lparr>ar_result := 0, ar_unknown := []\<rparr>"

definition AddResponse_field ::
    "pb_runtime \<Rightarrow> u32 \<Rightarrow> bytes \<Rightarrow> AddResponse \<Rightarrow> AddResponse field_step" where
  "AddResponse_field rt tag p m =
     (if drop_bit 3 tag = 1 then
        (if tag_byte tag = 8 then get_varint32 rt p (\<lambda>v. m\<lparr>ar_result := v\<rparr>)
         else Unusual)
      else Unusual)"

definition AddResponse_InternalParse :: "pb_runtime \<Rightarrow> bytes \<Rightarrow> AddResponse \<Rightarrow> AddResponse pb_outcome" where
  "AddResponse_InternalParse rt p m =
     pb_parse rt (AddResponse_field rt) (\<lambda>u m. m\<lparr>ar_unknown := ar_unknown m @ u\<rparr>) p m"

definition AddResponse_InternalSerialize :: "pb_runtime \<Rightarrow> AddResponse \<Rightarrow> bytes" where
  "AddResponse_InternalSerialize rt m =
     (if ar_result m \<noteq> 0 then rt_WriteInt32 rt 1 (ar_result m) else []) @
     ar_unknown m"

definition AddResponse_ByteSizeLong :: "pb_runtime \<Rightarrow> AddResponse \<Rightarrow> nat" where
  "AddResponse_ByteSizeLong rt m =
     (if ar_result m \<noteq> 0 then rt_Int32SizePlusOne rt (ar_result m) else 0) +
     length (ar_unknown m)"

definition AddResponse_MergeFrom :: "AddResponse \<Rightarrow> AddResponse \<Rightarrow> AddResponse" where
  "AddResponse_MergeFrom dst src = dst\<lparr>
     ar_result := (if ar_result src \<noteq> 0 then ar_result src else ar_result dst),
     ar_unknown := ar_unknown dst @ ar_unknown src\<rparr>"

definition AddResponse_CopyFrom :: "AddResponse \<Rightarrow> AddResponse \<Rightarrow> AddResponse" where
  "AddResponse_CopyFrom dst src = AddResponse_MergeFrom (AddResponse_Clear dst) src"

definition AddResponse_serialize :: "pb_runtime \<Rightarrow> AddResponse \<Rightarrow> bytes" where
  "AddResponse_serialize rt m =
     Serializer_serialize rt (AddResponse_ByteSizeLong rt m) (AddResponse_InternalSerialize rt m)"

definition AddResponse_deserialize :: "pb_runtime \<Rightarrow> bytes \<Rightarrow> AddResponse option" where
  "AddResponse_deserialize rt =
     Serializer_deserialize (\<lambda>data. AddResponse_InternalParse rt data (AddResponse_Clear AddResponse_default))"

definition AddResponse_ok :: "pb_runtime \<Rightarrow> AddResponse \<Rightarrow> bool" where
  "AddResponse_ok rt m \<longleftrightarrow> ar_unknown m = [] \<and>
     AddResponse_ByteSizeLong rt m < pb_limit"

lemma AddResponse_copy: "AddResponse_CopyFrom dst src = src"
  by (cases src; cases dst) (simp add: AddResponse_CopyFrom_def AddResponse_MergeFrom_def AddResponse_Clear_def)

lemma AddResponse_Clear_default: "AddResponse_Clear AddResponse_default = AddResponse_default"
  by (simp add: AddResponse_Clear_def AddResponse_default_def)

context pb_wire
begin

lemma AddResponse_consuming [simp]: "consuming (AddResponse_field rt)"
  by (auto simp: consuming_def AddResponse_field_def split: if_splits dest: get_consumes)

lemma AddResponse_read_result: "pb_parse rt (AddResponse_field rt) k (rt_WriteInt32 rt 1 v @ r) m =
    pb_parse rt (AddResponse_field rt) k r (m\<lparr>ar_result := v\<rparr>)"
  by (rule parse_int32 [OF AddResponse_consuming]) (simp_all add: AddResponse_field_def tag_simps)

lemmas AddResponse_reads = AddResponse_read_result

lemmas AddResponse_read_last = AddResponse_reads [where r = "[]", unfolded append_Nil2 parse_Nil]

lemma AddResponse_parse: "AddResponse_ok rt m \<Longrightarrow>
    AddResponse_InternalParse rt (AddResponse_InternalSerialize rt m) AddResponse_default = PDone m [] False"
  by (cases m) (auto simp: AddResponse_ok_def AddResponse_InternalParse_def AddResponse_InternalSerialize_def
      AddResponse_default_def AddResponse_reads AddResponse_read_last simp del: One_nat_def)

lemma AddResponse_size: "AddResponse_ok rt m \<Longrightarrow> length (AddResponse_InternalSerialize rt m) = AddResponse_ByteSizeLong rt m"
  by (simp add: AddResponse_ok_def AddResponse_InternalSerialize_def AddResponse_ByteSizeLong_def tag_simps
      string_size bytes_size int32_size int64_size bool_size)

lemma AddResponse_roundtrip: "AddResponse_ok rt m \<Longrightarrow> AddResponse_deserialize rt (AddResponse_serialize rt m) = Some m"
  using AddResponse_parse [of m] AddResponse_Clear_default serialize_ok [of "AddResponse_ByteSizeLong rt m"]
  by (simp add: AddResponse_ok_def AddResponse_serialize_def AddResponse_deserialize_def
      Serializer_serialize_def Serializer_deserialize_def)

end

end
