(* ===== verification/Wire_Properties.thy ===== *)
theory Wire_Properties
  imports Pb_Service Pb_Reference Pb_Rpc_Message
begin

text \<open>
  The properties of the generated protobuf code with \<open>Serializer\<close> on top of it, for every
  runtime that satisfies \<open>pb_wire\<close>.
\<close>

text \<open>A call request survives the wire: service, method, argument bytes and request id are
  read back as they were written.\<close>

theorem RpcRequest_wire:
  "pb_wire rt \<Longrightarrow> RpcRequest_ok rt m \<Longrightarrow> RpcRequest_deserialize rt (RpcRequest_serialize rt m) = Some m"
  by (rule pb_wire.RpcRequest_roundtrip)

definition rpc_ex :: RpcRequest where
  "rpc_ex = \<lparr>rq_service_name = ''S'', rq_method_name = ''m'', rq_request_data = map char_of [255, 0 :: nat],
     rq_request_id = ''7'', rq_unknown = []\<rparr>"

lemma RpcRequest_wire_witness:
  "RpcRequest_deserialize std_runtime (RpcRequest_serialize std_runtime rpc_ex) = Some rpc_ex"
proof -
  have "RpcRequest_ByteSizeLong std_runtime rpc_ex = 13" and "rt_VerifyUTF8 std_runtime ''S''"
    "rt_VerifyUTF8 std_runtime ''m''" "rt_VerifyUTF8 std_runtime ''7''" by code_simp+
  then have "RpcRequest_ok std_runtime rpc_ex"
    by (simp add: RpcRequest_ok_def rpc_ex_def pb_limit_def)
  then show ?thesis by (rule RpcRequest_wire [OF std.pb_wire_axioms])
qed

text \<open>A call response survives the wire, negative error codes included.\<close>

theorem RpcResponse_wire:
  "pb_wire rt \<Longrightarrow> RpcResponse_ok rt m \<Longrightarrow> RpcResponse_deserialize rt (RpcResponse_serialize rt m) = Some m"
  by (rule pb_wire.RpcResponse_roundtrip)

definition rpc_resp_ex :: RpcResponse where
  "rpc_resp_ex = \<lparr>rs_request_id = ''7'', rs_error_code = 3, rs_error_msg = ''bad'', rs_response_data = [],
     rs_unknown = []\<rparr>"

lemma RpcResponse_wire_witness:
  "RpcResponse_deserialize std_runtime (RpcResponse_serialize std_runtime rpc_resp_ex) = Some rpc_resp_ex"
proof -
  have "RpcResponse_ByteSizeLong std_runtime rpc_resp_ex = 10" and "rt_VerifyUTF8 std_runtime ''7''"
    "rt_VerifyUTF8 std_runtime ''bad''" by code_simp+
  then have "RpcResponse_ok std_runtime rpc_resp_ex"
    by (simp add: RpcResponse_ok_def rpc_resp_ex_def pb_limit_def)
  then show ?thesis by (rule RpcResponse_wire [OF std.pb_wire_axioms])
qed

text \<open>\<open>ByteSizeLong\<close> is the number of bytes \<open>InternalSerialize\<close> writes, for the messages of a
  call.\<close>

theorem ByteSizeLong_exact:
  "pb_wire rt \<Longrightarrow> RpcRequest_ok rt q \<Longrightarrow> RpcResponse_ok rt r \<Longrightarrow> ServiceDiscoveryResponse_ok rt d \<Longrightarrow>
   length (RpcRequest_InternalSerialize rt q) = RpcRequest_ByteSizeLong rt q \<and>
   length (RpcResponse_InternalSerialize rt r) = RpcResponse_ByteSizeLong rt r \<and>
   length (ServiceDiscoveryResponse_InternalSerialize rt d) = ServiceDiscoveryResponse_ByteSizeLong rt d"
  by (simp add: pb_wire.RpcRequest_size pb_wire.RpcResponse_size pb_wire.ServiceDiscoveryResponse_size)

lemma ByteSizeLong_exact_witness:
  "length (RpcRequest_InternalSerialize std_runtime RpcRequest_default) = RpcRequest_ByteSizeLong std_runtime RpcRequest_default"
proof -
  have s: "RpcRequest_ByteSizeLong std_runtime RpcRequest_default = 0"
    "RpcResponse_ByteSizeLong std_runtime RpcResponse_default = 0"
    "ServiceDiscoveryResponse_ByteSizeLong std_runtime ServiceDiscoveryResponse_default = 0"
    "rt_VerifyUTF8 std_runtime ''''" by code_simp+
  have "RpcRequest_ok std_runtime RpcRequest_default" "RpcResponse_ok std_runtime RpcResponse_default"
    "ServiceDiscoveryResponse_ok std_runtime ServiceDiscoveryResponse_default"
    unfolding RpcRequest_ok_def RpcResponse_ok_def ServiceDiscoveryResponse_ok_def s(1-3)
    using s(4) by (simp_all add: RpcRequest_default_def RpcResponse_default_def
        ServiceDiscoveryResponse_default_def pb_limit_def)
  from ByteSizeLong_exact [OF std.pb_wire_axioms this] show ?thesis by simp
qed

text \<open>No input keeps the parsers of the call messages running: the loop ends within as many
  passes as there are bytes.\<close>

theorem parsers_terminate:
  "pb_wire rt \<Longrightarrow> RpcRequest_InternalParse rt p q \<noteq> PFuel \<and> RpcResponse_InternalParse rt p r \<noteq> PFuel \<and>
   ServiceDiscoveryResponse_InternalParse rt p d \<noteq> PFuel"
  by (simp add: RpcRequest_InternalParse_def RpcResponse_InternalParse_def
      ServiceDiscoveryResponse_InternalParse_def pb_wire.parse_not_PFuel pb_wire.RpcRequest_consuming
      pb_wire.RpcResponse_consuming pb_wire.ServiceDiscoveryResponse_consuming)

lemma parsers_terminate_witness:
  "RpcRequest_InternalParse std_runtime ''garbage'' RpcRequest_default \<noteq> PFuel"
  using parsers_terminate [OF std.pb_wire_axioms] by blast

text \<open>\<open>CopyFrom\<close> makes the destination equal to the source, unknown fields included, whatever
  it held before.\<close>

theorem CopyFrom_copies:
  "RpcRequest_CopyFrom dst1 src1 = src1 \<and> RpcResponse_CopyFrom dst2 src2 = src2 \<and>
   ServiceRegisterRequest_CopyFrom dst3 src3 = src3 \<and> ServiceRegisterResponse_CopyFrom dst4 src4 = src4 \<and>
   ServiceDiscoveryRequest_CopyFrom dst5 src5 = src5 \<and> ServiceInfo_CopyFrom dst6 src6 = src6 \<and>
   ServiceDiscoveryResponse_CopyFrom dst7 src7 = src7 \<and> HeartbeatRequest_CopyFrom dst8 src8 = src8 \<and>
   HeartbeatResponse_CopyFrom dst9 src9 = src9"
  by (simp add: RpcRequest_copy RpcResponse_copy ServiceRegisterRequest_copy ServiceRegisterResponse_copy
      ServiceDiscoveryRequest_copy ServiceInfo_copy ServiceDiscoveryResponse_copy HeartbeatRequest_copy
      HeartbeatResponse_copy)

text \<open>A sum of zero is written as no bytes at all, so the response data of such an Add call is
  the empty string.\<close>

theorem add_zero_is_empty:
  "AddResponse_serialize rt \<lparr>ar_result = 0, ar_unknown = []\<rparr> = []"
  by (simp add: AddResponse_serialize_def Serializer_serialize_def AddResponse_InternalSerialize_def)

end
