(* ===== verification/Rpc_Server.thy ===== *)
theory Rpc_Server
  imports Epoll_Server Pb_Rpc_Message Pb_Reference
begin

text \<open>
  server/rpc_server.cpp: the dispatch of call requests to the registered handlers. A handler is
  a function from the argument bytes to its result, or to the \<open>what()\<close> of the
  \<open>std::exception\<close> it throws. \<open>result\<close> is what the \<open>send\<close> call of the response returns. Nothing
  else in \<open>handleRpcRequest\<close> throws in the model (a failing allocation is not modelled), so its
  outer \<open>catch\<close> has no branch.
\<close>

section \<open>State\<close>

type_synonym handler = "bytes \<Rightarrow> bytes + bytes"

record RpcServer =
  sv_registry_host :: bytes
  sv_registry_port :: i32
  sv_server_port :: i32
  sv_epoll :: EpollServer
  sv_handlers :: "(bytes \<times> handler) list"
  sv_running :: bool
  sv_total_requests :: u64
  sv_failed_requests :: u64

text \<open>The constructor, which installs \<open>handleRpcRequest\<close> as the epoll server's handler.\<close>

definition RpcServer_new :: "i32 \<Rightarrow> bytes \<Rightarrow> i32 \<Rightarrow> u64 \<Rightarrow> RpcServer" where
  "RpcServer_new port registry_host registry_port max_connections =
     \<lparr>sv_registry_host = registry_host, sv_registry_port = registry_port, sv_server_port = port,
      sv_epoll = setConnectionHandler (EpollServer_new max_connections), sv_handlers = [],
      sv_running = False, sv_total_requests = 0, sv_failed_requests = 0\<rparr>"

section \<open>Operations\<close>

definition method_key :: "bytes \<Rightarrow> bytes \<Rightarrow> bytes" where
  "method_key service_name method_name = service_name @ ''.'' @ method_name"

definition RpcServer_registerService :: "bytes \<Rightarrow> bytes \<Rightarrow> handler \<Rightarrow> RpcServer \<Rightarrow> RpcServer" where
  "RpcServer_registerService service_name method_name h s =
     s\<lparr>sv_handlers := AList.update (method_key service_name method_name) h (sv_handlers s)\<rparr>"

definition RpcServer_start :: "setup_calls \<Rightarrow> RpcServer \<Rightarrow> RpcServer" where
  "RpcServer_start calls s =
     (let (ok, e) = EpollServer_start calls (sv_epoll s)
      in if \<not> ok then s\<lparr>sv_epoll := e\<rparr> else s\<lparr>sv_epoll := e, sv_running := True\<rparr>)"

definition RpcServer_stop :: "RpcServer \<Rightarrow> RpcServer" where
  "RpcServer_stop s =
     (if \<not> sv_running s then s
      else s\<lparr>sv_running := False, sv_epoll := EpollServer_stop (sv_epoll s)\<rparr>)"

definition count_failure :: "RpcServer \<Rightarrow> RpcServer" where
  "count_failure s = s\<lparr>sv_failed_requests := sv_failed_requests s + 1\<rparr>"

text \<open>The result of \<open>sendErrorResponse\<close> is not used.\<close>

definition sendErrorResponse ::
    "pb_runtime \<Rightarrow> int \<Rightarrow> bytes \<Rightarrow> i32 \<Rightarrow> bytes \<Rightarrow> int \<Rightarrow> RpcServer \<Rightarrow> bytes \<times> RpcServer" where
  "sendErrorResponse rt client_fd request_id error_code error_msg result s =
     (let response = RpcResponse_default\<lparr>rs_request_id := request_id, rs_error_code := error_code,
            rs_error_msg := error_msg\<rparr>;
          (ok, wire, e) = sendResponse client_fd (RpcResponse_serialize rt response) result (sv_epoll s)
      in (wire, s\<lparr>sv_epoll := e\<rparr>))"

definition handleRpcRequest ::
    "pb_runtime \<Rightarrow> int \<Rightarrow> bytes \<Rightarrow> int \<Rightarrow> RpcServer \<Rightarrow> bytes \<times> RpcServer" where
  "handleRpcRequest rt client_fd data result s =
     (let s = s\<lparr>sv_total_requests := sv_total_requests s + 1\<rparr> in
      case RpcRequest_deserialize rt data of
        None \<Rightarrow> sendErrorResponse rt client_fd [] (- 1) ''Failed to deserialize request'' result
                  (count_failure s)
      | Some request \<Rightarrow>
          let response = RpcResponse_default\<lparr>rs_request_id := rq_request_id request\<rparr>;
              key = method_key (rq_service_name request) (rq_method_name request);
              (response, s) =
                (case map_of (sv_handlers s) key of
                   Some h \<Rightarrow>
                     (case h (rq_request_data request) of
                        Inr r \<Rightarrow> (response\<lparr>rs_error_code := 0, rs_response_data := r\<rparr>, s)
                      | Inl what \<Rightarrow> (response\<lparr>rs_error_code := - 2,
                          rs_error_msg := ''Handler execution failed: '' @ what\<rparr>, count_failure s))
                 | None \<Rightarrow> (response\<lparr>rs_error_code := - 1,
                     rs_error_msg := ''Method not found: '' @ key\<rparr>, count_failure s));
              (ok, wire, e) = sendResponse client_fd (RpcResponse_serialize rt response) result (sv_epoll s);
              s = s\<lparr>sv_epoll := e\<rparr>
          in (wire, if \<not> ok then count_failure s else s))"

text \<open>\<open>getStats\<close>: the connections and bytes of the epoll server, the requests of the RPC layer.\<close>

record rpc_stats =
  st_active_connections :: u64
  st_total_requests :: u64
  st_failed_requests :: u64
  st_bytes_received :: u64
  st_bytes_sent :: u64

definition RpcServer_getStats :: "RpcServer \<Rightarrow> rpc_stats" where
  "RpcServer_getStats s = (let epoll_stats = EpollServer_getStats (sv_epoll s) in
     \<lparr>st_active_connections = es_active_connections epoll_stats, st_total_requests = sv_total_requests s,
      st_failed_requests = sv_failed_requests s, st_bytes_received = es_bytes_received epoll_stats,
      st_bytes_sent = es_bytes_sent epoll_stats\<rparr>)"

section \<open>Requests to the registry\<close>

text \<open>The address of the server; nothing calls it, the requests hold the address themselves.\<close>

definition getLocalIP :: bytes where
  "getLocalIP = ''127.0.0.1''"

text \<open>
  The messages \<open>registerSingleService\<close> and \<open>sendHeartbeatForService\<close> send, and how they read the
  answer: \<open>None\<close> where the former throws, and whether the registry confirmed.
\<close>

definition registration_request :: "bytes \<Rightarrow> RpcServer \<Rightarrow> ServiceRegisterRequest" where
  "registration_request service_name s = ServiceRegisterRequest_default
     \<lparr>srq_service_name := service_name, srq_host := ''127.0.0.1'', srq_port := sv_server_port s\<rparr>"

definition heartbeat_request :: "bytes \<Rightarrow> RpcServer \<Rightarrow> HeartbeatRequest" where
  "heartbeat_request service_name s = HeartbeatRequest_default
     \<lparr>hq_service_name := service_name, hq_host := ''127.0.0.1'', hq_port := sv_server_port s\<rparr>"

definition registration_confirmed :: "pb_runtime \<Rightarrow> bytes \<Rightarrow> bool option" where
  "registration_confirmed rt response_data =
     (if response_data = [] then None
      else map_option srs_success (ServiceRegisterResponse_deserialize rt response_data))"

definition heartbeat_acknowledged :: "pb_runtime \<Rightarrow> bytes \<Rightarrow> bool" where
  "heartbeat_acknowledged rt response_data =
     (response_data \<noteq> [] \<and> (case HeartbeatResponse_deserialize rt response_data of
        Some response \<Rightarrow> hs_success response | None \<Rightarrow> False))"

section \<open>Dispatch\<close>

text \<open>What a parsed request is answered.\<close>

definition answer :: "(bytes \<times> handler) list \<Rightarrow> RpcRequest \<Rightarrow> RpcResponse" where
  "answer hs q = (let key = method_key (rq_service_name q) (rq_method_name q) in
     case map_of hs key of
       Some h \<Rightarrow> (case h (rq_request_data q) of
           Inr r \<Rightarrow> RpcResponse_default\<lparr>rs_request_id := rq_request_id q, rs_response_data := r\<rparr>
         | Inl what \<Rightarrow> RpcResponse_default\<lparr>rs_request_id := rq_request_id q, rs_error_code := - 2,
             rs_error_msg := ''Handler execution failed: '' @ what\<rparr>)
     | None \<Rightarrow> RpcResponse_default\<lparr>rs_request_id := rq_request_id q, rs_error_code := - 1,
         rs_error_msg := ''Method not found: '' @ key\<rparr>)"

lemma handleRpcRequest_parsed:
  assumes "RpcRequest_deserialize rt data = Some q"
  shows "fst (handleRpcRequest rt fd data result s) =
      fst (snd (sendResponse fd (RpcResponse_serialize rt (answer (sv_handlers s) q)) result (sv_epoll s)))"
    and "sv_handlers (snd (handleRpcRequest rt fd data result s)) = sv_handlers s"
  using assms
  by (auto simp: handleRpcRequest_def answer_def count_failure_def RpcResponse_default_def Let_def
      case_prod_unfold split: option.splits sum.splits)

lemma sendResponse_complete:
  assumes "map_of (ep_connections e) fd = Some conn" and "result \<ge> int (length (frame data))"
  shows "fst (sendResponse fd data result e) \<and> fst (snd (sendResponse fd data result e)) = frame data"
  using assms by (simp add: sendResponse_def frame_def Let_def be32_def)

text \<open>Counters: a request counts once, and fails at most twice.\<close>

lemma handleRpcRequest_counts:
  "sv_total_requests (snd (handleRpcRequest rt fd data result s)) = sv_total_requests s + 1 \<and>
   (\<exists>k \<le> 2. sv_failed_requests (snd (handleRpcRequest rt fd data result s)) = sv_failed_requests s + of_nat k)"
proof -
  have k: "x = x + of_nat 0" "x + 1 = x + of_nat 1" "x + 1 + 1 = x + of_nat 2" for x :: u64 by simp_all
  show ?thesis
    by (auto simp: handleRpcRequest_def sendErrorResponse_def count_failure_def Let_def
        case_prod_unfold split: option.splits sum.splits
        intro: exI [of _ "0 :: nat"] exI [of _ "1 :: nat"] exI [of _ "2 :: nat"])
qed

end
