(* ===== verification/Rpc_Client.thy ===== *)
theory Rpc_Client
  imports Pb_Rpc_Message Pb_Reference
begin

text \<open>
  client/rpc_client.cpp: calls with cached service discovery, round-robin choice of the
  endpoint and retries. One exchange over a pooled connection is the environment: a function
  from the bytes sent to \<open>None\<close>, when acquiring the connection or sending failed (the code
  throws), or to what \<open>receive\<close> returned. The average response time is not modelled.
\<close>

section \<open>State\<close>

record ServiceEndpoint =
  en_host :: bytes
  en_port :: i32
  en_cached_time :: int

record RpcClient =
  cl_retry_count :: int
  cl_service_cache_ttl :: int
  cl_service_cache :: "(bytes \<times> ServiceEndpoint list) list"
  cl_round_robin_counters :: "(bytes \<times> u64) list"
  cl_total_calls :: u64
  cl_successful_calls :: u64
  cl_failed_calls :: u64
  cl_cache_hits :: u64
  cl_cache_misses :: u64

definition RpcClient_new :: "int \<Rightarrow> int \<Rightarrow> RpcClient" where
  "RpcClient_new retry_count ttl = \<lparr>cl_retry_count = retry_count, cl_service_cache_ttl = ttl,
     cl_service_cache = [], cl_round_robin_counters = [], cl_total_calls = 0, cl_successful_calls = 0,
     cl_failed_calls = 0, cl_cache_hits = 0, cl_cache_misses = 0\<rparr>"

type_synonym exchange = "bytes \<Rightarrow> bytes option"

section \<open>Discovery\<close>

definition isExpired :: "int \<Rightarrow> int \<Rightarrow> ServiceEndpoint \<Rightarrow> bool" where
  "isExpired ttl now e \<longleftrightarrow> now - en_cached_time e > ttl"

text \<open>Every exception of the discovery is caught, and no endpoint is returned then.\<close>

definition discoverServiceFromRegistry ::
    "pb_runtime \<Rightarrow> exchange \<Rightarrow> int \<Rightarrow> bytes \<Rightarrow> ServiceEndpoint list" where
  "discoverServiceFromRegistry rt registry now service_name =
     (let request = ServiceDiscoveryRequest_default\<lparr>dq_service_name := service_name\<rparr> in
      case registry (ServiceDiscoveryRequest_serialize rt request) of
        None \<Rightarrow> []
      | Some response_data \<Rightarrow>
          if response_data = [] then []
          else case ServiceDiscoveryResponse_deserialize rt response_data of
            None \<Rightarrow> []
          | Some response \<Rightarrow>
              map (\<lambda>s. \<lparr>en_host = info_host s, en_port = info_port s, en_cached_time = now\<rparr>)
                (ds_services response))"

definition discoverService ::
    "pb_runtime \<Rightarrow> exchange \<Rightarrow> int \<Rightarrow> bytes \<Rightarrow> RpcClient \<Rightarrow> ServiceEndpoint list \<times> RpcClient" where
  "discoverService rt registry now service_name c =
     (let hit = (case map_of (cl_service_cache c) service_name of
            None \<Rightarrow> None
          | Some es \<Rightarrow> if es \<noteq> [] \<and> \<not> isExpired (cl_service_cache_ttl c) now (es ! 0) then Some es else None)
      in case hit of
           Some es \<Rightarrow> (es, c\<lparr>cl_cache_hits := cl_cache_hits c + 1\<rparr>)
         | None \<Rightarrow>
             let c = c\<lparr>cl_cache_misses := cl_cache_misses c + 1\<rparr>;
                 endpoints = discoverServiceFromRegistry rt registry now service_name;
                 c = (if endpoints \<noteq> []
                      then c\<lparr>cl_service_cache := AList.update service_name endpoints (cl_service_cache c)\<rparr>
                      else c)
             in (endpoints, c))"

section \<open>Choice of the endpoint\<close>

text \<open>\<open>None\<close> is the exception for an empty list.\<close>

definition selectEndpoint ::
    "ServiceEndpoint list \<Rightarrow> RpcClient \<Rightarrow> (ServiceEndpoint \<times> RpcClient) option" where
  "selectEndpoint endpoints c =
     (if endpoints = [] then None
      else if length endpoints = 1 then Some (endpoints ! 0, c)
      else
        let key = en_host (endpoints ! 0) @ '':'' @ to_string (en_port (endpoints ! 0));
            counter = (case map_of (cl_round_robin_counters c) key of Some n \<Rightarrow> n | None \<Rightarrow> 0);
            index = unat counter mod length endpoints
        in Some (endpoints ! index,
             c\<lparr>cl_round_robin_counters := AList.update key (counter + 1) (cl_round_robin_counters c)\<rparr>))"

section \<open>Calls\<close>

text \<open>One attempt; \<open>None\<close> is an exception.\<close>

definition callEndpoint ::
    "pb_runtime \<Rightarrow> exchange \<Rightarrow> bytes \<Rightarrow> bytes \<Rightarrow> bytes \<Rightarrow> bytes \<Rightarrow> bytes option" where
  "callEndpoint rt endpoint request_id service_name method_name request_data =
     (let request = RpcRequest_default\<lparr>rq_service_name := service_name, rq_method_name := method_name,
            rq_request_data := request_data, rq_request_id := request_id\<rparr> in
      case endpoint (RpcRequest_serialize rt request) of
        None \<Rightarrow> None
      | Some response_data \<Rightarrow>
          if response_data = [] then None
          else case RpcResponse_deserialize rt response_data of
            None \<Rightarrow> None
          | Some response \<Rightarrow>
              if rs_error_code response \<noteq> 0 then None else Some (rs_response_data response))"

text \<open>
  The loop of \<open>callWithRetry\<close>: \<open>attempts\<close> are the results \<open>callEndpoint\<close> would have, in order.
\<close>

fun retry_loop :: "nat \<Rightarrow> bytes option list \<Rightarrow> bytes" where
  "retry_loop 0 attempts = []"
| "retry_loop (Suc n) [] = []"
| "retry_loop (Suc n) (a # attempts) =
     (case a of Some r \<Rightarrow> if r \<noteq> [] then r else retry_loop n attempts
      | None \<Rightarrow> retry_loop n attempts)"

text \<open>
  \<open>net e i\<close> is the connection and the request id of attempt \<open>i\<close> at endpoint \<open>e\<close>.
\<close>

definition callWithRetry ::
    "pb_runtime \<Rightarrow> (nat \<Rightarrow> exchange \<times> bytes) \<Rightarrow> bytes \<Rightarrow> bytes \<Rightarrow> bytes \<Rightarrow> RpcClient \<Rightarrow> bytes" where
  "callWithRetry rt net service_name method_name request_data c =
     (let n = nat (cl_retry_count c) in
      retry_loop n (map (\<lambda>i. callEndpoint rt (fst (net i)) (snd (net i)) service_name method_name request_data)
        [0..<n]))"

definition RpcClient_call ::
    "pb_runtime \<Rightarrow> exchange \<Rightarrow> (ServiceEndpoint \<Rightarrow> nat \<Rightarrow> exchange \<times> bytes) \<Rightarrow> int \<Rightarrow>
     bytes \<Rightarrow> bytes \<Rightarrow> bytes \<Rightarrow> RpcClient \<Rightarrow> bytes \<times> RpcClient" where
  "RpcClient_call rt registry net now service_name method_name request_data c =
     (let c = c\<lparr>cl_total_calls := cl_total_calls c + 1\<rparr>;
          (endpoints, c) = discoverService rt registry now service_name c
      in if endpoints = [] then ([], c\<lparr>cl_failed_calls := cl_failed_calls c + 1\<rparr>)
         else case selectEndpoint endpoints c of
           None \<Rightarrow> ([], c\<lparr>cl_failed_calls := cl_failed_calls c + 1\<rparr>)
         | Some (endpoint, c) \<Rightarrow>
             let r = callWithRetry rt (net endpoint) service_name method_name request_data c
             in if r \<noteq> [] then (r, c\<lparr>cl_successful_calls := cl_successful_calls c + 1\<rparr>)
                else (r, c\<lparr>cl_failed_calls := cl_failed_calls c + 1\<rparr>))"

section \<open>Lemmas\<close>

lemma retry_loop_first:
  "retry_loop n as = (case filter (\<lambda>a. a \<noteq> None \<and> a \<noteq> Some []) (take n as) of
     [] \<Rightarrow> [] | a # _ \<Rightarrow> the a)"
  by (induction n as rule: retry_loop.induct) (auto split: option.splits)

text \<open>The counters of a discovery and of a choice.\<close>

lemma discoverService_counts:
  "cl_total_calls (snd (discoverService rt registry now n c)) = cl_total_calls c \<and>
   cl_successful_calls (snd (discoverService rt registry now n c)) = cl_successful_calls c \<and>
   cl_failed_calls (snd (discoverService rt registry now n c)) = cl_failed_calls c \<and>
   cl_retry_count (snd (discoverService rt registry now n c)) = cl_retry_count c \<and>
   cl_cache_hits (snd (discoverService rt registry now n c)) +
     cl_cache_misses (snd (discoverService rt registry now n c)) =
   cl_cache_hits c + cl_cache_misses c + 1"
  by (simp add: discoverService_def Let_def split: option.splits)

lemma selectEndpoint_Some:
  "endpoints \<noteq> [] \<Longrightarrow> \<exists>e c'. selectEndpoint endpoints c = Some (e, c') \<and> e \<in> set endpoints \<and>
     cl_total_calls c' = cl_total_calls c \<and> cl_successful_calls c' = cl_successful_calls c \<and>
     cl_failed_calls c' = cl_failed_calls c \<and> cl_retry_count c' = cl_retry_count c"
  by (simp add: selectEndpoint_def Let_def)

lemma call_counts:
  "cl_total_calls (snd (RpcClient_call rt registry net now s m d c)) = cl_total_calls c + 1 \<and>
   (if fst (RpcClient_call rt registry net now s m d c) \<noteq> []
    then cl_successful_calls (snd (RpcClient_call rt registry net now s m d c)) = cl_successful_calls c + 1 \<and>
         cl_failed_calls (snd (RpcClient_call rt registry net now s m d c)) = cl_failed_calls c
    else cl_successful_calls (snd (RpcClient_call rt registry net now s m d c)) = cl_successful_calls c \<and>
         cl_failed_calls (snd (RpcClient_call rt registry net now s m d c)) = cl_failed_calls c + 1)"
proof -
  let ?c = "c\<lparr>cl_total_calls := cl_total_calls c + 1\<rparr>"
  obtain es c1 where d: "discoverService rt registry now s ?c = (es, c1)"
    by (cases "discoverService rt registry now s ?c")
  then have c1: "cl_total_calls c1 = cl_total_calls c + 1" "cl_successful_calls c1 = cl_successful_calls c"
    "cl_failed_calls c1 = cl_failed_calls c"
    using discoverService_counts [of rt registry now s ?c] by simp_all
  show ?thesis
  proof (cases "es = []")
    case True
    then show ?thesis using d c1 by (simp add: RpcClient_call_def)
  next
    case False
    then obtain e c2 where "selectEndpoint es c1 = Some (e, c2)"
      "cl_total_calls c2 = cl_total_calls c1" "cl_successful_calls c2 = cl_successful_calls c1"
      "cl_failed_calls c2 = cl_failed_calls c1"
      using selectEndpoint_Some by blast
    then show ?thesis using d c1 False by (simp add: RpcClient_call_def Let_def)
  qed
qed

lemma discoverService_hit:
  "map_of (cl_service_cache c) n = Some es \<Longrightarrow> es \<noteq> [] \<Longrightarrow>
   \<not> isExpired (cl_service_cache_ttl c) now (es ! 0) \<Longrightarrow>
   discoverService rt registry now n c = (es, c\<lparr>cl_cache_hits := cl_cache_hits c + 1\<rparr>)"
  by (simp add: discoverService_def)

end
