(* ===== verification/Load_Balancer.thy ===== *)
theory Load_Balancer
  imports Pb_Rpc_Message
begin

text \<open>
  common/load_balancer.cpp: the choice of a service instance. The index a random distribution
  over \<open>0 .. size - 1\<close> returns is an argument. Round robin takes the counter modulo the size;
  the counter is a 64-bit \<open>size_t\<close>.
\<close>

datatype Strategy = ROUND_ROBIN | RANDOM | LEAST_CONNECTIONS

record LoadBalancer =
  lb_strategy :: Strategy
  lb_round_robin_index :: u64

definition LoadBalancer_new :: "Strategy \<Rightarrow> LoadBalancer" where
  "LoadBalancer_new strategy = \<lparr>lb_strategy = strategy, lb_round_robin_index = 0\<rparr>"

definition selectService ::
    "nat \<Rightarrow> ServiceInfo list \<Rightarrow> LoadBalancer \<Rightarrow> ServiceInfo \<times> LoadBalancer" where
  "selectService dist services b =
     (if services = [] then (ServiceInfo_default, b)
      else case lb_strategy b of
        ROUND_ROBIN \<Rightarrow>
          let index = unat (lb_round_robin_index b) mod length services
          in (services ! index, b\<lparr>lb_round_robin_index := lb_round_robin_index b + 1\<rparr>)
      | RANDOM \<Rightarrow> (services ! dist, b)
      | LEAST_CONNECTIONS \<Rightarrow> (services ! 0, b))"

text \<open>A run of selections over the same services.\<close>

fun select_run :: "nat \<Rightarrow> ServiceInfo list \<Rightarrow> LoadBalancer \<Rightarrow> ServiceInfo list" where
  "select_run 0 services b = []"
| "select_run (Suc n) services b =
     (let (s, b') = selectService 0 services b in s # select_run n services b')"

lemma select_run_rr:
  assumes "lb_strategy b = ROUND_ROBIN" and "services \<noteq> []"
    and "unat (lb_round_robin_index b) + n < 2 ^ 64"
  shows "select_run n services b =
    map (\<lambda>i. services ! ((unat (lb_round_robin_index b) + i) mod length services)) [0..<n]"
  using assms(1,3)
proof (induction n arbitrary: b)
  case (Suc n)
  let ?b = "b\<lparr>lb_round_robin_index := lb_round_robin_index b + 1\<rparr>"
  have u: "unat (lb_round_robin_index b + 1) = Suc (unat (lb_round_robin_index b))"
    using Suc.prems(2) by (simp add: unat_word_ariths)
  have "select_run n services ?b =
      map (\<lambda>i. services ! ((Suc (unat (lb_round_robin_index b)) + i) mod length services)) [0..<n]"
    using Suc.IH [of ?b] Suc.prems by (simp add: u)
  moreover have "[0..<Suc n] = 0 # map Suc [0..<n]" by (metis upt_conv_Cons map_Suc_upt zero_less_Suc)
  ultimately show ?case
    using Suc.prems(1) assms(2) by (simp add: selectService_def Let_def comp_def)
qed simp

end
