(* ===== verification/Rpc_Properties.thy ===== *)
theory Rpc_Properties
  imports Rpc_Server Rpc_Client Load_Balancer Pb_Service
begin

text \<open>
  The properties of remote calls: the dispatch of the server, the client's accounting, its
  cache and its retries, and a call from end to end.
\<close>

section \<open>Examples\<close>

definition echo :: handler where
  "echo d = Inr (d @ ''!'')"

definition server_ex :: RpcServer where
  "server_ex = RpcServer_registerService ''S'' ''m'' echo
     ((RpcServer_new 80 ''127.0.0.1'' 90 9)
       \<lparr>sv_epoll := (setConnectionHandler (EpollServer_new 9))
          \<lparr>ep_connections := [(7, ClientConnection_new 7)]\<rparr>\<rparr>)"

lemmas server_ex_defs = server_ex_def RpcServer_registerService_def RpcServer_new_def
  setConnectionHandler_def EpollServer_new_def

section \<open>The server\<close>

lemma call_round_trip:
  assumes "pb_wire rt"
    and "q = RpcRequest_default\<lparr>rq_service_name := service_name, rq_method_name := method_name,
       rq_request_data := request_data, rq_request_id := request_id\<rparr>" and "RpcRequest_ok rt q"
    and "map_of (sv_handlers s) (method_key service_name method_name) = Some h"
    and "h request_data = Inr r"
    and "a = RpcResponse_default\<lparr>rs_request_id := request_id, rs_response_data := r\<rparr>"
    and "RpcResponse_ok rt a" and "RpcResponse_serialize rt a \<noteq> []"
    and "length (RpcResponse_serialize rt a) \<le> max_message"
    and "map_of (ep_connections (sv_epoll s)) fd = Some conn"
    and "result \<ge> int (length (frame (RpcResponse_serialize rt a)))"
    and "tc_connected c" and "exchange = (\<lambda>request. Some (fst (TcpConnection_receive c
       (k\<lparr>sk_rx := fst (handleRpcRequest rt fd request result s)\<rparr>))))"
  shows "callEndpoint rt exchange request_id service_name method_name request_data = Some r"
proof -
  note parsed = pb_wire.RpcRequest_roundtrip [OF assms(1,3)]
  have "answer (sv_handlers s) q = a"
    using assms(4,5) by (simp add: answer_def assms(2,6) RpcRequest_default_def Let_def)
  then have "fst (handleRpcRequest rt fd (RpcRequest_serialize rt q) result s) =
      frame (RpcResponse_serialize rt a)"
    using handleRpcRequest_parsed(1) [OF parsed, of fd result s] sendResponse_complete [OF assms(10,11)]
    by simp
  then have "exchange (RpcRequest_serialize rt q) = Some (RpcResponse_serialize rt a)"
    using receive_frame [OF assms(12) _ assms(8,9), of "k\<lparr>sk_rx := frame (RpcResponse_serialize rt a)\<rparr>" "[]"]
    by (simp add: assms(13))
  then show ?thesis
    using pb_wire.RpcResponse_roundtrip [OF assms(1,7)] assms(8)
    by (simp add: callEndpoint_def Let_def flip: assms(2)) (simp add: assms(6) RpcResponse_default_def)
qed

text \<open>C1. A call from end to end: a request the client builds, sent to a server with a handler for
  the method that returns r, and answered with a complete \<open>send\<close>, gives the client r, whatever
  conforming protobuf runtime both use.\<close>

theorem call_end_to_end:
  assumes "pb_wire rt"
    and "q = RpcRequest_default\<lparr>rq_service_name := service_name, rq_method_name := method_name,
       rq_request_data := request_data, rq_request_id := request_id\<rparr>" and "RpcRequest_ok rt q"
    and "map_of (sv_handlers s) (method_key service_name method_name) = Some h"
    and "h request_data = Inr r"
    and "a = RpcResponse_default\<lparr>rs_request_id := request_id, rs_response_data := r\<rparr>"
    and "RpcResponse_ok rt a" and "RpcResponse_serialize rt a \<noteq> []"
    and "length (RpcResponse_serialize rt a) \<le> max_message"
    and "map_of (ep_connections (sv_epoll s)) fd = Some conn"
    and "result \<ge> int (length (frame (RpcResponse_serialize rt a)))"
    and "tc_connected c" and "exchange = (\<lambda>request. Some (fst (TcpConnection_receive c
       (k\<lparr>sk_rx := fst (handleRpcRequest rt fd request result s)\<rparr>))))"
  shows "callEndpoint rt exchange request_id service_name method_name request_data = Some r"
  by (rule call_round_trip [OF assms])

lemma call_end_to_end_witness:
  "callEndpoint std_runtime (\<lambda>request. Some (fst (TcpConnection_receive (TcpConnection_new 3)
     (\<lparr>sk_sends = [], sk_tx = [], sk_rx = [], sk_closed = False\<rparr>
        \<lparr>sk_rx := fst (handleRpcRequest std_runtime 7 request 99 server_ex)\<rparr>))))
     ''42'' ''S'' ''m'' ''hi'' = Some ''hi!''"
proof -
  let ?q = "RpcRequest_default\<lparr>rq_service_name := ''S'', rq_method_name := ''m'',
       rq_request_data := ''hi'', rq_request_id := ''42''\<rparr>"
  let ?a = "RpcResponse_default\<lparr>rs_request_id := ''42'', rs_response_data := ''hi!''\<rparr>"
  have size: "RpcRequest_ByteSizeLong std_runtime ?q = 14" "RpcResponse_ByteSizeLong std_runtime ?a = 9"
    "length (RpcResponse_serialize std_runtime ?a) = 9" by code_simp+
  have utf8: "rt_VerifyUTF8 std_runtime ''S''" "rt_VerifyUTF8 std_runtime ''m''"
    "rt_VerifyUTF8 std_runtime ''42''" "rt_VerifyUTF8 std_runtime ''''" by code_simp+
  show ?thesis
    by (rule call_end_to_end [OF std.pb_wire_axioms, where q = ?q and s = server_ex and h = echo
          and a = ?a and fd = 7 and conn = "ClientConnection_new 7" and result = 99
          and c = "TcpConnection_new 3"
          and k = "\<lparr>sk_sends = [], sk_tx = [], sk_rx = [], sk_closed = False\<rparr>"])
      (use size utf8 in \<open>auto simp: RpcRequest_ok_def RpcResponse_ok_def RpcRequest_default_def
        RpcResponse_default_def pb_limit_def max_message_def length_frame TcpConnection_new_def
        server_ex_defs echo_def method_key_def\<close>)
qed

text \<open>Every parsed request is answered under its own request id: with the handler's result and
  error code 0, with -2 and the message of the handler's exception, or with -1 when no handler
  has the key of the method.\<close>

theorem request_answered:
  assumes "RpcRequest_deserialize rt data = Some q"
    and "map_of (ep_connections (sv_epoll s)) fd = Some conn"
    and "result \<ge> int (length (frame (RpcResponse_serialize rt (answer (sv_handlers s) q))))"
  shows "fst (handleRpcRequest rt fd data result s) =
      frame (RpcResponse_serialize rt (answer (sv_handlers s) q)) \<and>
    rs_request_id (answer (sv_handlers s) q) = rq_request_id q \<and>
    (rs_error_code (answer (sv_handlers s) q) = 0 \<longleftrightarrow>
      (\<exists>h r. map_of (sv_handlers s) (rq_service_name q @ ''.'' @ rq_method_name q) = Some h \<and>
        h (rq_request_data q) = Inr r \<and> rs_response_data (answer (sv_handlers s) q) = r))"
  using handleRpcRequest_parsed(1) [OF assms(1)] sendResponse_complete [OF assms(2,3)]
  by (auto simp: answer_def method_key_def RpcResponse_default_def Let_def split: option.splits sum.splits)

lemma request_answered_witness:
  "rs_request_id (answer (sv_handlers server_ex)
     \<lparr>rq_service_name = ''S'', rq_method_name = ''m'', rq_request_data = [], rq_request_id = ''42'', rq_unknown = []\<rparr>) = ''42''"
proof -
  let ?q = "\<lparr>rq_service_name = ''S'', rq_method_name = ''m'', rq_request_data = [], rq_request_id = ''42'', rq_unknown = []\<rparr>"
  have d: "RpcRequest_deserialize std_runtime (RpcRequest_serialize std_runtime ?q) = Some ?q" by code_simp
  have a: "answer (sv_handlers server_ex) ?q =
      \<lparr>rs_request_id = ''42'', rs_error_code = 0, rs_error_msg = [], rs_response_data = ''!'', rs_unknown = []\<rparr>"
    by (simp add: answer_def server_ex_defs method_key_def echo_def RpcResponse_default_def)
  have "length (RpcResponse_serialize std_runtime
      \<lparr>rs_request_id = ''42'', rs_error_code = 0, rs_error_msg = [], rs_response_data = ''!'', rs_unknown = []\<rparr>) = 7"
    by code_simp
  then have "int (length (frame (RpcResponse_serialize std_runtime (answer (sv_handlers server_ex) ?q)))) \<le> 999"
    by (simp add: a length_frame)
  moreover have "map_of (ep_connections (sv_epoll server_ex)) 7 = Some (ClientConnection_new 7)"
    by (simp add: server_ex_defs)
  ultimately show ?thesis
    using request_answered [OF d, of server_ex 7 "ClientConnection_new 7" 999] by simp
qed

text \<open>Each request counts once as a request and at most twice as a failure.\<close>

theorem request_counted:
  "sv_total_requests (snd (handleRpcRequest rt fd data result s)) = sv_total_requests s + 1 \<and>
   (\<exists>k \<le> 2. sv_failed_requests (snd (handleRpcRequest rt fd data result s)) = sv_failed_requests s + of_nat k)"
  by (rule handleRpcRequest_counts)

text \<open>It does count twice when an unanswerable call also cannot be answered: after one such
  request there are more failures than requests, and the difference \<open>printStats\<close> computes wraps
  around.\<close>

theorem more_failures_than_requests:
  "\<exists>s. snd (handleRpcRequest std_runtime 8 (RpcRequest_serialize std_runtime
       (RpcRequest_default\<lparr>rq_method_name := ''x''\<rparr>)) 0 server_ex) = s \<and>
     sv_total_requests s = 1 \<and> sv_failed_requests s = 2 \<and>
     sv_total_requests s - sv_failed_requests s = 2 ^ 64 - 1"
proof -
  have d: "RpcRequest_deserialize std_runtime (RpcRequest_serialize std_runtime
      (RpcRequest_default\<lparr>rq_method_name := ''x''\<rparr>)) = Some (RpcRequest_default\<lparr>rq_method_name := ''x''\<rparr>)"
    by code_simp
  show ?thesis
    unfolding handleRpcRequest_def d
    by (simp add: server_ex_defs count_failure_def method_key_def sendResponse_def
        RpcRequest_default_def Let_def)
qed

text \<open>Handlers are found by the concatenation of service and method name, so a method
  registered as \<open>b.c\<close> of service a also serves the calls of method c of service \<open>a.b\<close>.\<close>

theorem method_keys_overlap:
  "map_of (sv_handlers (RpcServer_registerService a (b @ ''.'' @ c) h s)) (method_key (a @ ''.'' @ b) c) = Some h"
  by (simp add: RpcServer_registerService_def method_key_def table_simps)

section \<open>The client\<close>

text \<open>Each call counts once, as a success exactly when it returns a non-empty result and as a
  failure otherwise.\<close>

theorem call_counted:
  "cl_total_calls (snd (RpcClient_call rt registry net now s m d c)) = cl_total_calls c + 1 \<and>
   (if fst (RpcClient_call rt registry net now s m d c) \<noteq> []
    then cl_successful_calls (snd (RpcClient_call rt registry net now s m d c)) = cl_successful_calls c + 1 \<and>
         cl_failed_calls (snd (RpcClient_call rt registry net now s m d c)) = cl_failed_calls c
    else cl_successful_calls (snd (RpcClient_call rt registry net now s m d c)) = cl_successful_calls c \<and>
         cl_failed_calls (snd (RpcClient_call rt registry net now s m d c)) = cl_failed_calls c + 1)"
  by (rule call_counts)

text \<open>\<open>callWithRetry\<close> returns the first non-empty result of at most \<open>retry_count\<close> attempts, and
  the empty string when there is none.\<close>

theorem retry_first_result:
  "callWithRetry rt net s m d c =
     (case filter (\<lambda>a. a \<noteq> None \<and> a \<noteq> Some [])
        (map (\<lambda>i. callEndpoint rt (fst (net i)) (snd (net i)) s m d) [0..<nat (cl_retry_count c)]) of
      [] \<Rightarrow> [] | a # _ \<Rightarrow> the a)"
  by (simp add: callWithRetry_def Let_def retry_loop_first)

text \<open>A call that the server answers successfully with an empty result is repeated
  \<open>retry_count\<close> times and then reported as a failure.\<close>

theorem empty_result_is_failure:
  assumes "\<forall>e i. callEndpoint rt (fst (net e i)) (snd (net e i)) s m d = Some []"
  shows "fst (RpcClient_call rt registry net now s m d c) = [] \<and>
    cl_failed_calls (snd (RpcClient_call rt registry net now s m d c)) = cl_failed_calls c + 1"
proof -
  have "callWithRetry rt (net e) s m d c' = []" for e c'
    using assms by (simp add: callWithRetry_def Let_def retry_loop_first filter_empty_conv)
  then have "fst (RpcClient_call rt registry net now s m d c) = []"
    by (simp add: RpcClient_call_def Let_def case_prod_unfold split: option.split)
  then show ?thesis using call_counts [of rt registry net now s m d c] by simp
qed

lemma empty_result_is_failure_witness:
  "fst (RpcClient_call std_runtime (\<lambda>_. None)
     (\<lambda>e i. (\<lambda>_. Some (RpcResponse_serialize std_runtime (RpcResponse_default\<lparr>rs_request_id := ''7''\<rparr>)), ''7''))
     0 ''CalculatorService'' ''Add'' '''' (RpcClient_new 3 60)) = []"
proof -
  have "callEndpoint std_runtime (\<lambda>_. Some (RpcResponse_serialize std_runtime
      (RpcResponse_default\<lparr>rs_request_id := ''7''\<rparr>))) ''7'' ''CalculatorService'' ''Add'' '''' = Some ''''"
    by code_simp
  then show ?thesis
    using empty_result_is_failure [where rt = std_runtime and s = "''CalculatorService''" and m = "''Add''"
        and d = "''''" and net = "\<lambda>e i. (\<lambda>_. Some (RpcResponse_serialize std_runtime
          (RpcResponse_default\<lparr>rs_request_id := ''7''\<rparr>)), ''7'')"
        and registry = "\<lambda>_. None" and now = 0 and c = "RpcClient_new 3 60"]
    by simp
qed

text \<open>While a cached list of endpoints is within its time to live, discovery returns it without
  asking the registry, and counts a cache hit.\<close>

theorem cached_discovery:
  "map_of (cl_service_cache c) n = Some es \<Longrightarrow> es \<noteq> [] \<Longrightarrow>
   now - en_cached_time (es ! 0) \<le> cl_service_cache_ttl c \<Longrightarrow>
   discoverService rt registry now n c = (es, c\<lparr>cl_cache_hits := cl_cache_hits c + 1\<rparr>)"
  by (rule discoverService_hit) (simp_all add: isExpired_def)

lemma cached_discovery_witness:
  "fst (discoverService std_runtime (\<lambda>_. None) 65 ''S''
     ((RpcClient_new 3 60)\<lparr>cl_service_cache := [(''S'', [\<lparr>en_host = ''h'', en_port = 1, en_cached_time = 5\<rparr>])]\<rparr>)) =
   [\<lparr>en_host = ''h'', en_port = 1, en_cached_time = 5\<rparr>]"
  by (subst cached_discovery [where es = "[\<lparr>en_host = ''h'', en_port = 1, en_cached_time = 5\<rparr>]"])
    (simp_all add: RpcClient_new_def)

section \<open>The load balancer\<close>

text \<open>Round robin is fair: k rounds over a non-empty list of services select every service once
  per round, in the order of the list.\<close>

theorem round_robin_fair:
  assumes "services \<noteq> []" and "k * length services < 2 ^ 64"
  shows "select_run (k * length services) services (LoadBalancer_new ROUND_ROBIN) = concat (replicate k services)"
proof -
  have "map (\<lambda>i. services ! (i mod length services)) [0..<k * length services] = concat (replicate k services)"
  proof (induction k)
    case (Suc k)
    let ?n = "length services"
    have "[0..<Suc k * ?n] = [0..<k * ?n] @ map (\<lambda>i. i + k * ?n) [0..<?n]"
      using upt_add_eq_append [of 0 "k * ?n" ?n] by (simp add: map_add_upt add.commute)
    moreover have "map (\<lambda>i. services ! ((i + k * ?n) mod ?n)) [0..<?n] = map ((!) services) [0..<?n]"
      by (intro map_cong) simp_all
    ultimately have "map (\<lambda>i. services ! (i mod ?n)) [0..<Suc k * ?n] = concat (replicate k services) @ services"
      using Suc.IH by (simp add: comp_def map_nth)
    also have "\<dots> = concat (replicate (Suc k) services)"
      by (simp flip: replicate_append_same)
    finally show ?case .
  qed simp
  then show ?thesis
    using select_run_rr [of "LoadBalancer_new ROUND_ROBIN" services "k * length services"] assms
    by (simp add: LoadBalancer_new_def)
qed

lemma round_robin_fair_witness:
  "select_run (2 * length [ServiceInfo_default, ServiceInfo_default\<lparr>info_port := 1\<rparr>])
     [ServiceInfo_default, ServiceInfo_default\<lparr>info_port := 1\<rparr>] (LoadBalancer_new ROUND_ROBIN) =
   concat (replicate 2 [ServiceInfo_default, ServiceInfo_default\<lparr>info_port := 1\<rparr>])"
  by (rule round_robin_fair) simp_all

end
