(* ===== verification/Thread_Pool.thy ===== *)
theory Thread_Pool
  imports Rpc_Prelude "HOL-Library.Multiset"
begin

text \<open>
  common/thread_pool.cpp and thread_pool.h: the pool that runs the requests of the RPC server.
  The threads are interleaved: a step is a section of the code between two points where another
  thread can be seen, that is a critical section of \<open>queue_mutex_\<close>, an access to one of the
  atomic counters, a notification, or the execution of a task. A thread waits on a condition
  variable in a state of its own; a notification or a spurious wake-up takes it out of it.
  \<open>waitForCompletion\<close> is called by one thread, which holds \<open>queue_mutex_\<close> between the evaluation
  of its predicate and falling asleep: the counters it reads are changed without the mutex.

  A task is a value; its execution returns or throws, which the worker treats alike. The last
  three fields are history: the tasks accepted by \<open>enqueue\<close>, taken from the queue, completed.
\<close>

section \<open>State\<close>

datatype 'a worker = Looping | Asleep | Taken 'a | Running 'a | Ran | Checking | CheckingPending | Exited

datatype waiter = NotWaiting | Evaluating | Blocking | WaiterAsleep | Returned

record 'a ThreadPool =
  tp_workers :: "'a worker list"
  tp_tasks :: "'a list"
  tp_stop :: bool
  tp_active_threads :: u64
  tp_pending_tasks :: u64
  tp_notify_one :: nat
  tp_notify_all :: bool
  tp_waiter :: waiter
  tp_accepted :: "'a list"
  tp_taken :: "'a list"
  tp_completed :: "'a list"

definition ThreadPool_new :: "nat \<Rightarrow> 'a ThreadPool" where
  "ThreadPool_new num_threads = \<lparr>tp_workers = replicate num_threads Looping, tp_tasks = [],
     tp_stop = False, tp_active_threads = 0, tp_pending_tasks = 0, tp_notify_one = 0,
     tp_notify_all = False, tp_waiter = NotWaiting, tp_accepted = [], tp_taken = [], tp_completed = []\<rparr>"

definition set_worker :: "nat \<Rightarrow> 'a worker \<Rightarrow> 'a ThreadPool \<Rightarrow> 'a ThreadPool" where
  "set_worker i w p = p\<lparr>tp_workers := (tp_workers p)[i := w]\<rparr>"

text \<open>The waiter holds \<open>queue_mutex_\<close>; all other critical sections are single steps.\<close>

definition queue_locked :: "'a ThreadPool \<Rightarrow> bool" where
  "queue_locked p \<longleftrightarrow> tp_waiter p = Blocking"

section \<open>Operations\<close>

text \<open>
  \<open>enqueue\<close>: \<open>Inl\<close> is the exception. The \<open>notify_one\<close> after the critical section is pending
  until \<open>notify_one\<close> carries it out.
\<close>

definition enqueue :: "'a \<Rightarrow> 'a ThreadPool \<Rightarrow> bytes + 'a ThreadPool" where
  "enqueue task p =
     (if tp_stop p then Inl ''enqueue on stopped ThreadPool''
      else Inr (p\<lparr>tp_tasks := tp_tasks p @ [task], tp_pending_tasks := tp_pending_tasks p + 1,
                  tp_notify_one := Suc (tp_notify_one p), tp_accepted := tp_accepted p @ [task]\<rparr>))"

text \<open>What the pool reports.\<close>

definition getQueueSize :: "'a ThreadPool \<Rightarrow> nat" where
  "getQueueSize p = length (tp_tasks p)"

definition getActiveThreads :: "'a ThreadPool \<Rightarrow> u64" where
  "getActiveThreads p = tp_active_threads p"

definition getTotalThreads :: "'a ThreadPool \<Rightarrow> nat" where
  "getTotalThreads p = length (tp_workers p)"

definition ThreadPool_isRunning :: "'a ThreadPool \<Rightarrow> bool" where
  "ThreadPool_isRunning p = (\<not> tp_stop p)"

text \<open>One step of worker \<open>i\<close>; \<open>None\<close> when it is blocked, asleep or has returned.\<close>

definition worker_step :: "nat \<Rightarrow> 'a ThreadPool \<Rightarrow> 'a ThreadPool option" where
  "worker_step i p = (case tp_workers p ! i of
       Looping \<Rightarrow>
         if queue_locked p then None
         else if \<not> (tp_stop p \<or> tp_tasks p \<noteq> []) then Some (set_worker i Asleep p)
         else if tp_stop p \<and> tp_tasks p = [] then Some (set_worker i Exited p)
         else Some (set_worker i (Taken (hd (tp_tasks p))) (p\<lparr>tp_tasks := tl (tp_tasks p),
                tp_pending_tasks := tp_pending_tasks p - 1, tp_taken := tp_taken p @ [hd (tp_tasks p)]\<rparr>))
     | Asleep \<Rightarrow> None
     | Taken task \<Rightarrow> Some (set_worker i (Running task) (p\<lparr>tp_active_threads := tp_active_threads p + 1\<rparr>))
     | Running task \<Rightarrow> Some (set_worker i Ran (p\<lparr>tp_completed := tp_completed p @ [task]\<rparr>))
     | Ran \<Rightarrow> Some (set_worker i Checking (p\<lparr>tp_active_threads := tp_active_threads p - 1\<rparr>))
     | Checking \<Rightarrow> Some (set_worker i (if tp_active_threads p = 0 then CheckingPending else Looping) p)
     | CheckingPending \<Rightarrow> Some (set_worker i Looping
         (if tp_pending_tasks p = 0 \<and> tp_waiter p = WaiterAsleep then p\<lparr>tp_waiter := Evaluating\<rparr> else p))
     | Exited \<Rightarrow> None)"

text \<open>
  \<open>notify_one\<close> of \<open>enqueue\<close> wakes worker \<open>i\<close>, any one that is asleep, or nobody if none is.
\<close>

definition notify_one :: "nat \<Rightarrow> 'a ThreadPool \<Rightarrow> 'a ThreadPool option" where
  "notify_one i p =
     (if tp_notify_one p = 0 then None
      else if Asleep \<notin> set (tp_workers p) then Some (p\<lparr>tp_notify_one := tp_notify_one p - 1\<rparr>)
      else if i < length (tp_workers p) \<and> tp_workers p ! i = Asleep
        then Some (set_worker i Looping (p\<lparr>tp_notify_one := tp_notify_one p - 1\<rparr>))
      else None)"

fun woken :: "'a worker \<Rightarrow> 'a worker" where
  "woken Asleep = Looping"
| "woken w = w"

text \<open>
  \<open>stop\<close>: the early return, the critical section, the \<open>notify_all\<close>, and the joins, which return
  when every worker has.
\<close>

definition ThreadPool_stop :: "'a ThreadPool \<Rightarrow> 'a ThreadPool" where
  "ThreadPool_stop p = (if tp_stop p then p else p\<lparr>tp_stop := True, tp_notify_all := True\<rparr>)"

definition stop_notify :: "'a ThreadPool \<Rightarrow> 'a ThreadPool option" where
  "stop_notify p = (if tp_notify_all p
     then Some (p\<lparr>tp_notify_all := False, tp_workers := map woken (tp_workers p)\<rparr>) else None)"

definition stop_joined :: "'a ThreadPool \<Rightarrow> bool" where
  "stop_joined p \<longleftrightarrow> tp_stop p \<and> \<not> tp_notify_all p \<and> list_all (\<lambda>w. w = Exited) (tp_workers p)"

text \<open>\<open>waitForCompletion\<close>, step by step.\<close>

definition waitForCompletion_call :: "'a ThreadPool \<Rightarrow> 'a ThreadPool" where
  "waitForCompletion_call p = (if tp_waiter p = NotWaiting then p\<lparr>tp_waiter := Evaluating\<rparr> else p)"

definition waiter_step :: "'a ThreadPool \<Rightarrow> 'a ThreadPool option" where
  "waiter_step p = (case tp_waiter p of
       NotWaiting \<Rightarrow> None
     | Evaluating \<Rightarrow> Some (p\<lparr>tp_waiter :=
         (if tp_tasks p = [] \<and> tp_active_threads p = 0 then Returned else Blocking)\<rparr>)
     | Blocking \<Rightarrow> Some (p\<lparr>tp_waiter := WaiterAsleep\<rparr>)
     | WaiterAsleep \<Rightarrow> None
     | Returned \<Rightarrow> None)"

section \<open>The running pool\<close>

text \<open>
  \<open>pool_step\<close>: what the pool does by itself. \<open>pool_run\<close> adds the calls of its users and the
  spurious wake-ups, which the language allows.
\<close>

inductive pool_step :: "'a ThreadPool \<Rightarrow> 'a ThreadPool \<Rightarrow> bool" where
  worker: "i < length (tp_workers p) \<Longrightarrow> worker_step i p = Some p' \<Longrightarrow> pool_step p p'"
| notify: "notify_one i p = Some p' \<Longrightarrow> pool_step p p'"
| notify_all: "stop_notify p = Some p' \<Longrightarrow> pool_step p p'"
| waiter: "waiter_step p = Some p' \<Longrightarrow> pool_step p p'"

inductive pool_call :: "'a ThreadPool \<Rightarrow> 'a ThreadPool \<Rightarrow> bool" where
  enqueue: "\<not> queue_locked p \<Longrightarrow> enqueue task p = Inr p' \<Longrightarrow> pool_call p p'"
| stop: "\<not> queue_locked p \<Longrightarrow> pool_call p (ThreadPool_stop p)"
| wait: "pool_call p (waitForCompletion_call p)"
| spurious: "i < length (tp_workers p) \<Longrightarrow> tp_workers p ! i = Asleep \<Longrightarrow>
    pool_call p (set_worker i Looping p)"
| spurious_waiter: "tp_waiter p = WaiterAsleep \<Longrightarrow> pool_call p (p\<lparr>tp_waiter := Evaluating\<rparr>)"

inductive pool_reachable :: "nat \<Rightarrow> 'a ThreadPool \<Rightarrow> bool" for num_threads where
  init: "pool_reachable num_threads (ThreadPool_new num_threads)"
| step: "pool_reachable num_threads p \<Longrightarrow> pool_step p p' \<Longrightarrow> pool_reachable num_threads p'"
| call: "pool_reachable num_threads p \<Longrightarrow> pool_call p p' \<Longrightarrow> pool_reachable num_threads p'"

section \<open>Invariant\<close>

fun in_hand :: "'a worker \<Rightarrow> 'a multiset" where
  "in_hand (Taken t) = {#t#}"
| "in_hand (Running t) = {#t#}"
| "in_hand w = {#}"

fun counted :: "'a worker \<Rightarrow> nat" where
  "counted (Running t) = 1"
| "counted Ran = 1"
| "counted w = 0"

fun weight :: "'a worker \<Rightarrow> nat" where
  "weight Looping = 2"
| "weight Asleep = 1"
| "weight (Taken t) = 10"
| "weight (Running t) = 9"
| "weight Ran = 8"
| "weight Checking = 7"
| "weight CheckingPending = 6"
| "weight Exited = 0"

definition tasks_inv :: "'a ThreadPool \<Rightarrow> bool" where
  "tasks_inv p \<longleftrightarrow> tp_accepted p = tp_taken p @ tp_tasks p \<and>
     mset (tp_taken p) = mset (tp_completed p) + sum_list (map in_hand (tp_workers p)) \<and>
     tp_pending_tasks p = of_nat (length (tp_tasks p)) \<and>
     tp_active_threads p = of_nat (sum_list (map counted (tp_workers p)))"

text \<open>
  No wake-up of a worker is lost: \<open>queued\<close> says that a task is waiting, \<open>pending\<close> is the number
  of \<open>notify_one\<close> calls still to come.
\<close>

definition wakes :: "'a worker list \<Rightarrow> bool \<Rightarrow> bool \<Rightarrow> bool \<Rightarrow> nat \<Rightarrow> bool" where
  "wakes ws stop queued notify_all pending \<longleftrightarrow>
     (Exited \<in> set ws \<longrightarrow> stop \<and> \<not> queued) \<and>
     (stop \<longrightarrow> Asleep \<in> set ws \<longrightarrow> notify_all) \<and> (notify_all \<longrightarrow> stop) \<and>
     (ws \<noteq> [] \<longrightarrow> set ws \<subseteq> {Asleep} \<longrightarrow> queued \<longrightarrow> 0 < pending)"

definition wakeup_inv :: "'a ThreadPool \<Rightarrow> bool" where
  "wakeup_inv p \<longleftrightarrow> wakes (tp_workers p) (tp_stop p) (tp_tasks p \<noteq> []) (tp_notify_all p) (tp_notify_one p)"

lemma woken_same [simp]: "in_hand (woken w) = in_hand w" "counted (woken w) = counted w"
  "woken w \<noteq> Asleep" "Asleep \<noteq> woken w" "woken w = Exited \<longleftrightarrow> w = Exited" "Exited = woken w \<longleftrightarrow> Exited = w"
  by (cases w; simp)+

lemma weight_woken: "weight (woken w) \<le> Suc (weight w)"
  by (cases w) simp_all

lemma map_woken [simp]: "map (in_hand \<circ> woken) ws = map in_hand ws" "map (counted \<circ> woken) ws = map counted ws"
  by simp_all

lemma set_worker_simps [simp]:
  "tp_workers (set_worker i w p) = (tp_workers p)[i := w]" "tp_tasks (set_worker i w p) = tp_tasks p"
  "tp_stop (set_worker i w p) = tp_stop p" "tp_active_threads (set_worker i w p) = tp_active_threads p"
  "tp_pending_tasks (set_worker i w p) = tp_pending_tasks p" "tp_notify_one (set_worker i w p) = tp_notify_one p"
  "tp_notify_all (set_worker i w p) = tp_notify_all p" "tp_waiter (set_worker i w p) = tp_waiter p"
  "tp_accepted (set_worker i w p) = tp_accepted p" "tp_taken (set_worker i w p) = tp_taken p"
  "tp_completed (set_worker i w p) = tp_completed p"
  by (simp_all add: set_worker_def)

text \<open>The sums over the workers after worker \<open>i\<close> goes from \<open>v\<close> to \<open>w\<close>.\<close>

lemma sum_worker:
  assumes "i < length ws" and "ws ! i = v"
  shows "sum_list (map in_hand (ws[i := w])) + in_hand v = sum_list (map in_hand ws) + in_hand w"
    and "sum_list (map counted (ws[i := w])) + counted v = sum_list (map counted ws) + counted w"
    and "sum_list (map weight (ws[i := w])) + weight v = sum_list (map weight ws) + weight w"
  using sum_list_set_nth [OF assms(1), of _ w] assms(2) by blast+

lemma of_nat_sum_worker:
  assumes "i < length ws" and "ws ! i = v"
  shows "(of_nat (sum_list (map counted (ws[i := w]))) :: u64) + of_nat (counted v) =
    of_nat (sum_list (map counted ws)) + of_nat (counted w)"
  using sum_worker(2) [OF assms, of w] by (metis of_nat_add)

lemma tasks_inv_worker_step:
  assumes "tasks_inv p" "i < length (tp_workers p)" "worker_step i p = Some p'"
  shows "tasks_inv p'"
proof -
  note sums = sum_worker(1) [OF assms(2) refl] of_nat_sum_worker [OF assms(2) refl]
  show ?thesis
  proof (cases "tp_workers p ! i")
    case Looping
    show ?thesis
    proof (cases "tp_tasks p")
      case Nil
      then show ?thesis using assms sums [of Asleep] sums [of Exited] Looping
        by (auto simp: worker_step_def tasks_inv_def split: if_splits)
    next
      case (Cons t ts)
      then show ?thesis using assms sums [of "Taken t"] Looping
        by (auto simp: worker_step_def tasks_inv_def split: if_splits)
    qed
  next
    case (Taken t)
    then show ?thesis using assms sums [of "Running t"]
      by (auto simp: worker_step_def tasks_inv_def)
  next
    case (Running t)
    then show ?thesis using assms sums [of Ran]
      by (auto simp: worker_step_def tasks_inv_def)
  next
    case Ran
    then show ?thesis using assms sums [of Checking]
      by (auto simp: worker_step_def tasks_inv_def diff_eq_eq)
  next
    case Checking
    then show ?thesis using assms sums [of CheckingPending] sums [of Looping]
      by (auto simp: worker_step_def tasks_inv_def)
  next
    case CheckingPending
    then show ?thesis using assms sums [of Looping]
      by (auto simp: worker_step_def tasks_inv_def)
  qed (use assms in \<open>auto simp: worker_step_def\<close>)
qed

lemma tasks_inv_wake:
  "tasks_inv p \<Longrightarrow> i < length (tp_workers p) \<Longrightarrow> tp_workers p ! i = Asleep \<Longrightarrow>
   tasks_inv (set_worker i Looping p)"
  using sum_worker [of i "tp_workers p" Asleep Looping] by (simp add: tasks_inv_def)

lemma tasks_inv_step: "pool_step p p' \<Longrightarrow> tasks_inv p \<Longrightarrow> tasks_inv p'"
proof (induction rule: pool_step.induct)
  case (notify i p p')
  then show ?case using tasks_inv_wake [of "p\<lparr>tp_notify_one := tp_notify_one p - 1\<rparr>" i]
    by (auto simp: notify_one_def tasks_inv_def split: if_splits)
next
  case (notify_all p p')
  then show ?case by (auto simp: stop_notify_def tasks_inv_def split: if_splits)
next
  case (waiter p p')
  then show ?case by (auto simp: waiter_step_def tasks_inv_def split: waiter.splits)
qed (rule tasks_inv_worker_step)

lemma tasks_inv_call: "pool_call p p' \<Longrightarrow> tasks_inv p \<Longrightarrow> tasks_inv p'"
proof (induction rule: pool_call.induct)
  case (spurious i p)
  then show ?case by (intro tasks_inv_wake)
qed (auto simp: enqueue_def ThreadPool_stop_def waitForCompletion_call_def tasks_inv_def split: if_splits)

lemma wakes_awake:
  assumes "wakes ws stop queued notify_all pending" "i < length ws" "w \<noteq> Asleep" "w \<noteq> Exited" "queued' \<longrightarrow> queued"
  shows "wakes (ws[i := w]) stop queued' notify_all pending'"
proof -
  have sub: "set (ws[i := w]) \<subseteq> insert w (set ws)" by (rule set_update_subset_insert)
  have "w \<in> set (ws[i := w])" using assms(2) by (rule set_update_memI)
  with sub assms show ?thesis unfolding wakes_def by blast
qed

lemma wakes_sleep:
  assumes "wakes ws False False notify_all pending" "i < length ws"
  shows "wakes (ws[i := Asleep]) False False notify_all pending"
proof -
  have "set (ws[i := Asleep]) \<subseteq> insert Asleep (set ws)" by (rule set_update_subset_insert)
  with assms show ?thesis unfolding wakes_def by blast
qed

lemma wakes_exit:
  assumes "wakes ws True False notify_all pending" "i < length ws"
  shows "wakes (ws[i := Exited]) True False notify_all pending"
proof -
  have "set (ws[i := Exited]) \<subseteq> insert Exited (set ws)" by (rule set_update_subset_insert)
  with assms show ?thesis unfolding wakes_def by blast
qed

lemma wakes_all:
  assumes "wakes ws stop queued True pending"
  shows "wakes (map woken ws) stop queued False pending"
proof -
  have "Asleep \<notin> set (map woken ws)" by auto
  moreover have "Exited \<in> set (map woken ws) \<longleftrightarrow> Exited \<in> set ws" by auto
  moreover have "ws \<noteq> [] \<longrightarrow> \<not> set (map woken ws) \<subseteq> {Asleep}" by (cases ws) auto
  ultimately show ?thesis using assms unfolding wakes_def by auto
qed

lemma wakes_notify_none:
  "wakes ws stop queued notify_all pending \<Longrightarrow> Asleep \<notin> set ws \<Longrightarrow> wakes ws stop queued notify_all pending'"
  unfolding wakes_def by (cases ws) auto

lemma wakeup_inv_wake:
  "wakeup_inv p \<Longrightarrow> i < length (tp_workers p) \<Longrightarrow> wakeup_inv (set_worker i Looping p)"
  unfolding wakeup_inv_def set_worker_simps by (erule wakes_awake) auto

lemma wakeup_inv_worker_step:
  assumes inv: "wakeup_inv p" and i: "i < length (tp_workers p)" and st: "worker_step i p = Some p'"
  shows "wakeup_inv p'"
proof -
  note awake = wakes_awake [OF inv [unfolded wakeup_inv_def] i]
  show ?thesis
  proof (cases "tp_workers p ! i")
    case Looping
    consider (sleep) "\<not> tp_stop p" "tp_tasks p = []" "p' = set_worker i Asleep p"
      | (exit) "tp_stop p" "tp_tasks p = []" "p' = set_worker i Exited p"
      | (take) "tp_tasks p \<noteq> []" "p' = set_worker i (Taken (hd (tp_tasks p))) (p\<lparr>tp_tasks := tl (tp_tasks p),
          tp_pending_tasks := tp_pending_tasks p - 1, tp_taken := tp_taken p @ [hd (tp_tasks p)]\<rparr>)"
      using st Looping by (auto simp: worker_step_def split: if_splits)
    then show ?thesis
    proof cases
      case sleep
      then show ?thesis using inv i by (simp add: wakeup_inv_def wakes_sleep)
    next
      case exit
      then show ?thesis using inv i by (simp add: wakeup_inv_def wakes_exit)
    next
      case take
      then show ?thesis by (simp add: wakeup_inv_def awake)
    qed
  qed (use st in \<open>auto simp: worker_step_def wakeup_inv_def awake\<close>)
qed

lemma wakeup_inv_step: "pool_step p p' \<Longrightarrow> wakeup_inv p \<Longrightarrow> wakeup_inv p'"
proof (induction rule: pool_step.induct)
  case (notify i p p')
  then show ?case
    by (auto simp: notify_one_def wakeup_inv_def wakes_awake intro: wakes_notify_none split: if_splits)
next
  case (notify_all p p')
  then show ?case by (auto simp: stop_notify_def wakeup_inv_def wakes_all split: if_splits)
next
  case (waiter p p')
  then show ?case by (auto simp: waiter_step_def wakeup_inv_def split: waiter.splits)
qed (rule wakeup_inv_worker_step)

lemma wakeup_inv_call: "pool_call p p' \<Longrightarrow> wakeup_inv p \<Longrightarrow> wakeup_inv p'"
proof (induction rule: pool_call.induct)
  case (enqueue p task p')
  then have p': "\<not> tp_stop p" "tp_workers p' = tp_workers p" "tp_stop p' = tp_stop p"
      "tp_notify_all p' = tp_notify_all p" "tp_notify_one p' > 0"
    by (auto simp: enqueue_def split: if_splits)
  then show ?case using enqueue(3) unfolding wakeup_inv_def wakes_def by auto
next
  case (spurious i p)
  then show ?case by (intro wakeup_inv_wake)
qed (auto simp: ThreadPool_stop_def waitForCompletion_call_def wakeup_inv_def wakes_def split: if_splits)

lemma pool_invs:
  "pool_reachable num_threads p \<Longrightarrow> tasks_inv p \<and> wakeup_inv p \<and> length (tp_workers p) = num_threads"
proof (induction rule: pool_reachable.induct)
  case init
  have "sum_list (replicate n ({#} :: 'b multiset)) = {#}" for n by (induction n) auto
  then show ?case
    by (auto simp: ThreadPool_new_def tasks_inv_def wakeup_inv_def wakes_def map_replicate sum_list_replicate)
next
  case (step p p')
  have "length (tp_workers p') = length (tp_workers p)" using step(2)
    by (cases rule: pool_step.cases) (auto simp: worker_step_def notify_one_def stop_notify_def
        waiter_step_def split: worker.splits waiter.splits if_splits)
  then show ?case using step tasks_inv_step wakeup_inv_step by metis
next
  case (call p p')
  have "length (tp_workers p') = length (tp_workers p)" using call(2)
    by (cases rule: pool_call.cases) (auto simp: enqueue_def ThreadPool_stop_def
        waitForCompletion_call_def split: if_splits)
  then show ?case using call tasks_inv_call wakeup_inv_call by metis
qed

section \<open>Termination\<close>

fun waiter_weight :: "waiter \<Rightarrow> nat" where
  "waiter_weight Evaluating = 3"
| "waiter_weight Blocking = 2"
| "waiter_weight WaiterAsleep = 1"
| "waiter_weight w = 0"

definition pool_measure :: "'a ThreadPool \<Rightarrow> nat" where
  "pool_measure p = sum_list (map weight (tp_workers p)) + 12 * length (tp_tasks p) +
     2 * tp_notify_one p + (if tp_notify_all p then Suc (length (tp_workers p)) else 0) +
     waiter_weight (tp_waiter p)"

lemma sum_weight_woken: "sum_list (map (weight \<circ> woken) ws) \<le> sum_list (map weight ws) + length ws"
proof (induction ws)
  case (Cons w ws)
  then show ?case using weight_woken [of w] by simp
qed simp

lemma pool_step_measure: "pool_step p p' \<Longrightarrow> pool_measure p' < pool_measure p"
proof (induction rule: pool_step.induct)
  case (worker i p p')
  note sum = sum_worker(3) [OF worker(1) refl]
  show ?case
  proof (cases "tp_workers p ! i")
    case Looping
    then show ?thesis using worker sum [of Asleep] sum [of Exited] sum [of "Taken (hd (tp_tasks p))"]
      by (cases "tp_tasks p") (auto simp: worker_step_def pool_measure_def split: if_splits)
  next
    case (Taken t)
    then show ?thesis using worker sum [of "Running t"] by (auto simp: worker_step_def pool_measure_def)
  next
    case (Running t)
    then show ?thesis using worker sum [of Ran] by (auto simp: worker_step_def pool_measure_def)
  next
    case Ran
    then show ?thesis using worker sum [of Checking] by (auto simp: worker_step_def pool_measure_def)
  next
    case Checking
    then show ?thesis using worker sum [of CheckingPending] sum [of Looping]
      by (auto simp: worker_step_def pool_measure_def)
  next
    case CheckingPending
    then show ?thesis using worker sum [of Looping] by (auto simp: worker_step_def pool_measure_def)
  qed (use worker in \<open>auto simp: worker_step_def\<close>)
next
  case (notify i p p')
  then show ?case using sum_worker(3) [of i "tp_workers p" Asleep Looping]
    by (auto simp: notify_one_def pool_measure_def split: if_splits)
next
  case (notify_all p p')
  then show ?case using sum_weight_woken [of "tp_workers p"]
    by (auto simp: stop_notify_def pool_measure_def split: if_splits)
next
  case (waiter p p')
  then show ?case by (auto simp: waiter_step_def pool_measure_def split: waiter.splits)
qed

text \<open>
  A pool that cannot do anything by itself has no task left: each worker is asleep or has
  returned, and none sleeps while a task is waiting.
\<close>

lemma stuck_workers:
  assumes "\<not> (\<exists>p'. pool_step p p')" and "w \<in> set (tp_workers p)"
  shows "w = Asleep \<or> w = Exited"
proof -
  obtain i where i: "i < length (tp_workers p)" "tp_workers p ! i = w"
    using assms(2) by (auto simp: in_set_conv_nth)
  have none: "worker_step i p = None" using assms(1) i(1) pool_step.worker by (cases "worker_step i p") blast+
  have "waiter_step p = None" using assms(1) pool_step.waiter by (cases "waiter_step p") blast+
  then have "\<not> queued" if "queued = queue_locked p" for queued
    using that by (auto simp: waiter_step_def queue_locked_def split: waiter.splits)
  then show ?thesis using none i(2) by (auto simp: worker_step_def split: worker.splits if_splits)
qed

lemma stuck_notify:
  assumes "\<not> (\<exists>p'. pool_step p p')"
  shows "tp_notify_one p = 0" and "\<not> tp_notify_all p"
proof -
  have all: "notify_one i p = None" for i using assms pool_step.notify by (cases "notify_one i p") blast+
  show "tp_notify_one p = 0"
  proof (cases "Asleep \<in> set (tp_workers p)")
    case True
    then obtain i where "i < length (tp_workers p)" "tp_workers p ! i = Asleep"
      by (auto simp: in_set_conv_nth)
    then show ?thesis using all [of i] by (auto simp: notify_one_def split: if_splits)
  next
    case False
    then show ?thesis using all [of 0] by (auto simp: notify_one_def split: if_splits)
  qed
  have "stop_notify p = None" using assms pool_step.notify_all by (cases "stop_notify p") blast+
  then show "\<not> tp_notify_all p" by (simp add: stop_notify_def split: if_splits)
qed

lemma idle_in_hand: "\<forall>w \<in> set ws. w = Asleep \<or> w = Exited \<Longrightarrow> sum_list (map in_hand ws) = {#}"
  by (induction ws) auto

lemma stuck_pool:
  assumes "pool_reachable num_threads p" and "0 < num_threads" and "\<not> (\<exists>p'. pool_step p p')"
  shows "tp_tasks p = []" and "mset (tp_completed p) = mset (tp_accepted p)"
    and "tp_stop p \<Longrightarrow> stop_joined p"
proof -
  from pool_invs [OF assms(1)] have inv: "tasks_inv p" "wakeup_inv p" and "tp_workers p \<noteq> []"
    using assms(2) by auto
  have ws: "\<forall>w \<in> set (tp_workers p). w = Asleep \<or> w = Exited" using stuck_workers [OF assms(3)] by blast
  show tasks: "tp_tasks p = []"
  proof (cases "Exited \<in> set (tp_workers p)")
    case True
    then show ?thesis using inv(2) by (simp add: wakeup_inv_def wakes_def)
  next
    case False
    then have "set (tp_workers p) \<subseteq> {Asleep}" using ws by blast
    then show ?thesis using inv(2) stuck_notify(1) [OF assms(3)] \<open>tp_workers p \<noteq> []\<close>
      by (simp add: wakeup_inv_def wakes_def)
  qed
  show "mset (tp_completed p) = mset (tp_accepted p)"
    using inv(1) tasks by (simp add: tasks_inv_def idle_in_hand [OF ws])
  show "stop_joined p" if "tp_stop p"
  proof -
    have "Asleep \<notin> set (tp_workers p)" using that inv(2) stuck_notify(2) [OF assms(3)]
      by (auto simp: wakeup_inv_def wakes_def)
    then show ?thesis using that ws stuck_notify(2) [OF assms(3)]
      by (auto simp: stop_joined_def list_all_iff)
  qed
qed

text \<open>The pool stops stepping by itself, whatever the order of its steps.\<close>

lemma wfp_pool_step: "wfp (\<lambda>p' p. pool_step p p')"
proof (rule wfp_if_convertible_to_nat)
  show "pool_measure p' < pool_measure p" if "pool_step p p'" for p p' :: "'a ThreadPool"
    using that by (rule pool_step_measure)
qed

lemma pool_run_ends: "\<exists>p'. pool_step\<^sup>*\<^sup>* p p' \<and> \<not> (\<exists>q. pool_step p' q)"
proof (induction p rule: wfp_induct_rule [OF wfp_pool_step])
  case (1 p)
  then show ?case by (cases "\<exists>q. pool_step p q") (blast intro: converse_rtranclp_into_rtranclp)+
qed

lemma pool_reachable_steps:
  "pool_step\<^sup>*\<^sup>* p p' \<Longrightarrow> pool_reachable n p \<Longrightarrow> pool_reachable n p'"
  by (induction rule: rtranclp_induct) (auto intro: pool_reachable.step)

lemma accepted_step: "pool_step p p' \<Longrightarrow> tp_accepted p' = tp_accepted p"
  by (cases rule: pool_step.cases) (auto simp: worker_step_def notify_one_def stop_notify_def
      waiter_step_def split: worker.splits waiter.splits if_splits)

lemma accepted_steps: "pool_step\<^sup>*\<^sup>* p p' \<Longrightarrow> tp_accepted p' = tp_accepted p"
  by (induction rule: rtranclp_induct) (auto dest: accepted_step)

section \<open>Schedules\<close>

text \<open>A run of the pool given by the steps to take, in order.\<close>

datatype 'a action = Worker nat | NotifyOne nat | NotifyAll | Waiter | Enqueue 'a | Stop | Wait

fun act :: "'a action \<Rightarrow> 'a ThreadPool \<Rightarrow> 'a ThreadPool option" where
  "act (Worker i) p = (if i < length (tp_workers p) then worker_step i p else None)"
| "act (NotifyOne i) p = notify_one i p"
| "act NotifyAll p = stop_notify p"
| "act Waiter p = waiter_step p"
| "act (Enqueue t) p = (if queue_locked p then None
     else case enqueue t p of Inl e \<Rightarrow> None | Inr p' \<Rightarrow> Some p')"
| "act Stop p = (if queue_locked p then None else Some (ThreadPool_stop p))"
| "act Wait p = Some (waitForCompletion_call p)"

fun run_pool :: "'a action list \<Rightarrow> 'a ThreadPool \<Rightarrow> 'a ThreadPool option" where
  "run_pool [] p = Some p"
| "run_pool (a # as) p = (case act a p of None \<Rightarrow> None | Some p' \<Rightarrow> run_pool as p')"

lemma act_reachable: "act a p = Some p' \<Longrightarrow> pool_reachable n p \<Longrightarrow> pool_reachable n p'"
  by (cases a) (auto intro: pool_reachable.intros pool_step.intros pool_call.intros split: if_splits sum.splits)

lemma run_pool_reachable: "run_pool as p = Some p' \<Longrightarrow> pool_reachable n p \<Longrightarrow> pool_reachable n p'"
  by (induction as arbitrary: p) (auto dest: act_reachable split: option.splits)

end
