(* ===== verification/Connection_Pool.thy ===== *)
theory Connection_Pool
  imports Tcp_Connection
begin

text \<open>
  common/connection_pool.cpp: the pool of connections the RPC client keeps per host. Objects
  behind a \<open>shared_ptr\<close> have addresses: \<open>cp_conns\<close> holds the \<open>TcpConnection\<close>s, \<open>hp_objects\<close> the
  \<open>PooledConnection\<close>s of a host, which never leave its \<open>HostPool\<close>. A new connection and its
  \<open>PooledConnection\<close> get the next unused address. \<open>so\<close> is the environment's answer to
  \<open>getsockopt\<close> for a descriptor: true when the call succeeds and reports no error.

  \<open>acquire\<close> unlocks the mutex of the host while it connects and while it waits, so it is a
  sequence of steps of its thread; the sections under the mutex are single steps. \<open>Undefined\<close> is
  the use of a \<open>HostPool\<close> that \<open>stop\<close> has destroyed.
\<close>

section \<open>State\<close>

record PooledConnection =
  pc_connection :: nat
  pc_last_used :: int
  pc_in_use :: bool

record HostPool =
  hp_idle_connections :: "nat list"
  hp_all_connections :: "nat list"
  hp_objects :: "nat \<Rightarrow> PooledConnection"
  hp_active_count :: u64

record ConnectionPool =
  cp_max_connections_per_host :: nat
  cp_min_connections_per_host :: nat
  cp_idle_timeout :: int
  cp_acquire_timeout :: int
  cp_pools :: "(bytes \<times> HostPool) list"
  cp_running :: bool
  cp_conns :: "nat \<Rightarrow> TcpConnection"
  cp_next :: nat

definition HostPool_new :: HostPool where
  "HostPool_new = \<lparr>hp_idle_connections = [], hp_all_connections = [],
     hp_objects = (\<lambda>_. \<lparr>pc_connection = 0, pc_last_used = 0, pc_in_use = False\<rparr>), hp_active_count = 0\<rparr>"

definition ConnectionPool_new :: "nat \<Rightarrow> nat \<Rightarrow> int \<Rightarrow> int \<Rightarrow> ConnectionPool" where
  "ConnectionPool_new max_per_host min_per_host idle acquire = \<lparr>cp_max_connections_per_host = max_per_host,
     cp_min_connections_per_host = min_per_host, cp_idle_timeout = idle, cp_acquire_timeout = acquire,
     cp_pools = [], cp_running = True, cp_conns = (\<lambda>_. TcpConnection_new 0), cp_next = 0\<rparr>"

definition makeKey :: "bytes \<Rightarrow> i32 \<Rightarrow> bytes" where
  "makeKey host port = host @ '':'' @ to_string port"

definition getOrCreateHostPool :: "bytes \<Rightarrow> ConnectionPool \<Rightarrow> ConnectionPool" where
  "getOrCreateHostPool key p = (case map_of (cp_pools p) key of
       Some _ \<Rightarrow> p
     | None \<Rightarrow> p\<lparr>cp_pools := AList.update key HostPool_new (cp_pools p)\<rparr>)"

section \<open>Connections of a host\<close>

text \<open>The \<open>TcpConnection\<close> at an address is closed (\<open>TcpConnection_close\<close>).\<close>

definition close_conn :: "nat \<Rightarrow> (nat \<Rightarrow> TcpConnection) \<Rightarrow> nat \<Rightarrow> TcpConnection" where
  "close_conn c conns = conns(c := (conns c)\<lparr>tc_connected := False\<rparr>)"

definition isConnectionValid :: "(int \<Rightarrow> bool) \<Rightarrow> TcpConnection \<Rightarrow> bool" where
  "isConnectionValid so conn = (if \<not> tc_connected conn then False else so (tc_fd conn))"

definition removeConnection ::
    "nat \<Rightarrow> HostPool \<Rightarrow> (nat \<Rightarrow> TcpConnection) \<Rightarrow> HostPool \<times> (nat \<Rightarrow> TcpConnection)" where
  "removeConnection a hp conns =
     (hp\<lparr>hp_all_connections := remove1 a (hp_all_connections hp)\<rparr>,
      close_conn (pc_connection (hp_objects hp a)) conns)"

text \<open>The loop over the idle connections in \<open>acquire\<close>.\<close>

fun take_idle :: "(int \<Rightarrow> bool) \<Rightarrow> int \<Rightarrow> nat list \<Rightarrow> HostPool \<Rightarrow> (nat \<Rightarrow> TcpConnection) \<Rightarrow>
    nat option \<times> HostPool \<times> (nat \<Rightarrow> TcpConnection)" where
  "take_idle so now [] hp conns = (None, hp, conns)"
| "take_idle so now (a # idle) hp conns =
     (let hp = hp\<lparr>hp_idle_connections := idle\<rparr>; obj = hp_objects hp a in
      if isConnectionValid so (conns (pc_connection obj))
      then (Some (pc_connection obj),
            hp\<lparr>hp_objects := (hp_objects hp)(a := obj\<lparr>pc_in_use := True, pc_last_used := now\<rparr>),
               hp_active_count := hp_active_count hp + 1\<rparr>, conns)
      else case removeConnection a hp conns of (hp, conns) \<Rightarrow> take_idle so now idle hp conns)"

text \<open>
  \<open>createConnection\<close>: the results of \<open>socket\<close>, \<open>inet_pton\<close> and \<open>connect\<close> are arguments; those of
  \<open>setsockopt\<close> are only printed. The new descriptor, and the descriptors closed on the way.
\<close>

definition createConnection :: "int \<Rightarrow> bool \<Rightarrow> bool \<Rightarrow> int option \<times> int list" where
  "createConnection fd address_ok connected =
     (if fd < 0 then (None, [])
      else if \<not> address_ok then (None, [fd])
      else if \<not> connected then (None, [fd])
      else (Some fd, []))"

section \<open>Acquiring a connection\<close>

text \<open>
  A thread: outside of the pool, in \<open>acquire\<close> for a host until a deadline, holding the
  connection \<open>acquire\<close> returned, or with the exception it threw.
\<close>

datatype thread = Outside | Scanning bytes int | Connecting bytes int | Waiting bytes int
  | Holding bytes nat | Threw

definition acquire :: "bytes \<Rightarrow> i32 \<Rightarrow> int \<Rightarrow> ConnectionPool \<Rightarrow> thread \<times> ConnectionPool" where
  "acquire host port now p =
     (if \<not> cp_running p then (Threw, p)
      else (Scanning (makeKey host port) (now + cp_acquire_timeout p),
            getOrCreateHostPool (makeKey host port) p))"

definition wait_or_throw :: "bytes \<Rightarrow> int \<Rightarrow> int \<Rightarrow> thread" where
  "wait_or_throw key timeout_time now = (if now \<ge> timeout_time then Threw else Waiting key timeout_time)"

definition put_pool ::
    "bytes \<Rightarrow> HostPool \<Rightarrow> (nat \<Rightarrow> TcpConnection) \<Rightarrow> ConnectionPool \<Rightarrow> ConnectionPool" where
  "put_pool key hp conns p = p\<lparr>cp_pools := AList.update key hp (cp_pools p), cp_conns := conns\<rparr>"

text \<open>From the head of the \<open>while\<close> to the return, the connection attempt or the wait.\<close>

definition acquire_scan ::
    "(int \<Rightarrow> bool) \<Rightarrow> int \<Rightarrow> int \<Rightarrow> bytes \<Rightarrow> int \<Rightarrow> ConnectionPool \<Rightarrow> (thread \<times> ConnectionPool) res" where
  "acquire_scan so now now' key timeout_time p =
     (if \<not> cp_running p then Ret (Threw, p)
      else case map_of (cp_pools p) key of
        None \<Rightarrow> Undefined
      | Some hp \<Rightarrow>
          (case take_idle so now (hp_idle_connections hp) hp (cp_conns p) of
             (Some c, hp, conns) \<Rightarrow> Ret (Holding key c, put_pool key hp conns p)
           | (None, hp, conns) \<Rightarrow>
               if length (hp_all_connections hp) < cp_max_connections_per_host p
               then Ret (Connecting key timeout_time, put_pool key hp conns p)
               else Ret (wait_or_throw key timeout_time now', put_pool key hp conns p)))"

text \<open>
  \<open>createConnection\<close> has returned, \<open>fd\<close> is the descriptor it connected (its first result), and the
  mutex is locked again.
\<close>

definition acquire_connect ::
    "int option \<Rightarrow> int \<Rightarrow> bytes \<Rightarrow> int \<Rightarrow> ConnectionPool \<Rightarrow> (thread \<times> ConnectionPool) res" where
  "acquire_connect fd now key timeout_time p = (case map_of (cp_pools p) key of
       None \<Rightarrow> Undefined
     | Some hp \<Rightarrow> (case fd of
         None \<Rightarrow> Ret (wait_or_throw key timeout_time now, p)
       | Some fd \<Rightarrow>
           let c = cp_next p;
               hp = hp\<lparr>hp_objects := (hp_objects hp)(c := \<lparr>pc_connection = c, pc_last_used = now, pc_in_use = True\<rparr>),
                       hp_all_connections := hp_all_connections hp @ [c],
                       hp_active_count := hp_active_count hp + 1\<rparr>
           in Ret (Holding key c,
                put_pool key hp ((cp_conns p)(c := TcpConnection_new fd)) (p\<lparr>cp_next := Suc c\<rparr>))))"

section \<open>Releasing a connection\<close>

definition release_key :: "(int \<Rightarrow> bool) \<Rightarrow> int \<Rightarrow> bytes \<Rightarrow> nat \<Rightarrow> ConnectionPool \<Rightarrow> ConnectionPool" where
  "release_key so now key c p =
     (if \<not> cp_running p then p
      else case map_of (cp_pools p) key of
        None \<Rightarrow> p\<lparr>cp_conns := close_conn c (cp_conns p)\<rparr>
      | Some hp \<Rightarrow>
          (case find (\<lambda>a. pc_connection (hp_objects hp a) = c) (hp_all_connections hp) of
             None \<Rightarrow> p\<lparr>cp_conns := close_conn c (cp_conns p)\<rparr>
           | Some a \<Rightarrow>
               let obj = hp_objects hp a in
               if pc_in_use obj then
                 let hp = hp\<lparr>hp_objects := (hp_objects hp)(a := obj\<lparr>pc_in_use := False, pc_last_used := now\<rparr>),
                             hp_active_count := hp_active_count hp - 1\<rparr>
                 in if isConnectionValid so (cp_conns p c)
                    then put_pool key (hp\<lparr>hp_idle_connections := hp_idle_connections hp @ [a]\<rparr>) (cp_conns p) p
                    else case removeConnection a hp (cp_conns p) of (hp, conns) \<Rightarrow> put_pool key hp conns p
               else p))"

definition release ::
    "(int \<Rightarrow> bool) \<Rightarrow> int \<Rightarrow> bytes \<Rightarrow> i32 \<Rightarrow> nat \<Rightarrow> ConnectionPool \<Rightarrow> ConnectionPool" where
  "release so now host port c p = release_key so now (makeKey host port) c p"

section \<open>Cleaning up, statistics, stopping\<close>

text \<open>
  One host in \<open>cleanupExpiredConnections\<close>; \<open>now a\<close> is the time at which \<open>a\<close> is examined. The
  size \<open>getTotalConnections\<close> reports does not change while \<open>remove_if\<close> runs. The last reference to
  a removed connection goes away, and its destructor closes it.
\<close>

definition cleanup_keep :: "ConnectionPool \<Rightarrow> HostPool \<Rightarrow> (nat \<Rightarrow> int) \<Rightarrow> nat \<Rightarrow> bool" where
  "cleanup_keep p hp now a =
     (let obj = hp_objects hp a in
      if pc_in_use obj then True
      else let expired = (now a - pc_last_used obj > cp_idle_timeout p);
               over_min = (length (hp_all_connections hp) > cp_min_connections_per_host p)
           in \<not> (expired \<or> over_min))"

definition cleanup_host :: "(nat \<Rightarrow> int) \<Rightarrow> bytes \<Rightarrow> ConnectionPool \<Rightarrow> ConnectionPool" where
  "cleanup_host now key p = (case map_of (cp_pools p) key of
       None \<Rightarrow> p
     | Some hp \<Rightarrow>
         let to_remove = filter (\<lambda>a. \<not> cleanup_keep p hp now a) (hp_all_connections hp);
             all = filter (cleanup_keep p hp now) (hp_all_connections hp);
             idle = filter (\<lambda>a. \<not> pc_in_use (hp_objects hp a)) all
         in put_pool key (hp\<lparr>hp_all_connections := all, hp_idle_connections := idle\<rparr>)
              (fold (\<lambda>a. close_conn (pc_connection (hp_objects hp a))) to_remove (cp_conns p)) p)"

record Stats =
  st_total_connections :: nat
  st_active_connections :: u64
  st_idle_connections :: nat
  st_hosts_count :: nat

definition ConnectionPool_getStats :: "ConnectionPool \<Rightarrow> Stats" where
  "ConnectionPool_getStats p = (let hps = map snd (cp_pools p) in
     \<lparr>st_total_connections = sum_list (map (length \<circ> hp_all_connections) hps),
      st_active_connections = sum_list (map hp_active_count hps),
      st_idle_connections = sum_list (map (length \<circ> hp_idle_connections) hps),
      st_hosts_count = length (cp_pools p)\<rparr>)"

text \<open>\<open>stop\<close>: \<open>running_\<close> is cleared first; the pools are destroyed after the clean-up thread ended.\<close>

definition stop_running :: "ConnectionPool \<Rightarrow> ConnectionPool" where
  "stop_running p = p\<lparr>cp_running := False\<rparr>"

definition stop_clear :: "ConnectionPool \<Rightarrow> ConnectionPool" where
  "stop_clear p = p\<lparr>cp_pools := [], cp_conns :=
     fold (\<lambda>hp. fold (\<lambda>a. close_conn (pc_connection (hp_objects hp a))) (hp_all_connections hp))
       (map snd (cp_pools p)) (cp_conns p)\<rparr>"

end
