(* ===== verification/Connection_Pool_System.thy ===== *)
theory Connection_Pool_System
  imports Connection_Pool
begin

text \<open>
  Threads that share a connection pool: \<open>pool_move\<close> is one step of a thread, of the clean-up, of
  \<open>stop\<close> or of the environment. A thread may fail to give its connection gone, as
  \<open>discoverServiceFromRegistry\<close> does when it throws, and a connection may break while it is held.
  \<open>stop\<close> destroys the pools when no thread is in \<open>acquire\<close>.

  The invariant: the books of every host balance, the threads' connections are theirs alone, and
  the number of connections of a host is bounded.
\<close>

section \<open>Steps\<close>

definition inside :: "thread \<Rightarrow> bytes option" where
  "inside t = (case t of Scanning k d \<Rightarrow> Some k | Connecting k d \<Rightarrow> Some k | Waiting k d \<Rightarrow> Some k
     | _ \<Rightarrow> None)"

inductive pool_move :: "ConnectionPool \<times> thread list \<Rightarrow> ConnectionPool \<times> thread list \<Rightarrow> bool" where
  acquire: "i < length ts \<Longrightarrow> ts ! i = Outside \<Longrightarrow> acquire host port now p = (t, p') \<Longrightarrow>
    pool_move (p, ts) (p', ts[i := t])"
| scan: "i < length ts \<Longrightarrow> ts ! i = Scanning key d \<Longrightarrow> acquire_scan so now now' key d p = Ret (t, p') \<Longrightarrow>
    pool_move (p, ts) (p', ts[i := t])"
| connect: "i < length ts \<Longrightarrow> ts ! i = Connecting key d \<Longrightarrow>
    acquire_connect (fst (createConnection fd address_ok connected)) now key d p = Ret (t, p') \<Longrightarrow>
    pool_move (p, ts) (p', ts[i := t])"
| wake: "i < length ts \<Longrightarrow> ts ! i = Waiting key d \<Longrightarrow> pool_move (p, ts) (p, ts[i := Scanning key d])"
| release: "i < length ts \<Longrightarrow> ts ! i = Holding key c \<Longrightarrow>
    pool_move (p, ts) (release_key so now key c p, ts[i := Outside])"
| leak: "i < length ts \<Longrightarrow> ts ! i = Holding key c \<Longrightarrow> pool_move (p, ts) (p, ts[i := Outside])"
| caught: "i < length ts \<Longrightarrow> ts ! i = Threw \<Longrightarrow> pool_move (p, ts) (p, ts[i := Outside])"
| broken: "i < length ts \<Longrightarrow> ts ! i = Holding key c \<Longrightarrow>
    pool_move (p, ts) (p\<lparr>cp_conns := (cp_conns p)(c := (cp_conns p c)\<lparr>tc_connected := False\<rparr>)\<rparr>, ts)"
| cleanup: "cp_running p \<Longrightarrow> pool_move (p, ts) (cleanup_host now_of key p, ts)"
| stop: "pool_move (p, ts) (stop_running p, ts)"
| clear: "\<not> cp_running p \<Longrightarrow> \<forall>t \<in> set ts. inside t = None \<Longrightarrow> pool_move (p, ts) (stop_clear p, ts)"

inductive pool_reached :: "ConnectionPool \<times> thread list \<Rightarrow> ConnectionPool \<times> thread list \<Rightarrow> bool" for s0 where
  init: "pool_reached s0 s0"
| move: "pool_reached s0 s \<Longrightarrow> pool_move s s' \<Longrightarrow> pool_reached s0 s'"

section \<open>Invariant\<close>

text \<open>The connections of a host: the idle queue and the count agree with the \<open>in_use\<close> flags.\<close>

definition in_use :: "HostPool \<Rightarrow> nat \<Rightarrow> bool" where
  "in_use hp a \<longleftrightarrow> pc_in_use (hp_objects hp a)"

definition host_inv :: "nat \<Rightarrow> HostPool \<Rightarrow> bool" where
  "host_inv fresh hp \<longleftrightarrow> distinct (hp_all_connections hp) \<and> distinct (hp_idle_connections hp) \<and>
     set (hp_idle_connections hp) = {a \<in> set (hp_all_connections hp). \<not> in_use hp a} \<and>
     hp_active_count hp = of_nat (card {a \<in> set (hp_all_connections hp). in_use hp a}) \<and>
     (\<forall>a \<in> set (hp_all_connections hp). pc_connection (hp_objects hp a) = a \<and> a < fresh)"

fun connecting :: "bytes \<Rightarrow> thread \<Rightarrow> nat" where
  "connecting k (Connecting k' d) = (if k' = k then 1 else 0)"
| "connecting k t = 0"

definition pools_inv :: "ConnectionPool \<Rightarrow> bool" where
  "pools_inv p \<longleftrightarrow> distinct (map fst (cp_pools p)) \<and>
     (\<forall>k hp. map_of (cp_pools p) k = Some hp \<longrightarrow> host_inv (cp_next p) hp) \<and>
     (\<forall>k hp k' hp'. k \<noteq> k' \<longrightarrow> map_of (cp_pools p) k = Some hp \<longrightarrow> map_of (cp_pools p) k' = Some hp' \<longrightarrow>
        set (hp_all_connections hp) \<inter> set (hp_all_connections hp') = {})"

definition bound_inv :: "ConnectionPool \<Rightarrow> thread list \<Rightarrow> bool" where
  "bound_inv p ts \<longleftrightarrow> (\<forall>k hp. map_of (cp_pools p) k = Some hp \<longrightarrow> ts \<noteq> [] \<longrightarrow>
     length (hp_all_connections hp) + sum_list (map (connecting k) ts)
       < cp_max_connections_per_host p + length ts)"

definition held_ok :: "ConnectionPool \<Rightarrow> thread \<Rightarrow> bool" where
  "held_ok p t \<longleftrightarrow> (case t of
       Holding k c \<Rightarrow> (\<exists>hp. map_of (cp_pools p) k = Some hp \<and> c \<in> set (hp_all_connections hp) \<and> in_use hp c)
     | _ \<Rightarrow> (case inside t of Some k \<Rightarrow> map_of (cp_pools p) k \<noteq> None | None \<Rightarrow> True))"

definition exclusive :: "thread list \<Rightarrow> bool" where
  "exclusive ts \<longleftrightarrow> (\<forall>i j k c. i < length ts \<longrightarrow> j < length ts \<longrightarrow> ts ! i = Holding k c \<longrightarrow>
     ts ! j = Holding k c \<longrightarrow> i = j)"

definition threads_inv :: "ConnectionPool \<Rightarrow> thread list \<Rightarrow> bool" where
  "threads_inv p ts \<longleftrightarrow> (\<forall>t \<in> set ts. held_ok p t) \<and> exclusive ts"

definition inv_parts :: "ConnectionPool \<Rightarrow> thread list \<Rightarrow> bool" where
  "inv_parts p ts \<longleftrightarrow> pools_inv p \<and> bound_inv p ts \<and> threads_inv p ts"

definition pool_inv :: "ConnectionPool \<times> thread list \<Rightarrow> bool" where
  "pool_inv s \<longleftrightarrow> (case s of (p, ts) \<Rightarrow>
     cp_running p \<longrightarrow> inv_parts p ts)"

section \<open>A host\<close>

lemma host_inv_new: "host_inv fresh HostPool_new"
  by (simp add: host_inv_def HostPool_new_def)

lemma host_inv_fresh: "host_inv n hp \<Longrightarrow> n \<le> m \<Longrightarrow> host_inv m hp"
  by (auto simp: host_inv_def)

text \<open>Taking a valid idle connection, and dropping an invalid one.\<close>

lemma host_inv_take:
  fixes now :: int
  assumes inv: "host_inv n hp" and idle: "hp_idle_connections hp = a # idle"
  defines "hp' \<equiv> hp\<lparr>hp_idle_connections := idle,
      hp_objects := (hp_objects hp)(a := (hp_objects hp a)\<lparr>pc_in_use := True, pc_last_used := now\<rparr>),
      hp_active_count := hp_active_count hp + 1\<rparr>"
  shows "host_inv n hp'"
proof -
  have a: "a \<in> set (hp_all_connections hp)" "\<not> in_use hp a" using inv idle by (auto simp: host_inv_def)
  have use': "in_use hp' b \<longleftrightarrow> b = a \<or> in_use hp b" for b by (simp add: hp'_def in_use_def)
  have "{b \<in> set (hp_all_connections hp). in_use hp' b} = insert a {b \<in> set (hp_all_connections hp). in_use hp b}"
    using a use' by auto
  then have "card {b \<in> set (hp_all_connections hp). in_use hp' b} =
      Suc (card {b \<in> set (hp_all_connections hp). in_use hp b})" using a by simp
  moreover have "set idle = {b \<in> set (hp_all_connections hp). \<not> in_use hp' b}" "distinct idle"
    using inv idle a use' by (auto simp: host_inv_def)
  ultimately show ?thesis using inv by (auto simp: host_inv_def hp'_def)
qed

lemma host_inv_remove:
  assumes inv: "host_inv n hp" and idle: "hp_idle_connections hp = a # idle"
  shows "host_inv n (fst (removeConnection a (hp\<lparr>hp_idle_connections := idle\<rparr>) conns))"
proof -
  define all where "all = hp_all_connections hp"
  have a: "a \<in> set all" "\<not> in_use hp a" "distinct all" using inv idle by (auto simp: host_inv_def all_def)
  have "{b \<in> set all - {a}. in_use hp b} = {b \<in> set all. in_use hp b}" using a by auto
  moreover have "set idle = {b \<in> set all - {a}. \<not> in_use hp b}" "distinct idle"
    using inv idle by (auto simp: host_inv_def all_def)
  ultimately show ?thesis using inv a(3)
    by (auto simp: host_inv_def removeConnection_def in_use_def all_def)
qed

text \<open>
  What a section under the mutex may do to a host: drop connections, add the fresh one, and keep
  those in use except the one it gives gone.
\<close>

definition host_move :: "nat \<Rightarrow> nat set \<Rightarrow> HostPool \<Rightarrow> HostPool \<Rightarrow> bool" where
  "host_move fresh gone hp hp' \<longleftrightarrow>
     (\<forall>a \<in> set (hp_all_connections hp'). a \<in> set (hp_all_connections hp) \<or> a = fresh) \<and>
     (\<forall>a \<in> set (hp_all_connections hp). in_use hp a \<longrightarrow> a \<notin> gone \<longrightarrow>
        a \<in> set (hp_all_connections hp') \<and> in_use hp' a)"

lemma host_move_trans: "host_move n {} hp hp' \<Longrightarrow> host_move n {} hp' hp'' \<Longrightarrow> host_move n {} hp hp''"
  unfolding host_move_def by blast

lemma take_idle_spec:
  assumes "host_inv n hp" and "hp_idle_connections hp = idle"
    and "take_idle so now idle hp conns = (r, hp', conns')"
  shows "host_inv n hp' \<and> host_move n {} hp hp' \<and>
    length (hp_all_connections hp') \<le> length (hp_all_connections hp) \<and>
    (\<forall>c. r = Some c \<longrightarrow> c \<in> set (hp_all_connections hp') \<and> in_use hp' c \<and> \<not> in_use hp c)"
  using assms
proof (induction idle arbitrary: hp conns)
  case Nil
  then show ?case by (simp add: host_move_def)
next
  case (Cons a idle)
  define hp1 where "hp1 = hp\<lparr>hp_idle_connections := idle\<rparr>"
  have a: "a \<in> set (hp_all_connections hp)" "\<not> in_use hp a" "pc_connection (hp_objects hp a) = a"
    "distinct (hp_all_connections hp)"
    using Cons.prems(1,2) by (auto simp: host_inv_def)
  show ?case
  proof (cases "isConnectionValid so (conns a)")
    case True
    define hp2 where "hp2 = hp1\<lparr>hp_objects := (hp_objects hp)(a := (hp_objects hp a)\<lparr>pc_in_use := True,
      pc_last_used := now\<rparr>), hp_active_count := hp_active_count hp + 1\<rparr>"
    have "r = Some a" "hp' = hp2"
      using Cons.prems(3) True a(3) by (auto simp: hp1_def hp2_def Let_def)
    moreover have "host_inv n hp2"
      using host_inv_take [OF Cons.prems(1,2), of now] by (simp add: hp1_def hp2_def)
    ultimately show ?thesis using a by (auto simp: hp1_def hp2_def host_move_def in_use_def)
  next
    case False
    obtain hp2 conns2 where rem: "removeConnection a hp1 conns = (hp2, conns2)" by fastforce
    then have hp2: "hp2 = hp1\<lparr>hp_all_connections := remove1 a (hp_all_connections hp)\<rparr>"
      by (simp add: removeConnection_def hp1_def)
    have inv2: "host_inv n hp2"
      using host_inv_remove [OF Cons.prems(1,2), of conns] rem by (simp add: hp1_def)
    have move2: "host_move n {} hp hp2" using a by (auto simp: hp2 hp1_def host_move_def in_use_def)
    have len2: "length (hp_all_connections hp2) \<le> length (hp_all_connections hp)"
      by (simp add: hp2 length_remove1)
    have use2: "in_use hp2 c = in_use hp c" for c by (simp add: hp2 hp1_def in_use_def)
    have idle2: "hp_idle_connections hp2 = idle" by (simp add: hp2 hp1_def)
    have "take_idle so now idle hp2 conns2 = (r, hp', conns')"
      using Cons.prems(3) False rem a(3) by (simp add: hp1_def)
    then have "host_inv n hp' \<and> host_move n {} hp2 hp' \<and>
        length (hp_all_connections hp') \<le> length (hp_all_connections hp2) \<and>
        (\<forall>c. r = Some c \<longrightarrow> c \<in> set (hp_all_connections hp') \<and> in_use hp' c \<and> \<not> in_use hp2 c)"
      by (rule Cons.IH [OF inv2 idle2])
    then show ?thesis using host_move_trans [OF move2] len2 use2 by auto
  qed
qed

text \<open>What the loop does up to the first valid connection.\<close>

lemma take_idle_first:
  assumes "host_inv n hp" and "hp_idle_connections hp = broken @ c # rest"
    and "\<And>b. b \<in> set broken \<Longrightarrow> \<not> isConnectionValid so (conns b)" and "isConnectionValid so (conns c)"
  shows "\<exists>hp' conns'. take_idle so now (hp_idle_connections hp) hp conns = (Some c, hp', conns') \<and>
    in_use hp' c \<and> hp_idle_connections hp' = rest \<and> hp_active_count hp' = hp_active_count hp + 1 \<and>
    set (hp_all_connections hp') = set (hp_all_connections hp) - set broken \<and>
    (\<forall>b. tc_connected (conns' b) \<longleftrightarrow> tc_connected (conns b) \<and> b \<notin> set broken)"
  using assms
proof (induction broken arbitrary: hp conns)
  case Nil
  then have "pc_connection (hp_objects hp c) = c" by (auto simp: host_inv_def)
  then show ?case using Nil by (simp add: in_use_def)
next
  case (Cons b broken)
  define hp1 where "hp1 = fst (removeConnection b (hp\<lparr>hp_idle_connections := broken @ c # rest\<rparr>) conns)"
  have b: "pc_connection (hp_objects hp b) = b" "distinct (hp_all_connections hp)" "b \<notin> set (broken @ c # rest)"
    using Cons.prems(1,2) by (auto simp: host_inv_def)
  have inv1: "host_inv n hp1" unfolding hp1_def using host_inv_remove [OF Cons.prems(1), of b "broken @ c # rest"]
    Cons.prems(2) by simp
  have hp1: "hp_idle_connections hp1 = broken @ c # rest" "hp_active_count hp1 = hp_active_count hp"
    "set (hp_all_connections hp1) = set (hp_all_connections hp) - {b}"
    using b(2) by (simp_all add: hp1_def removeConnection_def)
  let ?conns1 = "close_conn b conns"
  have valid1: "isConnectionValid so (?conns1 x) = isConnectionValid so (conns x)" if "x \<noteq> b" for x
    using that by (simp add: close_conn_def)
  have eq: "take_idle so now (hp_idle_connections hp) hp conns =
      take_idle so now (hp_idle_connections hp1) hp1 ?conns1"
    using Cons.prems(2,3) b(1) by (simp add: hp1 Let_def) (simp add: removeConnection_def hp1_def)
  have broken1: "\<not> isConnectionValid so (?conns1 x)" if "x \<in> set broken" for x
    using valid1 [of x] b(3) that Cons.prems(3) [of x] by (cases "x = b") auto
  have c1: "isConnectionValid so (?conns1 c)" using valid1 [of c] b(3) Cons.prems(4) by simp
  obtain hp' conns' where IH: "take_idle so now (hp_idle_connections hp1) hp1 ?conns1 = (Some c, hp', conns')"
    "in_use hp' c" "hp_idle_connections hp' = rest" "hp_active_count hp' = hp_active_count hp1 + 1"
    "set (hp_all_connections hp') = set (hp_all_connections hp1) - set broken"
    "\<And>x. tc_connected (conns' x) \<longleftrightarrow> tc_connected (?conns1 x) \<and> x \<notin> set broken"
    using Cons.IH [OF inv1 hp1(1), of ?conns1, OF broken1 c1] by blast
  have "tc_connected (?conns1 x) \<longleftrightarrow> tc_connected (conns x) \<and> x \<noteq> b" for x
    by (simp add: close_conn_def)
  then show ?case using IH unfolding eq hp1 by auto
qed

text \<open>A new connection.\<close>

lemma host_inv_connect:
  fixes now :: int
  assumes inv: "host_inv c hp"
  defines "hp' \<equiv> hp\<lparr>
      hp_objects := (hp_objects hp)(c := \<lparr>pc_connection = c, pc_last_used = now, pc_in_use = True\<rparr>),
      hp_all_connections := hp_all_connections hp @ [c], hp_active_count := hp_active_count hp + 1\<rparr>"
  shows "host_inv (Suc c) hp'" and "host_move c {} hp hp'" and "in_use hp' c" and "\<not> c \<in> set (hp_all_connections hp)"
proof -
  show c: "\<not> c \<in> set (hp_all_connections hp)" using inv by (auto simp: host_inv_def)
  have use': "in_use hp' b \<longleftrightarrow> b = c \<or> in_use hp b" for b by (simp add: hp'_def in_use_def)
  then show "in_use hp' c" by simp
  show "host_move c {} hp hp'" using use' by (auto simp: hp'_def host_move_def)
  have all': "set (hp_all_connections hp') = insert c (set (hp_all_connections hp))" by (simp add: hp'_def)
  have "{b \<in> set (hp_all_connections hp'). in_use hp' b} = insert c {b \<in> set (hp_all_connections hp). in_use hp b}"
    using all' use' by auto
  then have "card {b \<in> set (hp_all_connections hp'). in_use hp' b} =
      Suc (card {b \<in> set (hp_all_connections hp). in_use hp b})" using c by simp
  then have count: "hp_active_count hp' = of_nat (card {b \<in> set (hp_all_connections hp'). in_use hp' b})"
    using inv by (simp add: hp'_def host_inv_def)
  have idle: "{b \<in> set (hp_all_connections hp'). \<not> in_use hp' b} = {b \<in> set (hp_all_connections hp). \<not> in_use hp b}"
    using all' use' c by auto
  have objs: "hp_objects hp' b = (if b = c then \<lparr>pc_connection = c, pc_last_used = now, pc_in_use = True\<rparr>
      else hp_objects hp b)" for b
    by (simp add: hp'_def)
  have "distinct (hp_all_connections hp')" "hp_idle_connections hp' = hp_idle_connections hp"
    using inv c by (simp_all add: host_inv_def hp'_def)
  then show "host_inv (Suc c) hp'" using inv count idle unfolding host_inv_def all' objs
    by (simp add: less_Suc_eq)
qed

text \<open>A connection given gone: still valid, or dropped.\<close>

lemma host_inv_release:
  fixes now :: int
  assumes inv: "host_inv n hp" and a: "a \<in> set (hp_all_connections hp)" "in_use hp a"
  defines "hp1 \<equiv> hp\<lparr>hp_objects := (hp_objects hp)(a := (hp_objects hp a)\<lparr>pc_in_use := False, pc_last_used := now\<rparr>),
      hp_active_count := hp_active_count hp - 1\<rparr>"
  shows "host_inv n (hp1\<lparr>hp_idle_connections := hp_idle_connections hp1 @ [a]\<rparr>)"
    and "host_inv n (hp1\<lparr>hp_all_connections := remove1 a (hp_all_connections hp1)\<rparr>)"
    and "host_move n {a} hp (hp1\<lparr>hp_idle_connections := hp_idle_connections hp1 @ [a]\<rparr>)"
    and "host_move n {a} hp (hp1\<lparr>hp_all_connections := remove1 a (hp_all_connections hp1)\<rparr>)"
proof -
  define all where "all = hp_all_connections hp"
  have use1: "in_use (hp1\<lparr>hp_idle_connections := is\<rparr>) b \<longleftrightarrow> b \<noteq> a \<and> in_use hp b"
    "in_use (hp1\<lparr>hp_all_connections := is\<rparr>) b \<longleftrightarrow> b \<noteq> a \<and> in_use hp b" for b "is"
    by (simp_all add: hp1_def in_use_def)
  have objs: "pc_connection (hp_objects hp1 b) = pc_connection (hp_objects hp b)" for b by (simp add: hp1_def)
  have inv': "distinct all" "distinct (hp_idle_connections hp)" "a \<notin> set (hp_idle_connections hp)"
      "set (hp_idle_connections hp) = {b \<in> set all. \<not> in_use hp b}"
      "\<forall>b \<in> set all. pc_connection (hp_objects hp b) = b \<and> b < n"
    using inv a by (simp_all add: host_inv_def all_def)
  have "{b \<in> set all. in_use hp b} = insert a {b \<in> set all. b \<noteq> a \<and> in_use hp b}" using a by (auto simp: all_def)
  then have "card {b \<in> set all. in_use hp b} = Suc (card {b \<in> set all. b \<noteq> a \<and> in_use hp b})" by simp
  then have count: "hp_active_count hp1 = of_nat (card {b \<in> set all. b \<noteq> a \<and> in_use hp b})"
    using inv by (simp add: host_inv_def all_def hp1_def)
  have fields: "hp_all_connections hp1 = all" "hp_idle_connections hp1 = hp_idle_connections hp"
    by (simp_all add: hp1_def all_def)
  have "set (hp_idle_connections hp @ [a]) = {b \<in> set all. \<not> (b \<noteq> a \<and> in_use hp b)}"
    using inv'(4) a by (auto simp: all_def)
  then show "host_inv n (hp1\<lparr>hp_idle_connections := hp_idle_connections hp1 @ [a]\<rparr>)"
    using inv'(1,2,3,5) count unfolding host_inv_def use1 by (simp add: fields objs)
  have "{b \<in> set all - {a}. b \<noteq> a \<and> in_use hp b} = {b \<in> set all. b \<noteq> a \<and> in_use hp b}" by auto
  moreover have "{b \<in> set all - {a}. \<not> (b \<noteq> a \<and> in_use hp b)} = {b \<in> set all. \<not> in_use hp b}" using a by auto
  ultimately show "host_inv n (hp1\<lparr>hp_all_connections := remove1 a (hp_all_connections hp1)\<rparr>)"
    using inv' count unfolding host_inv_def use1 by (simp add: fields objs)
  show "host_move n {a} hp (hp1\<lparr>hp_idle_connections := hp_idle_connections hp1 @ [a]\<rparr>)"
    using use1 by (simp add: host_move_def fields all_def)
  show "host_move n {a} hp (hp1\<lparr>hp_all_connections := remove1 a (hp_all_connections hp1)\<rparr>)"
    using use1 inv'(1) by (simp add: host_move_def fields all_def)
qed

lemma host_inv_cleanup:
  assumes inv: "host_inv n hp" and keep: "\<And>a. in_use hp a \<Longrightarrow> keep a"
  defines "hp' \<equiv> hp\<lparr>hp_all_connections := filter keep (hp_all_connections hp),
      hp_idle_connections := filter (\<lambda>a. \<not> pc_in_use (hp_objects hp a)) (filter keep (hp_all_connections hp))\<rparr>"
  shows "host_inv n hp'" and "host_move n {} hp hp'"
proof -
  have use': "in_use hp' = in_use hp" by (simp add: hp'_def in_use_def fun_eq_iff)
  show "host_move n {} hp hp'" using keep by (simp add: host_move_def use') (simp add: hp'_def)
  have "{a \<in> set (filter keep (hp_all_connections hp)). in_use hp a} = {a \<in> set (hp_all_connections hp). in_use hp a}"
    using keep by auto
  then show "host_inv n hp'" using inv unfolding host_inv_def use'
    by (auto simp: hp'_def in_use_def)
qed

section \<open>The pools\<close>

lemma pools_inv_put:
  assumes inv: "pools_inv p" and k: "map_of (cp_pools p) k = Some hp" and hp': "host_inv m hp'"
    and move: "host_move (cp_next p) gone hp hp'" and m: "cp_next p \<le> m"
  shows "pools_inv (put_pool k hp' conns (p\<lparr>cp_next := m\<rparr>))"
proof -
  have other: "a < cp_next p" if "map_of (cp_pools p) k' = Some hp2" "a \<in> set (hp_all_connections hp2)" for k' hp2 a
    using inv that by (auto simp: pools_inv_def host_inv_def)
  have disj: "set (hp_all_connections hp') \<inter> set (hp_all_connections hp2) = {}"
    if "k' \<noteq> k" "map_of (cp_pools p) k' = Some hp2" for k' hp2
  proof -
    have "set (hp_all_connections hp) \<inter> set (hp_all_connections hp2) = {}"
      using inv k that unfolding pools_inv_def by metis
    moreover have "cp_next p \<notin> set (hp_all_connections hp2)" using other [OF that(2)] by blast
    ultimately show ?thesis using move unfolding host_move_def by blast
  qed
  have "host_inv m hp2" if "map_of (cp_pools p) k' = Some hp2" for k' hp2
    using inv that m host_inv_fresh unfolding pools_inv_def by blast
  moreover have "set (hp_all_connections hp2) \<inter> set (hp_all_connections hp') = {}"
    if "k \<noteq> k'" "map_of (cp_pools p) k' = Some hp2" for k' hp2
    using disj [of k' hp2] that by blast
  ultimately show ?thesis using inv hp' disj unfolding pools_inv_def
    by (simp add: put_pool_def map_of_AList_update distinct_update del: map_of_eq_Some_iff) blast
qed

lemma pools_inv_put_same:
  "pools_inv p \<Longrightarrow> map_of (cp_pools p) k = Some hp \<Longrightarrow> host_inv (cp_next p) hp' \<Longrightarrow>
   host_move (cp_next p) gone hp hp' \<Longrightarrow> pools_inv (put_pool k hp' conns p)"
  using pools_inv_put [of p k hp "cp_next p" hp' gone conns] by simp

lemma pools_inv_conns: "pools_inv (p\<lparr>cp_conns := conns\<rparr>) = pools_inv p"
  by (simp add: pools_inv_def)

lemma pools_inv_getOrCreate:
  assumes "pools_inv p"
  shows "pools_inv (getOrCreateHostPool key p)"
proof (cases "map_of (cp_pools p) key")
  case None
  have "hp_all_connections HostPool_new = []" by (simp add: HostPool_new_def)
  then show ?thesis using None assms host_inv_new unfolding pools_inv_def
    by (simp add: getOrCreateHostPool_def map_of_AList_update distinct_update del: map_of_eq_Some_iff)
qed (use assms in \<open>simp add: getOrCreateHostPool_def\<close>)

section \<open>The threads\<close>

lemma held_ok_Holding: "held_ok p (Holding k c) \<longleftrightarrow>
  (\<exists>hp. map_of (cp_pools p) k = Some hp \<and> c \<in> set (hp_all_connections hp) \<and> in_use hp c)"
  by (simp add: held_ok_def)

lemma held_ok_other:
  "held_ok p Outside" "held_ok p Threw"
  "held_ok p (Scanning k d) \<longleftrightarrow> map_of (cp_pools p) k \<noteq> None"
  "held_ok p (Connecting k d) \<longleftrightarrow> map_of (cp_pools p) k \<noteq> None"
  "held_ok p (Waiting k d) \<longleftrightarrow> map_of (cp_pools p) k \<noteq> None"
  by (simp_all add: held_ok_def inside_def)

lemma in_set_list_update: "x \<in> set (xs[i := y]) \<Longrightarrow> x \<in> set xs \<or> x = y"
  using set_update_subset_insert by fastforce

text \<open>Thread \<open>i\<close> changes its state.\<close>

lemma threads_inv_set:
  assumes inv: "threads_inv p ts" and ok: "held_ok p t"
    and own: "\<And>k c. t = Holding k c \<Longrightarrow> Holding k c \<notin> set ts"
  shows "threads_inv p (ts[i := t])"
proof -
  have "\<forall>u \<in> set (ts[i := t]). held_ok p u"
    using inv ok in_set_list_update unfolding threads_inv_def by metis
  moreover have "exclusive (ts[i := t])"
    unfolding exclusive_def
  proof (intro allI impI)
    fix a b k c
    assume ab: "a < length (ts[i := t])" "b < length (ts[i := t])" "ts[i := t] ! a = Holding k c"
      "ts[i := t] ! b = Holding k c"
    have "a = i \<longleftrightarrow> b = i" using ab own nth_mem [of a ts] nth_mem [of b ts]
      by (cases "a = i"; cases "b = i") auto
    moreover have "a = b" if "a \<noteq> i" "b \<noteq> i"
      using inv ab that unfolding threads_inv_def exclusive_def by simp
    ultimately show "a = b" by blast
  qed
  ultimately show ?thesis by (simp add: threads_inv_def)
qed

text \<open>A host changes under the threads.\<close>

lemma threads_inv_put:
  assumes inv: "threads_inv p ts" and k: "map_of (cp_pools p) k = Some hp"
    and move: "host_move (cp_next p) gone hp hp'" and given: "\<And>c. c \<in> gone \<Longrightarrow> Holding k c \<notin> set ts"
  shows "threads_inv (put_pool k hp' conns (p\<lparr>cp_next := m\<rparr>)) ts"
proof -
  let ?p' = "put_pool k hp' conns (p\<lparr>cp_next := m\<rparr>)"
  have pools: "map_of (cp_pools ?p') = (map_of (cp_pools p))(k \<mapsto> hp')"
    by (simp add: put_pool_def map_of_AList_update)
  have "held_ok ?p' t" if "t \<in> set ts" for t
  proof (cases t)
    case (Holding k' c)
    then obtain hp2 where hp2: "map_of (cp_pools p) k' = Some hp2" "c \<in> set (hp_all_connections hp2)" "in_use hp2 c"
      using inv \<open>t \<in> set ts\<close> Holding unfolding threads_inv_def by (metis held_ok_Holding)
    show ?thesis
    proof (cases "k' = k")
      case True
      then have "c \<notin> gone" using given that Holding by blast
      then show ?thesis using True hp2 k move Holding
        by (simp add: held_ok_Holding pools host_move_def)
    qed (use hp2 Holding in \<open>simp add: held_ok_Holding pools\<close>)
  qed (use inv that in \<open>auto simp: threads_inv_def held_ok_other pools\<close>)
  then show ?thesis using inv by (simp add: threads_inv_def)
qed

lemma connecting_le_length: "sum_list (map (connecting k) ts) \<le> length ts"
proof (induction ts)
  case (Cons t ts)
  have "connecting k t \<le> 1" by (cases t) auto
  then show ?case using Cons by simp
qed simp

lemma bound_inv_set:
  assumes inv: "bound_inv p ts" and i: "i < length ts"
    and le: "\<And>k hp. map_of (cp_pools p) k = Some hp \<Longrightarrow> connecting k t \<le> connecting k (ts ! i) \<or>
      length (hp_all_connections hp) < cp_max_connections_per_host p"
  shows "bound_inv p (ts[i := t])"
  unfolding bound_inv_def
proof (intro allI impI)
  fix k hp assume k: "map_of (cp_pools p) k = Some hp"
  have sum: "sum_list (map (connecting k) (ts[i := t])) + connecting k (ts ! i) =
      sum_list (map (connecting k) ts) + connecting k t"
    by (rule sum_list_set_nth [OF i])
  have "ts \<noteq> []" using i by auto
  then have old: "length (hp_all_connections hp) + sum_list (map (connecting k) ts)
      < cp_max_connections_per_host p + length ts"
    using inv k by (simp add: bound_inv_def)
  from le [OF k] show "length (hp_all_connections hp) + sum_list (map (connecting k) (ts[i := t]))
      < cp_max_connections_per_host p + length (ts[i := t])"
  proof
    assume "connecting k t \<le> connecting k (ts ! i)"
    then show ?thesis using sum old by simp
  next
    assume "length (hp_all_connections hp) < cp_max_connections_per_host p"
    then show ?thesis using connecting_le_length [of k "ts[i := t]"] by simp
  qed
qed

lemma bound_inv_put:
  assumes inv: "bound_inv p ts" and k: "map_of (cp_pools p) k = Some hp"
    and le: "length (hp_all_connections hp') \<le> length (hp_all_connections hp)"
  shows "bound_inv (put_pool k hp' conns p) ts"
  unfolding bound_inv_def
proof (intro allI impI)
  fix k' hp2 assume "map_of (cp_pools (put_pool k hp' conns p)) k' = Some hp2" "ts \<noteq> []"
  then show "length (hp_all_connections hp2) + sum_list (map (connecting k') ts)
      < cp_max_connections_per_host (put_pool k hp' conns p) + length ts"
    using inv k le by (cases "k' = k") (fastforce simp: bound_inv_def put_pool_def map_of_AList_update
        simp del: map_of_eq_Some_iff)+
qed

section \<open>Every step keeps the invariant\<close>

lemma put_pool_simps [simp]:
  "cp_running (put_pool k hp conns p) = cp_running p"
  "cp_max_connections_per_host (put_pool k hp conns p) = cp_max_connections_per_host p"
  "map_of (cp_pools (put_pool k hp conns p)) = (map_of (cp_pools p))(k \<mapsto> hp)"
  by (simp_all add: put_pool_def map_of_AList_update)

lemma inv_parts_set:
  assumes "inv_parts p ts" "i < length ts" "held_ok p t" "\<And>k. connecting k t = 0" "\<And>k c. t = Holding k c \<Longrightarrow> Holding k c \<notin> set ts"
  shows "inv_parts p (ts[i := t])"
  using assms bound_inv_set [of p ts i t] threads_inv_set [of p ts t i] by (simp add: inv_parts_def)

lemma inv_parts_put:
  assumes "inv_parts p ts" "map_of (cp_pools p) k = Some hp" "host_inv (cp_next p) hp'"
    "host_move (cp_next p) gone hp hp'" "\<And>c. c \<in> gone \<Longrightarrow> Holding k c \<notin> set ts"
    "length (hp_all_connections hp') \<le> length (hp_all_connections hp)"
  shows "inv_parts (put_pool k hp' conns p) ts"
  using assms pools_inv_put_same [of p k hp hp' gone conns] bound_inv_put [of p ts k hp hp' conns]
    threads_inv_put [of p ts k hp gone hp' conns "cp_next p"] by (simp add: inv_parts_def)

lemma inv_parts_conns: "inv_parts (p\<lparr>cp_conns := conns\<rparr>) ts = inv_parts p ts"
proof -
  have "held_ok (p\<lparr>cp_conns := conns\<rparr>) t = held_ok p t" for t
    by (cases t) (simp_all add: held_ok_Holding held_ok_other)
  then show ?thesis by (simp add: inv_parts_def pools_inv_conns bound_inv_def threads_inv_def)
qed

lemma connecting_known:
  assumes "threads_inv p ts" "map_of (cp_pools p) k = None"
  shows "sum_list (map (connecting k) ts) = 0"
proof -
  have "connecting k t = 0" if "t \<in> set ts" for t
    using assms that by (cases t) (auto simp: threads_inv_def held_ok_other simp del: map_of_eq_None_iff)
  then show ?thesis by (simp add: sum_list_eq_0_iff)
qed

lemma inv_getOrCreate:
  assumes "inv_parts p ts"
  shows "inv_parts (getOrCreateHostPool key p) ts"
proof (cases "map_of (cp_pools p) key")
  case None
  have pools: "map_of (cp_pools (getOrCreateHostPool key p)) = (map_of (cp_pools p))(key \<mapsto> HostPool_new)"
    using None by (simp add: getOrCreateHostPool_def map_of_AList_update)
  have "held_ok (getOrCreateHostPool key p) t" if "held_ok p t" for t
    using that None by (cases t) (auto simp: held_ok_Holding held_ok_other pools simp del: map_of_eq_None_iff)
  moreover have sum0: "sum_list (map (connecting key) ts) = 0"
    by (rule connecting_known [OF _ None]) (use assms in \<open>simp add: inv_parts_def\<close>)
  moreover have "cp_max_connections_per_host (getOrCreateHostPool key p) = cp_max_connections_per_host p"
    by (simp add: getOrCreateHostPool_def split: option.split)
  ultimately show ?thesis using assms pools_inv_getOrCreate [of p key] unfolding inv_parts_def
    by (auto simp: bound_inv_def threads_inv_def pools HostPool_new_def sum0
        simp del: map_of_eq_Some_iff sum_list_eq_0_iff)
qed (use assms in \<open>simp add: getOrCreateHostPool_def\<close>)

lemma inv_acquire:
  assumes inv: "inv_parts p ts" and i: "i < length ts" and acq: "acquire host port now p = (t, p')"
  shows "inv_parts p' (ts[i := t])"
proof (cases "cp_running p")
  case False
  then show ?thesis using acq inv inv_parts_set [OF inv i, of Threw] by (auto simp: acquire_def held_ok_other)
next
  case True
  let ?k = "makeKey host port"
  have "map_of (cp_pools (getOrCreateHostPool ?k p)) ?k \<noteq> None"
    by (auto simp: getOrCreateHostPool_def map_of_AList_update simp del: map_of_eq_None_iff split: option.split)
  then have ok: "held_ok (getOrCreateHostPool ?k p) (Scanning ?k d)" for d unfolding held_ok_other .
  have "t = Scanning ?k (now + cp_acquire_timeout p)" "p' = getOrCreateHostPool ?k p"
    using acq True by (simp_all add: acquire_def)
  then show ?thesis using inv_parts_set [OF inv_getOrCreate [OF inv] i ok] by simp
qed

lemma wait_or_throw_ok: "map_of (cp_pools p) k \<noteq> None \<Longrightarrow> held_ok p (wait_or_throw k d now)"
  "connecting k' (wait_or_throw k d now) = 0" "wait_or_throw k d now \<noteq> Holding k' c"
  by (simp_all add: wait_or_throw_def held_ok_other)

lemma inv_scan:
  assumes inv: "inv_parts p ts" and i: "i < length ts" and scan: "acquire_scan so now now' key d p = Ret (t, p')"
  shows "inv_parts p' (ts[i := t])"
proof (cases "cp_running p")
  case False
  then show ?thesis using scan inv inv_parts_set [OF inv i, of Threw]
    by (auto simp: acquire_scan_def held_ok_other)
next
  case True
  then obtain hp where hp: "map_of (cp_pools p) key = Some hp"
    using scan by (auto simp: acquire_scan_def simp del: map_of_eq_Some_iff split: option.splits)
  obtain r hp' conns where take: "take_idle so now (hp_idle_connections hp) hp (cp_conns p) = (r, hp', conns)"
    by (metis prod_cases3)
  have "host_inv (cp_next p) hp" using inv hp by (simp add: inv_parts_def pools_inv_def del: map_of_eq_Some_iff)
  note spec = take_idle_spec [OF this refl take]
  have put: "inv_parts (put_pool key hp' conns p) ts"
    using spec by (intro inv_parts_put [OF inv hp, where gone = "{}"]) auto
  show ?thesis
  proof (cases r)
    case (Some c)
    then have t: "t = Holding key c" "p' = put_pool key hp' conns p" and c: "c \<in> set (hp_all_connections hp')"
        "in_use hp' c" "\<not> in_use hp c"
      using scan True hp take spec by (simp_all add: acquire_scan_def)
    have "Holding key c \<notin> set ts"
      using inv hp c(3) by (auto simp: inv_parts_def threads_inv_def held_ok_Holding simp del: map_of_eq_Some_iff)
    then show ?thesis unfolding t by (intro inv_parts_set [OF put i]) (simp_all add: held_ok_Holding c)
  next
    case None
    have p': "p' = put_pool key hp' conns p" using scan True hp take None
      by (auto simp: acquire_scan_def split: if_splits)
    consider (connect) "length (hp_all_connections hp') < cp_max_connections_per_host p" "t = Connecting key d"
      | (wait) "t = wait_or_throw key d now'"
      using scan True hp take None by (auto simp: acquire_scan_def split: if_splits)
    then show ?thesis
    proof cases
      case connect
      have "bound_inv p' (ts[i := t])" using put connect i
        by (intro bound_inv_set) (auto simp: inv_parts_def p')
      moreover have "threads_inv p' (ts[i := t])" using put connect
        by (intro threads_inv_set) (simp_all add: inv_parts_def p' held_ok_other)
      ultimately show ?thesis using put by (simp add: inv_parts_def p')
    next
      case wait
      show ?thesis unfolding wait p' by (intro inv_parts_set [OF put i]) (simp_all add: wait_or_throw_ok)
    qed
  qed
qed

lemma inv_connect:
  assumes inv: "inv_parts p ts" and i: "i < length ts" and conn: "ts ! i = Connecting key d"
    and step: "acquire_connect fd now key d p = Ret (t, p')"
  shows "inv_parts p' (ts[i := t])"
proof -
  obtain hp where hp: "map_of (cp_pools p) key = Some hp"
    using step by (auto simp: acquire_connect_def simp del: map_of_eq_Some_iff split: option.splits)
  show ?thesis
  proof (cases fd)
    case None
    then have t: "t = wait_or_throw key d now" "p' = p" using step hp by (simp_all add: acquire_connect_def)
    show ?thesis unfolding t by (intro inv_parts_set [OF inv i]) (simp_all add: wait_or_throw_ok hp)
  next
    case (Some f)
    define c where "c = cp_next p"
    define hp' where "hp' = hp\<lparr>
      hp_objects := (hp_objects hp)(c := \<lparr>pc_connection = c, pc_last_used = now, pc_in_use = True\<rparr>),
      hp_all_connections := hp_all_connections hp @ [c], hp_active_count := hp_active_count hp + 1\<rparr>"
    have t: "t = Holding key c"
      and p': "p' = put_pool key hp' ((cp_conns p)(c := TcpConnection_new f)) (p\<lparr>cp_next := Suc c\<rparr>)"
      using step hp Some by (simp_all add: acquire_connect_def c_def hp'_def Let_def)
    have "host_inv c hp" using inv hp by (simp add: inv_parts_def pools_inv_def c_def del: map_of_eq_Some_iff)
    note host = host_inv_connect(1-3) [OF this, where now = now, folded hp'_def] host_inv_connect(4) [OF this]
    have ts: "inv_parts p (ts[i := Outside])"
      using inv_parts_set [OF inv i, of Outside] by (simp add: held_ok_other)
    have pools: "pools_inv p'" unfolding p' using inv hp host(1,2)
      by (intro pools_inv_put [where gone = "{}"]) (simp_all add: inv_parts_def c_def)
    have threads: "threads_inv p' (ts[i := Outside])" unfolding p' using ts hp host(2)
      by (intro threads_inv_put [where gone = "{}"]) (simp_all add: inv_parts_def c_def)
    have "Holding key c \<notin> set (ts[i := Outside])"
      using ts hp host(4) by (auto simp: inv_parts_def threads_inv_def held_ok_Holding simp del: map_of_eq_Some_iff)
    moreover have "held_ok p' (Holding key c)" using host(3) by (simp add: held_ok_Holding p' hp'_def)
    ultimately have "threads_inv p' (ts[i := Outside, i := t])"
      using threads_inv_set [OF threads, of t i] by (simp add: t)
    moreover have "bound_inv p' (ts[i := t])"
      unfolding bound_inv_def
    proof (intro allI impI)
      fix k hp2 assume k: "map_of (cp_pools p') k = Some hp2" and "ts[i := t] \<noteq> []"
      have ne: "ts \<noteq> []" using i by auto
      have sum: "sum_list (map (connecting k) (ts[i := t])) + connecting k (ts ! i) =
          sum_list (map (connecting k) ts)" using sum_list_set_nth [OF i, of "connecting k" t] by (simp add: t)
      show "length (hp_all_connections hp2) + sum_list (map (connecting k) (ts[i := t]))
          < cp_max_connections_per_host p' + length (ts[i := t])"
      proof (cases "k = key")
        case True
        have "length (hp_all_connections hp) + sum_list (map (connecting key) ts)
            < cp_max_connections_per_host p + length ts"
          using inv hp ne by (simp add: inv_parts_def bound_inv_def del: map_of_eq_Some_iff)
        moreover have "hp2 = hp'" using k True by (simp add: p')
        ultimately show ?thesis using sum True conn by (simp add: p' hp'_def)
      next
        case False
        then have "map_of (cp_pools p) k = Some hp2" using k by (simp add: p')
        then have "length (hp_all_connections hp2) + sum_list (map (connecting k) ts)
            < cp_max_connections_per_host p + length ts"
          using inv ne by (simp add: inv_parts_def bound_inv_def del: map_of_eq_Some_iff)
        then show ?thesis using sum by (simp add: p')
      qed
    qed
    ultimately show ?thesis using pools by (simp add: inv_parts_def)
  qed
qed

lemma find_own: "\<forall>a \<in> set xs. f a = a \<Longrightarrow> c \<in> set xs \<Longrightarrow> find (\<lambda>a. f a = c) xs = Some c"
  by (induction xs) auto

lemma inv_release:
  assumes inv: "inv_parts p ts" and i: "i < length ts" and held: "ts ! i = Holding key c"
  shows "inv_parts (release_key so now key c p) (ts[i := Outside])"
proof (cases "cp_running p")
  case False
  then show ?thesis using inv_parts_set [OF inv i, of Outside] by (simp add: release_key_def held_ok_other)
next
  case True
  have ts: "inv_parts p (ts[i := Outside])"
    using inv_parts_set [OF inv i, of Outside] by (simp add: held_ok_other)
  have "held_ok p (Holding key c)" using inv i held nth_mem [OF i] by (simp add: inv_parts_def threads_inv_def)
  then obtain hp where hp: "map_of (cp_pools p) key = Some hp" "c \<in> set (hp_all_connections hp)" "in_use hp c"
    by (auto simp: held_ok_Holding simp del: map_of_eq_Some_iff)
  have host: "host_inv (cp_next p) hp" using inv hp(1) by (simp add: inv_parts_def pools_inv_def del: map_of_eq_Some_iff)
  have found: "find (\<lambda>a. pc_connection (hp_objects hp a) = c) (hp_all_connections hp) = Some c"
    using host hp(2) by (intro find_own) (auto simp: host_inv_def)
  have own: "pc_connection (hp_objects hp c) = c" using host hp(2) by (simp add: host_inv_def)
  have gone: "Holding key c' \<notin> set (ts[i := Outside])" if "c' \<in> {c}" for c'
    using that inv i held by (auto simp: inv_parts_def threads_inv_def exclusive_def in_set_conv_nth nth_list_update)
  note host' = host_inv_release [OF host hp(2,3), where now = now]
  show ?thesis
  proof (cases "isConnectionValid so (cp_conns p c)")
    case True
    then show ?thesis using inv_parts_put [OF ts hp(1) host'(1,3) gone] found hp \<open>cp_running p\<close>
      by (simp add: release_key_def in_use_def)
  next
    case False
    then show ?thesis using inv_parts_put [OF ts hp(1) host'(2,4) gone] found hp \<open>cp_running p\<close>
      by (simp add: release_key_def in_use_def removeConnection_def length_remove1 Let_def)
  qed
qed

lemma inv_cleanup:
  assumes inv: "inv_parts p ts"
  shows "inv_parts (cleanup_host now key p) ts"
proof (cases "map_of (cp_pools p) key")
  case (Some hp)
  have "host_inv (cp_next p) hp" using inv Some by (simp add: inv_parts_def pools_inv_def del: map_of_eq_Some_iff)
  moreover have "cleanup_keep p hp now a" if "in_use hp a" for a
    using that by (simp add: cleanup_keep_def in_use_def)
  ultimately show ?thesis using inv_parts_put [OF inv Some, where gone = "{}"] host_inv_cleanup Some
    by (simp add: cleanup_host_def)
qed (use inv in \<open>simp add: cleanup_host_def\<close>)

lemma pool_inv_move: "pool_move s s' \<Longrightarrow> pool_inv s \<Longrightarrow> pool_inv s'"
proof (induction rule: pool_move.induct)
  case (acquire i ts host port now p t p')
  have "cp_running p' = cp_running p" using acquire(3)
    by (auto simp: acquire_def getOrCreateHostPool_def split: if_splits option.splits)
  then show ?case using acquire inv_acquire by (auto simp: pool_inv_def)
next
  case (scan i ts key d so now now' p t p')
  have "cp_running p' = cp_running p" using scan(3)
    by (auto simp: acquire_scan_def simp del: map_of_eq_Some_iff split: if_splits option.splits prod.splits)
  then show ?case using scan inv_scan by (auto simp: pool_inv_def)
next
  case (connect i ts key d fd address_ok connected now p t p')
  have "cp_running p' = cp_running p" using connect(3)
    by (auto simp: acquire_connect_def Let_def simp del: map_of_eq_Some_iff split: option.splits)
  then show ?case using connect inv_connect by (auto simp: pool_inv_def)
next
  case (release i ts key c p so now)
  have "cp_running (release_key so now key c p) = cp_running p"
    by (simp add: release_key_def Let_def split: option.split prod.split)
  then show ?case using release inv_release by (auto simp: pool_inv_def)
next
  case (wake i ts key d p)
  then have "held_ok p (Scanning key d)" if "pool_inv (p, ts)" "cp_running p"
    using that nth_mem [OF wake(1)] by (auto simp: pool_inv_def inv_parts_def threads_inv_def held_ok_other)
  then show ?case using wake inv_parts_set [of p ts i "Scanning key d"] by (auto simp: pool_inv_def)
next
  case (leak i ts key c p)
  then show ?case using inv_parts_set [of p ts i Outside] by (auto simp: pool_inv_def held_ok_other)
next
  case (caught i ts p)
  then show ?case using inv_parts_set [of p ts i Outside] by (auto simp: pool_inv_def held_ok_other)
next
  case (broken i ts key c p)
  then show ?case using inv_parts_conns by (auto simp: pool_inv_def)
next
  case (cleanup p ts now_of key)
  then show ?case using inv_cleanup [of p ts now_of key] by (auto simp: pool_inv_def)
qed (simp_all add: pool_inv_def stop_running_def stop_clear_def)

lemma pool_inv_reached:
  "pool_reached (ConnectionPool_new mx mn idle acq, replicate n Outside) s \<Longrightarrow> pool_inv s"
proof (induction rule: pool_reached.induct)
  case init
  show ?case by (auto simp: pool_inv_def inv_parts_def pools_inv_def bound_inv_def threads_inv_def exclusive_def
        ConnectionPool_new_def held_ok_other)
next
  case (move s s')
  then show ?case using pool_inv_move by blast
qed

text \<open>The limit and the number of threads never change.\<close>

lemma max_simps [simp]:
  "cp_max_connections_per_host (getOrCreateHostPool key p) = cp_max_connections_per_host p"
  "cp_max_connections_per_host (release_key so now key c p) = cp_max_connections_per_host p"
  "cp_max_connections_per_host (cleanup_host now_of key p) = cp_max_connections_per_host p"
  "cp_max_connections_per_host (stop_running p) = cp_max_connections_per_host p"
  "cp_max_connections_per_host (stop_clear p) = cp_max_connections_per_host p"
  by (simp_all add: getOrCreateHostPool_def release_key_def cleanup_host_def stop_running_def stop_clear_def
      Let_def split: option.split prod.split)

lemma pool_params_move:
  "pool_move s s' \<Longrightarrow> cp_max_connections_per_host (fst s') = cp_max_connections_per_host (fst s) \<and>
     length (snd s') = length (snd s)"
proof (induction rule: pool_move.induct)
  case (acquire i ts host port now p t p')
  then show ?case by (auto simp: acquire_def split: if_splits)
next
  case (scan i ts key d so now now' p t p')
  then show ?case
    by (auto simp: acquire_scan_def simp del: map_of_eq_Some_iff split: if_splits option.splits prod.splits)
next
  case (connect i ts key d fd address_ok connected now p t p')
  then show ?case
    by (auto simp: acquire_connect_def Let_def simp del: map_of_eq_Some_iff split: option.splits)
qed auto

lemma pool_params:
  "pool_reached s0 s \<Longrightarrow> cp_max_connections_per_host (fst s) = cp_max_connections_per_host (fst s0) \<and>
     length (snd s) = length (snd s0)"
  by (induction rule: pool_reached.induct) (auto dest: pool_params_move)

end
