(* ===== verification/Pool_Properties.thy ===== *)
theory Pool_Properties
  imports Thread_Pool Connection_Pool_System
begin

text \<open>
  The properties of the thread pool and of the connection pool, under every interleaving of their
  threads.
\<close>

section \<open>Thread pool\<close>

definition pool1 :: "nat ThreadPool" where
  "pool1 = the (run_pool [Enqueue 5, Enqueue 6] (ThreadPool_new 2))"

lemma pool1_run: "run_pool [Enqueue 5, Enqueue 6] (ThreadPool_new 2) = Some pool1"
  by code_simp

lemma pool1_reachable: "pool_reachable 2 pool1"
  using run_pool_reachable [OF pool1_run pool_reachable.init] .

text \<open>C22. Every accepted task is run: from every reachable state of a pool with at least one worker,
  whatever the scheduler does, the pool stops after finitely many steps of its own, and then
  exactly the accepted tasks have been completed, each once, the queue is empty, and a pool that
  was told to stop has joined all its workers. No wake-up of a worker is lost.\<close>

theorem pool_runs_every_task:
  assumes "pool_reachable n p" and "0 < n"
  shows "wfp (\<lambda>q' q :: 'a ThreadPool. pool_step q q') \<and>
    (\<exists>p'. pool_step\<^sup>*\<^sup>* p p' \<and> \<not> (\<exists>q. pool_step p' q)) \<and>
    (\<forall>p'. pool_step\<^sup>*\<^sup>* p p' \<longrightarrow> \<not> (\<exists>q. pool_step p' q) \<longrightarrow>
       mset (tp_completed p') = mset (tp_accepted p) \<and> tp_tasks p' = [] \<and> (tp_stop p' \<longrightarrow> stop_joined p'))"
proof (intro conjI allI impI)
  show "wfp (\<lambda>q' q :: 'a ThreadPool. pool_step q q')" by (rule wfp_pool_step)
  show "\<exists>p'. pool_step\<^sup>*\<^sup>* p p' \<and> \<not> (\<exists>q. pool_step p' q)" by (rule pool_run_ends)
  fix p' assume run: "pool_step\<^sup>*\<^sup>* p p'" and stuck: "\<not> (\<exists>q. pool_step p' q)"
  note final = stuck_pool [OF pool_reachable_steps [OF run assms(1)] assms(2) stuck]
  show "mset (tp_completed p') = mset (tp_accepted p)" using final(2) accepted_steps [OF run] by simp
  show "tp_tasks p' = []" by (rule final(1))
  show "stop_joined p'" if "tp_stop p'" using that by (rule final(3))
qed

lemma pool_runs_every_task_witness:
  "\<exists>p'. pool_step\<^sup>*\<^sup>* pool1 p' \<and> mset (tp_completed p') = {#5, 6#}"
proof -
  have "tp_accepted pool1 = [5, 6]" by code_simp
  then show ?thesis using pool_runs_every_task [OF pool1_reachable] by fastforce
qed

lemma counted_le: "sum_list (map counted ws) \<le> length ws"
proof (induction ws)
  case (Cons w ws)
  have "counted w \<le> 1" by (cases w) simp_all
  then show ?case using Cons by simp
qed simp

text \<open>Tasks leave the queue in the order in which they were accepted, no task is run that was not
  accepted or is run twice, and the counters report the queue and the tasks in execution, of which
  there are never more than workers.\<close>

theorem tasks_taken_in_order:
  assumes "pool_reachable n p"
  shows "tp_accepted p = tp_taken p @ tp_tasks p \<and> mset (tp_completed p) \<subseteq># mset (tp_taken p) \<and>
    tp_pending_tasks p = of_nat (getQueueSize p) \<and>
    getActiveThreads p = of_nat (sum_list (map counted (tp_workers p))) \<and>
    sum_list (map counted (tp_workers p)) \<le> n \<and> getTotalThreads p = n"
  using pool_invs [OF assms] counted_le [of "tp_workers p"]
  by (simp add: tasks_inv_def getQueueSize_def getActiveThreads_def getTotalThreads_def)

lemma tasks_taken_in_order_witness: "tp_accepted pool1 = tp_taken pool1 @ tp_tasks pool1"
  using tasks_taken_in_order [OF pool1_reachable] by simp

text \<open>\<open>stop\<close> is graceful: when it has joined the workers, every task accepted before was
  completed. A pool without workers, which \<open>hardware_concurrency()\<close> may give, is excluded.\<close>

theorem stop_drains_queue:
  assumes "pool_reachable n p" and "0 < n" and "stop_joined p"
  shows "mset (tp_completed p) = mset (tp_accepted p)"
proof -
  from pool_invs [OF assms(1)] have inv: "tasks_inv p" "wakeup_inv p" and "tp_workers p \<noteq> []"
    using assms(2) by auto
  have ws: "\<forall>w \<in> set (tp_workers p). w = Exited" using assms(3) by (simp add: stop_joined_def list_all_iff)
  then have "Exited \<in> set (tp_workers p)" using \<open>tp_workers p \<noteq> []\<close> by (cases "tp_workers p") auto
  then have "tp_tasks p = []" using inv(2) by (simp add: wakeup_inv_def wakes_def)
  then show ?thesis using inv(1) idle_in_hand [of "tp_workers p"] ws by (simp add: tasks_inv_def)
qed

definition stopped_schedule :: "nat action list" where
  "stopped_schedule = [Enqueue 5, Stop, NotifyAll, Worker 0, Worker 1, Worker 0, Worker 0, Worker 0,
     Worker 0, Worker 0, Worker 0]"

definition pool2 :: "nat ThreadPool" where
  "pool2 = the (run_pool stopped_schedule (ThreadPool_new 2))"

lemma stop_drains_queue_witness: "mset (tp_completed pool2) = {#5#}"
proof -
  have run: "run_pool stopped_schedule (ThreadPool_new 2) = Some pool2" by code_simp
  have "stop_joined pool2" "tp_accepted pool2 = [5]" by code_simp+
  then show ?thesis using stop_drains_queue [OF run_pool_reachable [OF run pool_reachable.init]] by simp
qed

text \<open>\<open>waitForCompletion\<close> keeps neither half of its promise. It can return while an accepted task
  has not run, because a worker takes a task from the queue before it counts itself as active. And
  it can stay asleep although every task is completed and the pool is idle, with no notification to
  come: the last worker notifies without the mutex, between the evaluation of the predicate and the
  wait.\<close>

theorem waitForCompletion_unreliable:
  "(\<exists>p :: nat ThreadPool. pool_reachable 1 p \<and> tp_waiter p = Returned \<and>
      tp_accepted p = [5] \<and> tp_completed p = []) \<and>
   (\<exists>p :: nat ThreadPool. pool_reachable 1 p \<and> tp_waiter p = WaiterAsleep \<and>
      tp_accepted p = [5] \<and> tp_completed p = [5] \<and> \<not> (\<exists>q. pool_step p q))"
proof
  let ?early = "[Enqueue (5 :: nat), Worker 0, Wait, Waiter]"
  let ?p = "the (run_pool ?early (ThreadPool_new 1))"
  have "run_pool ?early (ThreadPool_new 1) = Some ?p" by code_simp
  from run_pool_reachable [OF this pool_reachable.init] have "pool_reachable 1 ?p" .
  moreover have "tp_waiter ?p = Returned" "tp_accepted ?p = [5]" "tp_completed ?p = []" by code_simp+
  ultimately show "\<exists>p :: nat ThreadPool. pool_reachable 1 p \<and> tp_waiter p = Returned \<and>
      tp_accepted p = [5] \<and> tp_completed p = []"
    by blast
next
  let ?lost = "[Enqueue (5 :: nat), NotifyOne 0, Worker 0, Worker 0, Wait, Waiter, Worker 0, Worker 0, Worker 0,
      Worker 0, Waiter, Worker 0]"
  let ?p = "the (run_pool ?lost (ThreadPool_new 1))"
  have "run_pool ?lost (ThreadPool_new 1) = Some ?p" by code_simp
  from run_pool_reachable [OF this pool_reachable.init] have "pool_reachable 1 ?p" .
  moreover have "\<not> (\<exists>q. pool_step ?p q)"
  proof
    assume "\<exists>q. pool_step ?p q"
    then obtain q where "pool_step ?p q" ..
    moreover have "tp_workers ?p = [Asleep]" "tp_notify_one ?p = 0" "\<not> tp_notify_all ?p" "tp_waiter ?p = WaiterAsleep"
      by code_simp+
    ultimately show False
      by (cases rule: pool_step.cases) (simp_all add: worker_step_def notify_one_def stop_notify_def waiter_step_def)
  qed
  moreover have "tp_waiter ?p = WaiterAsleep" "tp_accepted ?p = [5]" "tp_completed ?p = [5]" by code_simp+
  ultimately show "\<exists>p :: nat ThreadPool. pool_reachable 1 p \<and> tp_waiter p = WaiterAsleep \<and>
      tp_accepted p = [5] \<and> tp_completed p = [5] \<and> \<not> (\<exists>q. pool_step p q)"
    by blast
qed

section \<open>Connection pool\<close>

text \<open>A run of threads given by their steps; no socket reports an error.\<close>

datatype pool_action = Acquire nat bytes i32 int | Scan nat int | Connect nat int int
  | Release nat int | Leak nat

fun pool_act :: "pool_action \<Rightarrow> ConnectionPool \<times> thread list \<Rightarrow> (ConnectionPool \<times> thread list) option" where
  "pool_act (Acquire i host port now) (p, ts) =
     (if i < length ts \<and> ts ! i = Outside
      then (case acquire host port now p of (t, p') \<Rightarrow> Some (p', ts[i := t])) else None)"
| "pool_act (Scan i now) (p, ts) = (if i < length ts then (case ts ! i of
       Scanning key d \<Rightarrow> (case acquire_scan (\<lambda>_. True) now now key d p of
         Ret (t, p') \<Rightarrow> Some (p', ts[i := t]) | _ \<Rightarrow> None) | _ \<Rightarrow> None) else None)"
| "pool_act (Connect i fd now) (p, ts) = (if i < length ts then (case ts ! i of
       Connecting key d \<Rightarrow> (case acquire_connect (fst (createConnection fd True True)) now key d p of
         Ret (t, p') \<Rightarrow> Some (p', ts[i := t]) | _ \<Rightarrow> None) | _ \<Rightarrow> None) else None)"
| "pool_act (Release i now) (p, ts) = (if i < length ts then (case ts ! i of
       Holding key c \<Rightarrow> Some (release_key (\<lambda>_. True) now key c p, ts[i := Outside]) | _ \<Rightarrow> None) else None)"
| "pool_act (Leak i) (p, ts) = (if i < length ts then (case ts ! i of
       Holding key c \<Rightarrow> Some (p, ts[i := Outside]) | _ \<Rightarrow> None) else None)"

fun pool_acts :: "pool_action list \<Rightarrow> ConnectionPool \<times> thread list \<Rightarrow> (ConnectionPool \<times> thread list) option" where
  "pool_acts [] s = Some s"
| "pool_acts (a # as) s = (case pool_act a s of None \<Rightarrow> None | Some s' \<Rightarrow> pool_acts as s')"

lemma pool_act_move: "pool_act a (p, ts) = Some s' \<Longrightarrow> pool_move (p, ts) s'"
  by (cases a) (auto intro: pool_move.intros split: if_splits thread.splits res.splits prod.splits)

lemma pool_acts_reached: "pool_acts as s = Some s' \<Longrightarrow> pool_reached s0 s \<Longrightarrow> pool_reached s0 s'"
proof (induction "as" arbitrary: s)
  case (Cons a "as")
  then obtain s1 where s1: "pool_act a s = Some s1" "pool_acts as s1 = Some s'"
    by (auto split: option.splits)
  then have "pool_move s s1" by (cases s) (auto dest: pool_act_move)
  then show ?case using Cons.IH [OF s1(2)] Cons.prems(2) pool_reached.move by blast
qed simp

lemma pool_acts_append: "pool_acts (as @ bs) s = Option.bind (pool_acts as s) (pool_acts bs)"
  by (induction "as" arbitrary: s) (auto split: option.split)

text \<open>A pool for one connection per host, used by two threads that connect at once.\<close>

definition cpool :: "nat \<Rightarrow> nat \<Rightarrow> ConnectionPool \<times> thread list" where
  "cpool limit threads = (ConnectionPool_new limit 1 300 5, replicate threads Outside)"

lemma inv_running: "pool_reached (cpool limit n) (p, ts) \<Longrightarrow> cp_running p \<Longrightarrow> inv_parts p ts"
  using pool_inv_reached by (fastforce simp: cpool_def pool_inv_def)

definition race :: "pool_action list" where
  "race = [Acquire 0 ''h'' 80 0, Acquire 1 ''h'' 80 0, Scan 0 1, Scan 1 1, Connect 0 7 2, Connect 1 8 2]"

definition raced :: "ConnectionPool \<times> thread list" where
  "raced = the (pool_acts race (cpool 1 2))"

lemma the_Some: "x \<noteq> None \<Longrightarrow> x = Some (the x)"
  by auto

lemma raced_reached: "pool_reached (cpool 1 2) raced"
proof -
  have "pool_acts race (cpool 1 2) \<noteq> None" by code_simp
  from pool_acts_reached [OF the_Some [OF this] pool_reached.init] show ?thesis by (simp add: raced_def)
qed

text \<open>C23. The books of the pool balance under every interleaving: for every host the idle queue holds
  exactly the connections not in use, each once, the count of active connections is the number of
  those in use, and active and idle connections together are all connections. (While the pool is
  running, as long as every connection is released at most once.)\<close>

theorem pool_books_balance:
  assumes "pool_reached (cpool limit n) (p, ts)" and "cp_running p" and "map_of (cp_pools p) key = Some hp"
  shows "distinct (hp_idle_connections hp) \<and>
    set (hp_idle_connections hp) = {a \<in> set (hp_all_connections hp). \<not> in_use hp a} \<and>
    hp_active_count hp = of_nat (card {a \<in> set (hp_all_connections hp). in_use hp a}) \<and>
    card {a \<in> set (hp_all_connections hp). in_use hp a} + length (hp_idle_connections hp) =
      length (hp_all_connections hp)"
proof -
  have "inv_parts p ts" using assms(1,2) by (rule inv_running)
  then have inv: "host_inv (cp_next p) hp"
    using assms(3) by (simp add: inv_parts_def pools_inv_def del: map_of_eq_Some_iff)
  then have d: "distinct (hp_all_connections hp)" "distinct (hp_idle_connections hp)"
    "set (hp_idle_connections hp) = {a \<in> set (hp_all_connections hp). \<not> in_use hp a}"
    by (simp_all add: host_inv_def)
  have "card {a \<in> set (hp_all_connections hp). in_use hp a} + card {a \<in> set (hp_all_connections hp). \<not> in_use hp a} =
      card (set (hp_all_connections hp))"
    by (subst card_Un_disjoint [symmetric]) (auto intro: arg_cong [where f = card])
  then have "card {a \<in> set (hp_all_connections hp). in_use hp a} + length (hp_idle_connections hp) =
      length (hp_all_connections hp)"
    using d distinct_card by metis
  then show ?thesis using inv by (simp add: host_inv_def)
qed

lemma pool_books_balance_witness:
  "\<exists>hp. map_of (cp_pools (fst raced)) (makeKey ''h'' 80) = Some hp \<and> hp_active_count hp = 2 \<and>
     card {a \<in> set (hp_all_connections hp). in_use hp a} + length (hp_idle_connections hp) = 2"
proof -
  let ?hp = "the (map_of (cp_pools (fst raced)) (makeKey ''h'' 80))"
  have "map_of (cp_pools (fst raced)) (makeKey ''h'' 80) \<noteq> None" by code_simp
  from the_Some [OF this] have k: "map_of (cp_pools (fst raced)) (makeKey ''h'' 80) = Some ?hp" .
  have "cp_running (fst raced)" "hp_active_count ?hp = 2" "hp_all_connections ?hp = [0, 1]" by code_simp+
  moreover from this pool_books_balance [of 1 2 "fst raced" "snd raced", OF _ _ k] raced_reached
  have "card {a \<in> set (hp_all_connections ?hp). in_use ?hp a} + length (hp_idle_connections ?hp) =
      length (hp_all_connections ?hp)" by simp
  ultimately show ?thesis using k by (intro exI [of _ ?hp]) simp
qed

text \<open>C39. No connection is in the hands of two threads at once, of the same host or of two hosts.\<close>

theorem connections_exclusive:
  assumes "pool_reached (cpool limit n) (p, ts)" and "cp_running p"
    and "i < length ts" "j < length ts" "ts ! i = Holding k c" "ts ! j = Holding k' c"
  shows "i = j"
proof -
  have inv: "inv_parts p ts" using assms(1,2) by (rule inv_running)
  then have "held_ok p (Holding k c)" "held_ok p (Holding k' c)"
    using assms nth_mem by (metis inv_parts_def threads_inv_def)+
  then obtain hp hp' where "map_of (cp_pools p) k = Some hp" "c \<in> set (hp_all_connections hp)"
    "map_of (cp_pools p) k' = Some hp'" "c \<in> set (hp_all_connections hp')"
    unfolding held_ok_Holding by blast
  then have "k = k'" using inv unfolding inv_parts_def pools_inv_def by blast
  then show ?thesis using inv assms(3-6) by (simp add: inv_parts_def threads_inv_def exclusive_def)
qed

lemma connections_exclusive_witness:
  "\<exists>!i. i < (2 :: nat) \<and> snd raced ! i = Holding (makeKey ''h'' 80) 1"
proof (rule ex1I)
  have ts: "cp_running (fst raced)" "length (snd raced) = 2" "snd raced ! 1 = Holding (makeKey ''h'' 80) 1"
    by code_simp+
  then show "1 < (2 :: nat) \<and> snd raced ! 1 = Holding (makeKey ''h'' 80) 1" by simp
  have run: "pool_reached (cpool 1 2) (fst raced, snd raced)" using raced_reached by simp
  show "i = 1" if "i < 2 \<and> snd raced ! i = Holding (makeKey ''h'' 80) 1" for i
    by (rule connections_exclusive [OF run ts(1) _ _ _ ts(3)]) (use that ts(2) in simp_all)
qed

text \<open>C40. The bound on the connections of a host holds up to the race in \<open>acquire\<close>: with \<open>n\<close> threads a
  host has at most \<open>n - 1\<close> connections more than \<open>max_connections_per_host\<close>, and a single thread
  never exceeds it.\<close>

theorem pool_bound:
  assumes "pool_reached (cpool limit n) (p, ts)" and "cp_running p" and "0 < n"
    and "map_of (cp_pools p) key = Some hp"
  shows "length (hp_all_connections hp) + 1 \<le> limit + n"
proof -
  have inv: "inv_parts p ts" using assms(1,2) by (rule inv_running)
  have "cp_max_connections_per_host p = limit \<and> length ts = n"
    using pool_params [OF assms(1)] by (simp add: cpool_def ConnectionPool_new_def)
  moreover have "ts \<noteq> []" using calculation assms(3) by auto
  ultimately show ?thesis using inv assms(4) by (fastforce simp: inv_parts_def bound_inv_def simp del: map_of_eq_Some_iff)
qed

lemma pool_bound_witness:
  "\<exists>hp. map_of (cp_pools (fst raced)) (makeKey ''h'' 80) = Some hp \<and> length (hp_all_connections hp) + 1 \<le> 1 + 2"
proof -
  have "map_of (cp_pools (fst raced)) (makeKey ''h'' 80) \<noteq> None" "cp_running (fst raced)" by code_simp+
  then show ?thesis using pool_bound [of 1 2 "fst raced" "snd raced"] raced_reached by auto
qed

text \<open>The bound is exceeded: two threads that find room for one connection both connect, because the
  mutex is released meanwhile and the number of connections is not looked at again.\<close>

theorem pool_bound_exceeded:
  "\<exists>p ts hp. pool_reached (cpool 1 2) (p, ts) \<and> cp_max_connections_per_host p = 1 \<and>
     map_of (cp_pools p) (makeKey ''h'' 80) = Some hp \<and> length (hp_all_connections hp) = 2"
proof -
  let ?hp = "the (map_of (cp_pools (fst raced)) (makeKey ''h'' 80))"
  have "map_of (cp_pools (fst raced)) (makeKey ''h'' 80) \<noteq> None" by code_simp
  from the_Some [OF this] have "map_of (cp_pools (fst raced)) (makeKey ''h'' 80) = Some ?hp" .
  moreover have "cp_max_connections_per_host (fst raced) = 1" "length (hp_all_connections ?hp) = 2" by code_simp+
  moreover have "pool_reached (cpool 1 2) (fst raced, snd raced)" using raced_reached by simp
  ultimately show ?thesis by blast
qed

text \<open>A connection that is given back in good order is handed out again before a new one is made: if
  it is the first valid one in the idle queue, \<open>acquire\<close> returns it at once, counts it as active,
  and has dropped and closed exactly the broken ones in front of it.\<close>

theorem acquire_reuses_idle:
  assumes "cp_running p" and "map_of (cp_pools p) key = Some hp" and "host_inv (cp_next p) hp"
    and "hp_idle_connections hp = broken @ c # rest"
    and "\<And>b. b \<in> set broken \<Longrightarrow> \<not> isConnectionValid so (cp_conns p b)"
    and "isConnectionValid so (cp_conns p c)"
  shows "\<exists>p' hp'. acquire_scan so now now' key d p = Ret (Holding key c, p') \<and>
    map_of (cp_pools p') key = Some hp' \<and> in_use hp' c \<and>
    hp_idle_connections hp' = rest \<and> hp_active_count hp' = hp_active_count hp + 1 \<and>
    set (hp_all_connections hp') = set (hp_all_connections hp) - set broken \<and>
    (\<forall>b. tc_connected (cp_conns p' b) \<longleftrightarrow> tc_connected (cp_conns p b) \<and> b \<notin> set broken)"
proof -
  obtain hp' conns' where take: "take_idle so now (hp_idle_connections hp) hp (cp_conns p) = (Some c, hp', conns')"
    and hp': "in_use hp' c" "hp_idle_connections hp' = rest" "hp_active_count hp' = hp_active_count hp + 1"
      "set (hp_all_connections hp') = set (hp_all_connections hp) - set broken"
      "\<forall>b. tc_connected (conns' b) \<longleftrightarrow> tc_connected (cp_conns p b) \<and> b \<notin> set broken"
    using take_idle_first [OF assms(3,4), where so = so and conns = "cp_conns p" and now = now] assms(5,6) by blast
  have "acquire_scan so now now' key d p = Ret (Holding key c, put_pool key hp' conns' p)"
    using take assms(1,2) by (simp add: acquire_scan_def)
  moreover have "cp_conns (put_pool key hp' conns' p) = conns'" by (simp add: put_pool_def)
  ultimately show ?thesis using hp' by (intro exI [of _ "put_pool key hp' conns' p"] exI [of _ hp']) simp
qed

definition reuse :: "pool_action list" where
  "reuse = [Acquire 0 ''h'' 80 0, Scan 0 1, Connect 0 7 2, Release 0 3]"

definition reused :: "ConnectionPool \<times> thread list" where
  "reused = the (pool_acts reuse (cpool 1 1))"

lemma acquire_reuses_idle_witness:
  "\<exists>p'. acquire_scan (\<lambda>_. True) 4 4 (makeKey ''h'' 80) 9 (fst reused) = Ret (Holding (makeKey ''h'' 80) 0, p')"
proof -
  let ?k = "makeKey ''h'' 80" let ?hp = "the (map_of (cp_pools (fst reused)) ?k)"
  have "pool_acts reuse (cpool 1 1) \<noteq> None" by code_simp
  from pool_acts_reached [OF the_Some [OF this] pool_reached.init]
  have run: "pool_reached (cpool 1 1) reused" by (simp add: reused_def)
  have "map_of (cp_pools (fst reused)) ?k \<noteq> None" by code_simp
  from the_Some [OF this] have k: "map_of (cp_pools (fst reused)) ?k = Some ?hp" .
  have st: "cp_running (fst reused)" "hp_idle_connections ?hp = [] @ 0 # []"
    "isConnectionValid (\<lambda>_. True) (cp_conns (fst reused) 0)" by code_simp+
  have "inv_parts (fst reused) (snd reused)"
    using inv_running [of 1 1 "fst reused" "snd reused"] run st(1) by simp
  then have "host_inv (cp_next (fst reused)) ?hp" using k unfolding inv_parts_def pools_inv_def by blast
  from acquire_reuses_idle [OF st(1) k this st(2) _ st(3), of 4 4 9] show ?thesis by auto
qed

text \<open>One pass of the clean-up over a host with more than the minimum of connections drops every
  connection that is not in use, however recently it was used: the minimum is not kept, since the
  number of connections it is compared with does not change during the pass. With at most the
  minimum, exactly the idle connections past the timeout go. Connections in use always stay.\<close>

theorem cleanup_drops_idle:
  assumes "map_of (cp_pools p) key = Some hp"
  shows "\<exists>hp'. map_of (cp_pools (cleanup_host now key p)) key = Some hp' \<and>
    hp_all_connections hp' =
      (if cp_min_connections_per_host p < length (hp_all_connections hp)
       then filter (in_use hp) (hp_all_connections hp)
       else filter (\<lambda>a. in_use hp a \<or> now a - pc_last_used (hp_objects hp a) \<le> cp_idle_timeout p)
              (hp_all_connections hp)) \<and>
    hp_idle_connections hp' = filter (\<lambda>a. \<not> in_use hp a) (hp_all_connections hp') \<and>
    hp_active_count hp' = hp_active_count hp"
proof -
  have keep: "cleanup_keep p hp now = (if cp_min_connections_per_host p < length (hp_all_connections hp)
      then in_use hp else (\<lambda>a. in_use hp a \<or> now a - pc_last_used (hp_objects hp a) \<le> cp_idle_timeout p))"
    by (auto simp: fun_eq_iff cleanup_keep_def in_use_def Let_def)
  show ?thesis using assms by (simp add: cleanup_host_def keep in_use_def Let_def)
qed

lemma cleanup_drops_idle_witness:
  "\<exists>hp'. map_of (cp_pools (cleanup_host (\<lambda>_. 0) (makeKey ''h'' 80)
     ((fst reused)\<lparr>cp_min_connections_per_host := 0\<rparr>))) (makeKey ''h'' 80) = Some hp' \<and> hp_all_connections hp' = []"
proof -
  let ?k = "makeKey ''h'' 80" let ?p = "(fst reused)\<lparr>cp_min_connections_per_host := 0\<rparr>"
  let ?hp = "the (map_of (cp_pools ?p) ?k)"
  have "map_of (cp_pools ?p) ?k \<noteq> None" by code_simp
  from the_Some [OF this] have k: "map_of (cp_pools ?p) ?k = Some ?hp" .
  have "filter (in_use ?hp) (hp_all_connections ?hp) = []"
    "cp_min_connections_per_host ?p < length (hp_all_connections ?hp)" by code_simp+
  then show ?thesis using cleanup_drops_idle [OF k, of "\<lambda>_. 0"] by auto
qed

text \<open>A thread that connects and does not give the connection back, round after round.\<close>

definition host_of :: "ConnectionPool \<Rightarrow> bytes \<Rightarrow> HostPool" where
  "host_of p key = (case map_of (cp_pools p) key of None \<Rightarrow> HostPool_new | Some hp \<Rightarrow> hp)"

definition leaked :: "nat \<Rightarrow> HostPool \<Rightarrow> bool" where
  "leaked k hp \<longleftrightarrow> hp_idle_connections hp = [] \<and> length (hp_all_connections hp) = k \<and>
     (\<forall>a \<in> set (hp_all_connections hp). in_use hp a)"

lemma getOrCreate_host: "map_of (cp_pools (getOrCreateHostPool key p)) key = Some (host_of p key)"
  by (auto simp: getOrCreateHostPool_def host_of_def map_of_AList_update split: option.split)

lemma scan_leaked:
  assumes "cp_running p" "map_of (cp_pools p) key = Some hp" "leaked k hp"
  shows "acquire_scan so now now' key d p =
    Ret (if k < cp_max_connections_per_host p then Connecting key d else wait_or_throw key d now',
         put_pool key hp (cp_conns p) p)"
  using assms by (simp add: acquire_scan_def leaked_def)

lemma leak_round:
  assumes run: "pool_reached s0 (p, [Outside])" and p: "cp_running p" "leaked k (host_of p (makeKey host port))"
    and k: "k < cp_max_connections_per_host p"
  shows "\<exists>p'. pool_reached s0 (p', [Outside]) \<and> cp_running p' \<and> leaked (Suc k) (host_of p' (makeKey host port)) \<and>
    cp_max_connections_per_host p' = cp_max_connections_per_host p"
proof -
  let ?key = "makeKey host port" let ?hp = "host_of p (makeKey host port)"
  let ?d = "cp_acquire_timeout p"
  define p1 where "p1 = getOrCreateHostPool ?key p"
  have p1: "cp_running p1" "map_of (cp_pools p1) ?key = Some ?hp" "cp_max_connections_per_host p1 = cp_max_connections_per_host p"
    using p(1) getOrCreate_host by (simp_all add: p1_def) (simp add: getOrCreateHostPool_def split: option.split)
  have acq: "acquire host port 0 p = (Scanning ?key ?d, p1)" using p(1) by (simp add: acquire_def p1_def)
  have r1: "pool_reached s0 (p1, [Scanning ?key ?d])"
    using pool_reached.move [OF run pool_move.acquire [OF _ _ acq, of 0]] by simp
  define p2 where "p2 = put_pool ?key ?hp (cp_conns p1) p1"
  have scan: "acquire_scan (\<lambda>_. True) 0 0 ?key ?d p1 = Ret (Connecting ?key ?d, p2)"
    using scan_leaked [OF p1(1,2) p(2)] k p1(3) by (simp add: p2_def)
  have r2: "pool_reached s0 (p2, [Connecting ?key ?d])"
    using pool_reached.move [OF r1 pool_move.scan [OF _ _ scan, of 0]] by simp
  obtain p3 c where conn: "acquire_connect (fst (createConnection 0 True True)) 0 ?key ?d p2 = Ret (Holding ?key c, p3)"
    and hp3: "map_of (cp_pools p3) ?key = Some (?hp\<lparr>
      hp_objects := (hp_objects ?hp)(c := \<lparr>pc_connection = c, pc_last_used = 0, pc_in_use = True\<rparr>),
      hp_all_connections := hp_all_connections ?hp @ [c], hp_active_count := hp_active_count ?hp + 1\<rparr>)"
    and p3: "cp_running p3" "cp_max_connections_per_host p3 = cp_max_connections_per_host p"
    using p1 by (simp add: acquire_connect_def createConnection_def p2_def Let_def)
  have "pool_reached s0 (p3, [Holding ?key c])"
    using pool_reached.move [OF r2 pool_move.connect [OF _ _ conn, of 0]] by simp
  then have "pool_reached s0 (p3, [Outside])"
    using pool_reached.move pool_move.leak [of 0 "[Holding ?key c]" ?key c p3] by fastforce
  moreover have "leaked (Suc k) (host_of p3 ?key)"
    using p(2) hp3 by (simp add: host_of_def leaked_def in_use_def)
  ultimately show ?thesis using p3 by blast
qed

lemma leak_rounds:
  "k \<le> limit \<Longrightarrow> \<exists>p. pool_reached (cpool limit 1) (p, [Outside]) \<and> cp_running p \<and>
     leaked k (host_of p (makeKey host port)) \<and> cp_max_connections_per_host p = limit"
proof (induction k)
  case 0
  have "pool_reached (cpool limit 1) (fst (cpool limit 1), [Outside])"
    using pool_reached.init [of "cpool limit 1"] by (simp add: cpool_def)
  moreover have "leaked 0 (host_of (fst (cpool limit 1)) (makeKey host port))"
    by (simp add: cpool_def host_of_def ConnectionPool_new_def HostPool_new_def leaked_def)
  moreover have "cp_running (fst (cpool limit 1))" "cp_max_connections_per_host (fst (cpool limit 1)) = limit"
    by (simp_all add: cpool_def ConnectionPool_new_def)
  ultimately show ?case by blast
next
  case (Suc k)
  then obtain p where "pool_reached (cpool limit 1) (p, [Outside])" "cp_running p"
    "leaked k (host_of p (makeKey host port))" "cp_max_connections_per_host p = limit" by auto
  then show ?case using leak_round [of "cpool limit 1" p k host port] Suc.prems by auto
qed

text \<open>Connections that are not given back exhaust the pool, whatever its limit: after as many failed
  discoveries as a host may have connections (\<open>discoverServiceFromRegistry\<close> does not release the
  connection when it throws), a pool is reached in which \<open>acquire\<close> never returns or makes a
  connection for that host, but waits and, from its deadline on, throws.\<close>

theorem leak_exhausts_pool:
  "\<exists>p d hp. pool_reached (cpool limit 1) (p, [Scanning (makeKey host port) d]) \<and>
     map_of (cp_pools p) (makeKey host port) = Some hp \<and> length (hp_all_connections hp) = limit \<and>
     (\<forall>so now now'. \<exists>p'. acquire_scan so now now' (makeKey host port) d p =
        Ret (if now' \<ge> d then Threw else Waiting (makeKey host port) d, p'))"
proof -
  let ?key = "makeKey host port"
  obtain p where run: "pool_reached (cpool limit 1) (p, [Outside])" and p: "cp_running p"
    "leaked limit (host_of p ?key)" "cp_max_connections_per_host p = limit"
    using leak_rounds by blast
  let ?p1 = "getOrCreateHostPool ?key p" let ?d = "cp_acquire_timeout p"
  have acq: "acquire host port 0 p = (Scanning ?key ?d, ?p1)" using p(1) by (simp add: acquire_def)
  have "pool_reached (cpool limit 1) (?p1, [Scanning ?key ?d])"
    using pool_reached.move [OF run pool_move.acquire [OF _ _ acq, of 0]] by simp
  moreover have "cp_running ?p1" using p(1) by (simp add: getOrCreateHostPool_def split: option.split)
  note scan = scan_leaked [OF this getOrCreate_host p(2)]
  ultimately show ?thesis using getOrCreate_host p(2,3)
    by (intro exI [of _ ?p1] exI [of _ ?d] exI [of _ "host_of p ?key"])
      (simp add: scan wait_or_throw_def leaked_def)
qed

end
