(* ===== verification/Distributed_Registry.thy ===== *)
theory Distributed_Registry
  imports Raft_System Registry_State_Machine Registry_Protocol
begin

text \<open>
  registry/distributed_registry_server.cpp: the registry server of a cluster node. Registrations
  and heartbeats become log entries of the node's \<open>RaftNode\<close>; discoveries read the table of its
  \<open>RegistryStateMachine\<close>, which is the state machine inside \<open>dr_raft\<close>.

  The serializers and parsers of distributed_registry.proto are generated at build time, so they
  are arguments: \<open>ser\<close> writes a \<open>ServiceOperation\<close>, \<open>parse\<close> reads it, \<open>ser_status\<close> and
  \<open>parses_status\<close> belong to the cluster status. A handler asks \<open>isLeader()\<close> first and proposes
  later, without a lock in between: \<open>n0\<close> is the node when it was asked, \<open>n\<close> the node that gets the
  proposal. The texts of the responses are UTF-8.
\<close>

section \<open>State\<close>

record DistributedRegistryServer =
  dr_node_id :: bytes
  dr_host :: bytes
  dr_client_port :: i32
  dr_raft_port :: i32
  dr_raft :: "RegistryStateMachine RaftNode"
  dr_running :: bool

definition DistributedRegistryServer_new ::
    "bytes \<Rightarrow> bytes \<Rightarrow> i32 \<Rightarrow> i32 \<Rightarrow> RaftPeer list \<Rightarrow> DistributedRegistryServer" where
  "DistributedRegistryServer_new node_id host client_port raft_port peers =
     \<lparr>dr_node_id = node_id, dr_host = host, dr_client_port = client_port, dr_raft_port = raft_port,
      dr_raft = RaftNode_new node_id host raft_port peers RegistryStateMachine_new, dr_running = False\<rparr>"

text \<open>
  \<open>listening\<close> is the result of \<open>client_server_->start()\<close>; the flag stays set when it fails.
\<close>

definition DistributedRegistryServer_start :: "bool \<Rightarrow> DistributedRegistryServer \<Rightarrow> DistributedRegistryServer" where
  "DistributedRegistryServer_start listening d =
     (if dr_running d then d
      else if \<not> listening then d\<lparr>dr_running := True\<rparr>
      else d\<lparr>dr_running := True, dr_raft := RaftNode_start (dr_raft d)\<rparr>)"

definition DistributedRegistryServer_stop :: "DistributedRegistryServer \<Rightarrow> DistributedRegistryServer" where
  "DistributedRegistryServer_stop d =
     (if \<not> dr_running d then d else d\<lparr>dr_running := False, dr_raft := RaftNode_stop (dr_raft d)\<rparr>)"

text \<open>What the server tells of its node.\<close>

definition DistributedRegistryServer_isLeader :: "DistributedRegistryServer \<Rightarrow> bool" where
  "DistributedRegistryServer_isLeader d = isLeader (dr_raft d)"

definition DistributedRegistryServer_getLeaderId :: "DistributedRegistryServer \<Rightarrow> bytes" where
  "DistributedRegistryServer_getLeaderId d = getLeaderId (dr_raft d)"

text \<open>One pass of \<open>cleanupLoop\<close> after its sleep.\<close>

definition cleanup_pass :: "int \<Rightarrow> DistributedRegistryServer \<Rightarrow> DistributedRegistryServer" where
  "cleanup_pass now d =
     (if \<not> dr_running d then d
      else d\<lparr>dr_raft := (dr_raft d)\<lparr>rn_state_machine := removeExpiredServices now (rn_state_machine (dr_raft d))\<rparr>\<rparr>)"

section \<open>Handlers\<close>

definition utf8_text :: "nat list \<Rightarrow> bytes" where
  "utf8_text codes = map char_of codes"

definition not_leader_text :: bytes where
  "not_leader_text = utf8_text [228, 184, 141, 230, 152, 175, 76, 101, 97, 100, 101, 114, 232, 138, 130,
     231, 130, 185, 239, 188, 140, 232, 175, 183, 232, 129, 148, 231, 179, 187, 76, 101, 97, 100, 101, 114, 58, 32]"

definition register_text :: "bool \<Rightarrow> bytes" where
  "register_text success = utf8_text ([230, 156, 141, 229, 138, 161, 230, 179, 168, 229, 134, 140] @
     (if success then [230, 136, 144, 229, 138, 159] else [229, 164, 177, 232, 180, 165]))"

definition heartbeat_text :: "bool \<Rightarrow> bytes" where
  "heartbeat_text success = utf8_text ([229, 191, 131, 232, 183, 179] @
     (if success then [230, 142, 165, 230, 148, 182, 230, 136, 144, 229, 138, 159]
      else [229, 164, 132, 231, 144, 134, 229, 164, 177, 232, 180, 165]))"

type_synonym node = "RegistryStateMachine RaftNode"

definition proposeServiceOperation ::
    "(ServiceOperation \<Rightarrow> bytes) \<Rightarrow> int \<Rightarrow> bytes \<Rightarrow> bytes \<Rightarrow> bytes \<Rightarrow> i32 \<Rightarrow> node \<Rightarrow> (bool \<times> node) res" where
  "proposeServiceOperation ser timestamp operation_type service_name host port n =
     (let operation = \<lparr>so_operation_type = operation_type, so_service_name = service_name,
            so_host = host, so_port = port, so_timestamp = timestamp\<rparr>
      in proposeLogEntry ''service_operation'' (ser operation) n)"

definition Distributed_handleServiceRegister ::
    "(ServiceOperation \<Rightarrow> bytes) \<Rightarrow> int \<Rightarrow> node \<Rightarrow> ServiceRegisterRequest \<Rightarrow> node \<Rightarrow>
     (ServiceRegisterResponse \<times> node) res" where
  "Distributed_handleServiceRegister ser timestamp n0 request n =
     (if \<not> isLeader n0
      then Ret (ServiceRegisterResponse_default\<lparr>srs_success := False,
             srs_message := not_leader_text @ rn_leader_id n0\<rparr>, n)
      else res_bind (proposeServiceOperation ser timestamp ''register'' (srq_service_name request)
             (srq_host request) (srq_port request) n) (\<lambda>(success, n').
           Ret (ServiceRegisterResponse_default\<lparr>srs_success := success,
             srs_message := register_text success\<rparr>, n')))"

definition Distributed_handleServiceDiscovery ::
    "ServiceDiscoveryRequest \<Rightarrow> node \<Rightarrow> ServiceDiscoveryResponse" where
  "Distributed_handleServiceDiscovery request n =
     (let instances = getServiceInstances (dq_service_name request) (rn_state_machine n)
      in ServiceDiscoveryResponse_default\<lparr>ds_services :=
           map instance_info (filter (\<lambda>i. si_host i \<noteq> [] \<and> 0 < sint (si_port i)) instances)\<rparr>)"

definition Distributed_handleHeartbeat ::
    "(ServiceOperation \<Rightarrow> bytes) \<Rightarrow> int \<Rightarrow> node \<Rightarrow> HeartbeatRequest \<Rightarrow> node \<Rightarrow>
     (HeartbeatResponse \<times> node) res" where
  "Distributed_handleHeartbeat ser timestamp n0 request n =
     (if \<not> isLeader n0
      then Ret (HeartbeatResponse_default\<lparr>hs_success := False,
             hs_message := not_leader_text @ rn_leader_id n0\<rparr>, n)
      else res_bind (proposeServiceOperation ser timestamp ''heartbeat'' (hq_service_name request)
             (hq_host request) (hq_port request) n) (\<lambda>(success, n').
           Ret (HeartbeatResponse_default\<lparr>hs_success := success, hs_message := heartbeat_text success\<rparr>, n')))"

section \<open>Connections\<close>

text \<open>The four attempts of \<open>handleClientConnection\<close>, in its order, as in \<open>registry_dispatch\<close>.\<close>

definition Distributed_try_register ::
    "pb_runtime \<Rightarrow> (ServiceOperation \<Rightarrow> bytes) \<Rightarrow> int \<Rightarrow> node \<Rightarrow> bytes \<Rightarrow> node \<Rightarrow> (bytes \<times> node) res option" where
  "Distributed_try_register rt ser timestamp n0 data n = (case ServiceRegisterRequest_deserialize rt data of
       None \<Rightarrow> None
     | Some request \<Rightarrow>
         if srq_service_name request \<noteq> [] \<and> srq_host request \<noteq> [] \<and> 0 < sint (srq_port request)
         then Some (res_bind (Distributed_handleServiceRegister ser timestamp n0 request n)
                (\<lambda>(response, n'). Ret (ServiceRegisterResponse_serialize rt response, n')))
         else None)"

definition Distributed_try_discovery ::
    "pb_runtime \<Rightarrow> bytes \<Rightarrow> node \<Rightarrow> (bytes \<times> node) res option" where
  "Distributed_try_discovery rt data n = (case ServiceDiscoveryRequest_deserialize rt data of
       None \<Rightarrow> None
     | Some request \<Rightarrow>
         if dq_service_name request \<noteq> []
         then Some (Ret (ServiceDiscoveryResponse_serialize rt (Distributed_handleServiceDiscovery request n), n))
         else None)"

definition Distributed_try_heartbeat ::
    "pb_runtime \<Rightarrow> (ServiceOperation \<Rightarrow> bytes) \<Rightarrow> int \<Rightarrow> node \<Rightarrow> bytes \<Rightarrow> node \<Rightarrow> (bytes \<times> node) res option" where
  "Distributed_try_heartbeat rt ser timestamp n0 data n = (case HeartbeatRequest_deserialize rt data of
       None \<Rightarrow> None
     | Some request \<Rightarrow>
         if hq_service_name request \<noteq> [] \<and> hq_host request \<noteq> [] \<and> 0 < sint (hq_port request)
         then Some (res_bind (Distributed_handleHeartbeat ser timestamp n0 request n)
                (\<lambda>(response, n'). Ret (HeartbeatResponse_serialize rt response, n')))
         else None)"

definition handleClusterStatus :: "node \<Rightarrow> ClusterStatusResponse res" where
  "handleClusterStatus n = getClusterStatus n"

definition try_status ::
    "(ClusterStatusResponse \<Rightarrow> bytes) \<Rightarrow> (bytes \<Rightarrow> bool) \<Rightarrow> bytes \<Rightarrow> node \<Rightarrow> (bytes \<times> node) res option" where
  "try_status ser_status parses_status data n =
     (if parses_status data
      then Some (res_bind (handleClusterStatus n) (\<lambda>response. Ret (ser_status response, n))) else None)"

text \<open>\<open>None\<close>: no attempt answered.\<close>

definition Distributed_dispatch ::
    "pb_runtime \<Rightarrow> (ServiceOperation \<Rightarrow> bytes) \<Rightarrow> (ClusterStatusResponse \<Rightarrow> bytes) \<Rightarrow> (bytes \<Rightarrow> bool) \<Rightarrow>
     int \<Rightarrow> node \<Rightarrow> bytes \<Rightarrow> node \<Rightarrow> (bytes \<times> node) res option" where
  "Distributed_dispatch rt ser ser_status parses_status timestamp n0 data n =
     or_else (Distributed_try_register rt ser timestamp n0 data n)
       (or_else (Distributed_try_discovery rt data n)
         (or_else (Distributed_try_heartbeat rt ser timestamp n0 data n)
           (try_status ser_status parses_status data n)))"

definition handleClientConnection ::
    "pb_runtime \<Rightarrow> (ServiceOperation \<Rightarrow> bytes) \<Rightarrow> (ClusterStatusResponse \<Rightarrow> bytes) \<Rightarrow> (bytes \<Rightarrow> bool) \<Rightarrow>
     int \<Rightarrow> node \<Rightarrow> DistributedRegistryServer \<Rightarrow> TcpConnection \<Rightarrow> sock \<Rightarrow>
     (DistributedRegistryServer \<times> (TcpConnection \<times> sock) option) res" where
  "handleClientConnection rt ser ser_status parses_status timestamp n0 d conn s =
     (let (data, conn, s) = TcpConnection_receive conn s in
      if data = [] then Ret (d, Some (conn, s))
      else case Distributed_dispatch rt ser ser_status parses_status timestamp n0 data (dr_raft d) of
        None \<Rightarrow> Ret (d, Some (conn, s))
      | Some answer \<Rightarrow> res_bind answer (\<lambda>(response_data, n').
          Ret (d\<lparr>dr_raft := n'\<rparr>, map_option snd (TcpConnection_send response_data conn s))))"

section \<open>The running server\<close>

text \<open>
  The steps of a server to which no other node sends append requests: the steps of its Raft node
  (\<open>clock e\<close> is the time at which the entry \<open>e\<close> is applied), its clients, the clean-up.
\<close>

inductive distributed_step ::
    "(bytes \<Rightarrow> ServiceOperation option) \<Rightarrow> DistributedRegistryServer \<Rightarrow> DistributedRegistryServer \<Rightarrow> bool" for parse where
  raft: "local_step (\<lambda>e. applyLogEntry parse e (clock e)) (dr_raft d) n' \<Longrightarrow>
    distributed_step parse d (d\<lparr>dr_raft := n'\<rparr>)"
| client: "handleClientConnection rt ser ser_status parses_status timestamp n0 d conn s = Ret (d', rest) \<Longrightarrow>
    distributed_step parse d d'"
| cleanup: "distributed_step parse d (cleanup_pass now d)"
| start: "distributed_step parse d (DistributedRegistryServer_start listening d)"
| stop: "distributed_step parse d (DistributedRegistryServer_stop d)"

inductive distributed_reached ::
    "(bytes \<Rightarrow> ServiceOperation option) \<Rightarrow> DistributedRegistryServer \<Rightarrow> DistributedRegistryServer \<Rightarrow> bool" for parse d0 where
  init: "distributed_reached parse d0 d0"
| step: "distributed_reached parse d0 d \<Longrightarrow> distributed_step parse d d' \<Longrightarrow> distributed_reached parse d0 d'"

section \<open>What the handlers do\<close>

lemma proposeServiceOperation_eq:
  "proposeServiceOperation ser timestamp type name host port n =
     (if rn_role n = LEADER
      then Ret (True, n\<lparr>rn_log := rn_log n @ [\<lparr>le_term = rn_current_term n, le_index = int (length (rn_log n)) + 1,
             le_operation = ''service_operation'',
             le_data = ser \<lparr>so_operation_type = type, so_service_name = name, so_host = host, so_port = port,
               so_timestamp = timestamp\<rparr>\<rparr>]\<rparr>)
      else Ret (False, n))"
  by (simp add: proposeServiceOperation_def proposeLogEntry_eq)

text \<open>A client's request leaves the node alone or appends one entry to a leader's log.\<close>

definition registration_entry :: "(ServiceOperation \<Rightarrow> bytes) \<Rightarrow> int \<Rightarrow> ServiceRegisterRequest \<Rightarrow> node \<Rightarrow> LogEntry" where
  "registration_entry ser timestamp q n =
     \<lparr>le_term = rn_current_term n, le_index = int (length (rn_log n)) + 1, le_operation = ''service_operation'',
      le_data = ser \<lparr>so_operation_type = ''register'', so_service_name = srq_service_name q,
        so_host = srq_host q, so_port = srq_port q, so_timestamp = timestamp\<rparr>\<rparr>"

lemma register_cases:
  "Distributed_handleServiceRegister ser timestamp n0 q n =
     (if isLeader n0 \<and> isLeader n
      then Ret (ServiceRegisterResponse_default\<lparr>srs_success := True, srs_message := register_text True\<rparr>,
                n\<lparr>rn_log := rn_log n @ [registration_entry ser timestamp q n]\<rparr>)
      else Ret (ServiceRegisterResponse_default\<lparr>srs_success := False,
             srs_message := (if isLeader n0 then register_text False else not_leader_text @ rn_leader_id n0)\<rparr>, n))"
  by (simp add: Distributed_handleServiceRegister_def proposeServiceOperation_eq registration_entry_def isLeader_def)

lemma try_heartbeat_never:
  "Distributed_try_register rt ser timestamp n0 data n = None \<Longrightarrow>
   Distributed_try_heartbeat rt ser timestamp n0 data n = None"
  by (auto simp: Distributed_try_register_def Distributed_try_heartbeat_def heartbeat_parses_as_register
      heartbeat_as_register_def split: option.splits if_splits)

lemma dispatch_no_heartbeat:
  "Distributed_dispatch rt ser ser_status parses_status timestamp n0 data n =
     or_else (Distributed_try_register rt ser timestamp n0 data n)
       (or_else (Distributed_try_discovery rt data n) (try_status ser_status parses_status data n))"
  unfolding Distributed_dispatch_def
  by (cases "Distributed_try_register rt ser timestamp n0 data n"; cases "Distributed_try_discovery rt data n")
    (simp_all add: try_heartbeat_never)

lemma or_else_Some: "or_else x y = Some z \<longleftrightarrow> x = Some z \<or> x = None \<and> y = Some z"
  by (cases x) auto

lemma dispatch_node:
  assumes "Distributed_dispatch rt ser ser_status parses_status timestamp n0 data n = Some (Ret (resp, n'))"
  shows "n' = n \<or> (\<exists>q. isLeader n0 \<and> isLeader n \<and> ServiceRegisterRequest_deserialize rt data = Some q \<and>
    n' = n\<lparr>rn_log := rn_log n @ [registration_entry ser timestamp q n]\<rparr>)"
  using assms
  by (auto simp: dispatch_no_heartbeat or_else_Some Distributed_try_register_def Distributed_try_discovery_def
      try_status_def handleClusterStatus_def register_cases getClusterStatus_def split: option.splits if_splits)

lemma client_connection_cases:
  assumes "handleClientConnection rt ser ser_status parses_status timestamp n0 d conn s = Ret (d', rest)"
  shows "d' = d \<or> (\<exists>data resp n'. Distributed_dispatch rt ser ser_status parses_status timestamp n0 data (dr_raft d) =
    Some (Ret (resp, n')) \<and> d' = d\<lparr>dr_raft := n'\<rparr>)"
proof -
  obtain data conn' s' where "TcpConnection_receive conn s = (data, conn', s')" by (rule prod_cases3)
  then show ?thesis using assms
    by (cases "Distributed_dispatch rt ser ser_status parses_status timestamp n0 data (dr_raft d)")
      (auto simp: handleClientConnection_def split: if_splits)
qed

end
