(* ===== verification/State_Machine_Interface.thy ===== *)
theory State_Machine_Interface
  imports Rpc_Prelude
begin

text \<open>
  registry/raft_state_machine.h, the abstract class \<open>RaftStateMachine\<close>: what Raft promises to and
  expects of the machine it replicates. \<open>view\<close> is what the replicas have to agree on: the time at
  which a node applies an entry may not be seen in it. A machine that also takes snapshots restores
  its view from them; \<open>fits n\<close> says that it holds what \<open>n\<close> entries can have made, and the machine
  needs that number below 2^64, because it counts what it stores. The locales are interpreted on
  RegistryStateMachine in Registry_Replicas.
\<close>

text \<open>Entries, each with the time at which this node applies it.\<close>

definition replay :: "('e \<Rightarrow> int \<Rightarrow> 'm \<Rightarrow> 'm) \<Rightarrow> ('e \<times> int) list \<Rightarrow> 'm \<Rightarrow> 'm" where
  "replay step es m = fold (\<lambda>(e, t). step e t) es m"

lemma replay_Nil [simp]: "replay step [] m = m"
  by (simp add: replay_def)

lemma replay_Cons [simp]: "replay step ((e, t) # es) m = replay step es (step e t m)"
  by (simp add: replay_def)

lemma replay_append: "replay step (es @ es') m = replay step es' (replay step es m)"
  by (simp add: replay_def)

locale raft_state_machine =
  fixes step :: "'e \<Rightarrow> int \<Rightarrow> 'm \<Rightarrow> 'm"
    and view :: "'m \<Rightarrow> 'v"
    and ok :: "'m \<Rightarrow> bool"
  assumes step_ok: "ok m \<Longrightarrow> ok (step e t m)"
    and step_view: "ok m \<Longrightarrow> ok m' \<Longrightarrow> view m = view m' \<Longrightarrow> view (step e t m) = view (step e t' m')"
begin

lemma replay_ok: "ok m \<Longrightarrow> ok (replay step es m)"
  by (induction es arbitrary: m) (auto simp: step_ok)

text \<open>Replicas that apply the same entries agree, whatever their clocks say.\<close>

lemma replicas_agree:
  "ok m \<Longrightarrow> ok m' \<Longrightarrow> view m = view m' \<Longrightarrow> map fst es = map fst es' \<Longrightarrow>
   view (replay step es m) = view (replay step es' m')"
proof (induction es arbitrary: es' m m')
  case (Cons x es)
  obtain e t where x: "x = (e, t)" by (cases x)
  obtain t' rest where es': "es' = (e, t') # rest" "map fst es = map fst rest"
    using Cons.prems(4) by (cases es') (auto simp: x)
  show ?case
    using Cons.IH [OF step_ok step_ok step_view, of m m' rest] Cons.prems(1-3) es'(2) by (simp add: x es'(1))
qed simp

end

locale snapshotting_machine = raft_state_machine step view ok
  for step :: "'e \<Rightarrow> int \<Rightarrow> 'm \<Rightarrow> 'm" and view :: "'m \<Rightarrow> 'v" and ok :: "'m \<Rightarrow> bool" +
  fixes snapshot :: "'m \<Rightarrow> bytes"
    and restore :: "bytes \<Rightarrow> 'm \<Rightarrow> 'm res"
    and readable :: "'e \<Rightarrow> int \<Rightarrow> bool"
    and fits :: "nat \<Rightarrow> 'm \<Rightarrow> bool"
  assumes step_fits: "ok m \<Longrightarrow> fits n m \<Longrightarrow> readable e t \<Longrightarrow> fits (Suc n) (step e t m)"
    and restored: "ok m \<Longrightarrow> fits n m \<Longrightarrow> n < 2 ^ 64 \<Longrightarrow>
      \<exists>m2. restore (snapshot m) m' = Ret m2 \<and> ok m2 \<and> view m2 = view m"
begin

lemma replay_fits:
  "ok m \<Longrightarrow> fits n m \<Longrightarrow> \<forall>(e, t) \<in> set es. readable e t \<Longrightarrow> fits (n + length es) (replay step es m)"
proof (induction es arbitrary: n m)
  case (Cons x es)
  obtain e t where x: "x = (e, t)" by (cases x)
  have "fits (Suc n) (step e t m)" using Cons.prems by (intro step_fits) (auto simp: x)
  from Cons.IH [OF step_ok [OF Cons.prems(1)] this] Cons.prems(3) show ?case by (simp add: x)
qed simp

text \<open>A node that restores a snapshot and applies the entries after it has what a node has that
  applied all entries.\<close>

lemma catches_up:
  assumes "ok m" and "fits n m" and "\<forall>(e, t) \<in> set es. readable e t" and "n + length es < 2 ^ 64"
    and "map fst rest = map fst rest'"
  shows "\<exists>m2. restore (snapshot (replay step es m)) m' = Ret m2 \<and>
    view (replay step rest m2) = view (replay step (es @ rest') m)"
proof -
  note ok = replay_ok [OF assms(1), of es]
  obtain m2 where m2: "restore (snapshot (replay step es m)) m' = Ret m2" "ok m2" "view m2 = view (replay step es m)"
    using restored [OF ok replay_fits [OF assms(1-3)] assms(4)] by blast
  then show ?thesis using replicas_agree [OF m2(2) ok m2(3) assms(5)] by (simp add: replay_append)
qed

end

end
