(* ===== verification/Distributed_Properties.thy ===== *)
theory Distributed_Properties
  imports Distributed_Registry Pb_Reference State_Machine_Interface
begin

text \<open>
  The properties of the distributed registry: what its clients are told and what the cluster
  does, and how far replicas of the table agree.
\<close>

section \<open>Registrations\<close>


text \<open>An encoding of operations for the examples; any injective one would do.\<close>

definition ser_ex :: "ServiceOperation \<Rightarrow> bytes" where
  "ser_ex o1 = so_service_name o1"

definition parse_ex :: "bytes \<Rightarrow> ServiceOperation option" where
  "parse_ex b = Some \<lparr>so_operation_type = ''register'', so_service_name = b, so_host = ''h'', so_port = 80, so_timestamp = 5\<rparr>"

definition reg_ex :: ServiceRegisterRequest where
  "reg_ex = ServiceRegisterRequest_default\<lparr>srq_service_name := ''S'', srq_host := ''h'', srq_port := 80\<rparr>"

text \<open>A cluster of one node, started and elected.\<close>

definition single :: DistributedRegistryServer where
  "single = DistributedRegistryServer_start True (DistributedRegistryServer_new ''n'' ''h'' 9000 9001 [])"

definition single_leader :: DistributedRegistryServer where
  "single_leader = single\<lparr>dr_raft := elected (dr_raft single)\<rparr>"

lemmas single_defs = single_leader_def single_def DistributedRegistryServer_start_def
  DistributedRegistryServer_new_def RaftNode_start_def RaftNode_new_def elected_def

lemma single_election: "election_timeout net (dr_raft single) = Ret (dr_raft single_leader)"
  by (simp add: election_timeout_def with_lock_def startElection_eq newer_term_def wins_def majority_def
      single_leader_def) (simp add: single_defs wrap64_def in64_def)

lemma single_isLeader: "isLeader (dr_raft single_leader)"
  by (simp add: isLeader_def single_defs)


text \<open>Without append requests nothing is ever committed, so the table stays empty.\<close>

definition uncommitted :: "DistributedRegistryServer \<Rightarrow> bool" where
  "uncommitted d \<longleftrightarrow> raft_inv (dr_raft d) \<and> rn_commit_index (dr_raft d) = 0 \<and> rn_last_applied (dr_raft d) = 0 \<and>
     sm_services (rn_state_machine (dr_raft d)) = []"

lemma local_uncommitted:
  assumes "local_step f n n'" "raft_inv n" "rn_commit_index n = 0" "rn_last_applied n = 0"
  shows "rn_last_applied n' = 0 \<and> rn_state_machine n' = rn_state_machine n"
  using assms
proof (induction rule: local_step.induct)
  case (vote q n resp n')
  then show ?case by (auto simp: handleRequestVote_eq after_vote_def Let_def)
next
  case (election vnet n n')
  from election(1) show ?case using election(4) by (cases rule: election_timeout_cases) (simp_all add: elected_def)
next
  case (heartbeat anet n n')
  then show ?case using heartbeat_round_Ret by fastforce
next
  case (applier n n')
  then show ?case by (auto simp: applier_round_eq split: if_splits)
next
  case (propose operation data n ok n')
  then show ?case by (auto simp: proposeLogEntry_eq split: if_splits)
qed (simp_all add: RaftNode_start_def RaftNode_stop_def)

lemma uncommitted_raft:
  "local_step f (dr_raft d) n' \<Longrightarrow> uncommitted d \<Longrightarrow> uncommitted (d\<lparr>dr_raft := n'\<rparr>)"
  using local_uncommitted [of f "dr_raft d" n'] local_commit [of f "dr_raft d" n'] raft_inv_local [of f "dr_raft d" n']
  by (auto simp: uncommitted_def)

lemma uncommitted_step: "distributed_step parse d d' \<Longrightarrow> uncommitted d \<Longrightarrow> uncommitted d'"
proof (induction rule: distributed_step.induct)
  case (raft clock d n')
  then show ?case by (rule uncommitted_raft)
next
  case (client rt ser ser_status parses_status timestamp n0 d conn s d' rest)
  from client_connection_cases [OF client(1)] show ?case using client(2) dispatch_node
    by (fastforce simp: uncommitted_def raft_inv_def)
next
  case (cleanup d now)
  then show ?case by (simp add: uncommitted_def cleanup_pass_def removeExpiredServices_def raft_inv_def)
next
  case (start d listening)
  then show ?case by (simp add: uncommitted_def DistributedRegistryServer_start_def RaftNode_start_def raft_inv_def)
next
  case (stop d)
  then show ?case by (simp add: uncommitted_def DistributedRegistryServer_stop_def RaftNode_stop_def raft_inv_def)
qed

lemma uncommitted_reached:
  "distributed_reached parse (DistributedRegistryServer_new node_id host client_port raft_port peers) d \<Longrightarrow> uncommitted d"
proof (induction rule: distributed_reached.induct)
  case init
  then show ?case using raft_inv_new
    by (simp add: uncommitted_def DistributedRegistryServer_new_def) (simp add: RaftNode_new_def RegistryStateMachine_new_def)
qed (rule uncommitted_step)

text \<open>C35. What a leader confirms never becomes visible: in every state a server reaches by its own steps
  and its clients' requests (elected by its peers or not), every discovery finds nothing, however
  many registrations were confirmed before. This is so in a cluster of one node as well. Only append
  requests of another leader could fill the table, and no leader commits any entry.\<close>

theorem confirmed_registrations_invisible:
  assumes "distributed_reached parse (DistributedRegistryServer_new node_id host client_port raft_port peers) d"
  shows "ds_services (Distributed_handleServiceDiscovery q (dr_raft d)) = []"
  using uncommitted_reached [OF assms]
  by (simp add: uncommitted_def Distributed_handleServiceDiscovery_def getServiceInstances_def
      ServiceDiscoveryResponse_default_def)

lemma dr_raft_upd: "dr_raft (d\<lparr>dr_raft := x\<rparr>) = x"
  by simp

lemma single_leader_reached:
  "distributed_reached parse (DistributedRegistryServer_new ''n'' ''h'' 9000 9001 []) single_leader"
proof -
  have "distributed_reached parse (DistributedRegistryServer_new ''n'' ''h'' 9000 9001 []) single"
    unfolding single_def by (rule distributed_reached.step [OF distributed_reached.init distributed_step.start])
  moreover have "single_leader = single\<lparr>dr_raft := dr_raft single_leader\<rparr>"
    unfolding single_leader_def by (simp only: dr_raft_upd)
  then have "distributed_step parse single single_leader"
    using distributed_step.raft [OF local_step.election [OF single_election]] by metis
  ultimately show ?thesis by (rule distributed_reached.step)
qed

lemma confirmed_registrations_invisible_witness:
  "\<exists>resp n'. Distributed_handleServiceRegister ser_ex 5 (dr_raft single_leader) reg_ex (dr_raft single_leader) =
       Ret (resp, n') \<and> srs_success resp \<and>
     ds_services (Distributed_handleServiceDiscovery (ServiceDiscoveryRequest_default\<lparr>dq_service_name := ''S''\<rparr>) n') = []"
proof -
  define n' where "n' = dr_raft single_leader\<lparr>rn_log := rn_log (dr_raft single_leader) @
    [registration_entry ser_ex 5 reg_ex (dr_raft single_leader)]\<rparr>"
  have handled: "Distributed_handleServiceRegister ser_ex 5 (dr_raft single_leader) reg_ex (dr_raft single_leader) =
      Ret (ServiceRegisterResponse_default\<lparr>srs_success := True, srs_message := register_text True\<rparr>, n')"
    by (simp only: register_cases single_isLeader n'_def simp_thms if_True)
  have "proposeLogEntry ''service_operation''
      (le_data (registration_entry ser_ex 5 reg_ex (dr_raft single_leader))) (dr_raft single_leader) = Ret (True, n')"
    using single_isLeader by (simp add: proposeLogEntry_eq registration_entry_def isLeader_def n'_def)
  then have "distributed_step parse_ex single_leader (single_leader\<lparr>dr_raft := n'\<rparr>)"
    by (rule distributed_step.raft [OF local_step.propose])
  from confirmed_registrations_invisible [OF distributed_reached.step [OF single_leader_reached this],
      of "ServiceDiscoveryRequest_default\<lparr>dq_service_name := ''S''\<rparr>"]
  have "ds_services (Distributed_handleServiceDiscovery (ServiceDiscoveryRequest_default\<lparr>dq_service_name := ''S''\<rparr>) n') = []"
    by (simp only: dr_raft_upd)
  then show ?thesis using handled by auto
qed

section \<open>Heartbeats\<close>

text \<open>Every entry that a client's connection adds to the log is a registration: a heartbeat, which has the
  wire format of a registration, is proposed as one, so that the operations \<open>heartbeat\<close> and
  \<open>unregister\<close> of the state machine are never used by a leader of this program.\<close>

theorem heartbeats_never_proposed:
  assumes "handleClientConnection rt ser ser_status parses_status timestamp n0 d conn s = Ret (d', rest)"
  shows "rn_log (dr_raft d') = rn_log (dr_raft d) \<or>
    (\<exists>e (q :: ServiceRegisterRequest). rn_log (dr_raft d') = rn_log (dr_raft d) @ [e] \<and> isLeader (dr_raft d) \<and>
       le_data e = ser \<lparr>so_operation_type = ''register'', so_service_name = srq_service_name q,
         so_host = srq_host q, so_port = srq_port q, so_timestamp = timestamp\<rparr>)"
proof -
  consider "d' = d" | data resp n' where
      "Distributed_dispatch rt ser ser_status parses_status timestamp n0 data (dr_raft d) = Some (Ret (resp, n'))"
      "d' = d\<lparr>dr_raft := n'\<rparr>"
    using client_connection_cases [OF assms] by blast
  then show ?thesis
  proof cases
    case 1
    then show ?thesis by simp
  next
    case 2
    from dispatch_node [OF 2(1)] show ?thesis
    proof
      assume "n' = dr_raft d"
      then show ?thesis using 2(2) by simp
    next
      assume "\<exists>q. isLeader n0 \<and> isLeader (dr_raft d) \<and> ServiceRegisterRequest_deserialize rt data = Some q \<and>
        n' = dr_raft d\<lparr>rn_log := rn_log (dr_raft d) @ [registration_entry ser timestamp q (dr_raft d)]\<rparr>"
      then obtain q where "isLeader (dr_raft d)"
        "rn_log n' = rn_log (dr_raft d) @ [registration_entry ser timestamp q (dr_raft d)]" by auto
      then show ?thesis using 2(2) by (intro disjI2 exI [of _ "registration_entry ser timestamp q (dr_raft d)"] exI [of _ q])
        (simp_all add: registration_entry_def)
    qed
  qed
qed

text \<open>A leader receives a heartbeat.\<close>

definition beat_sock :: sock where
  "beat_sock = \<lparr>sk_sends = [4, 1000], sk_tx = [],
     sk_rx = frame (HeartbeatRequest_serialize std_runtime (HeartbeatRequest_default\<lparr>hq_service_name := ''S'',
       hq_host := ''h'', hq_port := 80\<rparr>)), sk_closed = False\<rparr>"

definition beat :: "(DistributedRegistryServer \<times> (TcpConnection \<times> sock) option) res" where
  "beat = handleClientConnection std_runtime ser_ex (\<lambda>_. []) (\<lambda>_. False) 5 (dr_raft single_leader) single_leader
     (TcpConnection_new 3) beat_sock"

fun added_log :: "(DistributedRegistryServer \<times> (TcpConnection \<times> sock) option) res \<Rightarrow> LogEntry list option" where
  "added_log (Ret (d, rest)) = Some (rn_log (dr_raft d))"
| "added_log _ = None"

lemma heartbeats_never_proposed_witness:
  "\<exists>d' rest e. beat = Ret (d', rest) \<and> rn_log (dr_raft d') = [e] \<and>
     (\<exists>q :: ServiceRegisterRequest. le_data e = ser_ex \<lparr>so_operation_type = ''register'', so_service_name = srq_service_name q,
         so_host = srq_host q, so_port = srq_port q, so_timestamp = 5\<rparr>)"
proof -
  have log: "map_option length (added_log beat) = Some 1" "rn_log (dr_raft single_leader) = []" by code_simp+
  obtain d' rest where ret: "beat = Ret (d', rest)"
    using log(1) by (cases beat rule: added_log.cases) simp_all
  have "added_log beat = Some (rn_log (dr_raft d'))" unfolding ret by (rule added_log.simps)
  with ret have beat: "beat = Ret (d', rest)" "length (rn_log (dr_raft d')) = 1" using log(1) by auto
  show ?thesis using heartbeats_never_proposed [OF beat(1) [unfolded beat_def]] beat log(2) by auto
qed

section \<open>Replicas\<close>

text \<open>The table after a log has been applied; \<open>clock e\<close> is the time at which this node applied \<open>e\<close>.\<close>

definition replica :: "(bytes \<Rightarrow> ServiceOperation option) \<Rightarrow> LogEntry list \<Rightarrow> (LogEntry \<Rightarrow> int) \<Rightarrow>
    RegistryStateMachine \<Rightarrow> RegistryStateMachine" where
  "replica parse log clock m = fold (\<lambda>e. applyLogEntry parse e (clock e)) log m"

lemma apply_ok: "sm_ok m \<Longrightarrow> sm_ok (applyLogEntry parse e t m)"
  by (simp add: sm_ok_def applyLogEntry_def applyServiceOperation_def registerService_ok unregisterService_ok
      updateHeartbeat_ok split: option.splits)

lemma operation_dom:
  assumes "sm_ok m1" "sm_ok m2" "dom (sm_view m1) = dom (sm_view m2)"
  shows "dom (sm_view (applyServiceOperation op t1 m1)) = dom (sm_view (applyServiceOperation op t2 m2))"
proof -
  let ?k = "(so_service_name op, so_host op, so_port op)"
  have known: "sm_view m1 ?k = None \<longleftrightarrow> sm_view m2 ?k = None"
    using assms(3) by (metis domIff)
  have "dom (view_heartbeat ?k t1 (sm_view m1)) = dom (view_heartbeat ?k t2 (sm_view m2))"
    using known assms(3) by (auto simp: view_heartbeat_def domIff)
  moreover have "sm_view (registerService n h p t m) = (sm_view m)((n, h, p) \<mapsto> t)" for n h p t m
    by (simp add: sm_view_def registerService_view)
  moreover have "sm_view (updateHeartbeat n h p t m) = view_heartbeat (n, h, p) t (sm_view m)" for n h p t m
    by (simp add: sm_view_def updateHeartbeat_view)
  moreover have "sm_ok m \<Longrightarrow> sm_view (unregisterService n h p m) = (sm_view m)((n, h, p) := None)" for n h p m
    by (simp add: sm_view_def sm_ok_def unregisterService_view)
  ultimately show ?thesis using assms by (simp add: applyServiceOperation_def)
qed

lemma apply_dom:
  assumes "sm_ok m1" "sm_ok m2" "dom (sm_view m1) = dom (sm_view m2)"
  shows "dom (sm_view (applyLogEntry parse e t1 m1)) = dom (sm_view (applyLogEntry parse e t2 m2))"
  using operation_dom [OF assms] assms(3) by (simp add: applyLogEntry_def split: option.split)

text \<open>What replicas agree on: which instances of which services are registered.\<close>

abbreviation known :: "RegistryStateMachine \<Rightarrow> endpoint set" where
  "known m \<equiv> dom (sm_view m)"

interpretation rs: raft_state_machine "applyLogEntry parse" known sm_ok for parse
  by unfold_locales (fact apply_ok, fact apply_dom)

lemma replica_replay:
  "replica parse log clock m = replay (applyLogEntry parse) (map (\<lambda>e. (e, clock e)) log) m"
  by (simp add: replica_def replay_def fold_map comp_def)

text \<open>Two nodes that apply the same log, each at its own times, know the same instances of the same
  services; only the times of the last heartbeats depend on the node.\<close>

theorem replicas_same_services:
  assumes "sm_ok m"
  shows "dom (sm_view (replica parse log clock1 m)) = dom (sm_view (replica parse log clock2 m))"
  unfolding replica_replay by (rule rs.replicas_agree) (simp_all add: assms comp_def)

lemma replicas_same_services_witness:
  "dom (sm_view (replica parse_ex [registration_entry ser_ex 5 reg_ex (dr_raft single_leader)] (\<lambda>_. 7)
     RegistryStateMachine_new)) =
   dom (sm_view (replica parse_ex [registration_entry ser_ex 5 reg_ex (dr_raft single_leader)] (\<lambda>_. 9)
     RegistryStateMachine_new))"
  by (rule replicas_same_services) (simp add: sm_ok_def RegistryStateMachine_new_def)

text \<open>C37. The agreement ends with the first clean-up, which is not part of the log: whenever a node applies
  the registration of a new instance later than another node did, there is a time at which a
  clean-up on both removes the instance from one table and leaves it in the other.\<close>

theorem replicas_diverge:
  assumes "parse (le_data e) = Some op" "le_operation e = ''service_operation''"
    "so_operation_type op = ''register''" "k = (so_service_name op, so_host op, so_port op)"
    "sm_ok m" "sm_view m k = None" "t1 < t2"
  shows "\<exists>now\<ge>t2. sm_view (removeExpiredServices now (applyLogEntry parse e t1 m)) k = None \<and>
    sm_view (removeExpiredServices now (applyLogEntry parse e t2 m)) k = Some t2"
proof -
  have applied: "sm_view (applyLogEntry parse e t m) k = Some t" for t
    using assms by (simp add: applyLogEntry_def applyServiceOperation_def sm_view_def registerService_view)
  let ?now = "t2 + seconds 30"
  have "sm_view (removeExpiredServices ?now (applyLogEntry parse e t m)) k =
      (if expired ?now t then None else Some t)" for t
    using applied [of t] apply_ok [OF assms(5), of parse e t]
    by (simp add: sm_view_def sm_ok_def removeExpired_view view_expire_def)
  then show ?thesis using assms(7) by (intro exI [of _ ?now]) (simp add: expired_def seconds_def)
qed

lemma replicas_diverge_witness:
  "\<exists>now\<ge>9. sm_view (removeExpiredServices now (applyLogEntry parse_ex
       (registration_entry ser_ex 5 reg_ex (dr_raft single_leader)) 7 RegistryStateMachine_new)) (''S'', ''h'', 80) = None \<and>
     sm_view (removeExpiredServices now (applyLogEntry parse_ex
       (registration_entry ser_ex 5 reg_ex (dr_raft single_leader)) 9 RegistryStateMachine_new)) (''S'', ''h'', 80) = Some 9"
  by (rule replicas_diverge [where op = "\<lparr>so_operation_type = ''register'', so_service_name = ''S'', so_host = ''h'',
       so_port = 80, so_timestamp = 5\<rparr>"])
    (simp_all add: parse_ex_def registration_entry_def ser_ex_def reg_ex_def ServiceRegisterRequest_default_def
      sm_ok_def sm_view_def RegistryStateMachine_new_def)

end
