(* ===== verification/Server_Sockets.thy ===== *)
theory Server_Sockets
  imports Epoll_Server "HOL-Library.Multiset"
begin

text \<open>
  The descriptors of the two servers. \<open>TcpServer\<close> of common/network.cpp is the blocking server of
  the registry and of the Raft nodes: one thread accepts, and every connection gets a thread of
  its own. Its member \<open>epoll_fd_\<close> is never assigned. The second part follows the descriptors of
  \<open>EpollServer\<close> from \<open>start\<close> to \<open>stop\<close>: both servers own what they opened, and the logs
  \<open>ts_closed_fds\<close> and \<open>ep_closed_fds\<close> record every call of \<open>close\<close>.
\<close>

section \<open>TcpServer\<close>

record TcpServer =
  ts_port :: int
  ts_listen_fd :: int
  ts_epoll_fd :: int
  ts_running :: bool
  ts_has_handler :: bool
  ts_handed :: "int list"
  ts_closed_fds :: "int list"

definition TcpServer_new :: "int \<Rightarrow> TcpServer" where
  "TcpServer_new port = \<lparr>ts_port = port, ts_listen_fd = -1, ts_epoll_fd = -1, ts_running = False,
     ts_has_handler = False, ts_handed = [], ts_closed_fds = []\<rparr>"

text \<open>The results of \<open>socket\<close>, \<open>bind\<close> and \<open>listen\<close>; the one of \<open>setsockopt\<close> is not looked at.\<close>

definition TcpServer_start :: "int \<Rightarrow> int \<Rightarrow> int \<Rightarrow> TcpServer \<Rightarrow> bool \<times> TcpServer" where
  "TcpServer_start socket_fd bind_result listen_result s =
     (let s = s\<lparr>ts_listen_fd := socket_fd\<rparr> in
      if socket_fd < 0 then (False, s)
      else if bind_result < 0
      then (False, s\<lparr>ts_closed_fds := ts_closed_fds s @ [ts_listen_fd s]\<rparr>)
      else if listen_result < 0
      then (False, s\<lparr>ts_closed_fds := ts_closed_fds s @ [ts_listen_fd s]\<rparr>)
      else (True, s\<lparr>ts_running := True\<rparr>))"

definition TcpServer_stop :: "TcpServer \<Rightarrow> TcpServer" where
  "TcpServer_stop s =
     (let s = s\<lparr>ts_running := False\<rparr> in
      if ts_listen_fd s \<ge> 0
      then s\<lparr>ts_closed_fds := ts_closed_fds s @ [ts_listen_fd s], ts_listen_fd := -1\<rparr>
      else s)"

definition TcpServer_setConnectionHandler :: "TcpServer \<Rightarrow> TcpServer" where
  "TcpServer_setConnectionHandler s = s\<lparr>ts_has_handler := True\<rparr>"

text \<open>
  \<open>run\<close>: each iteration tests \<open>running_\<close>, then waits in \<open>accept\<close>. A step is the result of that
  call, and whether another thread ran \<open>stop\<close> while it waited. \<open>ts_handed\<close> is the sequence of
  connections for which a handler thread was started. When the steps are used up the thread is
  still waiting.
\<close>

primrec TcpServer_run :: "(int \<times> bool) list \<Rightarrow> TcpServer \<Rightarrow> TcpServer" where
  "TcpServer_run [] s = s"
| "TcpServer_run (step # steps) s =
     (if \<not> ts_running s then s
      else
        let (client_fd, stopped) = step;
            s = (if stopped then TcpServer_stop s else s);
            s = (if client_fd \<ge> 0
                 then if ts_has_handler s then s\<lparr>ts_handed := ts_handed s @ [client_fd]\<rparr>
                      else s\<lparr>ts_closed_fds := ts_closed_fds s @ [client_fd]\<rparr>
                 else s)
        in TcpServer_run steps s)"

text \<open>The connections \<open>run\<close> takes: up to and including the one accepted while \<open>stop\<close> ran.\<close>

primrec taken :: "(int \<times> bool) list \<Rightarrow> int list" where
  "taken [] = []"
| "taken (step # steps) =
     (if fst step \<ge> 0 then [fst step] else []) @ (if snd step then [] else taken steps)"

lemma run_stopped [simp]: "\<not> ts_running s \<Longrightarrow> TcpServer_run steps s = s"
  by (cases steps) simp_all

lemma stop_fields [simp]:
  "ts_running (TcpServer_stop s) = False"
  "ts_has_handler (TcpServer_stop s) = ts_has_handler s"
  "ts_handed (TcpServer_stop s) = ts_handed s"
  by (simp_all add: TcpServer_stop_def Let_def)

lemma run_keeps_handler [simp]: "ts_has_handler (TcpServer_run steps s) = ts_has_handler s"
  by (induction steps arbitrary: s) (auto simp: Let_def split: prod.split)

lemma run_handed:
  "ts_running s \<Longrightarrow> ts_has_handler s \<Longrightarrow>
   ts_handed (TcpServer_run steps s) = ts_handed s @ taken steps"
  by (induction steps arbitrary: s) (auto simp: Let_def split: prod.split)

lemma run_running:
  "ts_running (TcpServer_run steps s) \<longleftrightarrow> ts_running s \<and> (\<forall>st \<in> set steps. \<not> snd st)"
  by (induction steps arbitrary: s) (auto simp: Let_def split: prod.split)

lemma stop_closes:
  "ts_closed_fds (TcpServer_stop s) =
     (if 0 \<le> ts_listen_fd s then ts_closed_fds s @ [ts_listen_fd s] else ts_closed_fds s)"
  "0 \<le> ts_listen_fd s \<Longrightarrow> ts_listen_fd (TcpServer_stop s) = -1"
  "ts_closed_fds (TcpServer_stop (s\<lparr>ts_handed := h\<rparr>)) = ts_closed_fds (TcpServer_stop s)"
  "ts_listen_fd (TcpServer_stop (s\<lparr>ts_handed := h\<rparr>)) = ts_listen_fd (TcpServer_stop s)"
  by (simp_all add: TcpServer_stop_def Let_def)

lemma run_listen:
  "ts_running s \<Longrightarrow> ts_has_handler s \<Longrightarrow> 0 \<le> ts_listen_fd s \<Longrightarrow>
   ts_closed_fds (TcpServer_stop (TcpServer_run steps s)) = ts_closed_fds s @ [ts_listen_fd s]"
proof (induction steps arbitrary: s)
  case (Cons step steps)
  obtain fd stopped where step: "step = (fd, stopped)" by (cases step)
  show ?case
  proof (cases stopped)
    case True
    then show ?thesis using Cons.prems by (simp add: step Let_def stop_closes(1,2))
  next
    case False
    have "ts_closed_fds (TcpServer_stop (TcpServer_run steps (s\<lparr>ts_handed := h\<rparr>))) =
        ts_closed_fds s @ [ts_listen_fd s]" for h
      using Cons.IH [of "s\<lparr>ts_handed := h\<rparr>"] Cons.prems by simp
    then show ?thesis using Cons False by (simp add: step Let_def)
  qed
qed (simp add: stop_closes(1))

text \<open>A blocking server that started and was given a handler starts exactly one handler thread
  for every connection accepted before \<open>stop\<close>, and one for the connection whose \<open>accept\<close> was still
  waiting when \<open>stop\<close> ran, in the order of the calls; its listening socket is closed once.\<close>

theorem tcp_server_serves:
  assumes "TcpServer_start fd b l (TcpServer_setConnectionHandler (TcpServer_new port)) = (True, s)"
  shows "ts_handed (TcpServer_run steps s) = taken steps \<and>
    ts_closed_fds (TcpServer_stop (TcpServer_run steps s)) = [fd]"
proof -
  have s: "ts_running s" "ts_has_handler s" "ts_handed s = []" "ts_listen_fd s = fd" "0 \<le> fd"
    "ts_closed_fds s = []"
    using assms by (auto simp: TcpServer_start_def TcpServer_setConnectionHandler_def
        TcpServer_new_def Let_def split: if_splits)
  show ?thesis
    using run_handed [OF s(1,2)] s(3) run_listen [OF s(1,2)] s(4-6) by simp
qed

lemma tcp_server_serves_witness:
  "ts_handed (TcpServer_run [(5, False), (-1, False), (6, True), (7, False)]
     (snd (TcpServer_start 3 0 0 (TcpServer_setConnectionHandler (TcpServer_new 9000))))) = [5, 6]"
  using tcp_server_serves [of 3 0 0 9000
      "snd (TcpServer_start 3 0 0 (TcpServer_setConnectionHandler (TcpServer_new 9000)))"
      "[(5, False), (-1, False), (6, True), (7, False)]"]
  by (simp add: TcpServer_start_def TcpServer_setConnectionHandler_def TcpServer_new_def)

text \<open>A start that fails in \<open>bind\<close> or \<open>listen\<close> closes the socket but keeps its number, so that
  \<open>stop\<close>, which the destructor calls, closes that number a second time: by then it may belong to
  another connection.\<close>

theorem failed_start_closes_twice:
  assumes "0 \<le> fd" and "b < 0 \<or> l < 0"
  shows "fst (TcpServer_start fd b l (TcpServer_new port)) = False \<and>
    ts_closed_fds (TcpServer_stop (snd (TcpServer_start fd b l (TcpServer_new port)))) = [fd, fd]"
  using assms by (auto simp: TcpServer_start_def TcpServer_stop_def TcpServer_new_def Let_def)

lemma failed_start_closes_twice_witness:
  "ts_closed_fds (TcpServer_stop (snd (TcpServer_start 7 (-1) 0 (TcpServer_new 9000)))) = [7, 7]"
  using failed_start_closes_twice [of 7 "-1" 0 9000] by simp

section \<open>EpollServer\<close>

text \<open>The descriptors an event brings in, and the sequences of events the kernel can deliver.\<close>

fun accepted_fds :: "epoll_event \<Rightarrow> int list" where
  "accepted_fds (Incoming accepted) = map fst accepted"
| "accepted_fds _ = []"

primrec events_ok :: "epoll_event list \<Rightarrow> EpollServer \<Rightarrow> bool" where
  "events_ok [] s \<longleftrightarrow> True"
| "events_ok (ev # evs) s \<longleftrightarrow> event_ok ev s \<and> events_ok evs (epoll_dispatch ev s)"

text \<open>The descriptors that were closed or are still in the table.\<close>

definition owned :: "EpollServer \<Rightarrow> int multiset" where
  "owned s = mset (ep_closed_fds s) + mset (map fst (ep_connections s))"

lemma mset_delete:
  "distinct (map fst al) \<Longrightarrow> map_of al k = Some v \<Longrightarrow>
   add_mset k (mset (map fst (AList.delete k al))) = mset (map fst al)"
proof (induction al)
  case (Cons x al)
  then show ?case by (cases x) (auto simp: delete_notin_dom dom_map_of_conv_image_fst)
qed simp

lemma owned_close: "epoll_inv s \<Longrightarrow> owned (closeConnection fd s) = owned s"
  using mset_delete [of "ep_connections s" fd]
  by (auto simp: closeConnection_def owned_def epoll_inv_def split: option.split)

lemma owned_read [simp]: "owned (read_chunk fd c s) = owned s"
proof (cases "map_of (ep_connections s) fd")
  case (Some conn)
  then have "map fst (AList.update fd w (ep_connections s)) = map fst (ep_connections s)" for w
    by (simp add: update_keys) (metis domI dom_map_of_conv_image_fst)
  then show ?thesis by (simp add: read_chunk_def owned_def Some case_prod_unfold Let_def)
qed (simp add: read_chunk_def)

lemma owned_reads: "owned (fold (read_chunk fd) cs s) = owned s"
  by (induction cs arbitrary: s) simp_all

lemma owned_accept:
  "fst a \<notin> fst ` set (ep_connections s) \<Longrightarrow> owned (accept_one a s) = add_mset (fst a) (owned s)"
  by (cases a) (simp add: accept_one_def owned_def update_nonmem)

lemma owned_accepts:
  "distinct (map fst as) \<Longrightarrow> fst ` set as \<inter> fst ` set (ep_connections s) = {} \<Longrightarrow>
   owned (fold accept_one as s) = mset (map fst as) + owned s"
proof (induction as arbitrary: s)
  case (Cons a as)
  have "fst ` set as \<inter> insert (fst a) (fst ` set (ep_connections s)) = {}" using Cons.prems by auto
  then have "fst ` set as \<inter> fst ` set (ep_connections (accept_one a s)) = {}"
    using accept_one_keys [of a s] by blast
  then show ?case using Cons owned_accept [of a s] by simp
qed simp

lemma owned_dispatch:
  "epoll_inv s \<Longrightarrow> event_ok ev s \<Longrightarrow> owned (epoll_dispatch ev s) = mset (accepted_fds ev) + owned s"
  by (cases ev) (simp_all add: handleNewConnection_def owned_accepts handleClientData_def Let_def
      owned_close owned_reads epoll_inv_reads split: option.split)

lemma owned_events:
  "epoll_inv s \<Longrightarrow> events_ok evs s \<Longrightarrow>
   owned (fold epoll_dispatch evs s) = mset (concat (map accepted_fds evs)) + owned s"
  by (induction evs arbitrary: s) (simp_all add: owned_dispatch epoll_inv_dispatch)

lemma dispatch_own_fds [simp]:
  "ep_listen_fd (epoll_dispatch ev s) = ep_listen_fd s \<and> ep_epoll_fd (epoll_dispatch ev s) = ep_epoll_fd s \<and>
   ep_running (epoll_dispatch ev s) = ep_running s" (is "?P (epoll_dispatch ev s)")
proof -
  let ?same = "\<lambda>s t. ep_listen_fd t = ep_listen_fd s \<and> ep_epoll_fd t = ep_epoll_fd s \<and>
    ep_running t = ep_running s"
  have 1: "?same s (closeConnection fd s)" for fd s
    by (simp add: closeConnection_def split: option.split)
  have 2: "?same s (fold (read_chunk fd) cs s)" for fd cs s
    by (induction cs arbitrary: s)
      (simp_all add: read_chunk_def case_prod_unfold Let_def split: option.split)
  have 3: "?same s (fold accept_one as s)" for as s
    by (induction as arbitrary: s) (simp_all add: accept_one_def case_prod_unfold)
  show ?thesis
    using 1 2 3 by (cases ev) (simp_all add: handleNewConnection_def handleClientData_def Let_def
        split: option.split)
qed

lemma events_own_fds:
  "ep_listen_fd (fold epoll_dispatch evs s) = ep_listen_fd s \<and>
   ep_epoll_fd (fold epoll_dispatch evs s) = ep_epoll_fd s \<and>
   ep_running (fold epoll_dispatch evs s) = ep_running s"
  by (induction evs arbitrary: s) simp_all

lemma started_server:
  assumes "EpollServer_start c (setConnectionHandler (EpollServer_new m)) = (True, s)"
  shows "epoll_inv s" and "owned s = {#}" and "ep_running s"
    and "ep_listen_fd s = su_socket c" and "ep_epoll_fd s = su_epoll c"
    and "0 \<le> su_socket c" and "0 \<le> su_epoll c"
  using assms
  by (auto simp: EpollServer_start_def setupListenSocket_def setupEpoll_def setConnectionHandler_def
      EpollServer_new_def Let_def epoll_inv_def owned_def split: if_splits)

text \<open>C15. Whatever events arrive between a successful \<open>start\<close> and \<open>stop\<close>, accepted connections
  refused for the limit, hang-ups and read errors included, every descriptor the server was given
  is closed exactly as often as it was opened: the listening socket, the epoll instance and each
  accepted connection.\<close>

theorem epoll_closes_everything:
  assumes "EpollServer_start c (setConnectionHandler (EpollServer_new m)) = (True, s)"
    and "events_ok evs s"
  shows "mset (ep_closed_fds (EpollServer_stop (fold epoll_dispatch evs s))) =
    {#su_socket c, su_epoll c#} + mset (concat (map accepted_fds evs))"
proof -
  note st = started_server [OF assms(1)]
  have "mset (ep_closed_fds (EpollServer_stop t)) = owned t + {#ep_epoll_fd t, ep_listen_fd t#}"
    if "ep_running t" "0 \<le> ep_epoll_fd t" "0 \<le> ep_listen_fd t" for t
    using that by (simp add: EpollServer_stop_def Let_def owned_def)
  then show ?thesis
    using events_own_fds [of evs s] owned_events [OF st(1) assms(2)] st by simp
qed

definition socket_calls :: setup_calls where
  "socket_calls = \<lparr>su_socket = 3, su_reuse = 0, su_getfl = 2, su_setfl = 0, su_bind = 0,
     su_listen = 0, su_epoll = 4, su_add = 0\<rparr>"

lemma epoll_closes_everything_witness:
  "mset (ep_closed_fds (EpollServer_stop (fold epoll_dispatch
      [Incoming [(5, True, True), (6, True, False)], HangUp 5, Incoming [(5, True, True)]]
      (snd (EpollServer_start socket_calls (setConnectionHandler (EpollServer_new 8))))))) =
   {#3, 4, 5, 6, 5#}"
proof -
  let ?s = "snd (EpollServer_start socket_calls (setConnectionHandler (EpollServer_new 8)))"
  let ?evs = "[Incoming [(5, True, True), (6, True, False)], HangUp 5, Incoming [(5, True, True)]]"
  have "events_ok ?evs ?s" by code_simp
  moreover have "EpollServer_start socket_calls (setConnectionHandler (EpollServer_new 8)) = (True, ?s)"
    by code_simp
  ultimately show ?thesis
    using epoll_closes_everything [of socket_calls 8 ?s ?evs] by (simp add: socket_calls_def add.commute)
qed

lemma setupListenSocket_eq:
  "setupListenSocket c s =
     (0 \<le> su_socket c \<and> 0 \<le> su_reuse c \<and> setNonBlocking (su_getfl c) (su_setfl c) \<and>
      0 \<le> su_bind c \<and> 0 \<le> su_listen c, s\<lparr>ep_listen_fd := su_socket c\<rparr>)"
  by (auto simp: setupListenSocket_def Let_def)

lemma setupEpoll_eq:
  "setupEpoll c s = (0 \<le> su_epoll c \<and> 0 \<le> su_add c, s\<lparr>ep_epoll_fd := su_epoll c\<rparr>)"
  by (auto simp: setupEpoll_def Let_def)

text \<open>A failed start loses descriptors: when a step after \<open>socket\<close> fails, nothing closes the
  listening socket; when only \<open>epoll_ctl\<close> fails, nothing closes the epoll instance. The
  server does not count as running, so \<open>stop\<close> does nothing either.\<close>

theorem failed_start_leaks:
  assumes "0 \<le> su_socket c" and "fst (EpollServer_start c (EpollServer_new m)) = False"
  shows "ep_closed_fds (EpollServer_stop (snd (EpollServer_start c (EpollServer_new m)))) =
    (if su_reuse c < 0 \<or> \<not> setNonBlocking (su_getfl c) (su_setfl c) \<or> su_bind c < 0 \<or> su_listen c < 0
     then [] else [su_socket c])"
  using assms
  by (auto simp: EpollServer_start_def setupListenSocket_eq setupEpoll_eq EpollServer_stop_def
      EpollServer_new_def)

lemma failed_start_leaks_witness:
  "ep_closed_fds (EpollServer_stop (snd (EpollServer_start (socket_calls\<lparr>su_bind := -1\<rparr>)
     (EpollServer_new 8)))) = []"
  using failed_start_leaks [of "socket_calls\<lparr>su_bind := -1\<rparr>" 8]
  by (simp add: socket_calls_def EpollServer_start_def setupListenSocket_eq)

end
