(* ===== verification/Registry_Session.thy ===== *)
theory Registry_Session
  imports Rpc_Server Registry_Protocol
begin

text \<open>
  server/rpc_server.cpp: how an RPC server announces itself. Every registration and every heartbeat
  is one connection to the registry: \<open>connect\<close>, one request, one response, and the client's
  destructor closes the connection on every path. \<open>new_fd\<close> and \<open>s\<close> are the results of the system
  calls, as in \<open>TcpClient_connect\<close>. An exception is its \<open>what()\<close>; \<open>None\<close> is a \<open>::send\<close> that never
  returns. The second component of a result is the connection after the call, if there was one.

  \<open>reg_session\<close> and \<open>beat_session\<close> put the two sides of a connection together: what the registry
  receives is what the server sent, and the other way round.
\<close>

section \<open>Operations\<close>

type_synonym closed_conn = "(TcpConnection \<times> sock) option"

definition registerSingleService ::
    "pb_runtime \<Rightarrow> int option \<Rightarrow> sock \<Rightarrow> bytes \<Rightarrow> RpcServer \<Rightarrow> ((bytes + bool) \<times> closed_conn) option" where
  "registerSingleService rt new_fd s service_name srv =
     (let (ok, client) = TcpClient_connect new_fd s TcpClient_new in
      if \<not> ok then Some (Inl (''Failed to connect to registry for '' @ service_name), fst (TcpClient_disconnect client))
      else case TcpClient_send (ServiceRegisterRequest_serialize rt (registration_request service_name srv)) client of
        None \<Rightarrow> None
      | Some (sent, client) \<Rightarrow>
          if \<not> sent then Some (Inl (''Failed to send registration request for '' @ service_name),
            fst (TcpClient_disconnect client))
          else let (response_data, client) = TcpClient_receive client; conn = fst (TcpClient_disconnect client) in
            if response_data = [] then Some (Inl (''Empty response from registry for '' @ service_name), conn)
            else case ServiceRegisterResponse_deserialize rt response_data of
              None \<Rightarrow> Some (Inl (''Failed to deserialize registration response for '' @ service_name), conn)
            | Some response \<Rightarrow> Some (Inr (srs_success response), conn))"

text \<open>
  \<open>registerToRegistry\<close>: the names are fixed in the source. An exception of the first registration
  skips the second. The result lists what the registrations returned; the exception, if any, is
  caught and printed. \<open>env\<close> holds the system calls of each connection.
\<close>

definition registerToRegistry ::
    "pb_runtime \<Rightarrow> (nat \<Rightarrow> int option \<times> sock) \<Rightarrow> RpcServer \<Rightarrow> (bytes + bool) list option" where
  "registerToRegistry rt env srv =
     (case registerSingleService rt (fst (env 0)) (snd (env 0)) ''EchoService'' srv of
        None \<Rightarrow> None
      | Some (Inl e, _) \<Rightarrow> Some [Inl e]
      | Some (Inr b, _) \<Rightarrow>
          map_option (\<lambda>(r, _). [Inr b, r])
            (registerSingleService rt (fst (env 1)) (snd (env 1)) ''CalculatorService'' srv))"

text \<open>Whether the heartbeat was acknowledged; every failure is only printed.\<close>

definition sendHeartbeatForService ::
    "pb_runtime \<Rightarrow> int option \<Rightarrow> sock \<Rightarrow> bytes \<Rightarrow> RpcServer \<Rightarrow> (bool \<times> closed_conn) option" where
  "sendHeartbeatForService rt new_fd s service_name srv =
     (let (ok, client) = TcpClient_connect new_fd s TcpClient_new in
      if \<not> ok then Some (False, fst (TcpClient_disconnect client))
      else case TcpClient_send (HeartbeatRequest_serialize rt (heartbeat_request service_name srv)) client of
        None \<Rightarrow> None
      | Some (sent, client) \<Rightarrow>
          if \<not> sent then Some (False, fst (TcpClient_disconnect client))
          else let (response_data, client) = TcpClient_receive client
            in Some (heartbeat_acknowledged rt response_data, fst (TcpClient_disconnect client)))"

definition sendHeartbeat ::
    "pb_runtime \<Rightarrow> (nat \<Rightarrow> int option \<times> sock) \<Rightarrow> RpcServer \<Rightarrow> bool list option" where
  "sendHeartbeat rt env srv =
     (if \<not> sv_running srv then Some []
      else case sendHeartbeatForService rt (fst (env 0)) (snd (env 0)) ''EchoService'' srv of
        None \<Rightarrow> None
      | Some (a, _) \<Rightarrow>
          map_option (\<lambda>(b, _). [a, b])
            (sendHeartbeatForService rt (fst (env 1)) (snd (env 1)) ''CalculatorService'' srv))"

section \<open>The client side of a connection\<close>

text \<open>A request that is sent whole and a response that arrives whole.\<close>

lemma client_exchange:
  assumes "takes (length request) s" and "sk_rx s = frame response" and "response \<noteq> []" and "length response \<le> max_message"
  obtains s' where "TcpClient_send request (snd (TcpClient_connect (Some fd) s TcpClient_new)) =
      Some (True, \<lparr>tcl_connection = Some (TcpConnection_new fd, s')\<rparr>)"
    and "sk_tx s' = sk_tx s @ frame request"
    and "TcpClient_receive \<lparr>tcl_connection = Some (TcpConnection_new fd, s')\<rparr> =
      (response, \<lparr>tcl_connection = Some (TcpConnection_new fd, s'\<lparr>sk_rx := []\<rparr>)\<rparr>)"
proof -
  have conn: "tc_connected (TcpConnection_new fd)" by (simp add: TcpConnection_new_def)
  obtain s' where s': "TcpConnection_send request (TcpConnection_new fd) s = Some (True, TcpConnection_new fd, s')"
      "sk_tx s' = sk_tx s @ frame request" "sk_rx s' = sk_rx s"
    using send_whole [OF conn assms(1)] by metis
  have "TcpConnection_receive (TcpConnection_new fd) s' = (response, TcpConnection_new fd, s'\<lparr>sk_rx := []\<rparr>)"
    using receive_frame [OF conn _ assms(3,4), of s' "[]"] s'(3) assms(2) by simp
  then show ?thesis using s'
    by (intro that [of s']) (simp_all add: TcpClient_send_def TcpClient_receive_def TcpClient_connect_def TcpClient_new_def)
qed

lemma disconnect_closes:
  "TcpClient_disconnect \<lparr>tcl_connection = Some (TcpConnection_new fd, s)\<rparr> =
     (Some (\<lparr>tc_fd = fd, tc_connected = False\<rparr>, s\<lparr>sk_closed := True\<rparr>), \<lparr>tcl_connection = None\<rparr>)"
  by (simp add: TcpClient_disconnect_def TcpConnection_close_def TcpConnection_new_def)

section \<open>The registry's side\<close>

lemma registry_exchange:
  assumes "registry_dispatch rt now request r = Some (response, r')" and "request \<noteq> []" and "length request \<le> max_message"
    and "sk_rx s = frame request" and "takes (length response) s"
  obtains s' where "RegistryServer_handleConnection rt now r (TcpConnection_new fd) s = (r', Some (TcpConnection_new fd, s'))"
    and "sk_tx s' = sk_tx s @ frame response"
proof -
  have conn: "tc_connected (TcpConnection_new fd)" by (simp add: TcpConnection_new_def)
  have rx: "TcpConnection_receive (TcpConnection_new fd) s = (request, TcpConnection_new fd, s\<lparr>sk_rx := []\<rparr>)"
    using receive_frame [OF conn _ assms(2,3), of s "[]"] assms(4) by simp
  have "takes (length response) (s\<lparr>sk_rx := []\<rparr>)" using assms(5) by (simp add: takes_def)
  then obtain s' where "TcpConnection_send response (TcpConnection_new fd) (s\<lparr>sk_rx := []\<rparr>) = Some (True, TcpConnection_new fd, s')"
      "sk_tx s' = sk_tx s @ frame response"
    using send_whole [OF conn] by (metis sock.select_convs(2) sock.surjective sock.update_convs(3))
  then show ?thesis using rx assms(1,2)
    by (intro that [of s']) (simp_all add: RegistryServer_handleConnection_def)
qed

text \<open>What the client has sent does not depend on what it receives.\<close>

lemma receive_tx: "TcpConnection_receive c s = (d, c', s') \<Longrightarrow> sk_tx s' = sk_tx s"
  by (auto simp: TcpConnection_receive_def os_recv_all_def Let_def split: if_splits)

lemma close_tx: "sk_tx (snd (TcpConnection_close c s)) = sk_tx s"
  by (simp add: TcpConnection_close_def)

lemma client_sent:
  assumes "takes (length request) s"
  obtains s' where "TcpClient_send request (snd (TcpClient_connect (Some fd) s TcpClient_new)) =
      Some (True, \<lparr>tcl_connection = Some (TcpConnection_new fd, s')\<rparr>)"
    and "sk_tx (snd (the (fst (TcpClient_disconnect (snd (TcpClient_receive
      \<lparr>tcl_connection = Some (TcpConnection_new fd, s')\<rparr>)))))) = sk_tx s @ frame request"
proof -
  have conn: "tc_connected (TcpConnection_new fd)" by (simp add: TcpConnection_new_def)
  obtain s' where s': "TcpConnection_send request (TcpConnection_new fd) s = Some (True, TcpConnection_new fd, s')"
      "sk_tx s' = sk_tx s @ frame request" "sk_rx s' = sk_rx s"
    using send_whole [OF conn assms] by metis
  obtain d c2 s2 where r: "TcpConnection_receive (TcpConnection_new fd) s' = (d, c2, s2)" by (rule prod_cases3)
  show ?thesis
    by (rule that [of s'])
      (use s' r receive_tx [OF r] close_tx [of c2 s2] in \<open>simp_all add: TcpClient_send_def TcpClient_receive_def
        TcpClient_connect_def TcpClient_new_def TcpClient_disconnect_def case_prod_unfold\<close>)
qed

section \<open>Both sides\<close>

definition joined :: "sock \<Rightarrow> sock \<Rightarrow> sock \<Rightarrow> sock \<Rightarrow> bool" where
  "joined s s' t t' \<longleftrightarrow> sk_tx s = [] \<and> sk_tx t = [] \<and> sk_rx t = sk_tx s' \<and> sk_rx s = sk_tx t'"

definition confirmation :: ServiceRegisterResponse where
  "confirmation = ServiceRegisterResponse_default\<lparr>srs_success := True, srs_message := ''Service registered successfully''\<rparr>"

lemma handleServiceRegister_confirms: "fst (handleServiceRegister now q r) = confirmation"
  by (simp add: handleServiceRegister_def confirmation_def Let_def)

text \<open>Messages that fit into a frame.\<close>

definition registration_fits :: "pb_runtime \<Rightarrow> ServiceRegisterRequest \<Rightarrow> bool" where
  "registration_fits rt q \<longleftrightarrow> ServiceRegisterRequest_ok rt q \<and> ServiceRegisterResponse_ok rt confirmation \<and>
     length (ServiceRegisterRequest_serialize rt q) \<le> max_message \<and>
     length (ServiceRegisterResponse_serialize rt confirmation) \<le> max_message"

lemma empty_parses:
  "ServiceRegisterRequest_deserialize rt [] = Some ServiceRegisterRequest_default"
  "ServiceRegisterResponse_deserialize rt [] = Some ServiceRegisterResponse_default"
  by (simp_all add: ServiceRegisterRequest_deserialize_def ServiceRegisterResponse_deserialize_def Serializer_deserialize_def
      ServiceRegisterRequest_InternalParse_def ServiceRegisterResponse_InternalParse_def
      ServiceRegisterRequest_Clear_def ServiceRegisterResponse_Clear_def
      ServiceRegisterRequest_default_def ServiceRegisterResponse_default_def pb_parse_def)

lemma registration_fits_nonempty:
  assumes "pb_wire rt" "registration_fits rt q" "srq_service_name q \<noteq> []"
  shows "ServiceRegisterRequest_serialize rt q \<noteq> []" "ServiceRegisterResponse_serialize rt confirmation \<noteq> []"
proof -
  note rt = pb_wire.ServiceRegisterRequest_roundtrip [OF assms(1)] pb_wire.ServiceRegisterResponse_roundtrip [OF assms(1)]
  show "ServiceRegisterRequest_serialize rt q \<noteq> []"
  proof
    assume "ServiceRegisterRequest_serialize rt q = []"
    then have "q = ServiceRegisterRequest_default"
      using rt(1) [of q] assms(2) empty_parses(1) [of rt] by (simp add: registration_fits_def)
    then show False using assms(3) by (simp add: ServiceRegisterRequest_default_def)
  qed
  show "ServiceRegisterResponse_serialize rt confirmation \<noteq> []"
  proof
    assume "ServiceRegisterResponse_serialize rt confirmation = []"
    then have "confirmation = ServiceRegisterResponse_default"
      using rt(2) [of confirmation] assms(2) empty_parses(2) [of rt] by (simp add: registration_fits_def)
    then show False by (simp add: confirmation_def ServiceRegisterResponse_default_def)
  qed
qed

text \<open>The connection of a request that the registry takes for a registration.\<close>

lemma joined_exchange:
  assumes rt: "pb_wire rt" and fits: "registration_fits rt q"
    and q: "srq_service_name q \<noteq> []" "srq_host q \<noteq> []" "0 < sint (srq_port q)"
    and takes: "takes (length (ServiceRegisterRequest_serialize rt q)) s"
      "takes (length (ServiceRegisterResponse_serialize rt confirmation)) t"
    and client: "sk_tx s' = sk_tx s @ frame (ServiceRegisterRequest_serialize rt q)"
    and registry: "RegistryServer_handleConnection rt now r (TcpConnection_new fd') t = (r', Some (conn, t'))"
    and joined: "joined s s' t t'"
  shows "r' = snd (handleServiceRegister now q r)"
    and "sk_rx s = frame (ServiceRegisterResponse_serialize rt confirmation)"
proof -
  let ?req = "ServiceRegisterRequest_serialize rt q" and ?resp = "ServiceRegisterResponse_serialize rt confirmation"
  have ne: "?req \<noteq> []" "?resp \<noteq> []" using registration_fits_nonempty [OF rt fits q(1)] .
  have d: "registry_dispatch rt now ?req r = Some (?resp, snd (handleServiceRegister now q r))"
    using pb_wire.dispatch_register [OF rt _ q, of now r] fits
    by (simp add: registration_fits_def handleServiceRegister_confirms)
  have rx: "sk_rx t = frame ?req" using client joined by (simp add: joined_def)
  obtain t'' where t: "RegistryServer_handleConnection rt now r (TcpConnection_new fd') t =
      (snd (handleServiceRegister now q r), Some (TcpConnection_new fd', t''))" "sk_tx t'' = sk_tx t @ frame ?resp"
    using registry_exchange [OF d ne(1) _ rx takes(2)] fits by (metis registration_fits_def)
  then show "r' = snd (handleServiceRegister now q r)" "sk_rx s = frame ?resp"
    using registry joined by (simp_all add: joined_def)
qed

lemma registration_session_lemma:
  assumes "pb_wire rt" and "registration_fits rt (registration_request name srv)" and "name \<noteq> []"
    and "0 < sint (sv_server_port srv)"
    and "takes (length (ServiceRegisterRequest_serialize rt (registration_request name srv))) s"
    and "takes (length (ServiceRegisterResponse_serialize rt confirmation)) t"
    and "registerSingleService rt (Some fd) s name srv = Some (out, Some (conn, s'))"
    and "RegistryServer_handleConnection rt now r (TcpConnection_new fd') t = (r', Some (conn', t'))"
    and "joined s s' t t'"
  shows "out = Inr True \<and> sk_closed s' \<and>
    registered (rg_services r') = (registered (rg_services r))((name, ''127.0.0.1'', sv_server_port srv) \<mapsto> now)"
proof -
  let ?q = "registration_request name srv"
  let ?req = "ServiceRegisterRequest_serialize rt ?q" and ?resp = "ServiceRegisterResponse_serialize rt confirmation"
  have q: "srq_service_name ?q = name" "srq_host ?q = ''127.0.0.1''" "srq_port ?q = sv_server_port srv"
    by (simp_all add: registration_request_def)
  have tx: "sk_tx s' = sk_tx s @ frame ?req"
  proof -
    obtain s1 where s1: "TcpClient_send ?req (snd (TcpClient_connect (Some fd) s TcpClient_new)) =
        Some (True, \<lparr>tcl_connection = Some (TcpConnection_new fd, s1)\<rparr>)"
      "sk_tx (snd (the (fst (TcpClient_disconnect (snd (TcpClient_receive
        \<lparr>tcl_connection = Some (TcpConnection_new fd, s1)\<rparr>)))))) = sk_tx s @ frame ?req"
      using client_sent [OF assms(5)] by blast
    have "fst (TcpClient_disconnect (snd (TcpClient_receive \<lparr>tcl_connection = Some (TcpConnection_new fd, s1)\<rparr>))) = Some (conn, s')"
      using assms(7) s1(1)
      by (simp add: registerSingleService_def case_prod_unfold Let_def TcpClient_connect_def split: if_splits option.splits)
    then show ?thesis using s1(2) by simp
  qed
  note j = joined_exchange [OF assms(1,2) _ _ _ assms(5,6) tx assms(8,9), unfolded q, OF assms(3) _ assms(4)]
  have ne: "?resp \<noteq> []" using registration_fits_nonempty(2) [OF assms(1,2)] q(1) assms(3) by simp
  obtain s1 where s1: "TcpClient_send ?req (snd (TcpClient_connect (Some fd) s TcpClient_new)) =
      Some (True, \<lparr>tcl_connection = Some (TcpConnection_new fd, s1)\<rparr>)"
    "TcpClient_receive \<lparr>tcl_connection = Some (TcpConnection_new fd, s1)\<rparr> =
      (?resp, \<lparr>tcl_connection = Some (TcpConnection_new fd, s1\<lparr>sk_rx := []\<rparr>)\<rparr>)"
    using client_exchange [OF assms(5) j(2) ne] assms(2) by (auto simp: registration_fits_def)
  have "ServiceRegisterResponse_deserialize rt ?resp = Some confirmation"
    using pb_wire.ServiceRegisterResponse_roundtrip [OF assms(1)] assms(2) by (simp add: registration_fits_def)
  then have "registerSingleService rt (Some fd) s name srv =
      Some (Inr True, Some (\<lparr>tc_fd = fd, tc_connected = False\<rparr>, s1\<lparr>sk_rx := [], sk_closed := True\<rparr>))"
    using s1 ne by (simp add: registerSingleService_def case_prod_unfold Let_def TcpClient_connect_def disconnect_closes)
      (simp add: confirmation_def)
  then show ?thesis using assms(7) j(1) by (auto simp: register_view q)
qed

text \<open>C9. A registration over a connection to the registry server succeeds: both sides run as the code does, each
  receiving what the other sent. The call confirms, its connection is closed, and exactly the
  server's instance is added to the table or refreshed.\<close>

theorem registration_session:
  assumes "pb_wire rt" and "registration_fits rt (registration_request name srv)" and "name \<noteq> []"
    and "0 < sint (sv_server_port srv)"
    and "takes (length (ServiceRegisterRequest_serialize rt (registration_request name srv))) s"
    and "takes (length (ServiceRegisterResponse_serialize rt confirmation)) t"
    and "registerSingleService rt (Some fd) s name srv = Some (out, Some (conn, s'))"
    and "RegistryServer_handleConnection rt now r (TcpConnection_new fd') t = (r', Some (conn', t'))"
    and "joined s s' t t'"
  shows "out = Inr True \<and> sk_closed s' \<and>
    registered (rg_services r') = (registered (rg_services r))((name, ''127.0.0.1'', sv_server_port srv) \<mapsto> now)"
  by (rule registration_session_lemma [OF assms])

text \<open>A heartbeat sends the bytes of a registration and reads the answer in the same way.\<close>

lemma heartbeat_request_bytes:
  "HeartbeatRequest_serialize rt (heartbeat_request name srv) = ServiceRegisterRequest_serialize rt (registration_request name srv)"
  by (simp add: heartbeat_serializes_as_register heartbeat_as_register_def heartbeat_request_def registration_request_def
      HeartbeatRequest_default_def ServiceRegisterRequest_default_def)

lemma acknowledged_confirmed:
  "heartbeat_acknowledged rt b \<longleftrightarrow> b \<noteq> [] \<and>
     (case ServiceRegisterResponse_deserialize rt b of Some response \<Rightarrow> srs_success response | None \<Rightarrow> False)"
  by (simp add: heartbeat_acknowledged_def register_response_parses_as_heartbeat register_response_as_heartbeat_def
      split: option.split)

lemma heartbeat_is_registration:
  "sendHeartbeatForService rt new_fd s name srv =
     map_option (\<lambda>(r, c). (r = Inr True, c)) (registerSingleService rt new_fd s name srv)"
  unfolding sendHeartbeatForService_def registerSingleService_def heartbeat_request_bytes acknowledged_confirmed Let_def
  by (auto simp: case_prod_unfold split: option.splits)

text \<open>A heartbeat over a connection to the registry server is acknowledged and makes the server's instance known as of
  its time, whether it was registered before or not: a server whose first registration failed, or
  that was removed in the meantime, is restored by its next heartbeat.\<close>

theorem heartbeat_session:
  assumes "pb_wire rt" and "registration_fits rt (registration_request name srv)" and "name \<noteq> []"
    and "0 < sint (sv_server_port srv)"
    and "takes (length (ServiceRegisterRequest_serialize rt (registration_request name srv))) s"
    and "takes (length (ServiceRegisterResponse_serialize rt confirmation)) t"
    and "sendHeartbeatForService rt (Some fd) s name srv = Some (acknowledged, Some (conn, s'))"
    and "RegistryServer_handleConnection rt now r (TcpConnection_new fd') t = (r', Some (conn', t'))"
    and "joined s s' t t'"
  shows "acknowledged \<and> sk_closed s' \<and>
    registered (rg_services r') = (registered (rg_services r))((name, ''127.0.0.1'', sv_server_port srv) \<mapsto> now)"
proof -
  let ?q = "registration_request name srv"
  obtain out where out: "registerSingleService rt (Some fd) s name srv = Some (out, Some (conn, s'))"
      "acknowledged = (out = Inr True)"
    using assms(7) by (auto simp: heartbeat_is_registration)
  note session = registration_session_lemma [OF assms(1-6) out(1) assms(8,9)]
  then show ?thesis using out(2) by simp
qed

section \<open>A session\<close>

definition server_ex :: RpcServer where
  "server_ex = (RpcServer_new 81 ''127.0.0.1'' 80 100)\<lparr>sv_running := True\<rparr>"

definition echo_request :: bytes where
  "echo_request = ServiceRegisterRequest_serialize std_runtime (registration_request ''EchoService'' server_ex)"

definition reply_ex :: bytes where
  "reply_ex = ServiceRegisterResponse_serialize std_runtime confirmation"

definition client_sock :: sock where
  "client_sock = \<lparr>sk_sends = 1000 # replicate 100 1000, sk_tx = [], sk_rx = frame reply_ex, sk_closed = False\<rparr>"

definition registry_sock :: sock where
  "registry_sock = \<lparr>sk_sends = 1000 # replicate 100 1000, sk_tx = [], sk_rx = frame echo_request, sk_closed = False\<rparr>"

lemma session_sizes:
  "length echo_request = 26" "length reply_ex = 35"
  "ServiceRegisterRequest_ByteSizeLong std_runtime (registration_request ''EchoService'' server_ex) = 26"
  "ServiceRegisterResponse_ByteSizeLong std_runtime confirmation = 35"
  "rt_VerifyUTF8 std_runtime ''EchoService''" "rt_VerifyUTF8 std_runtime ''127.0.0.1''"
  "rt_VerifyUTF8 std_runtime ''Service registered successfully''"
  by code_simp+

lemma session_fits: "registration_fits std_runtime (registration_request ''EchoService'' server_ex)"
  using session_sizes
  by (simp add: registration_fits_def ServiceRegisterRequest_ok_def ServiceRegisterResponse_ok_def echo_request_def
      reply_ex_def pb_limit_def max_message_def)
    (simp add: registration_request_def confirmation_def ServiceRegisterRequest_default_def ServiceRegisterResponse_default_def)

lemma session_takes: "takes (length echo_request) client_sock" "takes (length reply_ex) registry_sock"
  by (simp_all add: takes_def session_sizes client_sock_def registry_sock_def list_all_iff)

lemma session_ex:
  obtains conn s' conn' t' where
    "registerSingleService std_runtime (Some 3) client_sock ''EchoService'' server_ex = Some (Inr True, Some (conn, s'))"
    "RegistryServer_handleConnection std_runtime 7 RegistryServer_new (TcpConnection_new 5) registry_sock =
       (fst (RegistryServer_handleConnection std_runtime 7 RegistryServer_new (TcpConnection_new 5) registry_sock), Some (conn', t'))"
    "joined client_sock s' registry_sock t'"
proof -
  let ?q = "registration_request ''EchoService'' server_ex"
  have q: "srq_service_name ?q = ''EchoService''" "srq_host ?q = ''127.0.0.1''" "srq_port ?q = 81"
    by (simp_all add: registration_request_def server_ex_def RpcServer_new_def)
  have ne: "echo_request \<noteq> []" "reply_ex \<noteq> []" using session_sizes(1,2) by auto
  have fit: "length echo_request \<le> max_message" "length reply_ex \<le> max_message" by (simp_all add: session_sizes max_message_def)
  have "registry_dispatch std_runtime 7 echo_request RegistryServer_new = Some (reply_ex, snd (handleServiceRegister 7 ?q RegistryServer_new))"
    using pb_wire.dispatch_register [OF std.pb_wire_axioms, of ?q] session_fits q
    by (simp add: registration_fits_def handleServiceRegister_confirms echo_request_def reply_ex_def)
  then obtain t' where t: "RegistryServer_handleConnection std_runtime 7 RegistryServer_new (TcpConnection_new 5) registry_sock =
      (snd (handleServiceRegister 7 ?q RegistryServer_new), Some (TcpConnection_new 5, t'))" "sk_tx t' = frame reply_ex"
    using registry_exchange [OF _ ne(1) fit(1) _ session_takes(2)] by (metis append_Nil registry_sock_def sock.select_convs(2,3))
  obtain s1 where s1: "TcpClient_send echo_request (snd (TcpClient_connect (Some 3) client_sock TcpClient_new)) =
      Some (True, \<lparr>tcl_connection = Some (TcpConnection_new 3, s1)\<rparr>)" "sk_tx s1 = frame echo_request"
    "TcpClient_receive \<lparr>tcl_connection = Some (TcpConnection_new 3, s1)\<rparr> =
      (reply_ex, \<lparr>tcl_connection = Some (TcpConnection_new 3, s1\<lparr>sk_rx := []\<rparr>)\<rparr>)"
    using client_exchange [OF session_takes(1) _ ne(2) fit(2), of 3] by (auto simp: client_sock_def)
  have "ServiceRegisterResponse_deserialize std_runtime reply_ex = Some confirmation"
    using pb_wire.ServiceRegisterResponse_roundtrip [OF std.pb_wire_axioms] session_fits
    by (simp add: registration_fits_def reply_ex_def)
  then have "registerSingleService std_runtime (Some 3) client_sock ''EchoService'' server_ex =
      Some (Inr True, Some (\<lparr>tc_fd = 3, tc_connected = False\<rparr>, s1\<lparr>sk_rx := [], sk_closed := True\<rparr>))"
    using s1 ne(2) by (simp add: registerSingleService_def case_prod_unfold Let_def TcpClient_connect_def disconnect_closes flip: echo_request_def)
      (simp add: confirmation_def)
  moreover have "joined client_sock (s1\<lparr>sk_rx := [], sk_closed := True\<rparr>) registry_sock t'"
    using s1(2) t(2) by (simp add: joined_def client_sock_def registry_sock_def)
  ultimately show ?thesis using t(1) that by simp
qed

lemma registration_session_witness:
  "\<exists>r'. r' = fst (RegistryServer_handleConnection std_runtime 7 RegistryServer_new (TcpConnection_new 5) registry_sock) \<and>
     registered (rg_services r') (''EchoService'', ''127.0.0.1'', 81) = Some 7"
proof (rule session_ex)
  fix conn s' conn' t'
  assume s: "registerSingleService std_runtime (Some 3) client_sock ''EchoService'' server_ex = Some (Inr True, Some (conn, s'))"
    "RegistryServer_handleConnection std_runtime 7 RegistryServer_new (TcpConnection_new 5) registry_sock =
       (fst (RegistryServer_handleConnection std_runtime 7 RegistryServer_new (TcpConnection_new 5) registry_sock), Some (conn', t'))"
    "joined client_sock s' registry_sock t'"
  have p: "sv_server_port server_ex = 81" by (simp add: server_ex_def RpcServer_new_def)
  from registration_session [OF std.pb_wire_axioms session_fits _ _ _ _ s] session_takes
  show ?thesis by (simp add: p echo_request_def reply_ex_def)
qed

lemma heartbeat_session_witness:
  "\<exists>r'. r' = fst (RegistryServer_handleConnection std_runtime 7 RegistryServer_new (TcpConnection_new 5) registry_sock) \<and>
     (\<exists>conn s'. sendHeartbeatForService std_runtime (Some 3) client_sock ''EchoService'' server_ex = Some (True, Some (conn, s'))) \<and>
     registered (rg_services r') (''EchoService'', ''127.0.0.1'', 81) = Some 7"
proof (rule session_ex)
  fix conn s' conn' t'
  assume s: "registerSingleService std_runtime (Some 3) client_sock ''EchoService'' server_ex = Some (Inr True, Some (conn, s'))"
    "RegistryServer_handleConnection std_runtime 7 RegistryServer_new (TcpConnection_new 5) registry_sock =
       (fst (RegistryServer_handleConnection std_runtime 7 RegistryServer_new (TcpConnection_new 5) registry_sock), Some (conn', t'))"
    "joined client_sock s' registry_sock t'"
  have beat: "sendHeartbeatForService std_runtime (Some 3) client_sock ''EchoService'' server_ex = Some (True, Some (conn, s'))"
    using s(1) by (simp add: heartbeat_is_registration)
  have p: "sv_server_port server_ex = 81" by (simp add: server_ex_def RpcServer_new_def)
  from heartbeat_session [OF std.pb_wire_axioms session_fits _ _ _ _ beat s(2,3)] session_takes
  show ?thesis using beat by (simp add: p echo_request_def reply_ex_def)
qed

end
