(* ===== verification/Raft_Cluster.thy ===== *)
theory Raft_Cluster
  imports Raft_System
begin

text \<open>
  A cluster of Raft nodes that talk over connections: raft_node.cpp and raft_node_rpc.cpp on every
  node, with the mutexes and the order of the messages made explicit. An election or a heartbeat
  round asks one peer after the other and holds \<open>state_mutex_\<close> from its beginning to its end;
  a peer answers a connection only while none of its own threads holds its mutexes. The
  requests have no time limit, so whoever asks a node that never answers waits for ever.

  Requests and replies travel as bytes and are read as \<open>RaftNode_handleConnection\<close> reads them. The
  serializers and parsers are generated at build time: they are the record \<open>raft_codec\<close>, and
  \<open>raft_wire\<close> states what the theorems use of them. A node keeps its state while it runs; nodes
  that are restarted with an empty state are not part of the model.
\<close>

section \<open>Messages as bytes\<close>

record raft_codec =
  rc_ser_vote :: "RequestVoteRequest \<Rightarrow> bytes"
  rc_parse_vote :: "bytes \<Rightarrow> RequestVoteRequest option"
  rc_ser_append :: "AppendEntriesRequest \<Rightarrow> bytes"
  rc_parse_append :: "bytes \<Rightarrow> AppendEntriesRequest option"
  rc_ser_vote_reply :: "RequestVoteResponse \<Rightarrow> bytes"
  rc_parse_vote_reply :: "bytes \<Rightarrow> RequestVoteResponse option"
  rc_ser_append_reply :: "AppendEntriesResponse \<Rightarrow> bytes"
  rc_parse_append_reply :: "bytes \<Rightarrow> AppendEntriesResponse option"

text \<open>An \<open>int64\<close> field holds its value modulo 2^64.\<close>

definition int64_vote :: "RequestVoteRequest \<Rightarrow> RequestVoteRequest" where
  "int64_vote q = q\<lparr>rv_term := wrap64 (rv_term q), rv_last_log_index := wrap64 (rv_last_log_index q),
     rv_last_log_term := wrap64 (rv_last_log_term q)\<rparr>"

definition append_as_vote :: "AppendEntriesRequest \<Rightarrow> RequestVoteRequest" where
  "append_as_vote a = \<lparr>rv_term = ae_term a, rv_candidate_id = ae_leader_id a,
     rv_last_log_index = ae_prev_log_index a, rv_last_log_term = ae_prev_log_term a\<rparr>"

text \<open>
  A written message is read back, if it is read at all (a string may be refused as malformed). The
  first four fields of an append request are those of a vote request, and unknown fields are
  skipped.
\<close>

definition raft_wire :: "raft_codec \<Rightarrow> bool" where
  "raft_wire k \<longleftrightarrow>
     (\<forall>q p. rc_parse_vote k (rc_ser_vote k q) = Some p \<longrightarrow> p = int64_vote q) \<and>
     (\<forall>a p. rc_parse_vote k (rc_ser_append k a) = Some p \<longrightarrow> p = int64_vote (append_as_vote a)) \<and>
     (\<forall>data a. rc_parse_append k data = Some a \<longrightarrow> rc_parse_vote k data = Some (append_as_vote a)) \<and>
     (\<forall>r s. rc_parse_vote_reply k (rc_ser_vote_reply k r) = Some s \<longrightarrow> s = r\<lparr>rvr_term := wrap64 (rvr_term r)\<rparr>)"

text \<open>\<open>receive\<close> returns an empty string when the peer answered nothing or with an empty message.\<close>

definition received :: "(bytes \<Rightarrow> 'r option) \<Rightarrow> bytes option \<Rightarrow> 'r option" where
  "received parse reply = (case reply of None \<Rightarrow> None | Some b \<Rightarrow> if b = [] then None else parse b)"

section \<open>State\<close>

text \<open>
  What the threads of a node are doing: an election with the peers still to ask, the votes counted
  and the request; a heartbeat round with the peers still to serve; \<open>Blocked\<close>, with the mutexes
  held for ever. \<open>cl_ballots\<close> (voter, term, candidate) and \<open>cl_wins\<close> (leader, term) are the history
  of the run.
\<close>

datatype activity = Idle | Electing "RaftPeer list" nat RequestVoteRequest
  | Replicating "(nat \<times> RaftPeer) list" | Blocked

record 'm Cluster =
  cl_nodes :: "'m RaftNode list"
  cl_busy :: "activity list"
  cl_ballots :: "(bytes \<times> int \<times> bytes) list"
  cl_wins :: "(bytes \<times> int) list"

abbreviation node :: "'m Cluster \<Rightarrow> nat \<Rightarrow> 'm RaftNode" where
  "node c i \<equiv> cl_nodes c ! i"

abbreviation size_of :: "'m Cluster \<Rightarrow> nat" where
  "size_of c \<equiv> length (cl_nodes c)"

abbreviation node_addr :: "'m RaftNode \<Rightarrow> bytes \<times> i32" where
  "node_addr n \<equiv> (rn_host n, rn_port n)"

abbreviation peer_addr :: "RaftPeer \<Rightarrow> bytes \<times> i32" where
  "peer_addr p \<equiv> (peer_host p, peer_port p)"

text \<open>The nodes of a configuration, each with the others as peers, before they start.\<close>

definition others :: "nat \<Rightarrow> RaftPeer list \<Rightarrow> RaftPeer list" where
  "others i ps = take i ps @ drop (Suc i) ps"

definition Cluster_new :: "RaftPeer list \<Rightarrow> 'm \<Rightarrow> 'm Cluster" where
  "Cluster_new ps machine =
     \<lparr>cl_nodes = map (\<lambda>i. RaftNode_new (peer_node_id (ps ! i)) (peer_host (ps ! i)) (peer_port (ps ! i))
        (others i ps) machine) [0..<length ps],
      cl_busy = replicate (length ps) Idle, cl_ballots = [], cl_wins = []\<rparr>"

section \<open>Steps\<close>

definition free :: "'m Cluster \<Rightarrow> nat \<Rightarrow> bool" where
  "free c i \<longleftrightarrow> i < size_of c \<and> cl_busy c ! i = Idle \<and> rn_running (node c i)"

definition at_address :: "'m Cluster \<Rightarrow> RaftPeer \<Rightarrow> nat \<Rightarrow> bool" where
  "at_address c p j \<longleftrightarrow> j < size_of c \<and> node_addr (node c j) = peer_addr p"

text \<open>\<open>startElection\<close> up to the first request, and after the last one.\<close>

definition candidate :: "'m RaftNode \<Rightarrow> 'm RaftNode" where
  "candidate n = (becomeCandidate n)\<lparr>rn_current_term := wrap64 (rn_current_term n + 1), rn_voted_for := rn_node_id n\<rparr>"

definition finish_election :: "nat \<Rightarrow> 'm RaftNode \<Rightarrow> 'm RaftNode res" where
  "finish_election votes n =
     (if votes \<ge> majority n then becomeLeader [StateMutex] n else Ret (becomeFollower (rn_current_term n) [] n))"

lemma startElection_steps:
  "startElection [StateMutex] net n =
     res_bind (request_votes [StateMutex] net (ballot n) (rn_peers n) 1 (candidate n))
       (\<lambda>(votes, n). finish_election votes n)"
  by (simp add: startElection_def candidate_def becomeCandidate_def finish_election_def ballot_def lock_simps Let_def)

definition begin_election :: "nat \<Rightarrow> 'm Cluster \<Rightarrow> 'm Cluster" where
  "begin_election i c = (let n = node c i; n' = candidate n in
     c\<lparr>cl_nodes := (cl_nodes c)[i := n'], cl_busy := (cl_busy c)[i := Electing (rn_peers n) 1 (ballot n)],
       cl_ballots := (rn_node_id n, rn_current_term n', rn_node_id n) # cl_ballots c\<rparr>)"

text \<open>Node \<open>j\<close> handles a connection that carries \<open>data\<close>.\<close>

definition cast :: "raft_codec \<Rightarrow> bytes \<Rightarrow> 'm RaftNode \<Rightarrow> (bytes \<times> int \<times> bytes) list" where
  "cast k data n = (case rc_parse_vote k data of
       Some q \<Rightarrow> if data \<noteq> [] \<and> grants q n then [(rn_node_id n, rv_term q, rv_candidate_id q)] else []
     | None \<Rightarrow> [])"

definition visit :: "raft_codec \<Rightarrow> bytes \<Rightarrow> nat \<Rightarrow> 'm Cluster \<Rightarrow> (bytes option \<times> 'm Cluster) option" where
  "visit k data j c = (case RaftNode_handleConnection (rc_parse_vote k) (rc_parse_append k)
       (rc_ser_vote_reply k) (rc_ser_append_reply k) data (node c j) of
       Ret (reply, n') \<Rightarrow> Some (reply, c\<lparr>cl_nodes := (cl_nodes c)[j := n'],
           cl_ballots := cast k data (node c j) @ cl_ballots c\<rparr>)
     | _ \<Rightarrow> None)"

text \<open>
  The rest of \<open>sendRequestVote\<close> and \<open>sendAppendEntries\<close>, once the reply is there. No reply of this
  program leads to undefined behaviour there; the model blocks the node then.
\<close>

definition hear_vote :: "nat \<Rightarrow> RequestVoteResponse option \<Rightarrow> RaftPeer list \<Rightarrow> nat \<Rightarrow> RequestVoteRequest \<Rightarrow>
    'm Cluster \<Rightarrow> 'm Cluster" where
  "hear_vote i reply ps votes q c = (case sendRequestVote [StateMutex] reply (node c i) of
       Ret (granted, n) \<Rightarrow> c\<lparr>cl_nodes := (cl_nodes c)[i := n],
         cl_busy := (cl_busy c)[i := Electing ps (if granted then votes + 1 else votes) q]\<rparr>
     | _ \<Rightarrow> c\<lparr>cl_busy := (cl_busy c)[i := Blocked]\<rparr>)"

definition hear_append :: "nat \<Rightarrow> AppendEntriesResponse option \<Rightarrow> RaftPeer \<Rightarrow> (nat \<times> RaftPeer) list \<Rightarrow>
    'm Cluster \<Rightarrow> 'm Cluster" where
  "hear_append i reply p ps c = (case sendAppendEntries [LogMutex, StateMutex] reply p (node c i) of
       Ret (ok, n) \<Rightarrow> c\<lparr>cl_nodes := (cl_nodes c)[i := n], cl_busy := (cl_busy c)[i := Replicating ps]\<rparr>
     | _ \<Rightarrow> c\<lparr>cl_busy := (cl_busy c)[i := Blocked]\<rparr>)"

text \<open>
  The steps of a node on its own that take no part in elections, beside the activity \<open>b\<close> of its
  timers: a proposal needs \<open>state_mutex_\<close>, the applier \<open>log_mutex_\<close>, which a heartbeat round holds;
  \<open>start\<close> and \<open>stop\<close> need neither. The applier of a blocked node is left out.
\<close>

inductive quiet_step :: "(LogEntry \<Rightarrow> 'm \<Rightarrow> 'm) \<Rightarrow> activity \<Rightarrow> 'm RaftNode \<Rightarrow> 'm RaftNode \<Rightarrow> bool" for f b where
  propose: "b = Idle \<Longrightarrow> proposeLogEntry operation data n = Ret (ok, n') \<Longrightarrow> quiet_step f b n n'"
| applier: "b \<noteq> Blocked \<Longrightarrow> (\<forall>ps. b \<noteq> Replicating ps) \<Longrightarrow> applier_round f n = Ret n' \<Longrightarrow> quiet_step f b n n'"
| start: "quiet_step f b n (RaftNode_start n)"
| stop: "quiet_step f b n (RaftNode_stop n)"

text \<open>
  \<open>lossy\<close>: connections can fail, before or after the peer has handled the request. The term of a
  node does not reach the end of \<open>int64\<close>.
\<close>

inductive cluster_step :: "raft_codec \<Rightarrow> bool \<Rightarrow> (LogEntry \<Rightarrow> 'm \<Rightarrow> 'm) \<Rightarrow> 'm Cluster \<Rightarrow> 'm Cluster \<Rightarrow> bool"
  for k lossy f where
  timeout: "free c i \<Longrightarrow> rn_role (node c i) \<noteq> LEADER \<Longrightarrow> in64 (rn_current_term (node c i) + 1) \<Longrightarrow>
    cluster_step k lossy f c (begin_election i c)"
| asked: "i < size_of c \<Longrightarrow> cl_busy c ! i = Electing (p # ps) votes q \<Longrightarrow> at_address c p j \<Longrightarrow> free c j \<Longrightarrow>
    visit k (rc_ser_vote k q) j c = Some (reply, c') \<Longrightarrow>
    cluster_step k lossy f c (hear_vote i (received (rc_parse_vote_reply k) reply) ps votes q c')"
| vote_lost: "lossy \<Longrightarrow> i < size_of c \<Longrightarrow> cl_busy c ! i = Electing (p # ps) votes q \<Longrightarrow> at_address c p j \<Longrightarrow>
    free c j \<Longrightarrow> visit k (rc_ser_vote k q) j c = Some (reply, c') \<Longrightarrow>
    cluster_step k lossy f c (hear_vote i None ps votes q c')"
| vote_unreachable: "lossy \<Longrightarrow> i < size_of c \<Longrightarrow> cl_busy c ! i = Electing (p # ps) votes q \<Longrightarrow>
    cluster_step k lossy f c (hear_vote i None ps votes q c)"
| decided: "i < size_of c \<Longrightarrow> cl_busy c ! i = Electing [] votes q \<Longrightarrow> finish_election votes (node c i) = Ret n \<Longrightarrow>
    cluster_step k lossy f c (c\<lparr>cl_nodes := (cl_nodes c)[i := n], cl_busy := (cl_busy c)[i := Idle],
      cl_wins := (if rn_role n = LEADER then (rn_node_id n, rn_current_term n) # cl_wins c else cl_wins c)\<rparr>)"
| round: "free c i \<Longrightarrow> rn_role (node c i) = LEADER \<Longrightarrow>
    cluster_step k lossy f c (c\<lparr>cl_busy := (cl_busy c)[i := Replicating (enumerate 0 (rn_peers (node c i)))]\<rparr>)"
| replicated: "i < size_of c \<Longrightarrow> cl_busy c ! i = Replicating ((l, p) # ps) \<Longrightarrow> append_request l (node c i) = Ret a \<Longrightarrow>
    at_address c p j \<Longrightarrow> free c j \<Longrightarrow> visit k (rc_ser_append k a) j c = Some (reply, c') \<Longrightarrow>
    cluster_step k lossy f c (hear_append i (received (rc_parse_append_reply k) reply) p ps c')"
| append_lost: "lossy \<Longrightarrow> i < size_of c \<Longrightarrow> cl_busy c ! i = Replicating ((l, p) # ps) \<Longrightarrow>
    append_request l (node c i) = Ret a \<Longrightarrow> at_address c p j \<Longrightarrow> free c j \<Longrightarrow>
    visit k (rc_ser_append k a) j c = Some (reply, c') \<Longrightarrow>
    cluster_step k lossy f c (hear_append i None p ps c')"
| append_unreachable: "lossy \<Longrightarrow> i < size_of c \<Longrightarrow> cl_busy c ! i = Replicating ((l, p) # ps) \<Longrightarrow>
    cluster_step k lossy f c (hear_append i None p ps c)"
| round_end: "i < size_of c \<Longrightarrow> cl_busy c ! i = Replicating [] \<Longrightarrow>
    cluster_step k lossy f c (c\<lparr>cl_busy := (cl_busy c)[i := Idle]\<rparr>)"
| quiet: "i < size_of c \<Longrightarrow> quiet_step f (cl_busy c ! i) (node c i) n \<Longrightarrow>
    cluster_step k lossy f c (c\<lparr>cl_nodes := (cl_nodes c)[i := n]\<rparr>)"

inductive cluster_run :: "raft_codec \<Rightarrow> bool \<Rightarrow> (LogEntry \<Rightarrow> 'm \<Rightarrow> 'm) \<Rightarrow> 'm Cluster \<Rightarrow> 'm Cluster \<Rightarrow> bool"
  for k lossy f c0 where
  init: "cluster_run k lossy f c0 c0"
| step: "cluster_run k lossy f c0 c \<Longrightarrow> cluster_step k lossy f c c' \<Longrightarrow> cluster_run k lossy f c0 c'"

section \<open>What a step does to the votes\<close>

text \<open>The fields that elections depend on; nothing but elections and vote requests changes them.\<close>

definition same_votes :: "'m RaftNode \<Rightarrow> 'm RaftNode \<Rightarrow> bool" where
  "same_votes n n' \<longleftrightarrow> rn_node_id n' = rn_node_id n \<and> node_addr n' = node_addr n \<and> rn_peers n' = rn_peers n \<and>
     rn_role n' = rn_role n \<and> rn_current_term n' = rn_current_term n \<and> rn_voted_for n' = rn_voted_for n"

lemma same_votes_refl [simp]: "same_votes n n"
  by (simp add: same_votes_def)

lemma applyCommitted_same_votes: "applyCommittedEntries f n = Ret n' \<Longrightarrow> same_votes n n'"
proof (induction f n rule: applyCommittedEntries.induct)
  case (1 f n)
  show ?case
    using 1 by (auto simp: applyCommittedEntries.simps [of f n] Let_def same_votes_def split: if_splits)
qed

lemma quiet_same_votes: "quiet_step f b n n' \<Longrightarrow> same_votes n n'"
proof (induction rule: quiet_step.induct)
  case (applier n n')
  then show ?case using applyCommitted_same_votes
    by (fastforce simp: applier_round_def with_lock_def split: if_splits)
qed (auto simp: same_votes_def proposeLogEntry_eq RaftNode_start_def RaftNode_stop_def split: if_splits)

lemma sendRequestVote_locked:
  "sendRequestVote [StateMutex] reply n = Ret (g, n') \<Longrightarrow> n' = n \<and> (g \<longrightarrow> (\<exists>r. reply = Some r \<and> rvr_vote_granted r))"
  by (auto simp: sendRequestVote_def with_lock_def split: option.splits if_splits)

lemma sendAppendEntries_same_votes:
  "sendAppendEntries [LogMutex, StateMutex] reply p n = Ret (ok, n') \<Longrightarrow> same_votes n n'"
  by (auto simp: sendAppendEntries_def with_lock_def updateCommitIndex_def same_votes_def
      split: option.splits if_splits)

lemma visit_cases:
  assumes "raft_wire k" and "visit k data j c = Some (reply, c')"
  obtains (refused) "c' = c" "reply = None"
  | (vote) q where "rc_parse_vote k data = Some q"
      "reply = Some (rc_ser_vote_reply k \<lparr>rvr_term = rn_current_term (node c j), rvr_vote_granted = grants q (node c j)\<rparr>)"
      "c' = c\<lparr>cl_nodes := (cl_nodes c)[j := after_vote q (node c j)], cl_ballots :=
         (if grants q (node c j) then [(rn_node_id (node c j), rv_term q, rv_candidate_id q)] else []) @ cl_ballots c\<rparr>"
proof (cases "data = [] \<or> rc_parse_vote k data = None")
  case True
  then have "rc_parse_append k data = None \<or> data = []"
    using assms(1) by (cases "rc_parse_append k data") (auto simp: raft_wire_def)
  then have "reply = None" "c' = c\<lparr>cl_nodes := (cl_nodes c)[j := node c j], cl_ballots := cl_ballots c\<rparr>"
    using True assms(2) by (auto simp: visit_def RaftNode_handleConnection_def cast_def split: option.splits)
  then show ?thesis using refused by simp
next
  case False
  then obtain q where q: "rc_parse_vote k data = Some q" "data \<noteq> []" by blast
  show ?thesis
    by (rule vote [OF q(1)])
      (use assms(2) q in \<open>simp_all add: visit_def RaftNode_handleConnection_def handleRequestVote_eq cast_def\<close>)
qed

section \<open>The invariant of elections\<close>

definition voters :: "'m Cluster \<Rightarrow> bytes \<Rightarrow> int \<Rightarrow> bytes set" where
  "voters c u t = {v. (v, t, u) \<in> set (cl_ballots c)}"

definition ids :: "'m Cluster \<Rightarrow> bytes set" where
  "ids c = rn_node_id ` set (cl_nodes c)"

definition ids_at :: "'m Cluster \<Rightarrow> RaftPeer list \<Rightarrow> bytes set" where
  "ids_at c ps = {rn_node_id (node c j) | j. j < size_of c \<and> node_addr (node c j) \<in> peer_addr ` set ps}"

definition layout_ok :: "'m Cluster \<Rightarrow> bool" where
  "layout_ok c \<longleftrightarrow> length (cl_busy c) = size_of c \<and> distinct (map rn_node_id (cl_nodes c)) \<and> [] \<notin> ids c \<and>
     distinct (map node_addr (cl_nodes c)) \<and>
     (\<forall>i < size_of c. length (rn_peers (node c i)) + 1 = size_of c \<and>
        distinct (map peer_addr (rn_peers (node c i))) \<and>
        node_addr (node c i) \<notin> peer_addr ` set (rn_peers (node c i)) \<and> in64 (rn_current_term (node c i)))"

text \<open>
  Every ballot is for a node and from a node that has reached its term; a vote for another node is
  remembered until the term ends, and no node gives two of them in a term.
\<close>

definition ballots_ok :: "'m Cluster \<Rightarrow> bool" where
  "ballots_ok c \<longleftrightarrow>
     (\<forall>v t b. (v, t, b) \<in> set (cl_ballots c) \<longrightarrow> v \<in> ids c \<and> b \<in> ids c \<and>
        (\<forall>i < size_of c. rn_node_id (node c i) = v \<longrightarrow> t \<le> rn_current_term (node c i) \<and>
           (t = rn_current_term (node c i) \<longrightarrow> b = v \<or> rn_voted_for (node c i) = b)) \<and>
        (\<forall>b'. (v, t, b') \<in> set (cl_ballots c) \<longrightarrow> b = v \<or> b' = v \<or> b = b'))"

definition election_ok :: "'m Cluster \<Rightarrow> nat \<Rightarrow> RaftPeer list \<Rightarrow> nat \<Rightarrow> RequestVoteRequest \<Rightarrow> bool" where
  "election_ok c i ps votes q \<longleftrightarrow> (let n = node c i; u = rn_node_id n; t = rn_current_term n in
     rv_term q = t \<and> rv_candidate_id q = u \<and> rn_voted_for n = u \<and> (u, t) \<notin> set (cl_wins c) \<and>
     distinct (map peer_addr ps) \<and> votes \<le> card (voters c u t - ids_at c ps))"

definition electing_ok :: "'m Cluster \<Rightarrow> bool" where
  "electing_ok c \<longleftrightarrow> (\<forall>i ps votes q. i < size_of c \<longrightarrow> cl_busy c ! i = Electing ps votes q \<longrightarrow>
     election_ok c i ps votes q)"

text \<open>A winner got a quorum of the votes of its term and gave no other node its own.\<close>

definition wins_ok :: "'m Cluster \<Rightarrow> bool" where
  "wins_ok c \<longleftrightarrow> (\<forall>u t. (u, t) \<in> set (cl_wins c) \<longrightarrow> size_of c div 2 + 1 \<le> card (voters c u t) \<and>
     (\<forall>b. (u, t, b) \<in> set (cl_ballots c) \<longrightarrow> b = u) \<and>
     (\<forall>i < size_of c. rn_node_id (node c i) = u \<longrightarrow> t \<le> rn_current_term (node c i) \<and>
        (t = rn_current_term (node c i) \<longrightarrow> rn_voted_for (node c i) = u)))"

definition leaders_ok :: "'m Cluster \<Rightarrow> bool" where
  "leaders_ok c \<longleftrightarrow> (\<forall>i < size_of c. rn_role (node c i) = LEADER \<longrightarrow>
       (rn_node_id (node c i), rn_current_term (node c i)) \<in> set (cl_wins c)) \<and>
     (\<forall>i < size_of c. \<forall>ps. cl_busy c ! i = Replicating ps \<longrightarrow> rn_role (node c i) = LEADER)"

definition elect_inv :: "'m Cluster \<Rightarrow> bool" where
  "elect_inv c \<longleftrightarrow> layout_ok c \<and> ballots_ok c \<and> electing_ok c \<and> wins_ok c \<and> leaders_ok c"

lemma same_layout:
  assumes "size_of c' = size_of c"
    and "\<forall>i < size_of c. rn_node_id (node c' i) = rn_node_id (node c i) \<and> node_addr (node c' i) = node_addr (node c i)"
  shows "map rn_node_id (cl_nodes c') = map rn_node_id (cl_nodes c)" "map node_addr (cl_nodes c') = map node_addr (cl_nodes c)"
    "ids c' = ids c" "ids_at c' ps = ids_at c ps"
proof -
  show m: "map rn_node_id (cl_nodes c') = map rn_node_id (cl_nodes c)" "map node_addr (cl_nodes c') = map node_addr (cl_nodes c)"
    using assms by (simp_all add: list_eq_iff_nth_eq)
  show "ids c' = ids c" unfolding ids_def by (metis m(1) image_set)
  show "ids_at c' ps = ids_at c ps" unfolding ids_at_def assms(1) by (metis (lifting) assms(2))
qed

lemma finite_voters [simp]: "finite (voters c u t)"
  by (rule finite_subset [of _ "fst ` set (cl_ballots c)"]) (force simp: voters_def)+

lemma node_of_id: "layout_ok c \<Longrightarrow> i < size_of c \<Longrightarrow> j < size_of c \<Longrightarrow>
  rn_node_id (node c i) = rn_node_id (node c j) \<Longrightarrow> i = j"
  by (auto simp: layout_ok_def distinct_conv_nth)

lemma node_of_addr: "layout_ok c \<Longrightarrow> i < size_of c \<Longrightarrow> j < size_of c \<Longrightarrow>
  node_addr (node c i) = node_addr (node c j) \<Longrightarrow> i = j"
  by (auto simp: layout_ok_def distinct_conv_nth)

lemma id_in_ids: "i < size_of c \<Longrightarrow> rn_node_id (node c i) \<in> ids c"
  by (simp add: ids_def)

lemma id_not_empty: "layout_ok c \<Longrightarrow> i < size_of c \<Longrightarrow> rn_node_id (node c i) \<noteq> []"
  using id_in_ids by (force simp: layout_ok_def)

text \<open>Steps that leave the votes alone; an election may get on without counting a vote.\<close>

lemma inv_same_votes:
  assumes inv: "elect_inv c"
    and size: "size_of c' = size_of c" "length (cl_busy c') = length (cl_busy c)"
    and nodes: "\<And>i. i < size_of c \<Longrightarrow> same_votes (node c i) (node c' i)"
    and electing: "\<And>i ps v q. i < size_of c \<Longrightarrow> cl_busy c' ! i = Electing ps v q \<Longrightarrow>
      \<exists>qs. cl_busy c ! i = Electing (qs @ ps) v q"
    and replicating: "\<And>i ps. i < size_of c \<Longrightarrow> cl_busy c' ! i = Replicating ps \<Longrightarrow> rn_role (node c i) = LEADER"
    and history: "cl_ballots c' = cl_ballots c" "cl_wins c' = cl_wins c"
  shows "elect_inv c'"
proof -
  note same = nodes [unfolded same_votes_def]
  have "\<forall>i < size_of c. rn_node_id (node c' i) = rn_node_id (node c i) \<and> node_addr (node c' i) = node_addr (node c i)"
    using same by blast
  note lay = same_layout [OF size(1) this]
  have eq: "rn_node_id (node c' i) = rn_node_id (node c i)" "rn_current_term (node c' i) = rn_current_term (node c i)"
    "rn_voted_for (node c' i) = rn_voted_for (node c i)" "rn_role (node c' i) = rn_role (node c i)"
    "rn_peers (node c' i) = rn_peers (node c i)" "rn_host (node c' i) = rn_host (node c i)"
    "rn_port (node c' i) = rn_port (node c i)" if "i < size_of c" for i
    using same [OF that] by simp_all
  have vot: "voters c' u t = voters c u t" for u t by (simp add: voters_def history)
  have "layout_ok c'" using inv by (simp add: elect_inv_def layout_ok_def lay size eq)
  moreover have "ballots_ok c'" using inv by (simp add: elect_inv_def ballots_ok_def lay history size eq)
  moreover have "electing_ok c'"
    unfolding electing_ok_def size
  proof (intro allI impI)
    fix i ps votes q
    assume i: "i < size_of c" "cl_busy c' ! i = Electing ps votes q"
    then obtain qs where "cl_busy c ! i = Electing (qs @ ps) votes q" using electing by blast
    then have old: "election_ok c i (qs @ ps) votes q" using inv i(1) by (simp add: elect_inv_def electing_ok_def)
    have "ids_at c ps \<subseteq> ids_at c (qs @ ps)" by (auto simp: ids_at_def)
    then have "card (voters c u t - ids_at c (qs @ ps)) \<le> card (voters c u t - ids_at c ps)" for u t
      by (intro card_mono) auto
    with old show "election_ok c' i ps votes q"
      by (auto simp: election_ok_def Let_def vot lay history eq [OF i(1)] intro: order_trans)
  qed
  moreover have "wins_ok c'" using inv by (simp add: elect_inv_def wins_ok_def vot history size eq)
  moreover have "leaders_ok c'" using inv replicating by (simp add: elect_inv_def leaders_ok_def history size eq)
  ultimately show ?thesis by (simp add: elect_inv_def)
qed

text \<open>A node handles a vote request of another node.\<close>

lemma after_vote_static [simp]:
  "rn_node_id (after_vote q n) = rn_node_id n" "rn_host (after_vote q n) = rn_host n"
  "rn_port (after_vote q n) = rn_port n" "rn_peers (after_vote q n) = rn_peers n"
  "rn_running (after_vote q n) = rn_running n"
  by (simp_all add: after_vote_def Let_def becomeFollower_def)

lemma after_vote_role: "rn_role (after_vote q n) = LEADER \<Longrightarrow>
    rn_role n = LEADER \<and> rn_current_term (after_vote q n) = rn_current_term n"
  by (auto simp: after_vote_def Let_def becomeFollower_def split: if_splits)

lemma after_vote_refused: "rn_current_term (after_vote q n) = rn_current_term n \<Longrightarrow> \<not> grants q n \<Longrightarrow>
    rn_voted_for (after_vote q n) = rn_voted_for n"
  by (auto simp: after_vote_def Let_def split: if_splits)

text \<open>A vote that was given in the term stays.\<close>

lemma after_vote_keeps:
  assumes "rn_voted_for n = b" "b \<noteq> []" "rn_current_term (after_vote q n) = rn_current_term n"
  shows "rn_voted_for (after_vote q n) = b"
  using assms by (auto simp: after_vote_def Let_def becomeFollower_def grants_def vote_free_def split: if_splits)

lemma inv_visit:
  fixes c :: "'m Cluster"
  assumes inv: "elect_inv c" and j: "j < size_of c" and idle: "cl_busy c ! j = Idle"
    and q: "rv_candidate_id q \<in> ids c" "rv_candidate_id q \<noteq> rn_node_id (node c j)" "in64 (rv_term q)"
    and c': "c' = c\<lparr>cl_nodes := (cl_nodes c)[j := after_vote q (node c j)], cl_ballots :=
      (if grants q (node c j) then [(rn_node_id (node c j), rv_term q, rv_candidate_id q)] else []) @ cl_ballots c\<rparr>"
  shows "elect_inv c'"
proof -
  let ?n = "node c j" and ?u = "rv_candidate_id q"
  have lay: "layout_ok c" and bal: "ballots_ok c" and ele: "electing_ok c" and win: "wins_ok c" and lea: "leaders_ok c"
    using inv by (simp_all add: elect_inv_def)
  have node': "node c' i = (if i = j then after_vote q ?n else node c i)" if "i < size_of c" for i
    using that by (simp add: c' nth_list_update)
  have size: "size_of c' = size_of c" "cl_busy c' = cl_busy c" "cl_wins c' = cl_wins c" by (simp_all add: c')
  have same: "\<forall>i < size_of c. rn_node_id (node c' i) = rn_node_id (node c i) \<and> node_addr (node c' i) = node_addr (node c i)"
    by (simp add: node')
  note lay' = same_layout [OF size(1) same]
  have mem: "(v, t, b) \<in> set (cl_ballots c') \<longleftrightarrow>
      (v, t, b) \<in> set (cl_ballots c) \<or> grants q ?n \<and> v = rn_node_id ?n \<and> t = rv_term q \<and> b = ?u" for v t b
    by (auto simp: c')
  have idj: "rn_node_id (node c i) = rn_node_id ?n \<longleftrightarrow> i = j" if "i < size_of c" for i
    using node_of_id [OF lay that j] by auto
  have ne: "b \<noteq> []" if "b \<in> ids c" for b using lay that by (auto simp: layout_ok_def)
  have tm: "rn_current_term ?n \<le> rn_current_term (after_vote q ?n)" by (simp add: after_vote_term)
  have old: "v \<in> ids c \<and> b \<in> ids c" "i < size_of c \<Longrightarrow> rn_node_id (node c i) = v \<Longrightarrow> t \<le> rn_current_term (node c i)"
    "i < size_of c \<Longrightarrow> rn_node_id (node c i) = v \<Longrightarrow> t = rn_current_term (node c i) \<Longrightarrow> b = v \<or> rn_voted_for (node c i) = b"
    "(v, t, b') \<in> set (cl_ballots c) \<Longrightarrow> b = v \<or> b' = v \<or> b = b'"
    if "(v, t, b) \<in> set (cl_ballots c)" for v t b b' i
    using bal that unfolding ballots_ok_def by blast+
  have granted: "rv_term q = rn_current_term (after_vote q ?n) \<and> rn_voted_for (after_vote q ?n) = ?u \<and>
      rn_current_term ?n \<le> rv_term q" if "grants q ?n"
    using after_vote_granted [OF that] that by (auto simp: grants_def vote_free_def)
  have fresh: "b = rn_node_id ?n \<or> b = ?u" if "grants q ?n" "(rn_node_id ?n, rv_term q, b) \<in> set (cl_ballots c)" for b
  proof (rule ccontr)
    assume no: "\<not> (b = rn_node_id ?n \<or> b = ?u)"
    have "rv_term q \<le> rn_current_term ?n" using old(2) [OF that(2) j] by simp
    then have "rv_term q = rn_current_term ?n" using granted [OF that(1)] by simp
    then have "rn_voted_for ?n = b" using old(3) [OF that(2) j] no by simp
    moreover have "b \<noteq> []" using old(1) [OF that(2)] ne by blast
    ultimately show False using that(1) no \<open>rv_term q = _\<close> by (auto simp: grants_def vote_free_def)
  qed
  have "layout_ok c'"
    using lay q(3) by (simp add: layout_ok_def lay' size node' after_vote_term max_def)
  moreover have "ballots_ok c'"
    unfolding ballots_ok_def lay' size
  proof (intro allI impI conjI)
    fix v t b
    assume b: "(v, t, b) \<in> set (cl_ballots c')"
    show "v \<in> ids c" "b \<in> ids c" using b old(1) q(1) id_in_ids [OF j] by (auto simp: mem)
    show "b = v \<or> b' = v \<or> b = b'" if "(v, t, b') \<in> set (cl_ballots c')" for b'
      using b that old(4) [of v t b b'] fresh [of b] fresh [of b'] by (auto simp: mem)
    fix i
    assume i: "i < size_of c" "rn_node_id (node c' i) = v"
    then have v: "rn_node_id (node c i) = v" by (simp add: same)
    show "t \<le> rn_current_term (node c' i)"
      using b old(2) [OF _ i(1) v] granted tm idj [OF i(1)] v by (force simp: mem node' [OF i(1)])
    assume t: "t = rn_current_term (node c' i)"
    show "b = v \<or> rn_voted_for (node c' i) = b"
    proof (cases "(v, t, b) \<in> set (cl_ballots c)")
      case True
      have "t = rn_current_term (node c i)"
        using old(2) [OF True i(1) v] t tm by (simp add: node' [OF i(1)] split: if_splits)
      then have "b = v \<or> rn_voted_for (node c i) = b" using old(3) [OF True i(1) v] by blast
      then show ?thesis using after_vote_keeps [of ?n b q] t \<open>t = rn_current_term (node c i)\<close> old(1) [OF True] ne
        by (auto simp: node' [OF i(1)] split: if_splits)
    next
      case False
      then have "grants q ?n" "i = j" "b = ?u" using b idj [OF i(1)] v by (auto simp: mem)
      then show ?thesis using granted node' [OF i(1)] by simp
    qed
  qed
  moreover have sub: "voters c u t \<subseteq> voters c' u t" for u t by (auto simp: voters_def mem)
  have "electing_ok c'"
    unfolding electing_ok_def size
  proof (intro allI impI)
    fix i ps votes p
    assume i: "i < size_of c" "cl_busy c ! i = Electing ps votes p"
    then have e: "election_ok c i ps votes p" "i \<noteq> j" using ele idle by (auto simp: electing_ok_def)
    have "card (voters c u t - ids_at c ps) \<le> card (voters c' u t - ids_at c ps)" for u t
      using sub by (intro card_mono) auto
    then show "election_ok c' i ps votes p"
      using e by (auto simp: election_ok_def Let_def lay' size node' [OF i(1)] intro: order_trans)
  qed
  moreover have "wins_ok c'"
    unfolding wins_ok_def size
  proof (intro allI impI conjI)
    fix u t
    assume w: "(u, t) \<in> set (cl_wins c)"
    then have wo: "size_of c div 2 + 1 \<le> card (voters c u t)" "\<And>b. (u, t, b) \<in> set (cl_ballots c) \<Longrightarrow> b = u"
      "\<And>i. i < size_of c \<Longrightarrow> rn_node_id (node c i) = u \<Longrightarrow> t \<le> rn_current_term (node c i) \<and>
         (t = rn_current_term (node c i) \<longrightarrow> rn_voted_for (node c i) = u)"
      using win unfolding wins_ok_def by blast+
    show "size_of c div 2 + 1 \<le> card (voters c' u t)"
      by (rule order_trans [OF wo(1)]) (intro card_mono sub finite_voters)
    show "b = u" if b: "(u, t, b) \<in> set (cl_ballots c')" for b
    proof (rule ccontr)
      assume "b \<noteq> u"
      then have g: "grants q ?n" "u = rn_node_id ?n" "t = rv_term q" "b = ?u" using b wo(2) by (auto simp: mem)
      then have "t = rn_current_term ?n" "rn_voted_for ?n = u" using wo(3) [OF j] granted by auto
      moreover have "u \<noteq> []" using g(2) id_not_empty [OF lay j] by simp
      ultimately show False using g q(2) by (auto simp: grants_def vote_free_def)
    qed
    fix i
    assume i: "i < size_of c" "rn_node_id (node c' i) = u"
    then have u: "rn_node_id (node c i) = u" by (simp add: same)
    note o = wo(3) [OF i(1) u]
    show "t \<le> rn_current_term (node c' i)" using o tm by (auto simp: node' [OF i(1)])
    assume t: "t = rn_current_term (node c' i)"
    then have "t = rn_current_term (node c i)" using o tm by (auto simp: node' [OF i(1)] split: if_splits)
    then show "rn_voted_for (node c' i) = u"
      using o t after_vote_keeps [of ?n u q] u id_not_empty [OF lay i(1)]
      by (auto simp: node' [OF i(1)] split: if_splits)
  qed
  moreover have "leaders_ok c'"
    using lea idle after_vote_role [of q ?n] unfolding leaders_ok_def size
    by (auto simp: node' split: if_splits)
  ultimately show ?thesis by (simp add: elect_inv_def)
qed

text \<open>A vote is counted that the voter gave.\<close>

lemma inv_count:
  fixes c :: "'m Cluster"
  assumes inv: "elect_inv c" and i: "i < size_of c" "cl_busy c ! i = Electing (p # ps) votes q"
    and j: "at_address c p j" and vote: "rn_node_id (node c j) \<in> voters c (rn_node_id (node c i)) (rn_current_term (node c i))"
    and c': "c' = c\<lparr>cl_busy := (cl_busy c)[i := Electing ps (votes + 1) q]\<rparr>"
  shows "elect_inv c'"
proof -
  let ?u = "rn_node_id (node c i)" and ?t = "rn_current_term (node c i)"
  have lay: "layout_ok c" and e: "election_ok c i (p # ps) votes q"
    using inv i by (auto simp: elect_inv_def electing_ok_def)
  have same: "cl_nodes c' = cl_nodes c" "cl_ballots c' = cl_ballots c" "cl_wins c' = cl_wins c" "ids c' = ids c"
    "voters c' u t = voters c u t" "ids_at c' rs = ids_at c rs" "length (cl_busy c') = length (cl_busy c)" for u t rs
    by (simp_all add: c' voters_def ids_at_def ids_def)
  have busy: "cl_busy c' ! k = (if k = i then Electing ps (votes + 1) q else cl_busy c ! k)" if "k < size_of c" for k
    using that lay by (simp add: c' nth_list_update layout_ok_def)
  have at: "rn_node_id (node c j) \<in> ids_at c (p # ps)" using j by (auto simp: ids_at_def at_address_def)
  moreover have "rn_node_id (node c j) \<notin> ids_at c ps"
  proof
    assume "rn_node_id (node c j) \<in> ids_at c ps"
    then obtain k where "k < size_of c" "rn_node_id (node c k) = rn_node_id (node c j)"
      "node_addr (node c k) \<in> peer_addr ` set ps" by (force simp: ids_at_def)
    moreover from this have "k = j" using node_of_id [OF lay] j by (simp add: at_address_def)
    ultimately show False using e j by (auto simp: election_ok_def Let_def at_address_def)
  qed
  moreover have "ids_at c ps \<subseteq> ids_at c (p # ps)" by (auto simp: ids_at_def)
  ultimately have "insert (rn_node_id (node c j)) (voters c ?u ?t - ids_at c (p # ps)) \<subseteq> voters c ?u ?t - ids_at c ps"
    "rn_node_id (node c j) \<notin> voters c ?u ?t - ids_at c (p # ps)"
    using vote by auto
  then have "Suc (card (voters c ?u ?t - ids_at c (p # ps))) \<le> card (voters c ?u ?t - ids_at c ps)"
    using card_mono by (metis (no_types, lifting) card_insert_disjoint finite_Diff finite_voters)
  then have "election_ok c' i ps (votes + 1) q" using e by (simp add: election_ok_def Let_def same)
  moreover have "election_ok c' k rs v r = election_ok c k rs v r" for k rs v r
    by (simp add: election_ok_def Let_def same)
  ultimately have "electing_ok c'" using inv by (auto simp: elect_inv_def electing_ok_def same busy split: if_splits)
  then show ?thesis using inv
    by (auto simp: elect_inv_def layout_ok_def ballots_ok_def wins_ok_def leaders_ok_def same busy split: if_splits)
qed

text \<open>An election begins.\<close>

lemma candidate_simps [simp]:
  "rn_node_id (candidate n) = rn_node_id n" "rn_host (candidate n) = rn_host n" "rn_port (candidate n) = rn_port n"
  "rn_peers (candidate n) = rn_peers n" "rn_role (candidate n) = CANDIDATE" "rn_voted_for (candidate n) = rn_node_id n"
  "rn_current_term (candidate n) = wrap64 (rn_current_term n + 1)"
  by (simp_all add: candidate_def becomeCandidate_def)

lemma inv_begin:
  fixes c :: "'m Cluster"
  assumes inv: "elect_inv c" and i: "free c i" and tm: "in64 (rn_current_term (node c i) + 1)"
  shows "elect_inv (begin_election i c)"
proof -
  let ?n = "node c i" and ?c = "begin_election i c" and ?u = "rn_node_id (node c i)" and ?t = "rn_current_term (node c i) + 1"
  have i': "i < size_of c" "cl_busy c ! i = Idle" using i by (simp_all add: free_def)
  have lay: "layout_ok c" and bal: "ballots_ok c" and ele: "electing_ok c" and win: "wins_ok c" and lea: "leaders_ok c"
    using inv by (simp_all add: elect_inv_def)
  have node': "node ?c k = (if k = i then candidate ?n else node c k)" if "k < size_of c" for k
    using that by (simp add: begin_election_def Let_def nth_list_update)
  have busy: "cl_busy ?c ! k = (if k = i then Electing (rn_peers ?n) 1 (ballot ?n) else cl_busy c ! k)" if "k < size_of c" for k
    using that lay by (simp add: begin_election_def Let_def nth_list_update layout_ok_def)
  have same: "size_of ?c = size_of c" "length (cl_busy ?c) = length (cl_busy c)" "cl_wins ?c = cl_wins c"
    "cl_ballots ?c = (?u, ?t, ?u) # cl_ballots c"
    using tm by (simp_all add: begin_election_def Let_def)
  have "\<forall>k < size_of c. rn_node_id (node ?c k) = rn_node_id (node c k) \<and> node_addr (node ?c k) = node_addr (node c k)"
    by (simp add: node')
  note lay' = same_layout [OF same(1) this]
  have idi: "rn_node_id (node c k) = ?u \<longleftrightarrow> k = i" if "k < size_of c" for k
    using node_of_id [OF lay that i'(1)] by auto
  have old: "v \<in> ids c \<and> b \<in> ids c" "k < size_of c \<Longrightarrow> rn_node_id (node c k) = v \<Longrightarrow> t \<le> rn_current_term (node c k)"
    "k < size_of c \<Longrightarrow> rn_node_id (node c k) = v \<Longrightarrow> t = rn_current_term (node c k) \<Longrightarrow> b = v \<or> rn_voted_for (node c k) = b"
    "(v, t, b') \<in> set (cl_ballots c) \<Longrightarrow> b = v \<or> b' = v \<or> b = b'"
    if "(v, t, b) \<in> set (cl_ballots c)" for v t b b' k
    using bal that unfolding ballots_ok_def by blast+
  have won: "t < ?t" if "(?u, t) \<in> set (cl_wins c)" for t
    using win that i'(1) unfolding wins_ok_def by force
  have "layout_ok ?c" using lay tm by (simp add: layout_ok_def lay' same node')
  moreover have "ballots_ok ?c"
    unfolding ballots_ok_def lay' same(1)
  proof (intro allI impI conjI)
    fix v t b
    assume b: "(v, t, b) \<in> set (cl_ballots ?c)"
    show "v \<in> ids c" "b \<in> ids c" using b old(1) id_in_ids [OF i'(1)] by (auto simp: same)
    show "b = v \<or> b' = v \<or> b = b'" if "(v, t, b') \<in> set (cl_ballots ?c)" for b'
      using b that old(4) [of v t b b'] by (auto simp: same)
    fix k
    assume k: "k < size_of c" "rn_node_id (node ?c k) = v"
    then have v: "rn_node_id (node c k) = v" by (simp add: node' split: if_splits)
    have le: "(v, t, b) \<in> set (cl_ballots c) \<Longrightarrow> t \<le> rn_current_term (node c k)" by (rule old(2) [OF _ k(1) v])
    show "t \<le> rn_current_term (node ?c k)"
      using b le v idi [OF k(1)] tm by (auto simp: same node' [OF k(1)])
    assume "t = rn_current_term (node ?c k)"
    then show "b = v \<or> rn_voted_for (node ?c k) = b"
      using b le v idi [OF k(1)] tm old(3) [OF _ k(1) v] by (auto simp: same node' [OF k(1)] split: if_splits)
  qed
  moreover have sub: "voters c u t \<subseteq> voters ?c u t" for u t by (auto simp: voters_def same)
  have "electing_ok ?c"
    unfolding electing_ok_def same(1)
  proof (intro allI impI)
    fix k ps votes q
    assume k: "k < size_of c" "cl_busy ?c ! k = Electing ps votes q"
    show "election_ok ?c k ps votes q"
    proof (cases "k = i")
      case True
      then have q: "ps = rn_peers ?n" "votes = 1" "q = ballot ?n" using k busy [OF k(1)] by simp_all
      have "?u \<notin> ids_at c (rn_peers ?n)"
      proof
        assume "?u \<in> ids_at c (rn_peers ?n)"
        then obtain j where "j < size_of c" "rn_node_id (node c j) = ?u" "node_addr (node c j) \<in> peer_addr ` set (rn_peers ?n)"
          by (force simp: ids_at_def)
        then have "node_addr ?n \<in> peer_addr ` set (rn_peers ?n)" using idi by blast
        then show False using lay i'(1) unfolding layout_ok_def by blast
      qed
      then have "{?u} \<subseteq> voters ?c ?u ?t - ids_at c (rn_peers ?n)" by (simp add: voters_def same)
      then have "card {?u} \<le> card (voters ?c ?u ?t - ids_at c (rn_peers ?n))" by (intro card_mono) simp_all
      moreover have "(?u, ?t) \<notin> set (cl_wins c)" using won by blast
      ultimately show ?thesis using True tm lay i'(1)
        by (simp add: election_ok_def Let_def node' lay' same(3) q ballot_def layout_ok_def)
    next
      case False
      then have e: "election_ok c k ps votes q" using ele k busy [OF k(1)] by (simp add: electing_ok_def)
      have "card (voters c u t - ids_at c ps) \<le> card (voters ?c u t - ids_at c ps)" for u t
        using sub by (intro card_mono) auto
      then show ?thesis using e False
        by (auto simp: election_ok_def Let_def lay' same(3) node' [OF k(1)] intro: order_trans)
    qed
  qed
  moreover have "wins_ok ?c"
    unfolding wins_ok_def same(1,3)
  proof (intro allI impI conjI)
    fix u t
    assume w: "(u, t) \<in> set (cl_wins c)"
    then have wo: "size_of c div 2 + 1 \<le> card (voters c u t)" "\<And>b. (u, t, b) \<in> set (cl_ballots c) \<Longrightarrow> b = u"
      "\<And>k. k < size_of c \<Longrightarrow> rn_node_id (node c k) = u \<Longrightarrow> t \<le> rn_current_term (node c k) \<and>
         (t = rn_current_term (node c k) \<longrightarrow> rn_voted_for (node c k) = u)"
      using win unfolding wins_ok_def by blast+
    show "size_of c div 2 + 1 \<le> card (voters ?c u t)"
      by (rule order_trans [OF wo(1)]) (intro card_mono sub finite_voters)
    show "b = u" if "(u, t, b) \<in> set (cl_ballots ?c)" for b using that wo(2) by (auto simp: same)
    fix k
    assume k: "k < size_of c" "rn_node_id (node ?c k) = u"
    then have u: "rn_node_id (node c k) = u" by (simp add: node' split: if_splits)
    show "t \<le> rn_current_term (node ?c k)" using wo(3) [OF k(1) u] tm by (auto simp: node' [OF k(1)])
    assume "t = rn_current_term (node ?c k)"
    then show "rn_voted_for (node ?c k) = u"
      using wo(3) [OF k(1) u] tm by (auto simp: node' [OF k(1)] split: if_splits)
  qed
  moreover have "leaders_ok ?c"
    using lea unfolding leaders_ok_def same(1,3) by (auto simp: node' busy split: if_splits)
  ultimately show ?thesis by (simp add: elect_inv_def)
qed

text \<open>An election is decided.\<close>

lemma finish_election_eq:
  "finish_election votes n = Ret (if votes \<ge> majority n
     then n\<lparr>rn_role := LEADER, rn_leader_id := rn_node_id n,
            rn_next_index := map (\<lambda>_. int (length (rn_log n)) + 1) (rn_next_index n),
            rn_match_index := map (\<lambda>_. 0) (rn_match_index n)\<rparr>
     else becomeFollower (rn_current_term n) [] n)"
  by (simp add: finish_election_def becomeLeader_def lock_simps)

lemma inv_decided:
  fixes c :: "'m Cluster"
  assumes inv: "elect_inv c" and i: "i < size_of c" "cl_busy c ! i = Electing [] votes q"
    and n: "finish_election votes (node c i) = Ret n"
    and c': "c' = c\<lparr>cl_nodes := (cl_nodes c)[i := n], cl_busy := (cl_busy c)[i := Idle],
      cl_wins := (if rn_role n = LEADER then (rn_node_id n, rn_current_term n) # cl_wins c else cl_wins c)\<rparr>"
  shows "elect_inv c'"
proof -
  let ?u = "rn_node_id (node c i)" and ?t = "rn_current_term (node c i)"
  have lay: "layout_ok c" and bal: "ballots_ok c" and ele: "electing_ok c" and win: "wins_ok c" and lea: "leaders_ok c"
    using inv by (simp_all add: elect_inv_def)
  have e: "rn_voted_for (node c i) = ?u" "(?u, ?t) \<notin> set (cl_wins c)" "votes \<le> card (voters c ?u ?t)"
    using ele i by (force simp: electing_ok_def election_ok_def Let_def ids_at_def)+
  have maj: "majority (node c i) = size_of c div 2 + 1" using lay i(1) by (simp add: majority_def layout_ok_def)
  have n': "rn_node_id n = ?u" "node_addr n = node_addr (node c i)" "rn_peers n = rn_peers (node c i)" "rn_current_term n = ?t"
    "rn_role n = LEADER \<Longrightarrow> rn_voted_for n = ?u \<and> size_of c div 2 + 1 \<le> votes"
    using n e(1) by (auto simp: finish_election_eq maj becomeFollower_def split: if_splits)
  have node': "node c' k = (if k = i then n else node c k)" if "k < size_of c" for k
    using that by (simp add: c' nth_list_update)
  have busy: "cl_busy c' ! k = (if k = i then Idle else cl_busy c ! k)" if "k < size_of c" for k
    using that lay by (simp add: c' nth_list_update layout_ok_def)
  have same: "size_of c' = size_of c" "length (cl_busy c') = length (cl_busy c)" "cl_ballots c' = cl_ballots c"
    "voters c' u t = voters c u t" for u t
    by (simp_all add: c' voters_def)
  have wins: "(u, t) \<in> set (cl_wins c') \<longleftrightarrow> (u, t) \<in> set (cl_wins c) \<or> rn_role n = LEADER \<and> u = ?u \<and> t = ?t" for u t
    by (auto simp: c' n')
  have "\<forall>k < size_of c. rn_node_id (node c' k) = rn_node_id (node c k) \<and> node_addr (node c' k) = node_addr (node c k)"
    using n' by (simp add: node')
  note lay' = same_layout [OF same(1) this]
  have idi: "rn_node_id (node c k) = ?u \<longleftrightarrow> k = i" if "k < size_of c" for k
    using node_of_id [OF lay that i(1)] by auto
  have own: "b = ?u" if "(?u, ?t, b) \<in> set (cl_ballots c)" for b
    using bal that i(1) e(1) unfolding ballots_ok_def by metis
  have tm: "rn_current_term (node c' k) = rn_current_term (node c k)" "rn_node_id (node c' k) = rn_node_id (node c k)"
    "rn_peers (node c' k) = rn_peers (node c k)" "rn_host (node c' k) = rn_host (node c k)"
    "rn_port (node c' k) = rn_port (node c k)" if "k < size_of c" for k
    using n' by (simp_all add: node' [OF that])
  have "layout_ok c'" using lay by (simp add: layout_ok_def lay' same tm)
  moreover have "ballots_ok c'"
    unfolding ballots_ok_def lay' same(1,3)
  proof (intro allI impI conjI)
    fix v t b
    assume b: "(v, t, b) \<in> set (cl_ballots c)"
    show "v \<in> ids c" "b \<in> ids c" using b bal by (auto simp: ballots_ok_def)
    show "b = v \<or> b' = v \<or> b = b'" if "(v, t, b') \<in> set (cl_ballots c)" for b'
      using b that bal unfolding ballots_ok_def by blast
    fix k
    assume k: "k < size_of c" "rn_node_id (node c' k) = v"
    then have o: "t \<le> rn_current_term (node c k)" "t = rn_current_term (node c k) \<longrightarrow> b = v \<or> rn_voted_for (node c k) = b"
      using b bal unfolding ballots_ok_def by (simp_all add: tm)
    show "t \<le> rn_current_term (node c' k)" using o k(1) by (simp add: tm)
    assume "t = rn_current_term (node c' k)"
    then show "b = v \<or> rn_voted_for (node c' k) = b"
      using o(2) own [of b] b k tm by (cases "k = i") (simp_all add: node' n'(1,4))
  qed
  moreover have "electing_ok c'"
    unfolding electing_ok_def same(1)
  proof (intro allI impI)
    fix k ps w r
    assume k: "k < size_of c" "cl_busy c' ! k = Electing ps w r"
    then have "k \<noteq> i" "election_ok c k ps w r" using ele busy [OF k(1)] by (auto simp: electing_ok_def split: if_splits)
    then show "election_ok c' k ps w r"
      using idi [OF k(1)] by (auto simp: election_ok_def Let_def lay' same(4) wins node' [OF k(1)])
  qed
  moreover have "wins_ok c'"
    unfolding wins_ok_def same(1,3,4)
  proof (intro allI impI conjI)
    fix u t
    assume w: "(u, t) \<in> set (cl_wins c')"
    have wo: "size_of c div 2 + 1 \<le> card (voters c u t)" "\<And>b. (u, t, b) \<in> set (cl_ballots c) \<Longrightarrow> b = u"
      "\<And>k. k < size_of c \<Longrightarrow> rn_node_id (node c k) = u \<Longrightarrow> t \<le> rn_current_term (node c k) \<and>
         (t = rn_current_term (node c k) \<longrightarrow> rn_voted_for (node c k) = u)" if "(u, t) \<in> set (cl_wins c)"
      using win that unfolding wins_ok_def by blast+
    show "size_of c div 2 + 1 \<le> card (voters c u t)" using w wo(1) n'(5) e(3) by (auto simp: wins)
    show "b = u" if "(u, t, b) \<in> set (cl_ballots c)" for b using w wo(2) own that by (auto simp: wins)
    fix k
    assume k: "k < size_of c" "rn_node_id (node c' k) = u"
    show "t \<le> rn_current_term (node c' k)" using w wo(3) k idi [OF k(1)] by (auto simp: wins tm)
    assume t: "t = rn_current_term (node c' k)"
    show "rn_voted_for (node c' k) = u"
    proof (cases "k = i")
      case True
      then have "rn_role n = LEADER" using w t k e(2) by (auto simp: wins tm)
      then show ?thesis using True k n' by (simp add: node')
    next
      case False
      then have "(u, t) \<in> set (cl_wins c)" using w k idi [OF k(1)] by (auto simp: wins tm)
      then show ?thesis using wo(3) [of k] k t False by (simp add: tm node')
    qed
  qed
  moreover have "leaders_ok c'"
    using lea n' unfolding leaders_ok_def same(1) wins by (auto simp: node' busy split: if_splits)
  ultimately show ?thesis by (simp add: elect_inv_def)
qed

section \<open>Every step keeps the invariant\<close>

lemma busy_length: "elect_inv c \<Longrightarrow> length (cl_busy c) = size_of c"
  by (simp add: elect_inv_def layout_ok_def)

lemma replicating_leader: "elect_inv c \<Longrightarrow> i < size_of c \<Longrightarrow> cl_busy c ! i = Replicating ps \<Longrightarrow> rn_role (node c i) = LEADER"
  by (simp add: elect_inv_def leaders_ok_def)

text \<open>A node whose activity changes without its votes.\<close>

lemma inv_activity:
  assumes inv: "elect_inv c" and i: "i < size_of c" and same: "same_votes (node c i) n"
    and b: "\<And>ps v q. b = Electing ps v q \<Longrightarrow> \<exists>qs. cl_busy c ! i = Electing (qs @ ps) v q"
    "\<And>ps. b = Replicating ps \<Longrightarrow> rn_role (node c i) = LEADER"
  shows "elect_inv (c\<lparr>cl_nodes := (cl_nodes c)[i := n], cl_busy := (cl_busy c)[i := b]\<rparr>)"
proof (rule inv_same_votes [OF inv])
  show "\<exists>qs. cl_busy c ! k = Electing (qs @ ps) v q"
    if "k < size_of c" "cl_busy (c\<lparr>cl_nodes := (cl_nodes c)[i := n], cl_busy := (cl_busy c)[i := b]\<rparr>) ! k = Electing ps v q"
    for k ps v q
    using that b(1) busy_length [OF inv] by (cases "k = i") (auto intro: exI [of _ "[]"])
  show "rn_role (node c k) = LEADER"
    if "k < size_of c" "cl_busy (c\<lparr>cl_nodes := (cl_nodes c)[i := n], cl_busy := (cl_busy c)[i := b]\<rparr>) ! k = Replicating ps"
    for k ps
    using that b(2) replicating_leader [OF inv] busy_length [OF inv] by (cases "k = i") auto
qed (use i same in \<open>auto simp: nth_list_update\<close>)

lemma inv_hear_vote:
  assumes inv: "elect_inv c" and i: "i < size_of c" "cl_busy c ! i = Electing (p # ps) votes q"
    and vote: "\<And>r. reply = Some r \<Longrightarrow> rvr_vote_granted r \<Longrightarrow> \<exists>j. at_address c p j \<and>
      rn_node_id (node c j) \<in> voters c (rn_node_id (node c i)) (rn_current_term (node c i))"
  shows "elect_inv (hear_vote i reply ps votes q c)"
proof (cases "sendRequestVote [StateMutex] reply (node c i)")
  case (Ret x)
  obtain g n where x: "x = (g, n)" by (cases x)
  note sent = sendRequestVote_locked [OF Ret [unfolded x]]
  have h: "hear_vote i reply ps votes q c = c\<lparr>cl_nodes := (cl_nodes c)[i := n],
      cl_busy := (cl_busy c)[i := Electing ps (if g then votes + 1 else votes) q]\<rparr>"
    by (simp add: hear_vote_def Ret x)
  show ?thesis
  proof (cases g)
    case True
    then obtain j where j: "at_address c p j" "rn_node_id (node c j) \<in> voters c (rn_node_id (node c i)) (rn_current_term (node c i))"
      using sent vote by blast
    show ?thesis by (rule inv_count [OF inv i j]) (use h True sent in simp)
  next
    case False
    show ?thesis unfolding h using False sent i
      by (intro inv_activity [OF inv i(1)]) (auto intro: exI [of _ "[p]"])
  qed
qed (use inv_activity [OF inv i(1) same_votes_refl, of Blocked] in \<open>simp_all add: hear_vote_def\<close>)

lemma inv_hear_append:
  assumes inv: "elect_inv c" and i: "i < size_of c" "cl_busy c ! i = Replicating qs"
  shows "elect_inv (hear_append i reply p ps c)"
proof (cases "sendAppendEntries [LogMutex, StateMutex] reply p (node c i)")
  case (Ret x)
  obtain ok n where x: "x = (ok, n)" by (cases x)
  show ?thesis
    using inv_activity [OF inv i(1) sendAppendEntries_same_votes [OF Ret [unfolded x]], of "Replicating ps"]
      replicating_leader [OF inv i] by (simp add: hear_append_def Ret x)
qed (use inv_activity [OF inv i(1) same_votes_refl, of Blocked] in \<open>simp_all add: hear_append_def\<close>)

text \<open>A connection of node \<open>i\<close> that carries a request in its name.\<close>

lemma inv_connection:
  assumes wire: "raft_wire k" and inv: "elect_inv c" and i: "i < size_of c" and j: "free c j" "i \<noteq> j"
    and req: "\<And>q. rc_parse_vote k data = Some q \<Longrightarrow> rv_candidate_id q = rn_node_id (node c i) \<and> in64 (rv_term q)"
    and visit: "visit k data j c = Some (reply, c')"
  shows "elect_inv c' \<and> size_of c' = size_of c \<and> cl_busy c' = cl_busy c \<and> node c' i = node c i \<and>
    (at_address c p j \<longrightarrow> at_address c' p j) \<and>
    (\<forall>r. received (rc_parse_vote_reply k) reply = Some r \<longrightarrow> rvr_vote_granted r \<longrightarrow>
      (\<exists>q. rc_parse_vote k data = Some q \<and>
        rn_node_id (node c' j) \<in> voters c' (rn_node_id (node c i)) (rv_term q)))"
  using wire visit
proof (cases rule: visit_cases)
  case refused
  then show ?thesis using inv by (simp add: received_def)
next
  case (vote q)
  have lay: "layout_ok c" using inv by (simp add: elect_inv_def)
  have j': "j < size_of c" "cl_busy c ! j = Idle" using j(1) by (simp_all add: free_def)
  have cand: "rv_candidate_id q = rn_node_id (node c i)" "in64 (rv_term q)" using req [OF vote(1)] by auto
  have "rn_node_id (node c i) \<noteq> rn_node_id (node c j)" using node_of_id [OF lay i j'(1)] j(2) by blast
  then have "elect_inv c'"
    using inv_visit [OF inv j' _ _ cand(2) vote(3)] cand(1) id_in_ids [OF i] by simp
  moreover have "\<exists>q. rc_parse_vote k data = Some q \<and> rn_node_id (node c' j) \<in> voters c' (rn_node_id (node c i)) (rv_term q)"
    if r: "received (rc_parse_vote_reply k) reply = Some r" "rvr_vote_granted r" for r
  proof -
    have "rc_parse_vote_reply k (rc_ser_vote_reply k \<lparr>rvr_term = rn_current_term (node c j),
        rvr_vote_granted = grants q (node c j)\<rparr>) = Some r"
      using r(1) vote(2) by (simp add: received_def split: if_splits)
    then have "r = \<lparr>rvr_term = wrap64 (rn_current_term (node c j)), rvr_vote_granted = grants q (node c j)\<rparr>"
      using wire unfolding raft_wire_def by fastforce
    then have "grants q (node c j)" using r(2) by simp
    then show ?thesis using vote(1) cand(1) j'(1) by (auto simp: vote(3) voters_def)
  qed
  ultimately show ?thesis using j(2) j'(1) by (auto simp: vote(3) at_address_def nth_list_update)
qed

lemma vote_data:
  assumes "raft_wire k" "elect_inv c" "i < size_of c" "cl_busy c ! i = Electing ps votes q" "rc_parse_vote k (rc_ser_vote k q) = Some q'"
  shows "rv_candidate_id q' = rn_node_id (node c i) \<and> in64 (rv_term q') \<and> rv_term q' = rn_current_term (node c i)"
proof -
  have "election_ok c i ps votes q" "in64 (rn_current_term (node c i))"
    using assms(2-4) by (auto simp: elect_inv_def electing_ok_def layout_ok_def)
  moreover have "q' = int64_vote q" using assms(1,5) by (auto simp: raft_wire_def)
  ultimately show ?thesis by (simp add: int64_vote_def election_ok_def Let_def)
qed

lemma append_data:
  assumes "raft_wire k" "append_request l n = Ret a" "rc_parse_vote k (rc_ser_append k a) = Some q'"
  shows "rv_candidate_id q' = rn_node_id n \<and> in64 (rv_term q')"
proof -
  have "q' = int64_vote (append_as_vote a)" using assms(1,3) by (auto simp: raft_wire_def)
  moreover have "ae_leader_id a = rn_node_id n" using assms(2) by (auto simp: append_request_def Let_def split: if_splits)
  ultimately show ?thesis by (simp add: int64_vote_def append_as_vote_def)
qed

lemma inv_asked:
  assumes wire: "raft_wire k" and inv: "elect_inv c" and i: "i < size_of c" "cl_busy c ! i = Electing (p # ps) votes q"
    and j: "at_address c p j" "free c j" and visit: "visit k (rc_ser_vote k q) j c = Some (reply, c')"
    and reply': "reply' = received (rc_parse_vote_reply k) reply \<or> reply' = None"
  shows "elect_inv (hear_vote i reply' ps votes q c')"
proof -
  have ij: "i \<noteq> j" using i j by (auto simp: free_def)
  have d: "rv_candidate_id q' = rn_node_id (node c i) \<and> in64 (rv_term q') \<and> rv_term q' = rn_current_term (node c i)"
    if "rc_parse_vote k (rc_ser_vote k q) = Some q'" for q'
    by (rule vote_data [OF wire inv i that])
  have "rv_candidate_id q' = rn_node_id (node c i) \<and> in64 (rv_term q')"
    if "rc_parse_vote k (rc_ser_vote k q) = Some q'" for q' using d [OF that] by blast
  note v = inv_connection [OF wire inv i(1) j(2) ij this visit, of p]
  show ?thesis
  proof (rule inv_hear_vote)
    show "elect_inv c'" "i < size_of c'" "cl_busy c' ! i = Electing (p # ps) votes q" using v i by simp_all
    fix r
    assume r: "reply' = Some r" "rvr_vote_granted r"
    then have "received (rc_parse_vote_reply k) reply = Some r" using reply' by simp
    then obtain q' where q': "rc_parse_vote k (rc_ser_vote k q) = Some q'"
      "rn_node_id (node c' j) \<in> voters c' (rn_node_id (node c i)) (rv_term q')" using v r(2) by blast
    then show "\<exists>j. at_address c' p j \<and> rn_node_id (node c' j) \<in> voters c' (rn_node_id (node c' i)) (rn_current_term (node c' i))"
      using v d [OF q'(1)] j(1) by auto
  qed
qed

lemma inv_replicated:
  assumes wire: "raft_wire k" and inv: "elect_inv c" and i: "i < size_of c" "cl_busy c ! i = Replicating ((l, p) # ps)"
    and a: "append_request l (node c i) = Ret a" and j: "free c j" and visit: "visit k (rc_ser_append k a) j c = Some (reply, c')"
  shows "elect_inv (hear_append i reply' p ps c')"
proof -
  have ij: "i \<noteq> j" using i j by (auto simp: free_def)
  note v = inv_connection [OF wire inv i(1) j ij append_data [OF wire a] visit]
  then show ?thesis by (intro inv_hear_append) (use i in auto)
qed

lemma inv_cluster_step: "cluster_step k lossy f c c' \<Longrightarrow> raft_wire k \<Longrightarrow> elect_inv c \<Longrightarrow> elect_inv c'"
proof (induction rule: cluster_step.induct)
  case (timeout c i)
  then show ?case by (intro inv_begin)
next
  case (asked i c p ps votes q j reply c')
  show ?case by (rule inv_asked [OF asked(6,7,1,2,3,4,5)]) simp
next
  case (vote_lost i c p ps votes q j reply c')
  show ?case by (rule inv_asked [OF vote_lost(7,8,2,3,4,5,6)]) simp
next
  case (vote_unreachable i c p ps votes q)
  show ?case by (rule inv_hear_vote [OF vote_unreachable(5,2,3)]) simp
next
  case (decided i c votes q n)
  show ?case by (rule inv_decided [OF decided(5,1,2,3) refl])
next
  case (round c i)
  then show ?case
    using inv_activity [OF round(4) _ same_votes_refl, of i "Replicating (enumerate 0 (rn_peers (node c i)))"]
    by (simp add: free_def)
next
  case (replicated i c l p ps a j reply c')
  show ?case by (rule inv_replicated [OF replicated(7,8,1,2,3,5,6)])
next
  case (append_lost i c l p ps a j reply c')
  show ?case by (rule inv_replicated [OF append_lost(8,9,2,3,4,6,7)])
next
  case (append_unreachable i c l p ps)
  show ?case by (rule inv_hear_append [OF append_unreachable(5,2,3)])
next
  case (round_end i c)
  then show ?case using inv_activity [OF round_end(4) round_end(1) same_votes_refl, of Idle] by simp
next
  case (quiet i c n)
  then show ?case
    using inv_activity [OF quiet(4) quiet(1) quiet_same_votes [OF quiet(2)], of "cl_busy c ! i"]
      replicating_leader [OF quiet(4) quiet(1)] by (force simp: intro: exI [of _ "[]"])
qed

lemma inv_cluster_run: "cluster_run k lossy f c0 c \<Longrightarrow> raft_wire k \<Longrightarrow> elect_inv c0 \<Longrightarrow> elect_inv c"
  by (induction rule: cluster_run.induct) (auto intro: inv_cluster_step)

text \<open>The invariant holds in the beginning.\<close>

lemma others_nth: "i < length ps \<Longrightarrow> length (others i ps) = length ps - 1"
  by (simp add: others_def)

lemma others_distinct:
  assumes "distinct (map g ps)" "i < length ps"
  shows "distinct (map g (others i ps))" "g (ps ! i) \<notin> g ` set (others i ps)"
proof -
  have "map g ps = map g (take i ps) @ g (ps ! i) # map g (drop (Suc i) ps)"
    using assms(2) by (metis (no_types, lifting) append_take_drop_id Cons_nth_drop_Suc list.simps(9) map_append)
  then show "distinct (map g (others i ps))" "g (ps ! i) \<notin> g ` set (others i ps)"
    using assms(1) by (auto simp: others_def)
qed

lemma inv_new:
  assumes "distinct (map peer_node_id ps)" "[] \<notin> peer_node_id ` set ps" "distinct (map peer_addr ps)"
  shows "elect_inv (Cluster_new ps machine)"
proof -
  let ?c = "Cluster_new ps machine"
  have m: "map rn_node_id (cl_nodes ?c) = map peer_node_id ps" "map node_addr (cl_nodes ?c) = map peer_addr ps"
    by (rule nth_equalityI; simp add: Cluster_new_def RaftNode_new_def)+
  have ids: "ids ?c = peer_node_id ` set ps" unfolding ids_def by (metis m(1) image_set)
  have size: "size_of ?c = length ps" "length (cl_busy ?c) = length ps" by (simp_all add: Cluster_new_def)
  have node: "rn_peers (node ?c i) = others i ps" "node_addr (node ?c i) = peer_addr (ps ! i)"
    "in64 (rn_current_term (node ?c i))" if "i < length ps" for i
    using that by (simp_all add: Cluster_new_def RaftNode_new_def in64_def)
  have "layout_ok ?c" unfolding layout_ok_def m ids size
  proof (intro conjI allI impI assms refl)
    fix i
    assume i: "i < length ps"
    then show "length (rn_peers (node ?c i)) + 1 = length ps" by (simp add: node others_nth)
    show "distinct (map peer_addr (rn_peers (node ?c i)))" "node_addr (node ?c i) \<notin> peer_addr ` set (rn_peers (node ?c i))"
      unfolding node(1,2) [OF i] by (rule others_distinct [OF assms(3) i])+
    show "in64 (rn_current_term (node ?c i))" by (rule node [OF i])
  qed
  then show ?thesis
    by (simp add: elect_inv_def ballots_ok_def electing_ok_def wins_ok_def leaders_ok_def)
      (simp add: Cluster_new_def RaftNode_new_def)
qed

text \<open>Two quorums share a voter, so a term has one winner.\<close>

lemma one_winner:
  assumes inv: "elect_inv c" and w: "(u, t) \<in> set (cl_wins c)" "(u', t) \<in> set (cl_wins c)"
  shows "u = u'"
proof -
  have lay: "layout_ok c" and bal: "ballots_ok c" and win: "wins_ok c" using inv by (simp_all add: elect_inv_def)
  have sub: "voters c x t \<subseteq> ids c" for x using bal by (auto simp: voters_def ballots_ok_def)
  have "card (set (map rn_node_id (cl_nodes c))) = length (map rn_node_id (cl_nodes c))"
    using lay by (intro distinct_card) (simp add: layout_ok_def)
  then have card: "card (ids c) = size_of c" by (simp add: ids_def)
  have q: "size_of c div 2 + 1 \<le> card (voters c u t)" "size_of c div 2 + 1 \<le> card (voters c u' t)"
    using win w unfolding wins_ok_def by blast+
  have "voters c u t \<inter> voters c u' t \<noteq> {}"
  proof
    assume "voters c u t \<inter> voters c u' t = {}"
    then have "card (voters c u t \<union> voters c u' t) = card (voters c u t) + card (voters c u' t)"
      by (intro card_Un_disjoint) simp_all
    moreover have "card (voters c u t \<union> voters c u' t) \<le> card (ids c)"
      using sub by (intro card_mono) (auto simp: ids_def)
    ultimately show False using q card by linarith
  qed
  then obtain v where v: "(v, t, u) \<in> set (cl_ballots c)" "(v, t, u') \<in> set (cl_ballots c)" by (auto simp: voters_def)
  have "u = v \<or> u' = v \<or> u = u'" using bal v unfolding ballots_ok_def by blast
  then show ?thesis using win w v unfolding wins_ok_def by blast
qed

section \<open>Waiting for ever\<close>

text \<open>
  A set of nodes each of which is blocked or waits for the answer of a node of the set. As long as
  no connection breaks, nothing in it ever changes.
\<close>

definition waits_for :: "'m Cluster \<Rightarrow> activity \<Rightarrow> nat \<Rightarrow> bool" where
  "waits_for c b j \<longleftrightarrow> (\<exists>p. at_address c p j \<and>
     ((\<exists>ps v q. b = Electing (p # ps) v q) \<or> (\<exists>l ps. b = Replicating ((l, p) # ps))))"

definition stuck :: "'m Cluster \<Rightarrow> nat set \<Rightarrow> bool" where
  "stuck c S \<longleftrightarrow> (\<forall>i \<in> S. i < size_of c \<and> (cl_busy c ! i = Blocked \<or> (\<exists>j \<in> S. waits_for c (cl_busy c ! i) j)))"

definition can_act :: "'m Cluster \<Rightarrow> nat \<Rightarrow> bool" where
  "can_act c i \<longleftrightarrow> cl_busy c ! i = Idle \<or> (\<exists>j. free c j \<and> waits_for c (cl_busy c ! i) j) \<or>
     (\<exists>v q. cl_busy c ! i = Electing [] v q) \<or> cl_busy c ! i = Replicating []"

lemma map_update_same: "g x = g (xs ! i) \<Longrightarrow> map g (xs[i := x]) = map g xs"
  by (metis list_update_id map_update)

lemma hear_vote_effect:
  "map node_addr (cl_nodes (hear_vote i reply ps v q c)) = map node_addr (cl_nodes c) \<and>
   (\<exists>b. cl_busy (hear_vote i reply ps v q c) = (cl_busy c)[i := b])"
proof (cases "sendRequestVote [StateMutex] reply (node c i)")
  case (Ret x)
  obtain g n where x: "x = (g, n)" by (cases x)
  then have "n = node c i" using sendRequestVote_locked [OF Ret [unfolded x]] by simp
  then show ?thesis by (auto simp: hear_vote_def Ret x map_update_same)
qed (auto simp: hear_vote_def)

lemma hear_append_effect:
  "map node_addr (cl_nodes (hear_append i reply p ps c)) = map node_addr (cl_nodes c) \<and>
   (\<exists>b. cl_busy (hear_append i reply p ps c) = (cl_busy c)[i := b])"
proof (cases "sendAppendEntries [LogMutex, StateMutex] reply p (node c i)")
  case (Ret x)
  obtain ok n where x: "x = (ok, n)" by (cases x)
  then have "node_addr n = node_addr (node c i)"
    using sendAppendEntries_same_votes [OF Ret [unfolded x]] by (simp add: same_votes_def)
  then show ?thesis by (auto simp: hear_append_def Ret x map_update_same)
qed (auto simp: hear_append_def)

lemma visit_effect:
  assumes "raft_wire k" "visit k data j c = Some (reply, c')"
  shows "map node_addr (cl_nodes c') = map node_addr (cl_nodes c)" "cl_busy c' = cl_busy c"
  using assms by (cases rule: visit_cases; simp add: map_update_same)+

lemma step_effect:
  "cluster_step k lossy f c c' \<Longrightarrow> raft_wire k \<Longrightarrow> \<not> lossy \<Longrightarrow>
   map node_addr (cl_nodes c') = map node_addr (cl_nodes c) \<and>
   (cl_busy c' = cl_busy c \<or> (\<exists>i b. can_act c i \<and> cl_busy c' = (cl_busy c)[i := b]))"
proof (induction rule: cluster_step.induct)
  case (timeout c i)
  then show ?case by (auto simp: begin_election_def Let_def map_update_same can_act_def free_def)
next
  case (asked i c p ps votes q j reply c')
  then have "can_act c i" by (auto simp: can_act_def waits_for_def)
  then show ?case using visit_effect [OF asked(6,5)] hear_vote_effect [of i _ ps votes q c'] by metis
next
  case (decided i c votes q n)
  moreover from this have "node_addr n = node_addr (node c i)"
    by (auto simp: finish_election_eq becomeFollower_def split: if_splits)
  ultimately show ?case by (auto simp: map_update_same can_act_def)
next
  case (round c i)
  then show ?case by (auto simp: can_act_def free_def)
next
  case (replicated i c l p ps a j reply c')
  then have "can_act c i" by (auto simp: can_act_def waits_for_def)
  then show ?case using visit_effect [OF replicated(7,6)] hear_append_effect [of i _ p ps c'] by metis
next
  case (round_end i c)
  then show ?case by (auto simp: can_act_def)
next
  case (quiet i c n)
  then show ?case using quiet_same_votes [OF quiet(2)] by (simp add: map_update_same same_votes_def)
qed auto

lemma waits_for_cong: "map node_addr (cl_nodes c') = map node_addr (cl_nodes c) \<Longrightarrow> waits_for c' b j = waits_for c b j"
proof -
  assume m: "map node_addr (cl_nodes c') = map node_addr (cl_nodes c)"
  then have "size_of c' = size_of c" by (rule map_eq_imp_length_eq)
  moreover from this have "node_addr (node c' j) = node_addr (node c j)" if "j < size_of c"
    using m that by (metis (mono_tags, lifting) nth_map)
  ultimately have "at_address c' p j = at_address c p j" for p by (auto simp: at_address_def)
  then show ?thesis by (simp add: waits_for_def)
qed

lemma stuck_idle:
  assumes "stuck c S" "distinct (map node_addr (cl_nodes c))" "i \<in> S"
  shows "\<not> can_act c i"
proof
  assume act: "can_act c i"
  have idle: "cl_busy c ! j \<noteq> Idle" if "j \<in> S" for j
  proof
    assume "cl_busy c ! j = Idle"
    then have "\<exists>k \<in> S. waits_for c Idle k" using assms(1) that unfolding stuck_def by fastforce
    then show False by (simp add: waits_for_def)
  qed
  have one: "j = j'" if "waits_for c b j" "waits_for c b j'" for b j j'
  proof -
    have "j < size_of c" "j' < size_of c" "map node_addr (cl_nodes c) ! j = map node_addr (cl_nodes c) ! j'"
      using that by (auto simp: waits_for_def at_address_def)
    then show ?thesis using assms(2) nth_eq_iff_index_eq [OF assms(2), of j j'] by simp
  qed
  have no: "\<not> waits_for c Idle j" "\<not> waits_for c Blocked j" "\<not> waits_for c (Electing [] v q) j"
    "\<not> waits_for c (Replicating []) j" for j v q
    by (simp_all add: waits_for_def)
  consider "cl_busy c ! i = Blocked" | j where "j \<in> S" "waits_for c (cl_busy c ! i) j"
    using assms(1,3) by (auto simp: stuck_def)
  then show False
  proof cases
    case 1
    then show ?thesis using act no by (simp add: can_act_def)
  next
    case 2
    from act obtain j' where "free c j'" "waits_for c (cl_busy c ! i) j'"
      unfolding can_act_def using 2(2) no by metis
    then show ?thesis using one [OF 2(2)] idle [OF 2(1)] by (auto simp: free_def)
  qed
qed

lemma stuck_step:
  assumes "cluster_step k False f c c'" "raft_wire k" "stuck c S" "distinct (map node_addr (cl_nodes c))"
  shows "stuck c' S \<and> distinct (map node_addr (cl_nodes c')) \<and> (\<forall>i \<in> S. cl_busy c' ! i = cl_busy c ! i)"
proof -
  have e: "map node_addr (cl_nodes c') = map node_addr (cl_nodes c)"
    "cl_busy c' = cl_busy c \<or> (\<exists>i b. can_act c i \<and> cl_busy c' = (cl_busy c)[i := b])"
    using step_effect [OF assms(1,2)] by simp_all
  have busy: "cl_busy c' ! i = cl_busy c ! i" if "i \<in> S" for i
    using e(2) stuck_idle [OF assms(3,4) that] by (metis nth_list_update_neq)
  moreover have "size_of c' = size_of c" using e(1) by (rule map_eq_imp_length_eq)
  ultimately show ?thesis using assms(3,4) waits_for_cong [OF e(1)] by (simp add: stuck_def e(1))
qed

lemma stuck_run:
  "cluster_run k False f c c' \<Longrightarrow> raft_wire k \<Longrightarrow> stuck c S \<Longrightarrow> distinct (map node_addr (cl_nodes c)) \<Longrightarrow>
   stuck c' S \<and> distinct (map node_addr (cl_nodes c')) \<and> (\<forall>i \<in> S. cl_busy c' ! i = cl_busy c ! i)"
  by (induction rule: cluster_run.induct) (use stuck_step in fastforce)+

end
