(* ===== verification/Raft_Cluster_Properties.thy ===== *)
theory Raft_Cluster_Properties
  imports Raft_Cluster
begin

text \<open>
  The properties of a cluster of Raft nodes: no two leaders in a term, and how the cluster comes to
  a halt because requests wait without a limit while mutexes are held.
\<close>

section \<open>Safety\<close>

text \<open>C3. Election safety: in every run of a cluster, with lost connections and all interleavings, two nodes
  that are leaders of the same term are one node, and so are two that won the term at different
  moments. A node can vote twice in a term on the level of the handlers, but not over connections, which
  answer append requests as vote requests.\<close>

theorem election_safety:
  assumes "raft_wire k" and "distinct (map peer_node_id ps)" and "[] \<notin> peer_node_id ` set ps"
    and "distinct (map peer_addr ps)" and "cluster_run k lossy f (Cluster_new ps machine) c"
  shows "(\<forall>i < size_of c. \<forall>j < size_of c. rn_role (node c i) = LEADER \<and> rn_role (node c j) = LEADER \<and>
      rn_current_term (node c i) = rn_current_term (node c j) \<longrightarrow> i = j) \<and>
    (\<forall>u u' t. (u, t) \<in> set (cl_wins c) \<and> (u', t) \<in> set (cl_wins c) \<longrightarrow> u = u')"
proof -
  have inv: "elect_inv c" using inv_cluster_run [OF assms(5,1) inv_new [OF assms(2-4)]] .
  have won: "(rn_node_id (node c i), rn_current_term (node c i)) \<in> set (cl_wins c)"
    if "i < size_of c" "rn_role (node c i) = LEADER" for i
    using inv that by (simp add: elect_inv_def leaders_ok_def)
  have lay: "layout_ok c" using inv by (simp add: elect_inv_def)
  show ?thesis using won one_winner [OF inv] node_of_id [OF lay] by metis
qed

section \<open>A codec for the examples\<close>

text \<open>Numbers in unary, strings with their length; a parser ignores what follows its fields.\<close>

definition put_int :: "int \<Rightarrow> bytes" where
  "put_int z = replicate (nat (if z < 0 then - 2 * z - 1 else 2 * z)) CHR ''1'' @ '';''"

definition get_int :: "bytes \<Rightarrow> int \<times> bytes" where
  "get_int b = (let n = int (length (takeWhile (\<lambda>x. x = CHR ''1'') b)) in
     (if n mod 2 = 0 then n div 2 else - ((n + 1) div 2), tl (dropWhile (\<lambda>x. x = CHR ''1'') b)))"

lemma get_put_int [simp]: "get_int (put_int z @ r) = (z, r)"
proof -
  have t: "takeWhile (\<lambda>x. x = CHR ''1'') (replicate n CHR ''1'' @ CHR '';'' # r) = replicate n CHR ''1''"
    "dropWhile (\<lambda>x. x = CHR ''1'') (replicate n CHR ''1'' @ CHR '';'' # r) = CHR '';'' # r" for n
    by (induction n) simp_all
  show ?thesis by (auto simp: get_int_def put_int_def t Let_def)
qed

definition put_vote :: "RequestVoteRequest \<Rightarrow> bytes" where
  "put_vote q = put_int (rv_term q) @ put_int (int (length (rv_candidate_id q))) @ rv_candidate_id q @
     put_int (rv_last_log_index q) @ put_int (rv_last_log_term q)"

definition get_vote :: "bytes \<Rightarrow> RequestVoteRequest option" where
  "get_vote b = (if b = [] then None else
     let (t, b) = get_int b; (n, b) = get_int b; s = take (nat n) b; b = drop (nat n) b;
         (i, b) = get_int b; (lt, b) = get_int b
     in Some (int64_vote \<lparr>rv_term = t, rv_candidate_id = s, rv_last_log_index = i, rv_last_log_term = lt\<rparr>))"

lemma put_int_not_Nil [simp]: "put_int z \<noteq> []"
  by (simp add: put_int_def)

lemma get_put_vote [simp]: "get_vote (put_vote q @ r) = Some (int64_vote q)"
  by (cases q) (simp add: get_vote_def put_vote_def Let_def)

lemma put_vote_not_Nil [simp]: "put_vote q \<noteq> []"
  by (simp add: put_vote_def)

definition codec_ex :: raft_codec where
  "codec_ex = \<lparr>rc_ser_vote = put_vote, rc_parse_vote = get_vote,
     rc_ser_append = (\<lambda>a. put_vote (append_as_vote a) @ put_int (ae_leader_commit a)), rc_parse_append = (\<lambda>_. None),
     rc_ser_vote_reply = (\<lambda>r. put_int (rvr_term r) @ put_int (if rvr_vote_granted r then 1 else 0)),
     rc_parse_vote_reply = (\<lambda>b. let (t, b) = get_int b; (g, b) = get_int b in
       Some \<lparr>rvr_term = wrap64 t, rvr_vote_granted = g \<noteq> 0\<rparr>),
     rc_ser_append_reply = (\<lambda>r. put_int (aer_term r)),
     rc_parse_append_reply = (\<lambda>b. let (t, b) = get_int b; (g, b) = get_int b in
       Some \<lparr>aer_term = wrap64 t, aer_success = g \<noteq> 0, aer_match_index = 0\<rparr>)\<rparr>"

lemma get_put_end [simp]: "get_int (put_int z) = (z, [])" "get_vote (put_vote q) = Some (int64_vote q)"
  using get_put_int [of z "[]"] get_put_vote [of q "[]"] by simp_all

lemma codec_wire: "raft_wire codec_ex"
  by (auto simp: raft_wire_def codec_ex_def split: if_splits)

section \<open>Halt\<close>

text \<open>The codec delivers well-formed requests, and votes that are granted.\<close>

definition ascii :: "bytes \<Rightarrow> bool" where
  "ascii s \<longleftrightarrow> list_all (\<lambda>x. (of_char x :: nat) < 128) s"

definition raft_delivers :: "raft_codec \<Rightarrow> bool" where
  "raft_delivers k \<longleftrightarrow>
     (\<forall>q. ascii (rv_candidate_id q) \<and> rv_candidate_id q \<noteq> [] \<longrightarrow>
        rc_ser_vote k q \<noteq> [] \<and> rc_parse_vote k (rc_ser_vote k q) = Some (int64_vote q)) \<and>
     (\<forall>a. ascii (ae_leader_id a) \<and> ae_leader_id a \<noteq> [] \<and> ae_entries a = [] \<longrightarrow>
        rc_ser_append k a \<noteq> [] \<and> rc_parse_vote k (rc_ser_append k a) = Some (int64_vote (append_as_vote a))) \<and>
     (\<forall>t. rc_ser_vote_reply k \<lparr>rvr_term = t, rvr_vote_granted = True\<rparr> \<noteq> [] \<and>
        rc_parse_vote_reply k (rc_ser_vote_reply k \<lparr>rvr_term = t, rvr_vote_granted = True\<rparr>) =
          Some \<lparr>rvr_term = wrap64 t, rvr_vote_granted = True\<rparr> \<and>
        rc_parse_append_reply k (rc_ser_vote_reply k \<lparr>rvr_term = t, rvr_vote_granted = True\<rparr>) =
          Some \<lparr>aer_term = wrap64 t, aer_success = True, aer_match_index = 0\<rparr>)"

lemma codec_delivers: "raft_delivers codec_ex"
  by (auto simp: raft_delivers_def codec_ex_def)

text \<open>Three nodes, and the states of a run.\<close>

definition abc :: "RaftPeer list" where
  "abc = [\<lparr>peer_node_id = ''a'', peer_host = ''h'', peer_port = 1, peer_next_index = 1, peer_match_index = 0\<rparr>,
     \<lparr>peer_node_id = ''b'', peer_host = ''h'', peer_port = 2, peer_next_index = 1, peer_match_index = 0\<rparr>, \<lparr>peer_node_id = ''c'', peer_host = ''h'', peer_port = 3, peer_next_index = 1, peer_match_index = 0\<rparr>]"

definition nd :: "'m \<Rightarrow> nat \<Rightarrow> RaftRole \<Rightarrow> int \<Rightarrow> bytes \<Rightarrow> bytes \<Rightarrow> 'm RaftNode" where
  "nd m i r t v l = (RaftNode_new (peer_node_id (abc ! i)) (peer_host (abc ! i)) (peer_port (abc ! i)) (others i abc) m)
     \<lparr>rn_role := r, rn_current_term := t, rn_voted_for := v, rn_leader_id := l, rn_running := True\<rparr>"

definition req :: "int \<Rightarrow> bytes \<Rightarrow> RequestVoteRequest" where
  "req t u = \<lparr>rv_term = t, rv_candidate_id = u, rv_last_log_index = 0, rv_last_log_term = 0\<rparr>"

lemmas nd_defs = nd_def RaftNode_new_def abc_def others_def

lemma nd_simps:
  "rn_running (nd m i r t v l)" "rn_role (nd m i r t v l) = r" "rn_current_term (nd m i r t v l) = t"
  "rn_voted_for (nd m i r t v l) = v" "rn_log (nd m i r t v l) = []" "rn_peers (nd m i r t v l) = others i abc"
  "rn_node_id (nd m i r t v l) = peer_node_id (abc ! i)" "node_addr (nd m i r t v l) = peer_addr (abc ! i)"
  by (simp_all add: nd_def RaftNode_new_def)

lemma nd_candidate: "in64 (t + 1) \<Longrightarrow> candidate (nd m i r t v l) = nd m i CANDIDATE (t + 1) (peer_node_id (abc ! i)) []"
  by (simp add: candidate_def becomeCandidate_def nd_def RaftNode_new_def)

lemma nd_ballot: "in64 (t + 1) \<Longrightarrow> ballot (nd m i r t v l) = req (t + 1) (peer_node_id (abc ! i))"
  by (simp add: ballot_def req_def nd_def RaftNode_new_def)

lemma nd_vote:
  "t < t' \<Longrightarrow> grants (req t' u) (nd m i r t v l) \<and> after_vote (req t' u) (nd m i r t v l) = nd m i FOLLOWER t' u []"
  "grants (req t u) (nd m i r t u l) \<and> after_vote (req t u) (nd m i r t u l) = nd m i r t u l"
  by (simp_all add: after_vote_def grants_def vote_free_def up_to_date_def becomeFollower_def req_def nd_def RaftNode_new_def)

lemma nd_finish: "3 \<le> votes \<Longrightarrow> i < 3 \<Longrightarrow>
  finish_election votes (nd m i CANDIDATE t u []) = Ret (nd m i LEADER t u (peer_node_id (abc ! i)))"
  by (auto simp: finish_election_eq majority_def nd_def RaftNode_new_def others_def abc_def)

text \<open>A delivered vote request that the peer grants, and a heartbeat of the leader it voted for.\<close>

lemma visit_granted:
  assumes "raft_wire k" "raft_delivers k" "ascii u" "u \<noteq> []" "in64 t" "grants (req t u) (node c j)"
    "data = rc_ser_vote k (req t u) \<or> (\<exists>a. data = rc_ser_append k a \<and> ae_entries a = [] \<and> append_as_vote a = req t u)"
  obtains c' where
    "visit k data j c = Some (Some (rc_ser_vote_reply k \<lparr>rvr_term = rn_current_term (node c j), rvr_vote_granted = True\<rparr>), c')"
    "cl_nodes c' = (cl_nodes c)[j := after_vote (req t u) (node c j)]" "cl_busy c' = cl_busy c"
proof -
  have q: "int64_vote (req t u) = req t u" using assms(5) by (simp add: int64_vote_def req_def in64_def)
  have "data \<noteq> [] \<and> rc_parse_vote k data = Some (req t u)"
    using assms(7)
  proof (elim disjE exE conjE)
    assume "data = rc_ser_vote k (req t u)"
    then show ?thesis using assms(2-4) q by (simp add: raft_delivers_def) (simp add: req_def)
  next
    fix a
    assume a: "data = rc_ser_append k a" "ae_entries a = []" "append_as_vote a = req t u"
    then have "ae_leader_id a = u" by (simp add: append_as_vote_def req_def)
    then show ?thesis using a assms(2-4) q by (simp add: raft_delivers_def)
  qed
  then show ?thesis
    using that assms(6) by (simp add: visit_def RaftNode_handleConnection_def handleRequestVote_eq)
qed

text \<open>
  A run of the three nodes reaches a state with these nodes and activities, and one step further.
\<close>

definition reaches :: "raft_codec \<Rightarrow> bool \<Rightarrow> (LogEntry \<Rightarrow> 'm \<Rightarrow> 'm) \<Rightarrow> 'm \<Rightarrow> 'm RaftNode list \<Rightarrow> activity list \<Rightarrow> bool" where
  "reaches k lossy f m ns bs \<longleftrightarrow>
     (\<exists>c. cluster_run k lossy f (Cluster_new abc m) c \<and> cl_nodes c = ns \<and> cl_busy c = bs)"

lemma reaches_step:
  assumes "reaches k lossy f m ns bs"
    and "\<And>c. cl_nodes c = ns \<Longrightarrow> cl_busy c = bs \<Longrightarrow>
      \<exists>c'. cluster_step k lossy f c c' \<and> cl_nodes c' = ns' \<and> cl_busy c' = bs'"
  shows "reaches k lossy f m ns' bs'"
  using assms cluster_run.step unfolding reaches_def by metis

lemma reaches_timeout:
  assumes "reaches k lossy f m ns bs" "i < length ns" "ns ! i = nd m i r t v l" "bs ! i = Idle" "r \<noteq> LEADER" "in64 (t + 1)"
  shows "reaches k lossy f m (ns[i := nd m i CANDIDATE (t + 1) (peer_node_id (abc ! i)) []])
    (bs[i := Electing (others i abc) 1 (req (t + 1) (peer_node_id (abc ! i)))])"
proof (rule reaches_step [OF assms(1)])
  fix c :: "'a Cluster"
  assume c: "cl_nodes c = ns" "cl_busy c = bs"
  have "cluster_step k lossy f c (begin_election i c)"
    by (rule cluster_step.timeout) (use c assms in \<open>simp_all add: free_def nd_simps\<close>)
  moreover have "cl_nodes (begin_election i c) = ns[i := nd m i CANDIDATE (t + 1) (peer_node_id (abc ! i)) []]"
    "cl_busy (begin_election i c) = bs[i := Electing (others i abc) 1 (req (t + 1) (peer_node_id (abc ! i)))]"
    using c assms by (simp_all add: begin_election_def Let_def nd_candidate nd_ballot nd_simps)
  ultimately show "\<exists>c'. cluster_step k lossy f c c' \<and> cl_nodes c' = ns[i := nd m i CANDIDATE (t + 1) (peer_node_id (abc ! i)) []] \<and>
      cl_busy c' = bs[i := Electing (others i abc) 1 (req (t + 1) (peer_node_id (abc ! i)))]" by blast
qed

lemma reaches_asked:
  assumes "reaches k lossy f m ns bs" "raft_wire k" "raft_delivers k" "length ns = 3" "length bs = 3"
    "i < 3" "bs ! i = Electing (abc ! j # ps) votes (req t u)" "ns ! i = nd m i CANDIDATE t u []"
    "j < 3" "bs ! j = Idle" "ns ! j = nd m j r t' v l" "t' < t" "0 \<le> t'" "in64 t" "ascii u" "u \<noteq> []"
  shows "reaches k lossy f m (ns[j := nd m j FOLLOWER t u []]) (bs[i := Electing ps (votes + 1) (req t u)])"
proof (rule reaches_step [OF assms(1)])
  fix c :: "'a Cluster"
  assume c: "cl_nodes c = ns" "cl_busy c = bs"
  have ij: "i \<noteq> j" using assms(7,10) by auto
  have "grants (req t u) (node c j)" using nd_vote(1) [OF assms(12), of u m j r v l] assms(11) c by simp
  from visit_granted [OF assms(2,3,15,16,14) this disjI1 [OF refl]] obtain c' where
    v: "visit k (rc_ser_vote k (req t u)) j c = Some (Some (rc_ser_vote_reply k \<lparr>rvr_term = t', rvr_vote_granted = True\<rparr>), c')"
    "cl_nodes c' = ns[j := nd m j FOLLOWER t u []]" "cl_busy c' = bs"
    using nd_vote(1) [OF assms(12), of u m j r v l] assms(11) c by (auto simp: nd_simps)
  let ?r = "\<lparr>rvr_term = wrap64 t', rvr_vote_granted = True\<rparr>"
  have "received (rc_parse_vote_reply k) (Some (rc_ser_vote_reply k \<lparr>rvr_term = t', rvr_vote_granted = True\<rparr>)) = Some ?r"
    using assms(3) by (simp add: received_def raft_delivers_def)
  moreover have "in64 t'" using assms(12-14) by (simp add: in64_def)
  then have "sendRequestVote [StateMutex] (Some ?r) (node c' i) = Ret (True, node c' i)"
    using assms(8,12) v(2) ij by (simp add: sendRequestVote_def nd_simps)
  then have "hear_vote i (Some ?r) ps votes (req t u) c' =
      c'\<lparr>cl_nodes := (cl_nodes c')[i := node c' i], cl_busy := (cl_busy c')[i := Electing ps (votes + 1) (req t u)]\<rparr>"
    by (simp add: hear_vote_def)
  moreover have "cluster_step k lossy f c (hear_vote i (received (rc_parse_vote_reply k)
      (Some (rc_ser_vote_reply k \<lparr>rvr_term = t', rvr_vote_granted = True\<rparr>))) ps votes (req t u) c')"
    by (rule cluster_step.asked [OF _ _ _ _ v(1)])
      (use c assms in \<open>simp_all add: at_address_def free_def nd_simps\<close>)
  ultimately show "\<exists>c'. cluster_step k lossy f c c' \<and> cl_nodes c' = ns[j := nd m j FOLLOWER t u []] \<and>
      cl_busy c' = bs[i := Electing ps (votes + 1) (req t u)]"
    using v by (metis (no_types, lifting) Cluster.select_convs(1,2) Cluster.surjective Cluster.update_convs(1,2) list_update_id)
qed

lemma reaches_decided:
  assumes "reaches k lossy f m ns bs" "length ns = 3" "i < 3" "bs ! i = Electing [] votes q" "ns ! i = nd m i CANDIDATE t u []" "3 \<le> votes"
  shows "reaches k lossy f m (ns[i := nd m i LEADER t u (peer_node_id (abc ! i))]) (bs[i := Idle])"
proof (rule reaches_step [OF assms(1)])
  fix c :: "'a Cluster"
  assume c: "cl_nodes c = ns" "cl_busy c = bs"
  have "finish_election votes (node c i) = Ret (nd m i LEADER t u (peer_node_id (abc ! i)))"
    using c nd_finish [OF assms(6,3)] assms(5) by simp
  from cluster_step.decided [OF _ _ this] show "\<exists>c'. cluster_step k lossy f c c' \<and>
      cl_nodes c' = ns[i := nd m i LEADER t u (peer_node_id (abc ! i))] \<and> cl_busy c' = bs[i := Idle]"
    using c assms(2-4) by fastforce
qed

lemma reaches_round:
  assumes "reaches k lossy f m ns bs" "i < length ns" "bs ! i = Idle" "ns ! i = nd m i LEADER t u l"
  shows "reaches k lossy f m ns (bs[i := Replicating (enumerate 0 (others i abc))])"
proof (rule reaches_step [OF assms(1)])
  fix c :: "'a Cluster"
  assume c: "cl_nodes c = ns" "cl_busy c = bs"
  have "cluster_step k lossy f c (c\<lparr>cl_busy := (cl_busy c)[i := Replicating (enumerate 0 (rn_peers (node c i)))]\<rparr>)"
    by (rule cluster_step.round) (use c assms in \<open>simp_all add: free_def nd_simps\<close>)
  then show "\<exists>c'. cluster_step k lossy f c c' \<and> cl_nodes c' = ns \<and>
      cl_busy c' = bs[i := Replicating (enumerate 0 (others i abc))]"
    using c assms(4) by (intro exI conjI) (assumption, simp_all add: nd_simps)
qed

lemma nd_append:
  "i < 3 \<Longrightarrow> l < 2 \<Longrightarrow> append_request l (nd m i LEADER t u v) = Ret \<lparr>ae_term = t, ae_leader_id = peer_node_id (abc ! i),
     ae_prev_log_index = 0, ae_prev_log_term = 0, ae_entries = [], ae_leader_commit = 0\<rparr>"
  by (simp add: append_request_def nd_def RaftNode_new_def others_def abc_def add64_def in64_def)

text \<open>The first heartbeat to a node that voted for the leader blocks the leader.\<close>

lemma reaches_heartbeat:
  assumes "reaches k lossy f m ns bs" "raft_wire k" "raft_delivers k" "length ns = 3" "length bs = 3"
    "i < 3" "bs ! i = Replicating ((0, abc ! j) # ps)" "ns ! i = nd m i LEADER t u u" "u = peer_node_id (abc ! i)"
    "j < 3" "bs ! j = Idle" "ns ! j = nd m j r t u v" "in64 t" "ascii u" "u \<noteq> []" "abc ! j \<in> set (others i abc)"
  shows "reaches k lossy f m ns (bs[i := Blocked])"
proof (rule reaches_step [OF assms(1)])
  fix c :: "'a Cluster"
  assume c: "cl_nodes c = ns" "cl_busy c = bs"
  have ij: "i \<noteq> j" using assms(7,11) by auto
  let ?a = "\<lparr>ae_term = t, ae_leader_id = u, ae_prev_log_index = 0, ae_prev_log_term = 0, ae_entries = [], ae_leader_commit = 0\<rparr>"
  have a: "append_request 0 (node c i) = Ret ?a" using assms(8,9) c by (simp add: nd_append [OF assms(6)])
  have as_vote: "append_as_vote ?a = req t u" by (simp add: append_as_vote_def req_def)
  have g: "grants (req t u) (node c j)" "after_vote (req t u) (node c j) = nd m j r t u v"
    using assms(12) c by (simp_all add: nd_vote(2))
  obtain c' where
    v: "visit k (rc_ser_append k ?a) j c = Some (Some (rc_ser_vote_reply k \<lparr>rvr_term = rn_current_term (node c j), rvr_vote_granted = True\<rparr>), c')"
    "cl_nodes c' = (cl_nodes c)[j := after_vote (req t u) (node c j)]" "cl_busy c' = cl_busy c"
    by (rule visit_granted [OF assms(2,3,14,15,13) g(1), of "rc_ser_append k ?a"]) (use as_vote in auto)
  have same: "cl_nodes c' = ns" using v(2) g(2) c assms(12) by (metis list_update_id)
  let ?r = "\<lparr>aer_term = wrap64 t, aer_success = True, aer_match_index = 0\<rparr>"
  have r: "received (rc_parse_append_reply k) (Some (rc_ser_vote_reply k \<lparr>rvr_term = rn_current_term (node c j),
      rvr_vote_granted = True\<rparr>)) = Some ?r"
    using assms(3,12) c by (simp add: received_def raft_delivers_def nd_simps)
  obtain n where n: "find_peer (peer_node_id (abc ! j)) (others i abc) = Some n" using find_peer_Some [OF assms(16)] by blast
  have "sendAppendEntries [LogMutex, StateMutex] (Some ?r) (abc ! j) (node c' i) = Deadlock"
    using assms(8,13) same n
    by (simp add: sendAppendEntries_def nd_simps updateCommitIndex_def with_lock_def add64_def in64_def)
  then have h: "hear_append i (Some ?r) (abc ! j) ps c' = c'\<lparr>cl_busy := (cl_busy c')[i := Blocked]\<rparr>"
    by (simp add: hear_append_def)
  have "cluster_step k lossy f c (hear_append i (received (rc_parse_append_reply k)
      (Some (rc_ser_vote_reply k \<lparr>rvr_term = rn_current_term (node c j), rvr_vote_granted = True\<rparr>))) (abc ! j) ps c')"
    by (rule cluster_step.replicated [OF _ _ a _ _ v(1)])
      (use c assms in \<open>simp_all add: at_address_def free_def nd_simps\<close>)
  then show "\<exists>c'. cluster_step k lossy f c c' \<and> cl_nodes c' = ns \<and> cl_busy c' = bs[i := Blocked]"
    unfolding r h using same v(3) c by (intro exI conjI) (assumption, simp_all)
qed

lemma abc_others: "others 0 abc = [abc ! 1, abc ! 2]" "others (Suc 0) abc = [abc ! 0, abc ! 2]" "others 2 abc = [abc ! 0, abc ! 1]"
  by (simp_all add: others_def abc_def)

lemma abc_ids: "peer_node_id (abc ! 0) = ''a''" "peer_node_id (abc ! Suc 0) = ''b''" "peer_node_id (abc ! 2) = ''c''"
  by (simp_all add: abc_def)

lemma run_started: "reaches k lossy f m (map (\<lambda>i. nd m i FOLLOWER 0 [] []) [0, 1, 2]) [Idle, Idle, Idle]"
proof -
  let ?c0 = "Cluster_new abc m"
  let ?start = "\<lambda>i c. c\<lparr>cl_nodes := (cl_nodes c)[i := RaftNode_start (node c i)]\<rparr>"
  have step: "cluster_run k lossy f ?c0 c \<Longrightarrow> i < size_of c \<Longrightarrow> cluster_run k lossy f ?c0 (?start i c)" for i c
    by (rule cluster_run.step [OF _ cluster_step.quiet [OF _ quiet_step.start]])
  have "cluster_run k lossy f ?c0 (?start 2 (?start 1 (?start 0 ?c0)))"
    by (intro step cluster_run.init) (simp_all add: Cluster_new_def abc_def)
  moreover have "cl_nodes (?start 2 (?start 1 (?start 0 ?c0))) = map (\<lambda>i. nd m i FOLLOWER 0 [] []) [0, 1, 2]"
    "cl_busy (?start 2 (?start 1 (?start 0 ?c0))) = [Idle, Idle, Idle]"
    by (simp_all add: Cluster_new_def RaftNode_start_def nd_def RaftNode_new_def abc_def others_def)
  ultimately show ?thesis unfolding reaches_def by blast
qed

text \<open>The first node becomes leader; its first heartbeat blocks it; the others ask it for its vote.\<close>

lemma run_elected:
  assumes "raft_wire k" "raft_delivers k"
  shows "reaches k lossy f m [nd m 0 LEADER 1 ''a'' ''a'', nd m 1 FOLLOWER 1 ''a'' [], nd m 2 FOLLOWER 1 ''a'' []] [Idle, Idle, Idle]"
proof -
  have in64: "in64 1" by (simp add: in64_def)
  have r1: "reaches k lossy f m [nd m 0 CANDIDATE 1 ''a'' [], nd m 1 FOLLOWER 0 [] [], nd m 2 FOLLOWER 0 [] []]
      [Electing [abc ! 1, abc ! 2] 1 (req 1 ''a''), Idle, Idle]"
    using reaches_timeout [OF run_started, of 0 m FOLLOWER 0 "[]" "[]" k lossy f] in64 by (simp add: abc_others abc_ids)
  have r2: "reaches k lossy f m [nd m 0 CANDIDATE 1 ''a'' [], nd m 1 FOLLOWER 1 ''a'' [], nd m 2 FOLLOWER 0 [] []]
      [Electing [abc ! 2] (1 + 1) (req 1 ''a''), Idle, Idle]"
    using reaches_asked [OF r1 assms, of 0 1 "[abc ! 2]" 1 1 "''a''" FOLLOWER 0 "[]" "[]"] in64 by (simp add: ascii_def)
  have r3: "reaches k lossy f m [nd m 0 CANDIDATE 1 ''a'' [], nd m 1 FOLLOWER 1 ''a'' [], nd m 2 FOLLOWER 1 ''a'' []]
      [Electing [] (1 + 1 + 1) (req 1 ''a''), Idle, Idle]"
    using reaches_asked [OF r2 assms, of 0 2 "[]" "1 + 1" 1 "''a''" FOLLOWER 0 "[]" "[]"] in64 by (simp add: ascii_def)
  show ?thesis using reaches_decided [OF r3, of 0 "1 + 1 + 1" "req 1 ''a''" 1 "''a''"] by (simp add: abc_ids)
qed

lemma run_halted:
  assumes "raft_wire k" "raft_delivers k"
  shows "\<exists>q q'. reaches k lossy f m
    [nd m 0 LEADER 1 ''a'' ''a'', nd m 1 CANDIDATE 2 ''b'' [], nd m 2 CANDIDATE 2 ''c'' []]
    [Blocked, Electing [abc ! 0, abc ! 2] 1 q, Electing [abc ! 0, abc ! 1] 1 q']"
proof -
  have in64: "in64 1" "in64 2" by (simp_all add: in64_def)
  have r1: "reaches k lossy f m [nd m 0 LEADER 1 ''a'' ''a'', nd m 1 FOLLOWER 1 ''a'' [], nd m 2 FOLLOWER 1 ''a'' []]
      [Replicating [(0, abc ! 1), (1, abc ! 2)], Idle, Idle]"
    using reaches_round [OF run_elected [OF assms], of 0 m 1 "''a''" "''a''" lossy f] by (simp add: abc_others)
  have r2: "reaches k lossy f m [nd m 0 LEADER 1 ''a'' ''a'', nd m 1 FOLLOWER 1 ''a'' [], nd m 2 FOLLOWER 1 ''a'' []]
      [Blocked, Idle, Idle]"
  proof -
    have "reaches k lossy f m [nd m 0 LEADER 1 ''a'' ''a'', nd m 1 FOLLOWER 1 ''a'' [], nd m 2 FOLLOWER 1 ''a'' []]
      ([Replicating [(0, abc ! 1), (1, abc ! 2)], Idle, Idle][0 := Blocked])"
      by (rule reaches_heartbeat [OF r1 assms, where j = 1 and ps = "[(1, abc ! 2)]" and t = 1 and u = "''a''" and r = FOLLOWER and v = "[]"])
        (use in64 in \<open>simp_all add: ascii_def abc_ids abc_others\<close>)
    then show ?thesis by simp
  qed
  have r3: "reaches k lossy f m [nd m 0 LEADER 1 ''a'' ''a'', nd m 1 CANDIDATE 2 ''b'' [], nd m 2 FOLLOWER 1 ''a'' []]
      [Blocked, Electing [abc ! 0, abc ! 2] 1 (req 2 ''b''), Idle]"
    using reaches_timeout [OF r2, of 1 FOLLOWER 1 "''a''" "[]"] in64 by (simp add: abc_others abc_ids)
  have "reaches k lossy f m [nd m 0 LEADER 1 ''a'' ''a'', nd m 1 CANDIDATE 2 ''b'' [], nd m 2 CANDIDATE 2 ''c'' []]
      [Blocked, Electing [abc ! 0, abc ! 2] 1 (req 2 ''b''), Electing [abc ! 0, abc ! 1] 1 (req 2 ''c'')]"
    using reaches_timeout [OF r3, of 2 FOLLOWER 1 "''a''" "[]"] in64 by (simp add: abc_others abc_ids)
  then show ?thesis by blast
qed



lemma election_safety_witness:
  "\<exists>c :: unit Cluster. cluster_run codec_ex True (\<lambda>e m. m) (Cluster_new abc ()) c \<and> rn_role (node c 0) = LEADER \<and>
     rn_current_term (node c 0) = 1 \<and>
     (\<forall>u u' t. (u, t) \<in> set (cl_wins c) \<and> (u', t) \<in> set (cl_wins c) \<longrightarrow> u = u')"
proof -
  obtain c :: "unit Cluster" where c: "cluster_run codec_ex True (\<lambda>e m. m) (Cluster_new abc ()) c"
      "cl_nodes c = [nd () 0 LEADER 1 ''a'' ''a'', nd () 1 FOLLOWER 1 ''a'' [], nd () 2 FOLLOWER 1 ''a'' []]"
    using run_elected [OF codec_wire codec_delivers, of True "\<lambda>e m. m" "()"] unfolding reaches_def by blast
  from election_safety [OF codec_wire _ _ _ c(1)] show ?thesis
    using c by (intro exI [of _ c]) (simp add: abc_def nd_simps)
qed

text \<open>Two nodes that begin an election at the same time and ask each other wait for ever: each holds its
  state mutex until the other answers.\<close>

theorem candidates_wait_forever:
  assumes "raft_wire k" and "distinct (map peer_addr ps)" and "cluster_run k lossy f (Cluster_new ps machine) c"
    and "i < size_of c" and "cl_busy c ! i = Electing (p # qs) v q" and "at_address c p j"
    and "cl_busy c ! j = Electing (p' # qs') v' q'" and "at_address c p' i" and "cluster_run k False f c c'"
    and "distinct (map peer_node_id ps)" and "[] \<notin> peer_node_id ` set ps"
  shows "cl_busy c' ! i = Electing (p # qs) v q \<and> cl_busy c' ! j = Electing (p' # qs') v' q'"
proof -
  have "elect_inv c" using inv_cluster_run [OF assms(3,1) inv_new [OF assms(10,11,2)]] .
  then have "distinct (map node_addr (cl_nodes c))" by (simp add: elect_inv_def layout_ok_def)
  moreover have "stuck c {i, j}" using assms(4-8) by (auto simp: stuck_def waits_for_def at_address_def)
  ultimately show ?thesis using stuck_run [OF assms(9,1)] assms(5,7) by auto
qed

lemma candidates_wait_forever_witness:
  "\<exists>(c :: unit Cluster) q q'. cluster_run codec_ex False (\<lambda>e m. m) (Cluster_new abc ()) c \<and>
     (\<forall>c'. cluster_run codec_ex False (\<lambda>e m. m) c c' \<longrightarrow> cl_busy c' ! 0 = Electing [abc ! 1, abc ! 2] 1 q \<and>
       cl_busy c' ! 1 = Electing [abc ! 0, abc ! 2] 1 q')"
proof -
  let ?f = "\<lambda>e m. m :: unit"
  have in64: "in64 1" by (simp add: in64_def)
  have "reaches codec_ex False ?f () [nd () 0 CANDIDATE 1 ''a'' [], nd () 1 FOLLOWER 0 [] [], nd () 2 FOLLOWER 0 [] []]
      [Electing [abc ! 1, abc ! 2] 1 (req 1 ''a''), Idle, Idle]"
    using reaches_timeout [OF run_started, of 0 "()" FOLLOWER 0 "[]" "[]" codec_ex False ?f] in64
    by (simp add: abc_others abc_ids)
  from reaches_timeout [OF this, of 1 FOLLOWER 0 "[]" "[]"]
  obtain c where c: "cluster_run codec_ex False ?f (Cluster_new abc ()) c"
      "cl_nodes c = [nd () 0 CANDIDATE 1 ''a'' [], nd () 1 CANDIDATE 1 ''b'' [], nd () 2 FOLLOWER 0 [] []]"
      "cl_busy c = [Electing [abc ! 1, abc ! 2] 1 (req 1 ''a''), Electing [abc ! 0, abc ! 2] 1 (req 1 ''b''), Idle]"
    using in64 unfolding reaches_def by (auto simp: abc_others abc_ids)
  have at: "at_address c (abc ! 1) 1" "at_address c (abc ! 0) 0" using c(2) by (simp_all add: at_address_def nd_simps)
  have "cl_busy c' ! 0 = Electing [abc ! 1, abc ! 2] 1 (req 1 ''a'') \<and> cl_busy c' ! 1 = Electing [abc ! 0, abc ! 2] 1 (req 1 ''b'')"
    if "cluster_run codec_ex False ?f c c'" for c'
    by (rule candidates_wait_forever [OF codec_wire _ c(1) _ _ at(1) _ at(2) that])
      (use c(2,3) in \<open>simp_all add: abc_def\<close>)
  then show ?thesis using c(1) by blast
qed

end
