(* ===== verification/Client_Connections.thy ===== *)
theory Client_Connections
  imports Rpc_Client Pool_Properties
begin

text \<open>
  client/rpc_client.cpp over common/connection_pool.cpp: the RPC client with the connections it
  really uses. \<open>Rpc_Client\<close> takes an exchange over a connection as a function; here a discovery and
  every attempt of a call acquire a connection from the pool, send, receive, and give the
  connection back or not, as the code does. One thread uses the client, so \<open>acquire\<close> runs its
  iterations one after the other; \<open>None\<close> is an \<open>acquire\<close> that is still waiting when its iterations
  are used up, or a \<open>::send\<close> that never returns.

  \<open>nw_socks\<close> is the environment of the connection at each address (Connection_Pool), those that
  are not open yet included: what the peer of that connection will send, and the results of the
  \<open>::send\<close> calls on it.
\<close>

section \<open>acquire\<close>

text \<open>One iteration: the answers of the system calls and of the clock, in the order of the code.\<close>

record round =
  ro_valid :: "int \<Rightarrow> bool"
  ro_taken :: int
  ro_checked :: int
  ro_fd :: int
  ro_address_ok :: bool
  ro_connected :: bool
  ro_tried :: int

definition acquire_round :: "round \<Rightarrow> bytes \<Rightarrow> int \<Rightarrow> ConnectionPool \<Rightarrow> (thread \<times> ConnectionPool) res" where
  "acquire_round r key timeout_time p =
     res_bind (acquire_scan (ro_valid r) (ro_taken r) (ro_checked r) key timeout_time p) (\<lambda>(t, p).
       case t of
         Connecting key timeout_time \<Rightarrow>
           acquire_connect (fst (createConnection (ro_fd r) (ro_address_ok r) (ro_connected r))) (ro_tried r)
             key timeout_time p
       | _ \<Rightarrow> Ret (t, p))"

text \<open>The connection, or \<open>None\<close> for an exception.\<close>

primrec acquire_loop ::
    "round list \<Rightarrow> bytes \<Rightarrow> int \<Rightarrow> ConnectionPool \<Rightarrow> (nat option \<times> ConnectionPool) res option" where
  "acquire_loop [] key timeout_time p = None"
| "acquire_loop (r # rs) key timeout_time p = (case acquire_round r key timeout_time p of
       Ret (t, p) \<Rightarrow> (case t of
           Holding key c \<Rightarrow> Some (Ret (Some c, p))
         | Threw \<Rightarrow> Some (Ret (None, p))
         | _ \<Rightarrow> acquire_loop rs key timeout_time p)
     | Deadlock \<Rightarrow> Some Deadlock
     | Undefined \<Rightarrow> Some Undefined)"

definition acquire_call ::
    "bytes \<Rightarrow> i32 \<Rightarrow> int \<Rightarrow> round list \<Rightarrow> ConnectionPool \<Rightarrow> (nat option \<times> ConnectionPool) res option" where
  "acquire_call host port now rs p = (case acquire host port now p of
       (Scanning key timeout_time, p) \<Rightarrow> acquire_loop rs key timeout_time p
     | (_, p) \<Rightarrow> Some (Ret (None, p)))"

section \<open>State\<close>

text \<open>\<open>connection_pool_\<close> is null once the client was stopped.\<close>

record Network =
  nw_pool :: "ConnectionPool option"
  nw_socks :: "nat \<Rightarrow> sock"

text \<open>The environment of one use of the pool: the clock and the iterations of \<open>acquire\<close>, and the
  clock and \<open>getsockopt\<close> when the connection is given back.\<close>

record use_env =
  ue_now :: int
  ue_rounds :: "round list"
  ue_valid :: "int \<Rightarrow> bool"
  ue_released :: int

definition RpcClient_stop :: "Network \<Rightarrow> Network" where
  "RpcClient_stop nw = (case nw_pool nw of
       None \<Rightarrow> nw
     | Some p \<Rightarrow> nw\<lparr>nw_pool := None\<rparr>)"

section \<open>One exchange\<close>

text \<open>A request and its response over the connection at \<open>c\<close>; no response is an exception of the caller.\<close>

definition exchange_over ::
    "bytes \<Rightarrow> nat \<Rightarrow> ConnectionPool \<Rightarrow> (nat \<Rightarrow> sock) \<Rightarrow> (bytes option \<times> ConnectionPool \<times> (nat \<Rightarrow> sock)) option" where
  "exchange_over request c p socks = (case TcpConnection_send request (cp_conns p c) (socks c) of
       None \<Rightarrow> None
     | Some (sent, conn, s) \<Rightarrow>
         if \<not> sent then Some (None, p\<lparr>cp_conns := (cp_conns p)(c := conn)\<rparr>, socks(c := s))
         else let (data, conn, s) = TcpConnection_receive conn s
           in Some (if data = [] then None else Some data, p\<lparr>cp_conns := (cp_conns p)(c := conn)\<rparr>, socks(c := s)))"

text \<open>\<open>discoverServiceFromRegistry\<close>: an exception after \<open>acquire\<close> is caught without a \<open>release\<close>.\<close>

definition discoverServiceFromRegistry_pooled ::
    "pb_runtime \<Rightarrow> use_env \<Rightarrow> bytes \<Rightarrow> i32 \<Rightarrow> int \<Rightarrow> bytes \<Rightarrow> Network \<Rightarrow> (ServiceEndpoint list \<times> Network) res option" where
  "discoverServiceFromRegistry_pooled rt e host port now service_name nw = (case nw_pool nw of
       None \<Rightarrow> Some Undefined
     | Some p \<Rightarrow> (case acquire_call host port (ue_now e) (ue_rounds e) p of
         None \<Rightarrow> None
       | Some Deadlock \<Rightarrow> Some Deadlock
       | Some Undefined \<Rightarrow> Some Undefined
       | Some (Ret (None, p)) \<Rightarrow> Some (Ret ([], nw\<lparr>nw_pool := Some p\<rparr>))
       | Some (Ret (Some conn, p)) \<Rightarrow>
           let request = ServiceDiscoveryRequest_default\<lparr>dq_service_name := service_name\<rparr> in
           (case exchange_over (ServiceDiscoveryRequest_serialize rt request) conn p (nw_socks nw) of
              None \<Rightarrow> None
            | Some (reply, p, socks) \<Rightarrow>
                (case Option.bind reply (ServiceDiscoveryResponse_deserialize rt) of
                  None \<Rightarrow> Some (Ret ([], \<lparr>nw_pool = Some p, nw_socks = socks\<rparr>))
                | Some response \<Rightarrow> Some (Ret (
                    map (\<lambda>s. \<lparr>en_host = info_host s, en_port = info_port s, en_cached_time = now\<rparr>) (ds_services response),
                    \<lparr>nw_pool = Some (release (ue_valid e) (ue_released e) host port conn p), nw_socks = socks\<rparr>))))))"

text \<open>\<open>discoverService\<close>: the cache first.\<close>

definition discoverService_pooled ::
    "pb_runtime \<Rightarrow> use_env \<Rightarrow> bytes \<Rightarrow> i32 \<Rightarrow> int \<Rightarrow> bytes \<Rightarrow> RpcClient \<Rightarrow> Network \<Rightarrow>
     (ServiceEndpoint list \<times> RpcClient \<times> Network) res option" where
  "discoverService_pooled rt e host port now service_name c nw =
     (let hit = (case map_of (cl_service_cache c) service_name of
            None \<Rightarrow> None
          | Some es \<Rightarrow> if es \<noteq> [] \<and> \<not> isExpired (cl_service_cache_ttl c) now (es ! 0) then Some es else None)
      in case hit of
           Some es \<Rightarrow> Some (Ret (es, c\<lparr>cl_cache_hits := cl_cache_hits c + 1\<rparr>, nw))
         | None \<Rightarrow>
             let c = c\<lparr>cl_cache_misses := cl_cache_misses c + 1\<rparr> in
             map_option (\<lambda>r. res_bind r (\<lambda>(endpoints, nw).
                 let c = (if endpoints \<noteq> []
                          then c\<lparr>cl_service_cache := AList.update service_name endpoints (cl_service_cache c)\<rparr>
                          else c)
                 in Ret (endpoints, c, nw)))
               (discoverServiceFromRegistry_pooled rt e host port now service_name nw))"

text \<open>
  \<open>callEndpoint\<close>: one attempt; \<open>None\<close> is an exception. What \<open>acquire\<close> throws leaves before the
  \<open>try\<close>; every other path releases the connection.
\<close>

definition callEndpoint_pooled ::
    "pb_runtime \<Rightarrow> use_env \<Rightarrow> bytes \<Rightarrow> ServiceEndpoint \<Rightarrow> bytes \<Rightarrow> bytes \<Rightarrow> bytes \<Rightarrow> Network \<Rightarrow>
     (bytes option \<times> Network) res option" where
  "callEndpoint_pooled rt e request_id endpoint service_name method_name request_data nw = (case nw_pool nw of
       None \<Rightarrow> Some Undefined
     | Some p \<Rightarrow> (case acquire_call (en_host endpoint) (en_port endpoint) (ue_now e) (ue_rounds e) p of
         None \<Rightarrow> None
       | Some Deadlock \<Rightarrow> Some Deadlock
       | Some Undefined \<Rightarrow> Some Undefined
       | Some (Ret (None, p)) \<Rightarrow> Some (Ret (None, nw\<lparr>nw_pool := Some p\<rparr>))
       | Some (Ret (Some conn, p)) \<Rightarrow>
           let request = RpcRequest_default\<lparr>rq_service_name := service_name, rq_method_name := method_name,
                 rq_request_data := request_data, rq_request_id := request_id\<rparr> in
           (case exchange_over (RpcRequest_serialize rt request) conn p (nw_socks nw) of
              None \<Rightarrow> None
            | Some (reply, p, socks) \<Rightarrow>
                let result = (case Option.bind reply (RpcResponse_deserialize rt) of
                       None \<Rightarrow> None
                     | Some response \<Rightarrow> if rs_error_code response \<noteq> 0 then None else Some (rs_response_data response))
                in Some (Ret (result, \<lparr>nw_pool = Some (release (ue_valid e) (ue_released e)
                     (en_host endpoint) (en_port endpoint) conn p), nw_socks = socks\<rparr>)))))"

text \<open>The loop of \<open>callWithRetry\<close>: the environments and request ids of the attempts it may make.\<close>

primrec retry_pooled ::
    "pb_runtime \<Rightarrow> (use_env \<times> bytes) list \<Rightarrow> ServiceEndpoint \<Rightarrow> bytes \<Rightarrow> bytes \<Rightarrow> bytes \<Rightarrow> Network \<Rightarrow>
     (bytes \<times> Network) res option" where
  "retry_pooled rt [] endpoint s m d nw = Some (Ret ([], nw))"
| "retry_pooled rt (a # attempts) endpoint s m d nw =
     (case callEndpoint_pooled rt (fst a) (snd a) endpoint s m d nw of
        None \<Rightarrow> None
      | Some Deadlock \<Rightarrow> Some Deadlock
      | Some Undefined \<Rightarrow> Some Undefined
      | Some (Ret (result, nw)) \<Rightarrow> (case result of
            Some r \<Rightarrow> if r \<noteq> [] then Some (Ret (r, nw)) else retry_pooled rt attempts endpoint s m d nw
          | None \<Rightarrow> retry_pooled rt attempts endpoint s m d nw))"

definition callWithRetry_pooled ::
    "pb_runtime \<Rightarrow> (nat \<Rightarrow> use_env \<times> bytes) \<Rightarrow> ServiceEndpoint \<Rightarrow> bytes \<Rightarrow> bytes \<Rightarrow> bytes \<Rightarrow> RpcClient \<Rightarrow>
     Network \<Rightarrow> (bytes \<times> Network) res option" where
  "callWithRetry_pooled rt env endpoint service_name method_name request_data c nw =
     retry_pooled rt (map env [0..<nat (cl_retry_count c)]) endpoint service_name method_name request_data nw"

text \<open>\<open>call\<close>: \<open>e\<close> is the environment of the discovery and \<open>env\<close> those of the attempts.\<close>

definition RpcClient_call_pooled ::
    "pb_runtime \<Rightarrow> use_env \<Rightarrow> (nat \<Rightarrow> use_env \<times> bytes) \<Rightarrow> bytes \<Rightarrow> i32 \<Rightarrow> int \<Rightarrow> bytes \<Rightarrow> bytes \<Rightarrow> bytes \<Rightarrow>
     RpcClient \<Rightarrow> Network \<Rightarrow> (bytes \<times> RpcClient \<times> Network) res option" where
  "RpcClient_call_pooled rt e env host port now service_name method_name request_data c nw =
     (let c = c\<lparr>cl_total_calls := cl_total_calls c + 1\<rparr> in
      case discoverService_pooled rt e host port now service_name c nw of
        None \<Rightarrow> None
      | Some Deadlock \<Rightarrow> Some Deadlock
      | Some Undefined \<Rightarrow> Some Undefined
      | Some (Ret (endpoints, c, nw)) \<Rightarrow>
          if endpoints = [] then Some (Ret ([], c\<lparr>cl_failed_calls := cl_failed_calls c + 1\<rparr>, nw))
          else (case selectEndpoint endpoints c of
            None \<Rightarrow> Some (Ret ([], c\<lparr>cl_failed_calls := cl_failed_calls c + 1\<rparr>, nw))
          | Some (endpoint, c) \<Rightarrow>
              map_option (\<lambda>r. res_bind r (\<lambda>(r, nw).
                  if r \<noteq> [] then Ret (r, c\<lparr>cl_successful_calls := cl_successful_calls c + 1\<rparr>, nw)
                  else Ret (r, c\<lparr>cl_failed_calls := cl_failed_calls c + 1\<rparr>, nw)))
                (callWithRetry_pooled rt env endpoint service_name method_name request_data c nw)))"

text \<open>
  \<open>warmup\<close>: up to \<open>n\<close> (the code's \<open>count\<close>) connections are acquired, until one attempt throws, and then all of them
  are released. \<open>env i\<close> is the environment of the \<open>i\<close>-th.
\<close>

primrec warmup_acquire ::
    "bytes \<Rightarrow> i32 \<Rightarrow> use_env list \<Rightarrow> ConnectionPool \<Rightarrow> (nat list \<times> ConnectionPool) res option" where
  "warmup_acquire host port [] p = Some (Ret ([], p))"
| "warmup_acquire host port (e # es) p = (case acquire_call host port (ue_now e) (ue_rounds e) p of
       None \<Rightarrow> None
     | Some Deadlock \<Rightarrow> Some Deadlock
     | Some Undefined \<Rightarrow> Some Undefined
     | Some (Ret (None, p)) \<Rightarrow> Some (Ret ([], p))
     | Some (Ret (Some c, p)) \<Rightarrow>
         map_option (\<lambda>r. res_bind r (\<lambda>(cs, p). Ret (c # cs, p))) (warmup_acquire host port es p))"

definition warmup ::
    "bytes \<Rightarrow> i32 \<Rightarrow> nat \<Rightarrow> (nat \<Rightarrow> use_env) \<Rightarrow> (int \<Rightarrow> bool) \<Rightarrow> int \<Rightarrow> ConnectionPool \<Rightarrow> ConnectionPool res option" where
  "warmup host port n env so now p =
     (let n = (if n = 0 then cp_min_connections_per_host p else n) in
      map_option (\<lambda>r. res_bind r (\<lambda>(connections, p). Ret (fold (release so now host port) connections p)))
        (warmup_acquire host port (map env [0..<n]) p))"

text \<open>\<open>warmupConnections\<close>: the discovery's environment is \<open>e\<close>, and \<open>env j\<close> are those of its \<open>j\<close>-th endpoint.\<close>

primrec warmup_endpoints ::
    "nat \<Rightarrow> ((nat \<Rightarrow> use_env) \<times> (int \<Rightarrow> bool) \<times> int) list \<Rightarrow> ServiceEndpoint list \<Rightarrow> ConnectionPool \<Rightarrow>
     ConnectionPool res option" where
  "warmup_endpoints n envs [] p = Some (Ret p)"
| "warmup_endpoints n envs (endpoint # endpoints) p = (case envs of
       [] \<Rightarrow> None
     | (env, so, now) # envs \<Rightarrow> (case warmup (en_host endpoint) (en_port endpoint) n env so now p of
           None \<Rightarrow> None
         | Some Deadlock \<Rightarrow> Some Deadlock
         | Some Undefined \<Rightarrow> Some Undefined
         | Some (Ret p) \<Rightarrow> warmup_endpoints n envs endpoints p))"

definition warmupConnections ::
    "pb_runtime \<Rightarrow> use_env \<Rightarrow> ((nat \<Rightarrow> use_env) \<times> (int \<Rightarrow> bool) \<times> int) list \<Rightarrow> bytes \<Rightarrow> i32 \<Rightarrow> int \<Rightarrow> bytes \<Rightarrow>
     nat \<Rightarrow> RpcClient \<Rightarrow> Network \<Rightarrow> (RpcClient \<times> Network) res option" where
  "warmupConnections rt e envs host port now service_name n c nw =
     (case discoverService_pooled rt e host port now service_name c nw of
        None \<Rightarrow> None
      | Some Deadlock \<Rightarrow> Some Deadlock
      | Some Undefined \<Rightarrow> Some Undefined
      | Some (Ret (endpoints, c, nw)) \<Rightarrow>
          if endpoints = [] then Some (Ret (c, nw))
          else (case nw_pool nw of
            None \<Rightarrow> Some Undefined
          | Some p \<Rightarrow> map_option (\<lambda>r. res_bind r (\<lambda>p. Ret (c, nw\<lparr>nw_pool := Some p\<rparr>)))
              (warmup_endpoints n envs endpoints p)))"

text \<open>\<open>getStats\<close>, without the average response time, and the ids of requests: \<open>n\<close> is the number drawn.\<close>

record client_stats =
  ct_total_calls :: u64
  ct_successful_calls :: u64
  ct_failed_calls :: u64
  ct_cache_hits :: u64
  ct_cache_misses :: u64
  ct_connection_stats :: Stats

definition RpcClient_getStats :: "RpcClient \<Rightarrow> Network \<Rightarrow> client_stats" where
  "RpcClient_getStats c nw = \<lparr>ct_total_calls = cl_total_calls c, ct_successful_calls = cl_successful_calls c,
     ct_failed_calls = cl_failed_calls c, ct_cache_hits = cl_cache_hits c, ct_cache_misses = cl_cache_misses c,
     ct_connection_stats = (case nw_pool nw of
         Some p \<Rightarrow> ConnectionPool_getStats p
       | None \<Rightarrow> \<lparr>st_total_connections = 0, st_active_connections = 0, st_idle_connections = 0, st_hosts_count = 0\<rparr>)\<rparr>"

definition generateRequestId :: "i32 \<Rightarrow> bytes" where
  "generateRequestId n = to_string n"

section \<open>The client is a thread of the pool\<close>

text \<open>
  Every use of the pool is a run of the steps of Connection_Pool_System with the client as the only
  thread, so the pool's invariants hold of it.
\<close>

lemma scan_thread:
  assumes "acquire_scan so now now' key d p = Ret (t, p')"
  shows "t = Threw \<or> t = Connecting key d \<or> t = Waiting key d \<or> (\<exists>c. t = Holding key c)"
  using assms by (auto simp: acquire_scan_def wait_or_throw_def split: if_splits option.splits prod.splits)

lemma connect_thread:
  assumes "acquire_connect fd now key d p = Ret (t, p')"
  shows "t = Threw \<or> t = Waiting key d \<or> (\<exists>c. t = Holding key c)"
  using assms by (auto simp: acquire_connect_def wait_or_throw_def Let_def split: if_splits option.splits)

lemma round_run:
  assumes run: "pool_reached s0 (p, [Scanning key d])" and "acquire_round r key d p = Ret (t, p')"
  shows "pool_reached s0 (p', [t]) \<and> (t = Threw \<or> t = Waiting key d \<or> (\<exists>c. t = Holding key c))"
proof -
  obtain t1 p1 where s: "acquire_scan (ro_valid r) (ro_taken r) (ro_checked r) key d p = Ret (t1, p1)"
    "(case t1 of Connecting key d \<Rightarrow> acquire_connect (fst (createConnection (ro_fd r) (ro_address_ok r)
       (ro_connected r))) (ro_tried r) key d p1 | _ \<Rightarrow> Ret (t1, p1)) = Ret (t, p')"
    using assms(2) by (auto simp: acquire_round_def)
  have r1: "pool_reached s0 (p1, [t1])" using pool_reached.move [OF run pool_move.scan [OF _ _ s(1), of 0]] by simp
  show ?thesis
  proof (cases "t1 = Connecting key d")
    case True
    then have c: "acquire_connect (fst (createConnection (ro_fd r) (ro_address_ok r) (ro_connected r)))
        (ro_tried r) key d p1 = Ret (t, p')" using s(2) by simp
    have "pool_reached s0 (p', [t])"
      using pool_reached.move [OF r1 pool_move.connect [OF _ _ c, of 0]] True by simp
    then show ?thesis using connect_thread [OF c] by simp
  next
    case False
    then show ?thesis using scan_thread [OF s(1)] s(2) r1 by auto
  qed
qed

lemma loop_run:
  "pool_reached s0 (p, [Scanning key d]) \<Longrightarrow> acquire_loop rs key d p = Some (Ret (r, p')) \<Longrightarrow>
   pool_reached s0 (p', [case r of Some c \<Rightarrow> Holding key c | None \<Rightarrow> Threw])"
proof (induction rs arbitrary: p)
  case (Cons a rs)
  obtain t p1 where a: "acquire_round a key d p = Ret (t, p1)"
    using Cons.prems(2) by (auto split: res.splits)
  note run = round_run [OF Cons.prems(1) a]
  then consider "t = Threw" | c where "t = Holding key c" | "t = Waiting key d" by blast
  then show ?case
  proof cases
    case 3
    have "pool_reached s0 (p1, [Scanning key d])"
      using pool_reached.move [OF _ pool_move.wake [of 0 "[t]" key d p1]] run 3 by simp
    then show ?thesis using Cons a 3 by simp
  qed (use run Cons.prems(2) a in auto)
qed simp

lemma acquire_run:
  assumes run: "pool_reached s0 (p, [Outside])" and "acquire_call host port now rs p = Some (Ret (r, p'))"
  shows "pool_reached s0 (p', [case r of Some c \<Rightarrow> Holding (makeKey host port) c | None \<Rightarrow> Threw])"
proof -
  obtain t p1 where a: "acquire host port now p = (t, p1)" by fastforce
  have r1: "pool_reached s0 (p1, [t])" using pool_reached.move [OF run pool_move.acquire [OF _ _ a, of 0]] by simp
  have "t = Threw \<or> t = Scanning (makeKey host port) (now + cp_acquire_timeout p)"
    using a by (auto simp: acquire_def split: if_splits)
  then show ?thesis
    using assms(2) a r1 loop_run [of s0 p1] by (auto simp: acquire_call_def)
qed

text \<open>A conversation can only break the connection.\<close>

lemma send_conn:
  "TcpConnection_send data c s = Some (ok, c', s') \<Longrightarrow> c' = c \<or> c' = c\<lparr>tc_connected := False\<rparr>"
proof (cases ok)
  case True
  assume a: "TcpConnection_send data c s = Some (ok, c', s')"
  then have "c' = c\<lparr>tc_connected := True\<rparr>" "tc_connected c"
    using True by (auto simp: TcpConnection_send_def split: option.splits if_splits)
  then show ?thesis by simp
qed (auto simp: TcpConnection_send_def split: option.splits if_splits)

lemma receive_conn:
  "TcpConnection_receive c s = (data, c', s') \<Longrightarrow> c' = c \<or> c' = c\<lparr>tc_connected := False\<rparr>"
  by (auto simp: TcpConnection_receive_def os_recv_all_def Let_def split: if_splits)

lemma exchange_over_cases:
  assumes "exchange_over request c p socks = Some (reply, p', socks')"
  shows "p' = p\<lparr>cp_conns := (cp_conns p)(c := (cp_conns p c)\<lparr>tc_connected := False\<rparr>)\<rparr> \<or> p' = p"
proof -
  let ?c = "cp_conns p c"
  obtain sent conn s where s: "TcpConnection_send request ?c (socks c) = Some (sent, conn, s)"
    using assms by (cases "TcpConnection_send request ?c (socks c)") (auto simp: exchange_over_def)
  obtain data conn2 s2 where r: "TcpConnection_receive conn s = (data, conn2, s2)" by (rule prod_cases3)
  have p': "p' = p\<lparr>cp_conns := (cp_conns p)(c := if sent then conn2 else conn)\<rparr>"
    using assms by (simp add: exchange_over_def s r split: if_splits)
  have "conn = ?c \<or> conn = ?c\<lparr>tc_connected := False\<rparr>" using send_conn [OF s] .
  moreover have "conn2 = conn \<or> conn2 = conn\<lparr>tc_connected := False\<rparr>" using receive_conn [OF r] .
  ultimately have "(if sent then conn2 else conn) \<in> {?c, ?c\<lparr>tc_connected := False\<rparr>}" by auto
  then show ?thesis unfolding p' by auto
qed

lemma exchange_over_reply: "exchange_over request c p socks = Some (reply, p', socks') \<Longrightarrow> reply \<noteq> Some []"
  by (auto simp: exchange_over_def Let_def split: option.splits if_splits prod.splits)

lemma exchange_over_run:
  assumes "pool_reached s0 (p, [Holding key c])" and "exchange_over request c p socks = Some (reply, p', socks')"
  shows "pool_reached s0 (p', [Holding key c])"
  using exchange_over_cases [OF assms(2)] pool_reached.move [OF assms(1) pool_move.broken [of 0 "[Holding key c]" key c p]]
    assms(1) by auto

lemma release_run:
  "pool_reached s0 (p, [Holding (makeKey host port) c]) \<Longrightarrow> pool_reached s0 (release so now host port c p, [Outside])"
  using pool_reached.move [OF _ pool_move.release [of 0 "[Holding (makeKey host port) c]" "makeKey host port" c p so now]]
  by (simp add: release_def)

lemma leak_run: "pool_reached s0 (p, [Holding key c]) \<Longrightarrow> pool_reached s0 (p, [Outside])"
  using pool_reached.move [OF _ pool_move.leak [of 0 "[Holding key c]" key c p]] by simp

lemma caught_run: "pool_reached s0 (p, [Threw]) \<Longrightarrow> pool_reached s0 (p, [Outside])"
  using pool_reached.move [OF _ pool_move.caught [of 0 "[Threw]" p]] by simp

text \<open>The pool of a network in which the client is outside of it.\<close>

definition pooled :: "ConnectionPool \<times> thread list \<Rightarrow> Network \<Rightarrow> bool" where
  "pooled s0 nw \<longleftrightarrow> (\<exists>p. nw_pool nw = Some p \<and> pool_reached s0 (p, [Outside]))"

text \<open>The ways a discovery and an attempt can go.\<close>

lemma discovery_cases:
  assumes "nw_pool nw = Some p"
    and "discoverServiceFromRegistry_pooled rt e host port now name nw = Some (Ret (es, nw'))"
  obtains (threw) p' where "acquire_call host port (ue_now e) (ue_rounds e) p = Some (Ret (None, p'))"
      "es = []" "nw' = nw\<lparr>nw_pool := Some p'\<rparr>"
  | (failed) c p1 reply p2 socks where
      "acquire_call host port (ue_now e) (ue_rounds e) p = Some (Ret (Some c, p1))"
      "exchange_over (ServiceDiscoveryRequest_serialize rt (ServiceDiscoveryRequest_default\<lparr>dq_service_name := name\<rparr>))
         c p1 (nw_socks nw) = Some (reply, p2, socks)"
      "Option.bind reply (ServiceDiscoveryResponse_deserialize rt) = None"
      "es = []" "nw' = \<lparr>nw_pool = Some p2, nw_socks = socks\<rparr>"
  | (answered) c p1 reply p2 socks response where
      "acquire_call host port (ue_now e) (ue_rounds e) p = Some (Ret (Some c, p1))"
      "exchange_over (ServiceDiscoveryRequest_serialize rt (ServiceDiscoveryRequest_default\<lparr>dq_service_name := name\<rparr>))
         c p1 (nw_socks nw) = Some (reply, p2, socks)"
      "Option.bind reply (ServiceDiscoveryResponse_deserialize rt) = Some response"
      "es = map (\<lambda>s. \<lparr>en_host = info_host s, en_port = info_port s, en_cached_time = now\<rparr>) (ds_services response)"
      "nw' = \<lparr>nw_pool = Some (release (ue_valid e) (ue_released e) host port c p2), nw_socks = socks\<rparr>"
proof -
  let ?q = "ServiceDiscoveryRequest_serialize rt (ServiceDiscoveryRequest_default\<lparr>dq_service_name := name\<rparr>)"
  obtain r p1 where a: "acquire_call host port (ue_now e) (ue_rounds e) p = Some (Ret (r, p1))"
    using assms by (auto simp: discoverServiceFromRegistry_pooled_def split: option.splits res.splits)
  show thesis
  proof (cases r)
    case None
    then show ?thesis using assms a threw by (simp add: discoverServiceFromRegistry_pooled_def)
  next
    case (Some c)
    obtain reply p2 socks where v: "exchange_over ?q c p1 (nw_socks nw) = Some (reply, p2, socks)"
      using assms a Some
      by (cases "exchange_over ?q c p1 (nw_socks nw)") (auto simp: discoverServiceFromRegistry_pooled_def Let_def)
    show ?thesis
      by (cases "Option.bind reply (ServiceDiscoveryResponse_deserialize rt)")
        (use assms a v Some failed answered in
          \<open>auto simp: discoverServiceFromRegistry_pooled_def Let_def simp del: Option.bind_eq_None_conv Option.bind_eq_Some_conv\<close>)
  qed
qed

text \<open>The result of an attempt with this reply.\<close>

definition reply_result :: "pb_runtime \<Rightarrow> bytes option \<Rightarrow> bytes option" where
  "reply_result rt reply = (case Option.bind reply (RpcResponse_deserialize rt) of
       None \<Rightarrow> None
     | Some response \<Rightarrow> if rs_error_code response \<noteq> 0 then None else Some (rs_response_data response))"

definition call_bytes :: "pb_runtime \<Rightarrow> bytes \<Rightarrow> bytes \<Rightarrow> bytes \<Rightarrow> bytes \<Rightarrow> bytes" where
  "call_bytes rt request_id s m d = RpcRequest_serialize rt (RpcRequest_default\<lparr>rq_service_name := s,
     rq_method_name := m, rq_request_data := d, rq_request_id := request_id\<rparr>)"

lemma endpoint_cases:
  assumes "nw_pool nw = Some p" and "callEndpoint_pooled rt e i ep s m d nw = Some (Ret (r, nw'))"
  obtains (threw) p' where "acquire_call (en_host ep) (en_port ep) (ue_now e) (ue_rounds e) p = Some (Ret (None, p'))"
      "r = None" "nw' = nw\<lparr>nw_pool := Some p'\<rparr>"
  | (talked) c p1 reply p2 socks where
      "acquire_call (en_host ep) (en_port ep) (ue_now e) (ue_rounds e) p = Some (Ret (Some c, p1))"
      "exchange_over (call_bytes rt i s m d) c p1 (nw_socks nw) = Some (reply, p2, socks)"
      "r = reply_result rt reply"
      "nw' = \<lparr>nw_pool = Some (release (ue_valid e) (ue_released e) (en_host ep) (en_port ep) c p2), nw_socks = socks\<rparr>"
proof -
  obtain r' p1 where a: "acquire_call (en_host ep) (en_port ep) (ue_now e) (ue_rounds e) p = Some (Ret (r', p1))"
    using assms by (auto simp: callEndpoint_pooled_def split: option.splits res.splits)
  show thesis
  proof (cases r')
    case None
    then show ?thesis using assms a threw by (simp add: callEndpoint_pooled_def)
  next
    case (Some c)
    obtain reply p2 socks where v: "exchange_over (call_bytes rt i s m d) c p1 (nw_socks nw) = Some (reply, p2, socks)"
      using assms a Some
      by (cases "exchange_over (call_bytes rt i s m d) c p1 (nw_socks nw)")
        (auto simp: callEndpoint_pooled_def call_bytes_def Let_def)
    then show ?thesis using assms a Some talked
      by (simp add: callEndpoint_pooled_def call_bytes_def [symmetric] reply_result_def [symmetric] Let_def)
  qed
qed

lemma discovery_run:
  assumes "pooled s0 nw" and d: "discoverServiceFromRegistry_pooled rt e host port now name nw = Some (Ret (es, nw'))"
  shows "pooled s0 nw'"
proof -
  obtain p where p: "nw_pool nw = Some p" "pool_reached s0 (p, [Outside])" using assms(1) by (auto simp: pooled_def)
  from p(1) d show ?thesis
  proof (cases rule: discovery_cases)
    case threw
    then show ?thesis using acquire_run [OF p(2) threw(1)] caught_run by (simp add: pooled_def)
  next
    case failed
    then show ?thesis using exchange_over_run [OF _ failed(2)] acquire_run [OF p(2) failed(1)] leak_run
      by (fastforce simp: pooled_def)
  next
    case answered
    then show ?thesis using exchange_over_run [OF _ answered(2)] acquire_run [OF p(2) answered(1)] release_run
      by (fastforce simp: pooled_def)
  qed
qed

lemma endpoint_run:
  assumes "pooled s0 nw" and d: "callEndpoint_pooled rt e i ep s m d nw = Some (Ret (r, nw'))"
  shows "pooled s0 nw'"
proof -
  obtain p where p: "nw_pool nw = Some p" "pool_reached s0 (p, [Outside])" using assms(1) by (auto simp: pooled_def)
  from p(1) d show ?thesis
  proof (cases rule: endpoint_cases)
    case threw
    then show ?thesis using acquire_run [OF p(2) threw(1)] caught_run by (simp add: pooled_def)
  next
    case talked
    then show ?thesis using exchange_over_run [OF _ talked(2)] acquire_run [OF p(2) talked(1)] release_run
      by (fastforce simp: pooled_def)
  qed
qed

lemma retry_step:
  assumes "retry_pooled rt (a # as) ep s m d nw = Some (Ret (r, nw'))"
  obtains r1 nw1 where "callEndpoint_pooled rt (fst a) (snd a) ep s m d nw = Some (Ret (r1, nw1))"
    and "if r1 = None \<or> r1 = Some [] then retry_pooled rt as ep s m d nw1 = Some (Ret (r, nw'))
         else r1 = Some r \<and> nw' = nw1"
  using assms by (auto split: option.splits res.splits if_splits)

lemma retry_run:
  "pooled s0 nw \<Longrightarrow> retry_pooled rt as ep s m d nw = Some (Ret (r, nw')) \<Longrightarrow> pooled s0 nw'"
proof (induction as arbitrary: nw)
  case (Cons a as)
  obtain r1 nw1 where r1: "callEndpoint_pooled rt (fst a) (snd a) ep s m d nw = Some (Ret (r1, nw1))"
    "if r1 = None \<or> r1 = Some [] then retry_pooled rt as ep s m d nw1 = Some (Ret (r, nw'))
     else r1 = Some r \<and> nw' = nw1"
    by (rule retry_step [OF Cons.prems(2)])
  have "pooled s0 nw1" by (rule endpoint_run [OF Cons.prems(1) r1(1)])
  then show ?case using r1(2) Cons.IH [of nw1] by (simp split: if_splits)
qed simp

section \<open>The exchanges of a call\<close>

lemma discovery_exchange:
  assumes "nw_pool nw = Some p" and "discoverServiceFromRegistry_pooled rt e host port now name nw = Some (Ret (es, nw'))"
  shows "\<exists>reply. es = discoverServiceFromRegistry rt (\<lambda>_. reply) now name"
  using assms
proof (cases rule: discovery_cases)
  case threw
  then show ?thesis by (intro exI [of _ None]) (simp add: discoverServiceFromRegistry_def)
next
  case (failed c p1 reply p2 socks)
  then show ?thesis
    by (intro exI [of _ reply]) (auto simp: discoverServiceFromRegistry_def split: option.split)
next
  case (answered c p1 reply p2 socks response)
  have "reply \<noteq> Some []" by (rule exchange_over_reply [OF answered(2)])
  then show ?thesis using answered(3,4)
    by (intro exI [of _ reply]) (auto simp: discoverServiceFromRegistry_def split: option.split)
qed

lemma reply_exchange:
  "reply \<noteq> Some [] \<Longrightarrow> reply_result rt reply = callEndpoint rt (\<lambda>_. reply) i s m d"
  by (auto simp: reply_result_def callEndpoint_def split: option.split)

lemma endpoint_exchange:
  assumes "nw_pool nw = Some p" and "callEndpoint_pooled rt e i ep s m d nw = Some (Ret (r, nw'))"
  shows "\<exists>reply. r = callEndpoint rt (\<lambda>_. reply) i s m d"
  using assms
proof (cases rule: endpoint_cases)
  case threw
  then show ?thesis by (intro exI [of _ None]) (simp add: callEndpoint_def)
next
  case (talked c p1 reply p2 socks)
  have "reply \<noteq> Some []" by (rule exchange_over_reply [OF talked(2)])
  then show ?thesis using talked(3) reply_exchange by blast
qed

lemma retry_exchanges:
  "pooled s0 nw \<Longrightarrow> retry_pooled rt as ep s m d nw = Some (Ret (r, nw')) \<Longrightarrow>
   \<exists>replies. length replies = length as \<and>
     r = retry_loop (length as) (map2 (\<lambda>a reply. callEndpoint rt (\<lambda>_. reply) (snd a) s m d) as replies)"
proof (induction as arbitrary: nw)
  case (Cons a as)
  obtain r1 nw1 where r1: "callEndpoint_pooled rt (fst a) (snd a) ep s m d nw = Some (Ret (r1, nw1))"
    "if r1 = None \<or> r1 = Some [] then retry_pooled rt as ep s m d nw1 = Some (Ret (r, nw'))
     else r1 = Some r \<and> nw' = nw1"
    by (rule retry_step [OF Cons.prems(2)])
  obtain p where "nw_pool nw = Some p" using Cons.prems(1) by (auto simp: pooled_def)
  then obtain reply where reply: "r1 = callEndpoint rt (\<lambda>_. reply) (snd a) s m d"
    using endpoint_exchange r1(1) by blast
  show ?case
  proof (cases "r1 = None \<or> r1 = Some []")
    case True
    then obtain replies where "length replies = length as"
      "r = retry_loop (length as) (map2 (\<lambda>a reply. callEndpoint rt (\<lambda>_. reply) (snd a) s m d) as replies)"
      using Cons.IH [OF endpoint_run [OF Cons.prems(1) r1(1)]] r1(2) by auto
    then show ?thesis using True reply by (intro exI [of _ "reply # replies"]) (auto split: option.split)
  next
    case False
    then show ?thesis using reply r1(2)
      by (intro exI [of _ "reply # replicate (length as) None"]) (auto split: option.split)
  qed
qed simp

lemma callWithRetry_exchanges:
  assumes "pooled s0 nw" and "callWithRetry_pooled rt env ep s m d c nw = Some (Ret (r, nw'))"
  shows "\<exists>net. r = callWithRetry rt net s m d c"
proof -
  let ?n = "nat (cl_retry_count c)"
  obtain replies where replies: "length replies = ?n"
    "r = retry_loop ?n (map2 (\<lambda>a reply. callEndpoint rt (\<lambda>_. reply) (snd a) s m d) (map env [0..<?n]) replies)"
    using retry_exchanges [OF assms(1) assms(2) [unfolded callWithRetry_pooled_def]] by auto
  have "map2 (\<lambda>a reply. callEndpoint rt (\<lambda>_. reply) (snd a) s m d) (map env [0..<?n]) replies =
      map (\<lambda>i. callEndpoint rt (\<lambda>_. replies ! i) (snd (env i)) s m d) [0..<?n]"
    using replies(1) by (intro nth_equalityI) simp_all
  then show ?thesis using replies(2)
    by (intro exI [of _ "\<lambda>i. (\<lambda>_. replies ! i, snd (env i))"]) (simp add: callWithRetry_def Let_def)
qed

lemma discoverService_exchange:
  assumes "pooled s0 nw" and "discoverService_pooled rt e host port now name c nw = Some (Ret (es, c', nw'))"
  shows "pooled s0 nw' \<and> (\<exists>registry. discoverService rt registry now name c = (es, c'))"
proof -
  let ?hit = "case map_of (cl_service_cache c) name of
            None \<Rightarrow> None
          | Some es \<Rightarrow> if es \<noteq> [] \<and> \<not> isExpired (cl_service_cache_ttl c) now (es ! 0) then Some es else None"
  obtain p where p: "nw_pool nw = Some p" using assms(1) by (auto simp: pooled_def)
  show ?thesis
  proof (cases ?hit)
    case None
    then obtain d where d: "discoverServiceFromRegistry_pooled rt e host port now name nw = Some (Ret (es, nw'))"
        "c' = (let c = c\<lparr>cl_cache_misses := cl_cache_misses c + 1\<rparr> in if es \<noteq> []
           then c\<lparr>cl_service_cache := AList.update name es (cl_service_cache c)\<rparr> else c)"
      using assms(2) by (auto simp: discoverService_pooled_def Let_def)
    obtain reply where "es = discoverServiceFromRegistry rt (\<lambda>_. reply) now name"
      using discovery_exchange [OF p d(1)] by blast
    then have "discoverService rt (\<lambda>_. reply) now name c = (es, c')"
      using None d(2) by (simp add: discoverService_def Let_def)
    then show ?thesis using discovery_run [OF assms(1) d(1)] by blast
  next
    case (Some hit)
    then show ?thesis using assms by (simp add: discoverService_pooled_def discoverService_def Let_def)
  qed
qed

text \<open>
  The whole call: the client stays a thread of its pool, and what it returns, counts and caches is
  what \<open>RpcClient_call\<close> computes from the replies of its exchanges.
\<close>

lemma call_refines:
  assumes "pooled s0 nw" and "RpcClient_call_pooled rt e env host port now s m d c nw = Some (Ret (r, c', nw'))"
  shows "pooled s0 nw' \<and> (\<exists>registry net. RpcClient_call rt registry net now s m d c = (r, c'))"
proof -
  let ?c = "c\<lparr>cl_total_calls := cl_total_calls c + 1\<rparr>"
  obtain es c1 nw1 where disc: "discoverService_pooled rt e host port now s ?c nw = Some (Ret (es, c1, nw1))"
    using assms(2) by (auto simp: RpcClient_call_pooled_def Let_def split: option.splits res.splits)
  obtain registry where reg: "pooled s0 nw1" "discoverService rt registry now s ?c = (es, c1)"
    using discoverService_exchange [OF assms(1) disc] by blast
  show ?thesis
  proof (cases "es = []")
    case True
    then have "RpcClient_call rt registry net now s m d c = (r, c')" for net
      using assms(2) disc reg(2) by (auto simp: RpcClient_call_pooled_def RpcClient_call_def)
    then show ?thesis using assms(2) disc reg(1) True by (auto simp: RpcClient_call_pooled_def)
  next
    case False
    then obtain ep c2 where sel: "selectEndpoint es c1 = Some (ep, c2)" using selectEndpoint_Some by blast
    obtain r1 nw2 where retry: "callWithRetry_pooled rt env ep s m d c2 nw1 = Some (Ret (r1, nw2))"
      "r = r1" "nw' = nw2"
      "c' = (if r1 \<noteq> [] then c2\<lparr>cl_successful_calls := cl_successful_calls c2 + 1\<rparr>
             else c2\<lparr>cl_failed_calls := cl_failed_calls c2 + 1\<rparr>)"
      using assms(2) disc sel False
      by (auto simp: RpcClient_call_pooled_def Let_def split: if_splits)
    obtain net where net: "r1 = callWithRetry rt net s m d c2"
      using callWithRetry_exchanges [OF reg(1) retry(1)] by blast
    have "RpcClient_call rt registry (\<lambda>_. net) now s m d c = (r, c')"
      using reg(2) sel False retry(2,4) net by (simp add: RpcClient_call_def Let_def)
    moreover have "pooled s0 nw2"
      using retry_run [OF reg(1)] retry(1) by (simp add: callWithRetry_pooled_def)
    ultimately show ?thesis using retry(3) by blast
  qed
qed

end
