(* ===== verification/Client_Properties.thy ===== *)
theory Client_Properties
  imports Client_Connections
begin

text \<open>
  The properties of the RPC client with its connection pool: what an attempt and a discovery do to
  the connections in use, and what the registry, which answers one request per connection and
  closes it, makes of the pooling of its connections.
\<close>

section \<open>Connections in use\<close>

definition busy :: "ConnectionPool \<Rightarrow> bytes \<Rightarrow> nat set" where
  "busy p key = {a \<in> set (hp_all_connections (host_of p key)). in_use (host_of p key) a}"

lemma take_idle_only:
  assumes "host_inv n hp" and "hp_idle_connections hp = idle"
    and "take_idle so now idle hp conns = (r, hp', conns')"
  shows "set (hp_all_connections hp') \<subseteq> set (hp_all_connections hp) \<and>
    (\<forall>a. in_use hp' a \<longrightarrow> in_use hp a \<or> r = Some a)"
  using assms
proof (induction idle arbitrary: hp conns)
  case (Cons a idle)
  have a: "pc_connection (hp_objects hp a) = a" using Cons.prems(1,2) by (auto simp: host_inv_def)
  show ?case
  proof (cases "isConnectionValid so (conns a)")
    case True
    then show ?thesis using Cons.prems(3) a by (auto simp: Let_def in_use_def split: if_splits)
  next
    case False
    obtain hp2 conns2 where rem: "removeConnection a (hp\<lparr>hp_idle_connections := idle\<rparr>) conns = (hp2, conns2)" by fastforce
    then have hp2: "set (hp_all_connections hp2) \<subseteq> set (hp_all_connections hp)" "in_use hp2 = in_use hp"
        "hp_idle_connections hp2 = idle" "host_inv n hp2"
      using host_inv_remove [OF Cons.prems(1,2), of conns]
      by (auto simp: removeConnection_def in_use_def fun_eq_iff dest: set_remove1_subset [THEN subsetD])
    have "take_idle so now idle hp2 conns2 = (r, hp', conns')" using Cons.prems(3) False rem a by simp
    from Cons.IH [OF hp2(4,3) this] show ?thesis using hp2(1,2) by auto
  qed
qed simp

lemma host_of_put [simp]:
  "host_of (put_pool key hp conns p) k = (if k = key then hp else host_of p k)"
  by (simp add: host_of_def put_pool_def map_of_AList_update)

lemma host_of_fields [simp]:
  "host_of (p\<lparr>cp_conns := f\<rparr>) k = host_of p k" "host_of (p\<lparr>cp_next := i\<rparr>) k = host_of p k"
  by (simp_all add: host_of_def)

lemma host_of_create [simp]: "host_of (getOrCreateHostPool key p) k = host_of p k"
  by (auto simp: host_of_def getOrCreateHostPool_def map_of_AList_update split: option.split)

definition hosts_ok :: "ConnectionPool \<Rightarrow> bool" where
  "hosts_ok p \<longleftrightarrow> (\<forall>k. host_inv (cp_next p) (host_of p k))"

text \<open>What \<open>acquire\<close> may do: a host is unchanged but for one more connection in use.\<close>

definition took :: "bytes \<Rightarrow> nat option \<Rightarrow> ConnectionPool \<Rightarrow> ConnectionPool \<Rightarrow> bool" where
  "took key r p p' \<longleftrightarrow> hosts_ok p' \<and> cp_running p' = cp_running p \<and>
     (\<forall>k. busy p' k = busy p k \<union> (if k = key then set_option r else {})) \<and>
     (\<forall>c. r = Some c \<longrightarrow> c \<notin> busy p key)"

lemma took_refl: "hosts_ok p \<Longrightarrow> took key None p p"
  by (simp add: took_def)

lemma took_trans: "took key None p p1 \<Longrightarrow> took key r p1 p2 \<Longrightarrow> took key r p p2"
  by (auto simp: took_def split: if_splits)

definition thread_conn :: "thread \<Rightarrow> nat option" where
  "thread_conn t = (case t of Holding k c \<Rightarrow> Some c | _ \<Rightarrow> None)"

lemma hosts_ok_put:
  "hosts_ok p \<Longrightarrow> host_inv (cp_next p) hp \<Longrightarrow> hosts_ok (put_pool key hp conns p)"
  by (simp add: hosts_ok_def) (simp add: put_pool_def)

lemma scan_took:
  assumes ok: "hosts_ok p" and s: "acquire_scan so now now' key d p = Ret (t, p')"
  shows "took key (thread_conn t) p p'"
proof (cases "cp_running p")
  case False
  then show ?thesis using s took_refl [OF ok] by (auto simp: acquire_scan_def thread_conn_def)
next
  case True
  then obtain hp where hp: "map_of (cp_pools p) key = Some hp" using s by (auto simp: acquire_scan_def split: option.splits)
  then have h: "host_of p key = hp" by (simp add: host_of_def)
  then have inv: "host_inv (cp_next p) hp" using ok by (auto simp: hosts_ok_def)
  obtain r hp' conns' where take: "take_idle so now (hp_idle_connections hp) hp (cp_conns p) = (r, hp', conns')"
    by (rule prod_cases3)
  have p': "p' = put_pool key hp' conns' p" and t: "thread_conn t = r"
    using s True hp take by (auto simp: acquire_scan_def thread_conn_def wait_or_throw_def split: option.splits if_splits)
  note spec = take_idle_spec [OF inv refl take]
  note only = take_idle_only [OF inv refl take]
  have b: "busy p' key = busy p key \<union> set_option r"
    using spec only unfolding busy_def p' host_of_put h host_move_def by (auto 4 4)
  show ?thesis
    using spec hosts_ok_put [OF ok, of hp'] b unfolding took_def t
    by (auto simp: p' busy_def h)
qed

lemma connect_took:
  assumes ok: "hosts_ok p" and s: "acquire_connect fd now key d p = Ret (t, p')"
  shows "took key (thread_conn t) p p'"
proof -
  obtain hp where hp: "map_of (cp_pools p) key = Some hp" using s by (auto simp: acquire_connect_def split: option.splits)
  then have h: "host_of p key = hp" by (simp add: host_of_def)
  then have inv: "host_inv (cp_next p) hp" using ok by (auto simp: hosts_ok_def)
  show ?thesis
  proof (cases fd)
    case None
    then show ?thesis using s hp took_refl [OF ok]
      by (auto simp: acquire_connect_def thread_conn_def wait_or_throw_def split: if_splits)
  next
    case (Some f)
    define c where "c = cp_next p"
    define hp' where "hp' = hp\<lparr>hp_objects := (hp_objects hp)(c := \<lparr>pc_connection = c, pc_last_used = now, pc_in_use = True\<rparr>),
        hp_all_connections := hp_all_connections hp @ [c], hp_active_count := hp_active_count hp + 1\<rparr>"
    have p': "t = Holding key c" "p' = put_pool key hp' ((cp_conns p)(c := TcpConnection_new f)) (p\<lparr>cp_next := Suc c\<rparr>)"
      using s hp Some by (auto simp: acquire_connect_def Let_def c_def hp'_def)
    have new: "c \<notin> set (hp_all_connections hp)" "host_inv (Suc c) hp'"
      using host_inv_connect(4) [of c hp] host_inv_connect(1) [of c hp now] inv by (simp_all add: c_def hp'_def)
    have "hosts_ok (p\<lparr>cp_next := Suc c\<rparr>)"
      using ok host_inv_fresh unfolding hosts_ok_def by (simp add: c_def) (metis le_SucI order_refl)
    then have "hosts_ok p'" using new(2) hosts_ok_put [of "p\<lparr>cp_next := Suc c\<rparr>" hp'] by (simp add: p')
    moreover have "busy p' k = busy p k \<union> (if k = key then {c} else {})" for k
      using new(1) by (auto simp: p' busy_def h hp'_def in_use_def)
    moreover have "c \<notin> busy p key" using new(1) by (simp add: busy_def h)
    ultimately show ?thesis by (simp add: took_def p' thread_conn_def)
  qed
qed

lemma round_took:
  assumes "hosts_ok p" and "acquire_round r key d p = Ret (t, p')"
  shows "took key (thread_conn t) p p'"
proof -
  obtain t1 p1 where s: "acquire_scan (ro_valid r) (ro_taken r) (ro_checked r) key d p = Ret (t1, p1)"
    "(case t1 of Connecting key d \<Rightarrow> acquire_connect (fst (createConnection (ro_fd r) (ro_address_ok r)
       (ro_connected r))) (ro_tried r) key d p1 | _ \<Rightarrow> Ret (t1, p1)) = Ret (t, p')"
    using assms(2) by (auto simp: acquire_round_def)
  note t1 = scan_took [OF assms(1) s(1)]
  show ?thesis
  proof (cases "\<exists>k d. t1 = Connecting k d")
    case True
    then have "t1 = Connecting key d" using scan_thread [OF s(1)] by auto
    then show ?thesis using s(2) t1 connect_took [of p1] took_trans
      by (auto simp: thread_conn_def took_def [of key None])
  next
    case False
    then have "t = t1 \<and> p' = p1" using s(2) by (auto split: thread.splits)
    then show ?thesis using t1 by simp
  qed
qed

lemma loop_took:
  "hosts_ok p \<Longrightarrow> acquire_loop rs key d p = Some (Ret (r, p')) \<Longrightarrow> took key r p p'"
proof (induction rs arbitrary: p)
  case (Cons a rs)
  obtain t p1 where a: "acquire_round a key d p = Ret (t, p1)"
    using Cons.prems(2) by (auto split: res.splits)
  note t = round_took [OF Cons.prems(1) a]
  have ok: "hosts_ok p1" using t by (simp add: took_def)
  show ?case using Cons.IH [OF ok] Cons.prems(2) a t took_trans
    by (auto simp: thread_conn_def split: thread.splits)
qed simp

lemma acquire_took:
  assumes "hosts_ok p" and "acquire_call host port now rs p = Some (Ret (r, p'))"
  shows "took (makeKey host port) r p p'"
proof (cases "cp_running p")
  case False
  then show ?thesis using assms took_refl by (auto simp: acquire_call_def acquire_def)
next
  case True
  let ?p1 = "getOrCreateHostPool (makeKey host port) p"
  have fields: "cp_next ?p1 = cp_next p" "cp_running ?p1 = cp_running p"
    by (simp_all add: getOrCreateHostPool_def split: option.split)
  have ok: "hosts_ok ?p1" using assms(1) fields by (simp add: hosts_ok_def)
  have loop: "acquire_loop rs (makeKey host port) (now + cp_acquire_timeout p) ?p1 = Some (Ret (r, p'))"
    using assms(2) True by (simp add: acquire_call_def acquire_def)
  from loop_took [OF ok loop] show ?thesis using fields by (simp add: took_def busy_def)
qed

lemma release_busy:
  assumes ok: "hosts_ok p" and run: "cp_running p" and c: "c \<in> busy p key"
  shows "busy (release_key so now key c p) k = busy p k - (if k = key then {c} else {})"
    and "hosts_ok (release_key so now key c p)"
proof -
  have "map_of (cp_pools p) key \<noteq> None"
    using c by (auto simp: busy_def host_of_def HostPool_new_def split: option.splits)
  then obtain hp where hp: "map_of (cp_pools p) key = Some hp" by blast
  then have h: "host_of p key = hp" by (simp add: host_of_def)
  have inv: "host_inv (cp_next p) hp" using ok h by (auto simp: hosts_ok_def)
  have c': "c \<in> set (hp_all_connections hp)" "in_use hp c" using c by (auto simp: busy_def h)
  have find: "find (\<lambda>a. pc_connection (hp_objects hp a) = c) (hp_all_connections hp) = Some c"
    using inv c'(1) by (intro find_own) (auto simp: host_inv_def)
  define hp1 where "hp1 = hp\<lparr>hp_objects := (hp_objects hp)(c := (hp_objects hp c)\<lparr>pc_in_use := False, pc_last_used := now\<rparr>),
      hp_active_count := hp_active_count hp - 1\<rparr>"
  let ?valid = "isConnectionValid so (cp_conns p c)"
  define hp' where "hp' = (if ?valid then hp1\<lparr>hp_idle_connections := hp_idle_connections hp1 @ [c]\<rparr>
      else hp1\<lparr>hp_all_connections := remove1 c (hp_all_connections hp1)\<rparr>)"
  obtain conns where r: "release_key so now key c p = put_pool key hp' conns p"
    using run hp find c'(2)
    by (cases ?valid) (simp_all add: release_key_def hp'_def hp1_def in_use_def Let_def removeConnection_def)
  have inv': "host_inv (cp_next p) hp'"
    using host_inv_release(1,2) [OF inv c', of now] by (simp add: hp'_def hp1_def)
  then show "hosts_ok (release_key so now key c p)" using hosts_ok_put [OF ok] by (simp add: r)
  have "distinct (hp_all_connections hp)" using inv by (simp add: host_inv_def)
  then show "busy (release_key so now key c p) k = busy p k - (if k = key then {c} else {})"
    by (auto simp: r busy_def h hp'_def hp1_def in_use_def)
qed

lemma exchange_over_busy:
  "exchange_over request c p socks = Some (reply, p', socks') \<Longrightarrow>
   busy p' k = busy p k \<and> hosts_ok p' = hosts_ok p \<and> cp_running p' = cp_running p"
  by (drule exchange_over_cases) (auto simp: busy_def hosts_ok_def)

lemma acquire_running:
  "acquire_call host port now rs p = Some (Ret (Some c, p')) \<Longrightarrow> cp_running p"
  by (auto simp: acquire_call_def acquire_def split: if_splits)

lemma pooled_hosts_ok:
  assumes "pooled (cpool limit 1) nw" and "nw_pool nw = Some p" and "cp_running p"
  shows "hosts_ok p"
proof -
  have "inv_parts p [Outside]" using assms inv_running [of limit 1 p "[Outside]"] by (auto simp: pooled_def)
  then show ?thesis using host_inv_new
    by (auto simp: hosts_ok_def host_of_def inv_parts_def pools_inv_def split: option.split)
qed

text \<open>C8. However an attempt to call an endpoint ends, with a result, an error of the server, a broken
  connection or no connection at all, the client has the same connections in use as before: every
  connection it acquired was given back or dropped.\<close>

theorem attempt_returns_connection:
  assumes "pooled (cpool limit 1) nw" and "nw_pool nw = Some p"
    and "callEndpoint_pooled rt e i ep s m d nw = Some (Ret (r, nw'))"
  shows "\<exists>p'. nw_pool nw' = Some p' \<and> (\<forall>k. busy p' k = busy p k)"
  using assms(2,3)
proof (cases rule: endpoint_cases)
  case (threw p')
  show ?thesis
  proof (cases "cp_running p")
    case True
    show ?thesis using acquire_took [OF pooled_hosts_ok [OF assms(1,2) True] threw(1)] threw(3)
      by (auto simp: took_def)
  next
    case False
    then show ?thesis using threw by (auto simp: acquire_call_def acquire_def)
  qed
next
  case (talked c p1 reply p2 socks)
  have run: "cp_running p" by (rule acquire_running [OF talked(1)])
  let ?k = "makeKey (en_host ep) (en_port ep)"
  note t = acquire_took [OF pooled_hosts_ok [OF assms(1,2) run] talked(1)]
  note x = exchange_over_busy [OF talked(2)]
  have p2: "hosts_ok p2" "cp_running p2" "busy p2 k = busy p k \<union> (if k = ?k then {c} else {})" for k
    using t x run by (auto simp: took_def)
  have "c \<in> busy p2 ?k" "c \<notin> busy p ?k" using p2(3) t by (auto simp: took_def)
  then show ?thesis
    using release_busy(1) [OF p2(1,2), of c ?k] p2(3) talked(4) by (auto simp: release_def)
qed

text \<open>A warm-up gives back whatever it acquired.\<close>

lemma warmup_acquire_busy:
  "hosts_ok p \<Longrightarrow> cp_running p \<Longrightarrow> warmup_acquire host port es p = Some (Ret (cs, p')) \<Longrightarrow>
   hosts_ok p' \<and> cp_running p' \<and> distinct cs \<and> set cs \<inter> busy p (makeKey host port) = {} \<and>
   (\<forall>k. busy p' k = busy p k \<union> (if k = makeKey host port then set cs else {}))"
proof (induction es arbitrary: p cs)
  case (Cons e es)
  obtain r p1 where a: "acquire_call host port (ue_now e) (ue_rounds e) p = Some (Ret (r, p1))"
    using Cons.prems(3) by (auto split: option.splits res.splits)
  note t = acquire_took [OF Cons.prems(1) a]
  show ?case
  proof (cases r)
    case None
    then show ?thesis using Cons.prems(2,3) a t by (auto simp: took_def)
  next
    case (Some c)
    then obtain cs' where cs': "warmup_acquire host port es p1 = Some (Ret (cs', p'))" "cs = c # cs'"
      using Cons.prems(3) a by auto
    have p1: "hosts_ok p1" "cp_running p1" using t Cons.prems(2) by (auto simp: took_def)
    show ?thesis using Cons.IH [OF p1 cs'(1)] t Some unfolding cs'(2) by (auto simp: took_def)
  qed
qed simp

lemma releases_busy:
  "hosts_ok p \<Longrightarrow> cp_running p \<Longrightarrow> distinct cs \<Longrightarrow> set cs \<subseteq> busy p (makeKey host port) \<Longrightarrow>
   busy (fold (release so now host port) cs p) k = busy p k - (if k = makeKey host port then set cs else {})"
proof (induction cs arbitrary: p)
  case (Cons c cs)
  let ?p = "release so now host port c p"
  have b: "busy ?p k = busy p k - (if k = makeKey host port then {c} else {})" "hosts_ok ?p" for k
    using release_busy [OF Cons.prems(1,2), of c "makeKey host port"] Cons.prems(4) by (simp_all add: release_def)
  have "cp_running ?p"
    using Cons.prems(2) by (auto simp: release_def release_key_def Let_def split: option.split prod.split)
  moreover have "set cs \<subseteq> busy ?p (makeKey host port)" "distinct cs" using Cons.prems(3,4) b(1) by auto
  ultimately have "busy (fold (release so now host port) cs ?p) k =
      busy ?p k - (if k = makeKey host port then set cs else {})" using Cons.IH [OF b(2)] by blast
  then show ?case using b(1) by auto
qed simp

lemma warmup_returns_connections:
  assumes "hosts_ok p" and "cp_running p" and "warmup host port n env so now p = Some (Ret p')"
  shows "busy p' k = busy p k"
proof -
  obtain cs p1 where w: "warmup_acquire host port (map env [0..<if n = 0 then cp_min_connections_per_host p else n]) p =
      Some (Ret (cs, p1))" "p' = fold (release so now host port) cs p1"
    using assms(3) by (auto simp: warmup_def Let_def)
  note b = warmup_acquire_busy [OF assms(1,2) w(1)]
  then show ?thesis using releases_busy [of p1 cs host port] by (auto simp: w(2))
qed

section \<open>A peer that answers once\<close>

lemma send_loop_rest:
  "length data - total_sent \<le> length (sk_sends s) \<Longrightarrow>
   \<exists>ok s'. send_loop data total_sent s = Some (ok, s') \<and> sk_rx s' = sk_rx s \<and>
     length (sk_sends s) \<le> length (sk_sends s') + (length data - total_sent)"
proof (induction data total_sent s rule: send_loop.induct)
  case (1 data total_sent s)
  show ?case
  proof (cases "total_sent < length data")
    case True
    then obtain r rs where rs: "sk_sends s = r # rs" using "1.prems" by (cases "sk_sends s") auto
    let ?n = "min r (int (length data - total_sent))"
    obtain s1 where s1: "os_send (drop total_sent data) s = Some (?n, s1)" "sk_sends s1 = rs" "sk_rx s1 = sk_rx s"
      using rs by (simp add: os_send_def Let_def)
    show ?thesis
    proof (cases "?n \<le> 0")
      case True
      then have "r \<le> 0" using \<open>total_sent < length data\<close> by (simp add: min_le_iff_disj)
      then have "send_loop data total_sent s = Some (False, s1)"
        using s1(1) \<open>total_sent < length data\<close> by (simp add: send_loop.simps [of data total_sent s])
      then show ?thesis using s1(2,3) rs \<open>total_sent < length data\<close> by (intro exI [of _ False] exI [of _ s1]) simp
    next
      case False
      then have "1 \<le> nat ?n" by linarith
      then have le: "length data - (total_sent + nat ?n) \<le> length rs"
        using rs "1.prems" by (simp only: list.size)
      from "1.IH" [OF True s1(1) refl False] le s1(2)
      obtain ok s' where "send_loop data (total_sent + nat ?n) s1 = Some (ok, s')" "sk_rx s' = sk_rx s1"
        "length rs \<le> length (sk_sends s') + (length data - (total_sent + nat ?n))" by auto
      then show ?thesis using True False s1 rs \<open>1 \<le> nat ?n\<close>
        by (simp add: send_loop.simps [of data total_sent s])
    qed
  qed (auto simp: send_loop.simps)
qed

lemma send_rest:
  assumes "length data < length (sk_sends s)"
  shows "\<exists>ok c' s'. TcpConnection_send data c s = Some (ok, c', s') \<and> sk_rx s' = sk_rx s \<and>
    length (sk_sends s) \<le> length (sk_sends s') + Suc (length data)"
proof (cases "tc_connected c")
  case True
  obtain r rs where rs: "sk_sends s = r # rs" using assms by (cases "sk_sends s") auto
  let ?b = "be32 (word_of_nat (length data))"
  obtain n s1 where s1: "os_send ?b s = Some (n, s1)" "sk_sends s1 = rs" "sk_rx s1 = sk_rx s"
    using rs by (simp add: os_send_def Let_def)
  obtain ok s2 where s2: "send_loop data 0 s1 = Some (ok, s2)" "sk_rx s2 = sk_rx s1"
    "length rs \<le> length (sk_sends s2) + length data"
    using send_loop_rest [of data 0 s1] s1(2) assms rs by auto
  show ?thesis using True s1 s2 rs by (auto simp: TcpConnection_send_def)
qed (auto simp: TcpConnection_send_def)

text \<open>
  The registry reads one request from a connection, answers it and closes: what such a peer sends is
  one frame and the end of the stream. \<open>bound\<close> bounds the length of the requests, and the sockets
  take two of them.
\<close>

definition answers_once :: "pb_runtime \<Rightarrow> nat \<Rightarrow> sock \<Rightarrow> bool" where
  "answers_once rt bound s \<longleftrightarrow> takes bound s \<and> 2 * Suc bound \<le> length (sk_sends s) \<and>
     (\<exists>data response. sk_rx s = frame data \<and> data \<noteq> [] \<and> length data \<le> max_message \<and>
        ServiceDiscoveryResponse_deserialize rt data = Some response \<and> ds_services response \<noteq> [])"

definition stale :: "nat \<Rightarrow> sock \<Rightarrow> bool" where
  "stale bound s \<longleftrightarrow> sk_rx s = [] \<and> bound < length (sk_sends s)"

lemma takes_less: "takes n s \<Longrightarrow> m \<le> n \<Longrightarrow> takes m s"
  by (auto simp: takes_def split: list.splits)

lemma exchange_answered:
  assumes "answers_once rt bound (socks c)" and "tc_connected (cp_conns p c)" and "length request \<le> bound"
  obtains data response s' where "exchange_over request c p socks = Some (Some data, p, socks(c := s'))"
    and "ServiceDiscoveryResponse_deserialize rt data = Some response" and "ds_services response \<noteq> []"
    and "stale bound s'" and "sk_rx (socks c) = frame data"
proof -
  obtain data response where d: "sk_rx (socks c) = frame data" "data \<noteq> []" "length data \<le> max_message"
    "ServiceDiscoveryResponse_deserialize rt data = Some response" "ds_services response \<noteq> []"
    using assms(1) by (auto simp: answers_once_def)
  have takes: "takes (length request) (socks c)" using assms(1,3) takes_less by (auto simp: answers_once_def)
  obtain s1 where s1: "TcpConnection_send request (cp_conns p c) (socks c) = Some (True, cp_conns p c, s1)"
    "sk_rx s1 = sk_rx (socks c)"
    using send_whole [OF assms(2) takes] by metis
  have "length request < length (sk_sends (socks c))" using assms(1,3) by (auto simp: answers_once_def)
  from send_rest [OF this, of "cp_conns p c"]
  have rest: "bound < length (sk_sends s1)" using s1(1) assms(1,3) by (auto simp: answers_once_def)
  have r: "TcpConnection_receive (cp_conns p c) s1 = (data, cp_conns p c, s1\<lparr>sk_rx := []\<rparr>)"
    using receive_frame [OF assms(2) _ d(2,3), of s1 "[]"] s1(2) d(1) by simp
  have "exchange_over request c p socks = Some (Some data, p, socks(c := s1\<lparr>sk_rx := []\<rparr>))"
    using s1 r d(2) by (simp add: exchange_over_def)
  moreover have "stale bound (s1\<lparr>sk_rx := []\<rparr>)" using rest by (simp add: stale_def)
  ultimately show ?thesis using d(1,4,5) that by blast
qed

lemma exchange_stale:
  assumes "stale bound (socks c)" and "length request \<le> bound"
  obtains p' socks' where "exchange_over request c p socks = Some (None, p', socks')"
    and "\<forall>x. x \<noteq> c \<longrightarrow> socks' x = socks x"
proof -
  obtain ok conn s1 where s1: "TcpConnection_send request (cp_conns p c) (socks c) = Some (ok, conn, s1)" "sk_rx s1 = []"
    using send_rest [of request "socks c" "cp_conns p c"] assms by (auto simp: stale_def)
  obtain data conn2 s2 where r: "TcpConnection_receive conn s1 = (data, conn2, s2)" by (rule prod_cases3)
  have "data = []" using s1(2) r by (auto simp: TcpConnection_receive_def os_recv_all_def split: if_splits)
  then have "exchange_over request c p socks = Some (None,
      p\<lparr>cp_conns := (cp_conns p)(c := if ok then conn2 else conn)\<rparr>, socks(c := if ok then s2 else s1))"
    using s1(1) r by (simp add: exchange_over_def)
  then show ?thesis by (rule that) simp
qed

section \<open>Discoveries over pooled connections\<close>

primrec discoveries ::
    "pb_runtime \<Rightarrow> bytes \<Rightarrow> i32 \<Rightarrow> (use_env \<times> int \<times> bytes) list \<Rightarrow> Network \<Rightarrow>
     (ServiceEndpoint list list \<times> Network) res option" where
  "discoveries rt host port [] nw = Some (Ret ([], nw))"
| "discoveries rt host port (u # us) nw =
     (case discoverServiceFromRegistry_pooled rt (fst u) host port (fst (snd u)) (snd (snd u)) nw of
        None \<Rightarrow> None
      | Some Deadlock \<Rightarrow> Some Deadlock
      | Some Undefined \<Rightarrow> Some Undefined
      | Some (Ret (es, nw)) \<Rightarrow> map_option (\<lambda>r. res_bind r (\<lambda>(ess, nw). Ret (es # ess, nw)))
          (discoveries rt host port us nw))"

text \<open>
  An environment in which every connection attempt succeeds, no connection has a pending error, and
  the clock reaches the deadline of \<open>acquire\<close> in one of its iterations.
\<close>

definition prompt :: "int \<Rightarrow> use_env \<Rightarrow> bool" where
  "prompt acquire_timeout e \<longleftrightarrow> (\<forall>fd. ue_valid e fd) \<and>
     (case ue_rounds e of [] \<Rightarrow> False
      | r # rs \<Rightarrow> (\<forall>fd. ro_valid r fd) \<and> 0 \<le> ro_fd r \<and> ro_address_ok r \<and> ro_connected r) \<and>
     (\<exists>r \<in> set (ue_rounds e). ue_now e + acquire_timeout \<le> ro_checked r)"

text \<open>
  The pool of the registry's connections after \<open>k\<close> leaks: at most one connection is idle, and the
  registry has closed it.
\<close>

definition registry_pool :: "pb_runtime \<Rightarrow> nat \<Rightarrow> bytes \<Rightarrow> nat \<Rightarrow> int \<Rightarrow> nat \<Rightarrow> bool \<Rightarrow> Network \<Rightarrow> bool" where
  "registry_pool rt bound key limit acq k one nw \<longleftrightarrow> (\<exists>p. nw_pool nw = Some p \<and> cp_running p \<and> hosts_ok p \<and>
     cp_max_connections_per_host p = limit \<and> cp_acquire_timeout p = acq \<and>
     (\<forall>c \<ge> cp_next p. answers_once rt bound (nw_socks nw c)) \<and> card (busy p key) = k \<and>
     (if one then \<exists>a. hp_idle_connections (host_of p key) = [a] \<and> tc_connected (cp_conns p a) \<and>
          stale bound (nw_socks nw a)
      else hp_idle_connections (host_of p key) = []))"

lemma host_size:
  assumes "host_inv n hp"
  shows "length (hp_all_connections hp) = card {a \<in> set (hp_all_connections hp). in_use hp a} + length (hp_idle_connections hp)"
proof -
  let ?A = "set (hp_all_connections hp)"
  have "length (hp_all_connections hp) = card ?A" "length (hp_idle_connections hp) = card {a \<in> ?A. \<not> in_use hp a}"
    using assms by (metis host_inv_def distinct_card)+
  moreover have "card ?A = card {a \<in> ?A. in_use hp a} + card {a \<in> ?A. \<not> in_use hp a}"
    by (subst card_Un_disjoint [symmetric]) (auto intro!: arg_cong [of _ _ card])
  ultimately show ?thesis by simp
qed

lemma getOrCreate_fields [simp]:
  "cp_running (getOrCreateHostPool key p) = cp_running p"
  "cp_max_connections_per_host (getOrCreateHostPool key p) = cp_max_connections_per_host p"
  "cp_acquire_timeout (getOrCreateHostPool key p) = cp_acquire_timeout p"
  "cp_conns (getOrCreateHostPool key p) = cp_conns p"
  "cp_next (getOrCreateHostPool key p) = cp_next p"
  by (simp_all add: getOrCreateHostPool_def split: option.split)

lemma put_pool_fields [simp]:
  "cp_running (put_pool key hp conns p) = cp_running p"
  "cp_max_connections_per_host (put_pool key hp conns p) = cp_max_connections_per_host p"
  "cp_acquire_timeout (put_pool key hp conns p) = cp_acquire_timeout p"
  "cp_conns (put_pool key hp conns p) = conns"
  "cp_next (put_pool key hp conns p) = cp_next p"
  by (simp_all add: put_pool_def)

lemma busy_create [simp]: "busy (getOrCreateHostPool key p) k = busy p k"
  by (simp add: busy_def)

text \<open>The three ways the first iteration of \<open>acquire\<close> goes.\<close>

lemma round_connects:
  assumes "cp_running p" and "map_of (cp_pools p) key = Some hp" and "hp_idle_connections hp = []"
    and "length (hp_all_connections hp) < cp_max_connections_per_host p"
    and "0 \<le> ro_fd r" and "ro_address_ok r" and "ro_connected r"
  shows "\<exists>hp' p'. acquire_round r key d p = Ret (Holding key (cp_next p), p') \<and>
    hp_idle_connections hp' = [] \<and> host_of p' key = hp' \<and> cp_next p' = Suc (cp_next p) \<and>
    cp_conns p' = (cp_conns p)(cp_next p := TcpConnection_new (ro_fd r)) \<and>
    cp_max_connections_per_host p' = cp_max_connections_per_host p \<and> cp_acquire_timeout p' = cp_acquire_timeout p"
  using assms
  by (simp add: acquire_round_def acquire_scan_def acquire_connect_def createConnection_def Let_def)

lemma round_reuses:
  assumes "cp_running p" and "map_of (cp_pools p) key = Some hp" and "hp_idle_connections hp = [a]"
    and "pc_connection (hp_objects hp a) = a" and "tc_connected (cp_conns p a)" and "\<forall>fd. ro_valid r fd"
  shows "\<exists>hp'. acquire_round r key d p = Ret (Holding key a, put_pool key hp' (cp_conns p) p) \<and>
    hp_idle_connections hp' = []"
  using assms
  by (intro exI [of _ "hp\<lparr>hp_idle_connections := [], hp_objects := (hp_objects hp)
        (a := hp_objects hp a\<lparr>pc_in_use := True, pc_last_used := ro_taken r\<rparr>),
      hp_active_count := hp_active_count hp + 1\<rparr>"])
    (simp add: acquire_round_def acquire_scan_def isConnectionValid_def Let_def)

lemma loop_waits:
  assumes "cp_running p" and hp: "map_of (cp_pools p) key = Some hp" and "hp_idle_connections hp = []"
    and "cp_max_connections_per_host p \<le> length (hp_all_connections hp)"
    and "\<exists>r \<in> set rs. d \<le> ro_checked r"
  shows "acquire_loop rs key d p = Some (Ret (None, p))"
proof -
  have "put_pool key hp (cp_conns p) p = p" using update_same [OF hp] by (simp add: put_pool_def)
  then have round: "acquire_round r key d p = Ret (wait_or_throw key d (ro_checked r), p)" for r
    using assms(1-4) by (simp add: acquire_round_def acquire_scan_def wait_or_throw_def)
  from assms(5) show ?thesis
    by (induction rs) (auto simp: round wait_or_throw_def)
qed

lemma release_valid:
  assumes ok: "hosts_ok p" and run: "cp_running p" and c: "c \<in> busy p key"
    and valid: "isConnectionValid so (cp_conns p c)"
  shows "\<exists>hp'. release_key so now key c p = put_pool key hp' (cp_conns p) p \<and>
    hp_idle_connections hp' = hp_idle_connections (host_of p key) @ [c]"
proof -
  have "map_of (cp_pools p) key \<noteq> None"
    using c by (auto simp: busy_def host_of_def HostPool_new_def split: option.splits)
  then obtain hp where hp: "map_of (cp_pools p) key = Some hp" by blast
  then have h: "host_of p key = hp" by (simp add: host_of_def)
  have inv: "host_inv (cp_next p) hp" using ok h by (auto simp: hosts_ok_def)
  have c': "c \<in> set (hp_all_connections hp)" "in_use hp c" using c by (auto simp: busy_def h)
  have find: "find (\<lambda>a. pc_connection (hp_objects hp a) = c) (hp_all_connections hp) = Some c"
    using inv c'(1) by (intro find_own) (auto simp: host_inv_def)
  show ?thesis using run hp find c'(2) valid h
    by (simp add: release_key_def in_use_def Let_def)
      (intro exI [of _ "hp\<lparr>hp_objects := (hp_objects hp)(c := (hp_objects hp c)\<lparr>pc_in_use := False, pc_last_used := now\<rparr>),
        hp_active_count := hp_active_count hp - 1, hp_idle_connections := hp_idle_connections hp @ [c]\<rparr>"], simp)
qed

lemma finite_busy [simp]: "finite (busy p key)"
  by (simp add: busy_def)

lemma idle_own:
  assumes "hosts_ok p" and "hp_idle_connections (host_of p key) = [a]"
  shows "pc_connection (hp_objects (host_of p key) a) = a" and "a < cp_next p"
proof -
  have inv: "host_inv (cp_next p) (host_of p key)" using assms(1) by (simp add: hosts_ok_def)
  moreover have "a \<in> set (hp_idle_connections (host_of p key))" using assms(2) by simp
  ultimately have "a \<in> set (hp_all_connections (host_of p key))" unfolding host_inv_def by blast
  then show "pc_connection (hp_objects (host_of p key) a) = a" "a < cp_next p"
    using inv unfolding host_inv_def by blast+
qed

lemma registry_size:
  "hosts_ok p \<Longrightarrow> length (hp_all_connections (host_of p key)) = card (busy p key) + length (hp_idle_connections (host_of p key))"
  unfolding busy_def by (rule host_size) (auto simp: hosts_ok_def)

lemma acquire_call_first:
  assumes "cp_running p" and "ue_rounds e = r # rs"
    and "acquire_round r (makeKey host port) (ue_now e + cp_acquire_timeout p)
      (getOrCreateHostPool (makeKey host port) p) = Ret (Holding key c, p')"
  shows "acquire_call host port (ue_now e) (ue_rounds e) p = Some (Ret (Some c, p'))"
  using assms by (simp add: acquire_call_def acquire_def)

definition discovery_bytes :: "pb_runtime \<Rightarrow> bytes \<Rightarrow> bytes" where
  "discovery_bytes rt name =
     ServiceDiscoveryRequest_serialize rt (ServiceDiscoveryRequest_default\<lparr>dq_service_name := name\<rparr>)"

lemma fresh_discovery:
  assumes p: "nw_pool nw = Some p" "cp_running p" "hosts_ok p" "hp_idle_connections (host_of p (makeKey host port)) = []"
    and room: "length (hp_all_connections (host_of p (makeKey host port))) < cp_max_connections_per_host p"
    and once: "answers_once rt bound (nw_socks nw (cp_next p))"
    and e: "prompt (cp_acquire_timeout p) e" and len: "length (discovery_bytes rt name) \<le> bound"
  shows "\<exists>data response p2 s'. sk_rx (nw_socks nw (cp_next p)) = frame data \<and>
    ServiceDiscoveryResponse_deserialize rt data = Some response \<and> ds_services response \<noteq> [] \<and>
    discoverServiceFromRegistry_pooled rt e host port now name nw =
      Some (Ret (map (\<lambda>s. \<lparr>en_host = info_host s, en_port = info_port s, en_cached_time = now\<rparr>) (ds_services response),
        \<lparr>nw_pool = Some p2, nw_socks = (nw_socks nw)(cp_next p := s')\<rparr>)) \<and>
    stale bound s' \<and> hosts_ok p2 \<and> cp_running p2 \<and> busy p2 (makeKey host port) = busy p (makeKey host port) \<and>
    hp_idle_connections (host_of p2 (makeKey host port)) = [cp_next p] \<and> tc_connected (cp_conns p2 (cp_next p)) \<and>
    cp_next p2 = Suc (cp_next p) \<and> cp_max_connections_per_host p2 = cp_max_connections_per_host p \<and>
    cp_acquire_timeout p2 = cp_acquire_timeout p"
proof -
  let ?key = "makeKey host port" and ?c = "cp_next p"
  let ?p0 = "getOrCreateHostPool ?key p"
  obtain r rs where r: "ue_rounds e = r # rs" "0 \<le> ro_fd r" "ro_address_ok r" "ro_connected r" "\<forall>fd. ue_valid e fd"
    using e by (auto simp: prompt_def split: list.splits)
  obtain p1 where p1: "acquire_round r ?key (ue_now e + cp_acquire_timeout p) ?p0 = Ret (Holding ?key ?c, p1)"
    "hp_idle_connections (host_of p1 ?key) = []" "cp_next p1 = Suc ?c"
    "cp_conns p1 = (cp_conns p)(?c := TcpConnection_new (ro_fd r))"
    "cp_max_connections_per_host p1 = cp_max_connections_per_host p" "cp_acquire_timeout p1 = cp_acquire_timeout p"
    using round_connects [of ?p0 ?key "host_of p ?key" r] getOrCreate_host p(2,4) room r(2-4) by force
  note acq_call = acquire_call_first [OF p(2) r(1) p1(1)]
  note took = acquire_took [OF p(3) acq_call]
  have p1': "hosts_ok p1" "cp_running p1" "busy p1 ?key = insert ?c (busy p ?key)" "?c \<notin> busy p ?key"
    using took p(2) by (auto simp: took_def)
  have conn: "tc_connected (cp_conns p1 ?c)" by (simp add: p1(4) TcpConnection_new_def)
  obtain data response s' where x: "exchange_over (discovery_bytes rt name) ?c p1 (nw_socks nw) =
        Some (Some data, p1, (nw_socks nw)(?c := s'))"
      "ServiceDiscoveryResponse_deserialize rt data = Some response" "ds_services response \<noteq> []" "stale bound s'"
      "sk_rx (nw_socks nw ?c) = frame data"
    by (rule exchange_answered [of rt bound "nw_socks nw" ?c p1, OF once conn len])
  define p2 where "p2 = release (ue_valid e) (ue_released e) host port ?c p1"
  have c: "?c \<in> busy p1 ?key" by (simp add: p1'(3))
  have "isConnectionValid (ue_valid e) (cp_conns p1 ?c)" using conn r(5) by (simp add: isConnectionValid_def)
  from release_valid [OF p1'(1,2) c this, of "ue_released e"] obtain hp' where hp': "p2 = put_pool ?key hp' (cp_conns p1) p1"
    "hp_idle_connections hp' = [?c]"
    using p1(2) by (auto simp: p2_def release_def)
  have p2: "hosts_ok p2" "busy p2 ?key = busy p ?key"
    using release_busy [OF p1'(1,2) c, where so = "ue_valid e" and now = "ue_released e"] p1'(3,4)
    by (auto simp: p2_def release_def)
  have "discoverServiceFromRegistry_pooled rt e host port now name nw =
      Some (Ret (map (\<lambda>s. \<lparr>en_host = info_host s, en_port = info_port s, en_cached_time = now\<rparr>) (ds_services response),
        \<lparr>nw_pool = Some p2, nw_socks = (nw_socks nw)(?c := s')\<rparr>))"
    using p(1) acq_call x(1,2) by (simp add: discoverServiceFromRegistry_pooled_def discovery_bytes_def p2_def)
  then show ?thesis using x(2-5) p2 hp' p1(3,5,6) p1'(2) conn
    by (intro exI [of _ data] exI [of _ response] exI [of _ p2] exI [of _ s']) simp
qed

lemma discovery_fresh:
  assumes st: "registry_pool rt bound (makeKey host port) limit acq k False nw" and k: "k < limit"
    and e: "prompt acq e" and len: "length (discovery_bytes rt name) \<le> bound"
  shows "\<exists>es nw'. discoverServiceFromRegistry_pooled rt e host port now name nw = Some (Ret (es, nw')) \<and> es \<noteq> [] \<and>
    registry_pool rt bound (makeKey host port) limit acq k True nw'"
proof -
  let ?key = "makeKey host port"
  obtain p where p: "nw_pool nw = Some p" "cp_running p" "hosts_ok p" "cp_max_connections_per_host p = limit"
    "cp_acquire_timeout p = acq" "card (busy p ?key) = k" "hp_idle_connections (host_of p ?key) = []"
    and socks: "\<forall>c \<ge> cp_next p. answers_once rt bound (nw_socks nw c)"
    using st by (auto simp: registry_pool_def)
  have room: "length (hp_all_connections (host_of p ?key)) < cp_max_connections_per_host p"
    using registry_size [OF p(3), of ?key] p(4,6,7) k by simp
  have once: "answers_once rt bound (nw_socks nw (cp_next p))" using socks by blast
  have prompt: "prompt (cp_acquire_timeout p) e" using e p(5) by simp
  obtain response :: ServiceDiscoveryResponse and p2 s' where d:
    "ds_services response \<noteq> []" "discoverServiceFromRegistry_pooled rt e host port now name nw =
      Some (Ret (map (\<lambda>s. \<lparr>en_host = info_host s, en_port = info_port s, en_cached_time = now\<rparr>) (ds_services response),
        \<lparr>nw_pool = Some p2, nw_socks = (nw_socks nw)(cp_next p := s')\<rparr>))"
    "stale bound s'" "hosts_ok p2" "cp_running p2" "busy p2 ?key = busy p ?key"
    "hp_idle_connections (host_of p2 ?key) = [cp_next p]" "tc_connected (cp_conns p2 (cp_next p))"
    "cp_next p2 = Suc (cp_next p)" "cp_max_connections_per_host p2 = cp_max_connections_per_host p"
    "cp_acquire_timeout p2 = cp_acquire_timeout p"
    using fresh_discovery [OF p(1-3,7) room once prompt len, of now] by blast
  have "registry_pool rt bound ?key limit acq k True \<lparr>nw_pool = Some p2, nw_socks = (nw_socks nw)(cp_next p := s')\<rparr>"
    using d(3-11) p(4-6) socks by (simp add: registry_pool_def)
  then show ?thesis using d(1,2) by simp
qed

lemma stale_discovery:
  assumes p: "nw_pool nw = Some p" "cp_running p" "hosts_ok p" "hp_idle_connections (host_of p (makeKey host port)) = [a]"
    "tc_connected (cp_conns p a)" "stale bound (nw_socks nw a)"
    and e: "prompt acq e" and len: "length (discovery_bytes rt name) \<le> bound"
  shows "\<exists>p2 socks'. discoverServiceFromRegistry_pooled rt e host port now name nw =
      Some (Ret ([], \<lparr>nw_pool = Some p2, nw_socks = socks'\<rparr>)) \<and> (\<forall>y. y \<noteq> a \<longrightarrow> socks' y = nw_socks nw y) \<and>
    hosts_ok p2 \<and> cp_running p2 \<and> card (busy p2 (makeKey host port)) = Suc (card (busy p (makeKey host port))) \<and>
    hp_idle_connections (host_of p2 (makeKey host port)) = [] \<and> cp_next p2 = cp_next p \<and>
    cp_max_connections_per_host p2 = cp_max_connections_per_host p \<and> cp_acquire_timeout p2 = cp_acquire_timeout p"
proof -
  let ?key = "makeKey host port"
  let ?p0 = "getOrCreateHostPool ?key p"
  obtain r rs where r: "ue_rounds e = r # rs" "\<forall>fd. ro_valid r fd"
    using e by (auto simp: prompt_def split: list.splits)
  obtain hp' where hp': "acquire_round r ?key (ue_now e + cp_acquire_timeout p) ?p0 =
      Ret (Holding ?key a, put_pool ?key hp' (cp_conns p) ?p0)" "hp_idle_connections hp' = []"
    using round_reuses [of ?p0 ?key "host_of p ?key" a r] getOrCreate_host p(2,4,5) idle_own(1) [OF p(3,4)] r(2) by force
  define p1 where "p1 = put_pool ?key hp' (cp_conns p) ?p0"
  note acq_call = acquire_call_first [OF p(2) r(1) hp'(1), folded p1_def]
  have p1: "hosts_ok p1" "cp_running p1" "card (busy p1 ?key) = Suc (card (busy p ?key))"
    using acquire_took [OF p(3) acq_call] p(2) by (auto simp: took_def)
  obtain p2 socks' where x: "exchange_over (discovery_bytes rt name) a p1 (nw_socks nw) = Some (None, p2, socks')"
      "\<forall>y. y \<noteq> a \<longrightarrow> socks' y = nw_socks nw y"
    by (rule exchange_stale [of bound "nw_socks nw" a, OF p(6) len, of p1])
  have p2: "busy p2 ?key = busy p1 ?key" "hosts_ok p2" "cp_running p2"
    using exchange_over_busy [OF x(1)] p1 by auto
  have p2': "cp_max_connections_per_host p2 = cp_max_connections_per_host p" "cp_acquire_timeout p2 = cp_acquire_timeout p"
    "cp_next p2 = cp_next p" "hp_idle_connections (host_of p2 ?key) = []"
    using exchange_over_cases [OF x(1)] hp'(2) by (auto simp: p1_def)
  have "discoverServiceFromRegistry_pooled rt e host port now name nw =
      Some (Ret ([], \<lparr>nw_pool = Some p2, nw_socks = socks'\<rparr>))"
    using p(1) acq_call x(1) by (simp add: discoverServiceFromRegistry_pooled_def discovery_bytes_def)
  then show ?thesis using x(2) p1(3) p2 p2' by auto
qed

lemma discovery_stale:
  assumes st: "registry_pool rt bound (makeKey host port) limit acq k True nw"
    and e: "prompt acq e" and len: "length (discovery_bytes rt name) \<le> bound"
  shows "\<exists>nw'. discoverServiceFromRegistry_pooled rt e host port now name nw = Some (Ret ([], nw')) \<and>
    registry_pool rt bound (makeKey host port) limit acq (Suc k) False nw'"
proof -
  let ?key = "makeKey host port"
  obtain p a where p: "nw_pool nw = Some p" "cp_running p" "hosts_ok p" "cp_max_connections_per_host p = limit"
    "cp_acquire_timeout p = acq" "card (busy p ?key) = k" "hp_idle_connections (host_of p ?key) = [a]"
    "tc_connected (cp_conns p a)" "stale bound (nw_socks nw a)"
    and socks: "\<forall>c \<ge> cp_next p. answers_once rt bound (nw_socks nw c)"
    using st by (auto simp: registry_pool_def)
  from stale_discovery [OF p(1-3,7-9) e len, of now] obtain p2 socks' where d:
    "discoverServiceFromRegistry_pooled rt e host port now name nw = Some (Ret ([], \<lparr>nw_pool = Some p2, nw_socks = socks'\<rparr>))"
    "\<forall>y. y \<noteq> a \<longrightarrow> socks' y = nw_socks nw y" "hosts_ok p2" "cp_running p2" "card (busy p2 ?key) = Suc k"
    "hp_idle_connections (host_of p2 ?key) = []" "cp_next p2 = cp_next p"
    "cp_max_connections_per_host p2 = limit" "cp_acquire_timeout p2 = acq"
    using p(4-6) by auto
  have "a < cp_next p" by (rule idle_own(2) [OF p(3,7)])
  then have "registry_pool rt bound ?key limit acq (Suc k) False \<lparr>nw_pool = Some p2, nw_socks = socks'\<rparr>"
    using d(2-9) socks by (simp add: registry_pool_def)
  then show ?thesis using d(1) by blast
qed

lemma discovery_exhausted:
  assumes st: "registry_pool rt bound (makeKey host port) limit acq limit False nw" and e: "prompt acq e"
  shows "\<exists>nw'. discoverServiceFromRegistry_pooled rt e host port now name nw = Some (Ret ([], nw')) \<and>
    registry_pool rt bound (makeKey host port) limit acq limit False nw'"
proof -
  let ?key = "makeKey host port"
  obtain p where p: "nw_pool nw = Some p" "cp_running p" "hosts_ok p" "cp_max_connections_per_host p = limit"
    "cp_acquire_timeout p = acq" "card (busy p ?key) = limit" "hp_idle_connections (host_of p ?key) = []"
    and socks: "\<forall>c \<ge> cp_next p. answers_once rt bound (nw_socks nw c)"
    using st by (auto simp: registry_pool_def)
  let ?p0 = "getOrCreateHostPool ?key p"
  have "acquire_loop (ue_rounds e) ?key (ue_now e + acq) ?p0 = Some (Ret (None, ?p0))"
    using loop_waits [of ?p0 ?key "host_of p ?key"] getOrCreate_host registry_size [OF p(3), of ?key] p e
    by (force simp: prompt_def)
  then have "discoverServiceFromRegistry_pooled rt e host port now name nw = Some (Ret ([], nw\<lparr>nw_pool := Some ?p0\<rparr>))"
    using p(1,2,5) by (simp add: discoverServiceFromRegistry_pooled_def acquire_call_def acquire_def)
  moreover have "registry_pool rt bound ?key limit acq limit False (nw\<lparr>nw_pool := Some ?p0\<rparr>)"
    using p socks by (simp add: registry_pool_def hosts_ok_def)
  ultimately show ?thesis by blast
qed

text \<open>The state after \<open>n\<close> discoveries, up to the one from which on nothing changes any more.\<close>

definition registry_at :: "pb_runtime \<Rightarrow> nat \<Rightarrow> bytes \<Rightarrow> nat \<Rightarrow> int \<Rightarrow> nat \<Rightarrow> Network \<Rightarrow> bool" where
  "registry_at rt bound key limit acq n nw \<longleftrightarrow> registry_pool rt bound key limit acq (min n (2 * limit) div 2)
     (odd (min n (2 * limit))) nw"

lemma discovery_next:
  assumes st: "registry_at rt bound (makeKey host port) limit acq n nw"
    and e: "prompt acq e" and len: "length (discovery_bytes rt name) \<le> bound"
  shows "\<exists>es nw'. discoverServiceFromRegistry_pooled rt e host port now name nw = Some (Ret (es, nw')) \<and>
    (es \<noteq> [] \<longleftrightarrow> even n \<and> n < 2 * limit) \<and> registry_at rt bound (makeKey host port) limit acq (Suc n) nw'"
proof (cases "n < 2 * limit")
  case False
  then have "min n (2 * limit) = 2 * limit" "min (Suc n) (2 * limit) = 2 * limit" by simp_all
  then show ?thesis using discovery_exhausted [of rt bound host port limit acq nw e now name] st e False
    by (auto simp: registry_at_def)
next
  case True
  then have n: "min n (2 * limit) = n" "min (Suc n) (2 * limit) = Suc n" by simp_all
  show ?thesis
  proof (cases "even n")
    case True
    then have "Suc n div 2 = n div 2" "n div 2 < limit" using \<open>n < 2 * limit\<close> by auto
    then show ?thesis using discovery_fresh [of rt bound host port limit acq "n div 2" nw e name now] st e len n True
        \<open>n < 2 * limit\<close>
      by (fastforce simp: registry_at_def)
  next
    case False
    then have "Suc n div 2 = Suc (n div 2)" by presburger
    then show ?thesis using discovery_stale [of rt bound host port limit acq "n div 2" nw e name now] st e len n False
      by (auto simp: registry_at_def)
  qed
qed

lemma discoveries_next:
  "registry_at rt bound (makeKey host port) limit acq n nw \<Longrightarrow>
   \<forall>u \<in> set us. prompt acq (fst u) \<and> length (discovery_bytes rt (snd (snd u))) \<le> bound \<Longrightarrow>
   \<exists>rs nw'. discoveries rt host port us nw = Some (Ret (rs, nw')) \<and> length rs = length us \<and>
     (\<forall>i < length us. rs ! i \<noteq> [] \<longleftrightarrow> even (n + i) \<and> n + i < 2 * limit)"
proof (induction us arbitrary: n nw)
  case (Cons u us)
  have u: "prompt acq (fst u)" "length (discovery_bytes rt (snd (snd u))) \<le> bound" using Cons.prems(2) by simp_all
  from discovery_next [OF Cons.prems(1) u, of "fst (snd u)"] obtain es nw1 where d:
      "discoverServiceFromRegistry_pooled rt (fst u) host port (fst (snd u)) (snd (snd u)) nw = Some (Ret (es, nw1))"
      "es \<noteq> [] \<longleftrightarrow> even n \<and> n < 2 * limit" "registry_at rt bound (makeKey host port) limit acq (Suc n) nw1"
    by blast
  from Cons.IH [OF d(3)] Cons.prems(2) obtain rs nw' where rs: "discoveries rt host port us nw1 = Some (Ret (rs, nw'))"
      "length rs = length us" "\<forall>i < length us. rs ! i \<noteq> [] \<longleftrightarrow> even (Suc n + i) \<and> Suc n + i < 2 * limit" by auto
  have "((es # rs) ! i \<noteq> []) = (even (n + i) \<and> n + i < 2 * limit)" if "i < Suc (length us)" for i
    using that d(2) rs(3) by (cases i) auto
  then show ?case using d(1) rs(1,2) by (simp add: rs(2))
qed simp

text \<open>C5. The registry answers one request per connection and closes it, but the pool keeps the connection
  and offers it for the next discovery: with everything else working, every second discovery
  fails and leaves its connection in use, and after twice the limit of connections every
  discovery fails for good.\<close>

theorem every_second_discovery_fails:
  assumes "\<forall>c. answers_once rt bound (socks c)"
    and "\<forall>u \<in> set us. prompt acq (fst u) \<and> length (discovery_bytes rt (snd (snd u))) \<le> bound"
  shows "\<exists>rs nw'. discoveries rt host port us
      \<lparr>nw_pool = Some (ConnectionPool_new limit low idle acq), nw_socks = socks\<rparr> = Some (Ret (rs, nw')) \<and>
    length rs = length us \<and> (\<forall>i < length us. rs ! i \<noteq> [] \<longleftrightarrow> even i \<and> i < 2 * limit)"
proof -
  let ?p = "ConnectionPool_new limit low idle acq"
  have h: "host_of ?p k = HostPool_new" for k by (simp add: host_of_def ConnectionPool_new_def)
  have "busy ?p k = {}" for k by (simp add: busy_def h) (simp add: HostPool_new_def)
  moreover have "hosts_ok ?p" by (simp add: hosts_ok_def h host_inv_new)
  ultimately have "registry_at rt bound (makeKey host port) limit acq 0 \<lparr>nw_pool = Some ?p, nw_socks = socks\<rparr>"
    using assms(1) by (simp add: registry_at_def registry_pool_def h)
      (simp add: ConnectionPool_new_def HostPool_new_def)
  from discoveries_next [OF this assms(2)] show ?thesis by simp
qed


section \<open>Instances\<close>

definition discovery_reply :: bytes where
  "discovery_reply = ServiceDiscoveryResponse_serialize std_runtime (ServiceDiscoveryResponse_default
     \<lparr>ds_services := [ServiceInfo_default\<lparr>info_host := ''h'', info_port := 81\<rparr>]\<rparr>)"

definition once_sock :: sock where
  "once_sock = \<lparr>sk_sends = replicate 20 100, sk_tx = [], sk_rx = frame discovery_reply, sk_closed = False\<rparr>"

definition prompt_env :: use_env where
  "prompt_env = \<lparr>ue_now = 0, ue_rounds = [\<lparr>ro_valid = (\<lambda>_. True), ro_taken = 0, ro_checked = 5, ro_fd = 7,
     ro_address_ok = True, ro_connected = True, ro_tried = 0\<rparr>], ue_valid = (\<lambda>_. True), ue_released = 1\<rparr>"

lemma once_sock_answers: "answers_once std_runtime 9 once_sock"
proof -
  have d: "discovery_reply \<noteq> []" "length discovery_reply = 7"
    "map_option ds_services (ServiceDiscoveryResponse_deserialize std_runtime discovery_reply) =
       Some [ServiceInfo_default\<lparr>info_host := ''h'', info_port := 81\<rparr>]" by code_simp+
  then obtain response where "ServiceDiscoveryResponse_deserialize std_runtime discovery_reply = Some response"
    "ds_services response \<noteq> []" by auto
  moreover have "takes 9 once_sock" by code_simp
  ultimately show ?thesis using d(1,2) unfolding answers_once_def
    by (intro conjI exI [of _ discovery_reply]) (simp_all add: once_sock_def max_message_def)
qed

lemma every_second_discovery_fails_witness:
  "\<exists>r1 r2 r3 nw'. discoveries std_runtime ''r'' 80 (replicate 3 (prompt_env, 0, ''E''))
     \<lparr>nw_pool = Some (ConnectionPool_new 1 1 300 5), nw_socks = (\<lambda>_. once_sock)\<rparr> = Some (Ret ([r1, r2, r3], nw')) \<and>
     r1 \<noteq> [] \<and> r2 = [] \<and> r3 = []"
proof -
  have "prompt 5 prompt_env" by (simp add: prompt_def prompt_env_def)
  moreover have "length (discovery_bytes std_runtime ''E'') \<le> 9" by code_simp
  ultimately have us: "\<forall>u \<in> set (replicate 3 (prompt_env, 0 :: int, ''E'')). prompt 5 (fst u) \<and>
      length (discovery_bytes std_runtime (snd (snd u))) \<le> 9" by simp
  have "\<forall>c. answers_once std_runtime 9 ((\<lambda>_. once_sock) c)" using once_sock_answers by simp
  from every_second_discovery_fails [OF this us, where host = "''r''" and port = 80 and limit = 1 and low = 1 and idle = 300]
    obtain rs nw' where rs:
      "discoveries std_runtime ''r'' 80 (replicate 3 (prompt_env, 0, ''E''))
         \<lparr>nw_pool = Some (ConnectionPool_new 1 1 300 5), nw_socks = (\<lambda>_. once_sock)\<rparr> = Some (Ret (rs, nw'))"
      "length rs = 3" "\<forall>i < 3. rs ! i \<noteq> [] \<longleftrightarrow> even i \<and> i < 2 * (1 :: nat)"
    by auto
  then obtain r1 r2 r3 where l: "rs = [r1, r2, r3]" by (auto simp: numeral_3_eq_3 length_Suc_conv)
  have "r1 \<noteq> []" "r2 = []" "r3 = []"
    using rs(3) [rule_format, of 0] rs(3) [rule_format, of 1] rs(3) [rule_format, of 2] by (simp_all add: l)
  then show ?thesis using rs(1) l by blast
qed

definition client_ex :: RpcClient where
  "client_ex = RpcClient_new 1 60"

definition rpc_reply :: bytes where
  "rpc_reply = RpcResponse_serialize std_runtime (RpcResponse_default\<lparr>rs_response_data := ''ok''\<rparr>)"

text \<open>The registry's connection has address 0, the server's address 1.\<close>

definition network_ex :: Network where
  "network_ex = \<lparr>nw_pool = Some (ConnectionPool_new 1 1 300 5),
     nw_socks = (\<lambda>c. if c = 0 then once_sock else once_sock\<lparr>sk_rx := frame rpc_reply\<rparr>)\<rparr>"

lemma network_ex_pooled: "pooled (cpool 1 1) network_ex"
  using pool_reached.init [of "cpool 1 1"]
  by (simp add: pooled_def network_ex_def cpool_def ConnectionPool_new_def)

fun ret_of :: "'a res option \<Rightarrow> 'a option" where
  "ret_of (Some (Ret x)) = Some x"
| "ret_of _ = None"

lemma ret_of_Some: "ret_of x = Some y \<Longrightarrow> x = Some (Ret y)"
  by (cases x rule: ret_of.cases) auto

lemma call_ex:
  "map_option fst (ret_of (RpcClient_call_pooled std_runtime prompt_env (\<lambda>_. (prompt_env, ''1'')) ''r'' 80 0
     ''E'' ''m'' ''d'' client_ex network_ex)) = Some ''ok''"
  by code_simp


definition endpoint_ex :: ServiceEndpoint where
  "endpoint_ex = \<lparr>en_host = ''h'', en_port = 81, en_cached_time = 0\<rparr>"

lemma attempt_ex:
  "map_option fst (ret_of (callEndpoint_pooled std_runtime prompt_env ''1'' endpoint_ex ''E'' ''m'' ''d''
     (network_ex\<lparr>nw_socks := (\<lambda>_. once_sock\<lparr>sk_rx := ''xy''\<rparr>)\<rparr>))) = Some None"
  by code_simp

lemma attempt_returns_connection_witness:
  "\<exists>nw' p'. callEndpoint_pooled std_runtime prompt_env ''1'' endpoint_ex ''E'' ''m'' ''d''
      (network_ex\<lparr>nw_socks := (\<lambda>_. once_sock\<lparr>sk_rx := ''xy''\<rparr>)\<rparr>) = Some (Ret (None, nw')) \<and>
    nw_pool nw' = Some p' \<and> busy p' (makeKey ''h'' 81) = {}"
proof -
  let ?nw = "network_ex\<lparr>nw_socks := (\<lambda>_. once_sock\<lparr>sk_rx := ''xy''\<rparr>)\<rparr>"
  let ?p = "ConnectionPool_new 1 1 300 5"
  obtain r nw' where call: "callEndpoint_pooled std_runtime prompt_env ''1'' endpoint_ex ''E'' ''m'' ''d'' ?nw =
      Some (Ret (r, nw'))" "r = None"
    using attempt_ex by (auto dest: ret_of_Some)
  have "pooled (cpool 1 1) ?nw" "nw_pool ?nw = Some ?p"
    using network_ex_pooled by (simp_all add: pooled_def network_ex_def)
  from attempt_returns_connection [OF this call(1)] obtain p' where
    "nw_pool nw' = Some p'" "busy p' (makeKey ''h'' 81) = busy ?p (makeKey ''h'' 81)" by blast
  moreover have "busy ?p (makeKey ''h'' 81) = {}"
    by (simp add: busy_def host_of_def ConnectionPool_new_def HostPool_new_def)
  ultimately show ?thesis using call by auto
qed

end
