(* ===== verification/Registry_Snapshot.thy ===== *)
theory Registry_Snapshot
  imports Registry_State_Machine
begin

text \<open>
  registry/raft_state_machine.cpp: the snapshot of the registry table as text, and reading it
  back. The reading follows the extraction operators of C++: they skip white space, a string is
  the characters up to the next white space, a number an optional sign and digits; a stream that
  has failed leaves the variables as they are. The counts, the port and the timestamp have no
  initial value, so reading one that was never assigned is \<open>Undefined\<close>, as is a timestamp whose
  nanoseconds do not fit 64 bits. Nothing in the program calls these two operations yet.
\<close>

section \<open>Streams\<close>

definition blank :: "char \<Rightarrow> bool" where
  "blank c \<longleftrightarrow> (of_char c :: nat) \<in> {9, 10, 11, 12, 13, 32}"

definition digit :: "char \<Rightarrow> bool" where
  "digit c \<longleftrightarrow> 48 \<le> (of_char c :: nat) \<and> (of_char c :: nat) \<le> 57"

definition digits_val :: "bytes \<Rightarrow> nat" where
  "digits_val ds = foldl (\<lambda>n c. 10 * n + (of_char c - 48)) 0 ds"

text \<open>What is left of the stream; \<open>None\<close> once it has failed.\<close>

type_synonym istream = "bytes option"

text \<open>\<open>None\<close>: the variable was not assigned.\<close>

definition extract_string :: "istream \<Rightarrow> bytes option \<times> istream" where
  "extract_string s = (case s of
       None \<Rightarrow> (None, None)
     | Some b \<Rightarrow>
         let b = dropWhile blank b in
         if b = [] then (None, None)
         else (Some (takeWhile (\<lambda>c. \<not> blank c) b), Some (dropWhile (\<lambda>c. \<not> blank c) b)))"

fun sign_of :: "bytes \<Rightarrow> bool \<times> bytes" where
  "sign_of (c # b) = (if c = CHR ''-'' then (True, b) else if c = CHR ''+'' then (False, b) else (False, c # b))"
| "sign_of [] = (False, [])"

text \<open>
  A number: without digits it is 0 and the stream fails; out of range it is \<open>value\<close>'s bound and the
  stream fails. \<open>value\<close> gives the number and whether it is in range.
\<close>

definition extract_number :: "(bool \<Rightarrow> nat \<Rightarrow> int \<times> bool) \<Rightarrow> istream \<Rightarrow> int option \<times> istream" where
  "extract_number value s = (case s of
       None \<Rightarrow> (None, None)
     | Some b \<Rightarrow>
         let b = dropWhile blank b in
         if b = [] then (None, None)
         else
           let (negative, b) = sign_of b; ds = takeWhile digit b in
           if ds = [] then (Some 0, None)
           else let (v, ok) = value negative (digits_val ds)
             in (Some v, if ok then Some (dropWhile digit b) else None))"

text \<open>Signed numbers of \<open>w\<close> bits, and \<open>size_t\<close>, where a sign negates modulo 2^64.\<close>

definition signed_value :: "nat \<Rightarrow> bool \<Rightarrow> nat \<Rightarrow> int \<times> bool" where
  "signed_value w negative n =
     (let v = (if negative then - int n else int n); lo = - (2 ^ (w - 1)); hi = 2 ^ (w - 1) - 1 in
      if v < lo then (lo, False) else if hi < v then (hi, False) else (v, True))"

definition size_value :: "bool \<Rightarrow> nat \<Rightarrow> int \<times> bool" where
  "size_value negative n =
     (if int n \<ge> 2 ^ 64 then (2 ^ 64 - 1, False)
      else (if negative then (- int n) mod 2 ^ 64 else int n, True))"

section \<open>Snapshots\<close>

definition int_text :: "int \<Rightarrow> bytes" where
  "int_text i = (if i < 0 then ''-'' @ decimal (nat (- i)) else decimal (nat i))"

text \<open>\<open>duration_cast\<close> from nanoseconds to milliseconds: towards zero.\<close>

definition millis :: "int \<Rightarrow> int" where
  "millis t = sgn t * (\<bar>t\<bar> div 1000000)"

definition newline :: bytes where
  "newline = [CHR 0x0A]"

definition instance_text :: "ServiceInstance \<Rightarrow> bytes" where
  "instance_text i = si_host i @ '' '' @ int_text (sint (si_port i)) @ '' '' @
     int_text (millis (si_last_heartbeat i)) @ newline"

definition service_text :: "bytes \<times> ServiceInstance list \<Rightarrow> bytes" where
  "service_text = (\<lambda>(service_name, instances). service_name @ '' '' @ decimal (length instances) @ newline @
     concat (map instance_text instances))"

definition getSnapshot :: "RegistryStateMachine \<Rightarrow> bytes" where
  "getSnapshot m = decimal (length (sm_services m)) @ newline @ concat (map service_text (sm_services m))"

text \<open>The inner loop: \<open>n\<close> instances. The host of an instance is empty unless it is assigned.\<close>

primrec restore_instances :: "nat \<Rightarrow> istream \<Rightarrow> (ServiceInstance list \<times> istream) res" where
  "restore_instances 0 iss = Ret ([], iss)"
| "restore_instances (Suc n) iss =
     (let (host, iss) = extract_string iss;
          (port, iss) = extract_number (signed_value 32) iss;
          (timestamp, iss) = extract_number (signed_value 64) iss
      in case (port, timestamp) of
           (Some port, Some timestamp) \<Rightarrow>
             if \<not> in64 (timestamp * 1000000) then Undefined
             else res_bind (restore_instances n iss) (\<lambda>(instances, iss).
               Ret (\<lparr>si_host = (case host of None \<Rightarrow> [] | Some h \<Rightarrow> h), si_port = word_of_int port,
                      si_last_heartbeat = timestamp * 1000000\<rparr> # instances, iss))
         | _ \<Rightarrow> Undefined)"

primrec restore_services :: "nat \<Rightarrow> istream \<Rightarrow> services \<Rightarrow> services res" where
  "restore_services 0 iss sv = Ret sv"
| "restore_services (Suc n) iss sv =
     (let (service_name, iss) = extract_string iss;
          (instance_count, iss) = extract_number size_value iss
      in case instance_count of
           None \<Rightarrow> Undefined
         | Some k \<Rightarrow> res_bind (restore_instances (nat k) iss) (\<lambda>(instances, iss).
             restore_services n iss
               (AList.update (case service_name of None \<Rightarrow> [] | Some s \<Rightarrow> s) instances sv)))"

definition restoreFromSnapshot :: "bytes \<Rightarrow> RegistryStateMachine \<Rightarrow> RegistryStateMachine res" where
  "restoreFromSnapshot snapshot m =
     (let (service_count, iss) = extract_number size_value (Some snapshot)
      in case service_count of
           None \<Rightarrow> Undefined
         | Some k \<Rightarrow> res_bind (restore_services (nat k) iss []) (\<lambda>sv. Ret (m\<lparr>sm_services := sv\<rparr>)))"

section \<open>Words and numbers are read back\<close>

definition one_word :: "bytes \<Rightarrow> bool" where
  "one_word s \<longleftrightarrow> s \<noteq> [] \<and> (\<forall>c \<in> set s. \<not> blank c)"

lemma newline_blank [simp]: "blank (CHR 0x0A)" "blank (CHR '' '')"
  by (simp_all add: blank_def)

lemma blank_digit: "blank c \<Longrightarrow> \<not> digit c"
  by (auto simp: blank_def digit_def)

lemma drop_blank [simp]: "\<forall>c \<in> set w. blank c \<Longrightarrow> dropWhile blank (w @ b) = dropWhile blank b"
  by (induction w) auto

lemma extract_word:
  assumes "one_word s" and "blank c" and "\<forall>c \<in> set w. blank c"
  shows "extract_string (Some (w @ s @ c # r)) = (Some s, Some (c # r))"
proof -
  obtain x t where s: "s = x # t" "\<not> blank x" using assms(1) by (cases s) (auto simp: one_word_def)
  have "takeWhile (\<lambda>c. \<not> blank c) (s @ c # r) = s" "dropWhile (\<lambda>c. \<not> blank c) (s @ c # r) = c # r"
    using assms(1,2) by (simp_all add: one_word_def)
  moreover have "dropWhile blank (w @ s @ c # r) = s @ c # r" using assms(3) s by simp
  ultimately show ?thesis using s(1) by (simp add: extract_string_def)
qed

lemma decimal_digits: "(\<forall>c \<in> set (decimal n). digit c) \<and> decimal n \<noteq> [] \<and> digits_val (decimal n) = n"
proof (induction n rule: decimal.induct)
  case (1 n)
  have d: "of_char (char_of (48 + k) :: char) = 48 + k" if "k < 10" for k :: nat
    using that by simp
  show ?case
  proof (cases "n < 10")
    case True
    then show ?thesis using d [OF True] by (simp add: decimal.simps [of n] digits_val_def digit_def)
  next
    case False
    have "n mod 10 < 10" by simp
    from d [OF this] show ?thesis using 1 [OF False] False
      by (simp add: decimal.simps [of n] digits_val_def digit_def)
  qed
qed

lemma extract_decimal:
  assumes "\<not> digit c" and "\<forall>c \<in> set w. blank c"
  shows "extract_number value (Some (w @ decimal n @ c # r)) =
    (Some (fst (value False n)), if snd (value False n) then Some (c # r) else None)"
proof -
  obtain x t where x: "decimal n = x # t" "digit x" using decimal_digits [of n] by (cases "decimal n") auto
  then have "\<not> blank x" "x \<noteq> CHR ''-''" "x \<noteq> CHR ''+''" using blank_digit by (auto simp: digit_def)
  then have "dropWhile blank (w @ decimal n @ c # r) = decimal n @ c # r"
      "sign_of (decimal n @ c # r) = (False, decimal n @ c # r)" using assms(2) x by simp_all
  moreover have "takeWhile digit (decimal n @ c # r) = decimal n" "dropWhile digit (decimal n @ c # r) = c # r"
    using decimal_digits [of n] assms(1) by simp_all
  ultimately show ?thesis using decimal_digits [of n] by (simp add: extract_number_def case_prod_unfold)
qed

lemma extract_negative:
  assumes "\<not> digit c" and "\<forall>c \<in> set w. blank c"
  shows "extract_number value (Some (w @ ''-'' @ decimal n @ c # r)) =
    (Some (fst (value True n)), if snd (value True n) then Some (c # r) else None)"
proof -
  have "dropWhile blank (w @ ''-'' @ decimal n @ c # r) = ''-'' @ decimal n @ c # r"
    using assms(2) by (simp add: blank_def)
  moreover have "takeWhile digit (decimal n @ c # r) = decimal n" "dropWhile digit (decimal n @ c # r) = c # r"
    using decimal_digits [of n] assms(1) by simp_all
  ultimately show ?thesis using decimal_digits [of n] by (simp add: extract_number_def case_prod_unfold)
qed

lemma extract_int:
  assumes "- (2 ^ (w - 1)) \<le> i" and "i < 2 ^ (w - 1)" and "blank c" and "\<forall>c \<in> set s. blank c"
  shows "extract_number (signed_value w) (Some (s @ int_text i @ c # r)) = (Some i, Some (c # r))"
proof (cases "i < 0")
  case True
  then show ?thesis using extract_negative [OF blank_digit [OF assms(3)] assms(4)] assms(1,2)
    by (simp add: int_text_def signed_value_def Let_def)
next
  case False
  then show ?thesis using extract_decimal [OF blank_digit [OF assms(3)] assms(4)] assms(1,2)
    by (simp add: int_text_def signed_value_def Let_def)
qed

lemma extract_size:
  "n < 2 ^ 64 \<Longrightarrow> blank c \<Longrightarrow> \<forall>c \<in> set w. blank c \<Longrightarrow>
   extract_number size_value (Some (w @ decimal n @ c # r)) = (Some (int n), Some (c # r))"
  using extract_decimal [of c w size_value n r] blank_digit by (simp add: size_value_def)

lemma service_text_pair: "service_text (n, is) = n @ '' '' @ decimal (length is) @ newline @ concat (map instance_text is)"
  by (simp add: service_text_def)

section \<open>Restoring a snapshot\<close>

text \<open>What the text of an instance keeps: its heartbeat in milliseconds.\<close>

definition stored :: "ServiceInstance \<Rightarrow> ServiceInstance" where
  "stored i = i\<lparr>si_last_heartbeat := millis (si_last_heartbeat i) * 1000000\<rparr>"

definition instance_ok :: "ServiceInstance \<Rightarrow> bool" where
  "instance_ok i \<longleftrightarrow> one_word (si_host i) \<and> in64 (si_last_heartbeat i)"

definition snapshot_ok :: "services \<Rightarrow> bool" where
  "snapshot_ok sv \<longleftrightarrow> distinct (map fst sv) \<and> length sv < 2 ^ 64 \<and>
     (\<forall>(n, is) \<in> set sv. one_word n \<and> length is < 2 ^ 64 \<and> (\<forall>i \<in> set is. instance_ok i))"

lemma millis_bounds: "\<bar>millis t * 1000000\<bar> \<le> \<bar>t\<bar>" "\<bar>t - millis t * 1000000\<bar> < 1000000"
proof -
  have "\<bar>millis t * 1000000\<bar> = \<bar>t\<bar> div 1000000 * 1000000"
    by (cases "t = 0") (simp_all add: millis_def abs_mult)
  then show "\<bar>millis t * 1000000\<bar> \<le> \<bar>t\<bar>" by linarith
  have "t - millis t * 1000000 = sgn t * \<bar>t\<bar> - sgn t * (\<bar>t\<bar> div 1000000 * 1000000)"
    by (simp add: millis_def sgn_mult_abs mult.assoc)
  also have "\<dots> = sgn t * (\<bar>t\<bar> mod 1000000)"
    by (simp only: right_diff_distrib [symmetric] minus_div_mult_eq_mod)
  finally show "\<bar>t - millis t * 1000000\<bar> < 1000000"
    by (simp add: abs_mult)
qed

lemma millis_in64:
  assumes "in64 t"
  shows "in64 (millis t)" and "in64 (millis t * 1000000)"
proof -
  have "in64 x" if "\<bar>x\<bar> \<le> \<bar>t\<bar>" "0 \<le> x \<longleftrightarrow> 0 \<le> t \<or> x = 0" for x
    using that assms by (auto simp: in64_def)
  moreover have "0 \<le> millis t \<longleftrightarrow> 0 \<le> t \<or> millis t = 0" by (auto simp: millis_def sgn_if)
  moreover have "\<bar>millis t\<bar> \<le> \<bar>t\<bar>" using millis_bounds(1) [of t] by linarith
  ultimately show "in64 (millis t)" "in64 (millis t * 1000000)"
    using millis_bounds(1) [of t] by simp_all
qed

lemma restore_instance_list:
  "\<forall>i \<in> set is. instance_ok i \<Longrightarrow>
   restore_instances (length is) (Some (newline @ concat (map instance_text is) @ r)) =
     Ret (map stored is, Some (newline @ r))"
proof (induction "is")
  case (Cons i "is")
  have i: "one_word (si_host i)" "in64 (si_last_heartbeat i)" using Cons.prems by (simp_all add: instance_ok_def)
  let ?t = "millis (si_last_heartbeat i)" let ?rest = "concat (map instance_text is) @ r"
  have h: "extract_string (Some (newline @ si_host i @ '' '' @ int_text (sint (si_port i)) @ '' '' @ int_text ?t @ newline @ ?rest)) =
      (Some (si_host i), Some ('' '' @ int_text (sint (si_port i)) @ '' '' @ int_text ?t @ newline @ ?rest))"
    using extract_word [OF i(1), of "CHR '' ''" newline] by (simp add: newline_def)
  have "- (2 ^ 31) \<le> sint (si_port i)" "sint (si_port i) < 2 ^ 31"
    using sint_range_size [of "si_port i"] by (simp_all add: word_size)
  then have p: "extract_number (signed_value 32) (Some ('' '' @ int_text (sint (si_port i)) @ '' '' @ int_text ?t @ newline @ ?rest)) =
      (Some (sint (si_port i)), Some ('' '' @ int_text ?t @ newline @ ?rest))"
    using extract_int [of 32 "sint (si_port i)" "CHR '' ''" "'' ''"] by simp
  have t: "extract_number (signed_value 64) (Some ('' '' @ int_text ?t @ newline @ ?rest)) = (Some ?t, Some (newline @ ?rest))"
    using extract_int [of 64 ?t "CHR 0x0A" "'' ''"] millis_in64(1) [OF i(2)] by (simp add: in64_def newline_def)
  have "concat (map instance_text (i # is)) @ r =
      si_host i @ '' '' @ int_text (sint (si_port i)) @ '' '' @ int_text ?t @ newline @ ?rest"
    by (simp add: instance_text_def)
  then show ?case using Cons millis_in64(2) [OF i(2)]
    by (simp add: h [unfolded append_Cons append_Nil] p [unfolded append_Cons append_Nil]
        t [unfolded append_Cons append_Nil] Let_def stored_def)
qed simp

lemma restore_service_list:
  "snapshot_ok sv \<Longrightarrow> fst ` set sv \<inter> fst ` set acc = {} \<Longrightarrow>
   restore_services (length sv) (Some (newline @ concat (map service_text sv))) acc =
     Ret (acc @ map (\<lambda>(n, is). (n, map stored is)) sv)"
proof (induction sv arbitrary: acc)
  case (Cons s sv)
  obtain n "is" where s: "s = (n, is)" by (cases s)
  have ok: "one_word n" "length is < 2 ^ 64" "\<forall>i \<in> set is. instance_ok i" "snapshot_ok sv" "n \<notin> fst ` set sv"
    using Cons.prems(1) by (auto simp: snapshot_ok_def s)
  let ?rest = "concat (map service_text sv)"
  have w: "extract_string (Some (newline @ n @ '' '' @ decimal (length is) @ newline @ concat (map instance_text is) @ ?rest)) =
      (Some n, Some ('' '' @ decimal (length is) @ newline @ concat (map instance_text is) @ ?rest))"
    using extract_word [OF ok(1), of "CHR '' ''" newline] by (simp add: newline_def)
  have k: "extract_number size_value (Some ('' '' @ decimal (length is) @ newline @ concat (map instance_text is) @ ?rest)) =
      (Some (int (length is)), Some (newline @ concat (map instance_text is) @ ?rest))"
    using extract_size [OF ok(2), of "CHR 0x0A" "'' ''"] by (simp add: newline_def)
  have "AList.update n (map stored is) acc = acc @ [(n, map stored is)]"
  proof -
    have "n \<notin> fst ` set acc" using Cons.prems(2) by (auto simp: s)
    then show ?thesis by (induction acc) auto
  qed
  moreover have "fst ` set sv \<inter> fst ` set (acc @ [(n, map stored is)]) = {}" using Cons.prems(2) ok(5) by (auto simp: s)
  ultimately show ?case
    using Cons.IH [OF ok(4)] restore_instance_list [OF ok(3), of ?rest]
    by (simp add: s service_text_pair w [unfolded append_Cons append_Nil] k [unfolded append_Cons append_Nil] Let_def)
qed simp

lemma snapshot_restores:
  assumes "snapshot_ok (sm_services m)"
  shows "restoreFromSnapshot (getSnapshot m) m' =
    Ret (m'\<lparr>sm_services := map (\<lambda>(n, is). (n, map stored is)) (sm_services m)\<rparr>)"
proof -
  let ?sv = "sm_services m"
  have "extract_number size_value (Some (getSnapshot m)) =
      (Some (int (length ?sv)), Some (newline @ concat (map service_text ?sv)))"
    using extract_size [of "length ?sv" "CHR 0x0A" "[]"] assms
    by (simp add: getSnapshot_def newline_def snapshot_ok_def)
  then show ?thesis using restore_service_list [OF assms, of "[]"] by (simp add: restoreFromSnapshot_def)
qed

text \<open>C17. A snapshot restores the registry: when no name and no host is empty or holds white space, every
  service and every instance comes back under its name, host and port, with its heartbeat cut to
  milliseconds.\<close>

theorem snapshot_roundtrip:
  assumes "snapshot_ok (sm_services m)"
  shows "restoreFromSnapshot (getSnapshot m) m' =
    Ret (m'\<lparr>sm_services := map (\<lambda>(n, is). (n, map stored is)) (sm_services m)\<rparr>)"
  by (rule snapshot_restores [OF assms])

definition table_ex :: services where
  "table_ex = [(''Echo'', [\<lparr>si_host = ''h'', si_port = 81, si_last_heartbeat = 1500000\<rparr>,
     \<lparr>si_host = ''g'', si_port = -2, si_last_heartbeat = -2999999\<rparr>]), (''Add'', [])]"

lemma snapshot_roundtrip_witness:
  "restoreFromSnapshot (getSnapshot \<lparr>sm_services = table_ex\<rparr>) RegistryStateMachine_new =
   Ret \<lparr>sm_services = [(''Echo'', [\<lparr>si_host = ''h'', si_port = 81, si_last_heartbeat = 1000000\<rparr>,
     \<lparr>si_host = ''g'', si_port = -2, si_last_heartbeat = -2000000\<rparr>]), (''Add'', [])]\<rparr>"
  using snapshot_roundtrip [of "\<lparr>sm_services = table_ex\<rparr>" RegistryStateMachine_new]
  by (simp add: table_ex_def snapshot_ok_def instance_ok_def one_word_def blank_def in64_def
      RegistryStateMachine_new_def stored_def millis_def)

text \<open>A name with a blank in it does not come back: its first word is read as the name, the rest as a
  count that fails, and the instances are lost. An empty snapshot reads an unassigned variable.\<close>

lemma snapshot_blank_name:
  "restoreFromSnapshot (getSnapshot \<lparr>sm_services =
     [(''a b'', [\<lparr>si_host = ''h'', si_port = 80, si_last_heartbeat = 0\<rparr>])]\<rparr>) m = Ret (m\<lparr>sm_services := [(''a'', [])]\<rparr>)"
  by code_simp

lemma snapshot_empty: "restoreFromSnapshot [] m = Undefined"
  by (simp add: restoreFromSnapshot_def extract_number_def)

end
