(* ===== verification/Example_Programs.thy ===== *)
theory Example_Programs
  imports Rpc_Properties Raft_Cluster Distributed_Registry Registry_Snapshot
begin

text \<open>
  The programs under examples/: the two services of server_example.cpp with the tests of
  client_example.cpp, the stand-alone registry of registry_example.cpp, and the configuration of the
  three registry nodes in distributed_registry_example.cpp with its command line. Printing and delays
  are not modelled; the JSON reader of \<open>loadClusterConfig\<close> is a list of nodes that was read already.
  A \<open>main\<close> is its exit code and the server it leaves running; the loop of that server is another
  theory's.
\<close>

section \<open>server\_example.cpp\<close>

definition parse_failure :: bytes where
  "parse_failure = ''Failed to deserialize request''"

definition echoHandler :: "pb_runtime \<Rightarrow> handler" where
  "echoHandler rt request_data = (case EchoRequest_deserialize rt request_data of
       None \<Rightarrow> Inl parse_failure
     | Some request \<Rightarrow> Inr (EchoResponse_serialize rt
         (EchoResponse_default\<lparr>es_message := ''Echo: '' @ eq_message request\<rparr>)))"

text \<open>The sum of two \<open>int\<close>s, undefined when it overflows.\<close>

definition int_sum :: "i32 \<Rightarrow> i32 \<Rightarrow> i32 res" where
  "int_sum a b = (if - (2 ^ 31) \<le> sint a + sint b \<and> sint a + sint b < 2 ^ 31 then Ret (a + b) else Undefined)"

definition addHandler :: "pb_runtime \<Rightarrow> bytes \<Rightarrow> (bytes + bytes) res" where
  "addHandler rt request_data = (case AddRequest_deserialize rt request_data of
       None \<Rightarrow> Ret (Inl parse_failure)
     | Some request \<Rightarrow> res_bind (int_sum (aq_a request) (aq_b request)) (\<lambda>result.
         Ret (Inr (AddResponse_serialize rt (AddResponse_default\<lparr>ar_result := result\<rparr>)))))"

text \<open>The registered function; \<open>anything\<close> is what it does where \<open>addHandler\<close> is undefined.\<close>

definition add_service :: "pb_runtime \<Rightarrow> handler \<Rightarrow> handler" where
  "add_service rt anything request_data = (case addHandler rt request_data of
       Ret r \<Rightarrow> r | _ \<Rightarrow> anything request_data)"

definition server_example :: "pb_runtime \<Rightarrow> handler \<Rightarrow> RpcServer" where
  "server_example rt anything =
     RpcServer_registerService ''CalculatorService'' ''add'' (add_service rt anything)
       (RpcServer_registerService ''EchoService'' ''echo'' (echoHandler rt)
         (RpcServer_new 8081 ''127.0.0.1'' 8080 10000))"

definition server_main :: "pb_runtime \<Rightarrow> handler \<Rightarrow> setup_calls \<Rightarrow> i32 \<times> RpcServer" where
  "server_main rt anything calls = (0, RpcServer_start calls (server_example rt anything))"

section \<open>client\_example.cpp\<close>

text \<open>
  \<open>call\<close> is \<open>client.call\<close>. What a test prints: the answer, or \<open>None\<close> for an empty response or one
  that cannot be read.
\<close>

definition echo_test :: "pb_runtime \<Rightarrow> (bytes \<Rightarrow> bytes \<Rightarrow> bytes \<Rightarrow> bytes) \<Rightarrow> bytes \<Rightarrow> bytes option" where
  "echo_test rt call message =
     (let response_data = call ''EchoService'' ''echo'' (EchoRequest_serialize rt (EchoRequest_default\<lparr>eq_message := message\<rparr>))
      in if response_data = [] then None else map_option es_message (EchoResponse_deserialize rt response_data))"

definition add_test :: "pb_runtime \<Rightarrow> (bytes \<Rightarrow> bytes \<Rightarrow> bytes \<Rightarrow> bytes) \<Rightarrow> i32 \<Rightarrow> i32 \<Rightarrow> i32 option" where
  "add_test rt call a b =
     (let response_data = call ''CalculatorService'' ''add'' (AddRequest_serialize rt (AddRequest_default\<lparr>aq_a := a, aq_b := b\<rparr>))
      in if response_data = [] then None else map_option ar_result (AddResponse_deserialize rt response_data))"

text \<open>
  The loop of test 3, the service that does not exist in test 4, and the loop of test 5 over its
  messages.
\<close>

definition add_tests :: "pb_runtime \<Rightarrow> (bytes \<Rightarrow> bytes \<Rightarrow> bytes \<Rightarrow> bytes) \<Rightarrow> i32 option list" where
  "add_tests rt call = map (\<lambda>i. add_test rt call (of_nat (i * 10)) (of_nat (i * 5))) [1..<4]"

definition missing_service_test :: "pb_runtime \<Rightarrow> (bytes \<Rightarrow> bytes \<Rightarrow> bytes \<Rightarrow> bytes) \<Rightarrow> bool" where
  "missing_service_test rt call \<longleftrightarrow> call ''NonExistentService'' ''test''
     (EchoRequest_serialize rt (EchoRequest_default\<lparr>eq_message := ''Test non-existent service''\<rparr>)) = []"

definition echo_tests :: "pb_runtime \<Rightarrow> (bytes \<Rightarrow> bytes \<Rightarrow> bytes \<Rightarrow> bytes) \<Rightarrow> bytes list \<Rightarrow> bytes option list" where
  "echo_tests rt call test_messages = map (echo_test rt call) test_messages"

text \<open>
  \<open>main\<close>: what the five tests print, and the exit code. \<open>multibyte\<close> is the third message of test 5, the
  UTF-8 text of the source.
\<close>

record client_tests =
  test_1 :: "bytes option"
  test_2 :: "i32 option"
  test_3 :: "i32 option list"
  test_4 :: bool
  test_5 :: "bytes option list"

definition client_main :: "pb_runtime \<Rightarrow> bytes \<Rightarrow> (bytes \<Rightarrow> bytes \<Rightarrow> bytes \<Rightarrow> bytes) \<Rightarrow> i32 \<times> client_tests" where
  "client_main rt multibyte call = (0,
     \<lparr>test_1 = echo_test rt call ''Hello, RPC Framework!'', test_2 = add_test rt call 15 25,
      test_3 = add_tests rt call, test_4 = missing_service_test rt call,
      test_5 = echo_tests rt call [''Hello World!'', ''RPC Framework Test'', multibyte,
        ''Special chars: !@#$%^&*()'', ''Numbers: 12345'']\<rparr>)"

text \<open>A client none of whose calls returns anything ends with the same exit code and passes test 4.\<close>

lemma client_main_without_server:
  "client_main rt multibyte (\<lambda>_ _ _. []) = (0, \<lparr>test_1 = None, test_2 = None, test_3 = [None, None, None], test_4 = True,
     test_5 = replicate 5 None\<rparr>)"
  by (simp add: client_main_def echo_test_def add_test_def add_tests_def missing_service_test_def echo_tests_def
      upt_rec numeral_eq_Suc)

section \<open>A call of the client against the server\<close>

text \<open>A request and its answer that both fit the limits of the transport.\<close>

definition call_fits :: "pb_runtime \<Rightarrow> bytes \<Rightarrow> bytes \<Rightarrow> bytes \<Rightarrow> bytes \<Rightarrow> bytes \<Rightarrow> bool" where
  "call_fits rt request_id service_name method_name request_data r \<longleftrightarrow>
     RpcRequest_ok rt (RpcRequest_default\<lparr>rq_service_name := service_name, rq_method_name := method_name,
       rq_request_data := request_data, rq_request_id := request_id\<rparr>) \<and>
     RpcResponse_ok rt (RpcResponse_default\<lparr>rs_request_id := request_id, rs_response_data := r\<rparr>) \<and>
     RpcResponse_serialize rt (RpcResponse_default\<lparr>rs_request_id := request_id, rs_response_data := r\<rparr>) \<noteq> [] \<and>
     length (RpcResponse_serialize rt (RpcResponse_default\<lparr>rs_request_id := request_id, rs_response_data := r\<rparr>)) \<le> max_message"

text \<open>
  One attempt over a connection of the server \<open>s\<close>, descriptor \<open>fd\<close>, whose responses are sent whole:
  the bytes of the result, empty for a failure.
\<close>

definition direct_call :: "pb_runtime \<Rightarrow> RpcServer \<Rightarrow> int \<Rightarrow> bytes \<Rightarrow> bytes \<Rightarrow> bytes \<Rightarrow> bytes \<Rightarrow> bytes" where
  "direct_call rt s fd request_id service_name method_name request_data =
     (case callEndpoint rt (\<lambda>request. Some (fst (TcpConnection_receive (TcpConnection_new 3)
         \<lparr>sk_sends = [], sk_tx = [], sk_rx = fst (handleRpcRequest rt fd request (2 ^ 32) s), sk_closed = False\<rparr>)))
         request_id service_name method_name request_data of
        Some r \<Rightarrow> r | None \<Rightarrow> [])"

lemma direct_call_result:
  assumes "pb_wire rt" and "call_fits rt request_id sn mn d r"
    and "map_of (sv_handlers s) (method_key sn mn) = Some h" and "h d = Inr r"
    and "map_of (ep_connections (sv_epoll s)) fd = Some conn"
  shows "direct_call rt s fd request_id sn mn d = r"
proof -
  let ?k = "\<lparr>sk_sends = [], sk_tx = [], sk_rx = [], sk_closed = False\<rparr>"
  let ?a = "RpcResponse_default\<lparr>rs_request_id := request_id, rs_response_data := r\<rparr>"
  have len: "length (RpcResponse_serialize rt ?a) \<le> 1048576"
    using assms(2) by (simp add: call_fits_def max_message_def)
  then have "int (length (frame (RpcResponse_serialize rt ?a))) \<le> 2 ^ 32" by (simp add: length_frame)
  then have "callEndpoint rt (\<lambda>request. Some (fst (TcpConnection_receive (TcpConnection_new 3)
      (?k\<lparr>sk_rx := fst (handleRpcRequest rt fd request (2 ^ 32) s)\<rparr>)))) request_id sn mn d = Some r"
    using assms(2)
    by (intro call_round_trip [OF assms(1) refl _ assms(3,4) refl _ _ _ assms(5) _ _ refl, of _ "2 ^ 32"])
      (simp_all add: call_fits_def TcpConnection_new_def)
  then show ?thesis by (simp add: direct_call_def)
qed

lemma server_example_handlers:
  "map_of (sv_handlers (server_example rt anything)) (method_key ''EchoService'' ''echo'') = Some (echoHandler rt)"
  "map_of (sv_handlers (server_example rt anything)) (method_key ''CalculatorService'' ''add'') = Some (add_service rt anything)"
  by (simp_all add: server_example_def RpcServer_registerService_def RpcServer_new_def method_key_def table_simps)

lemma EchoResponse_not_empty:
  assumes "pb_wire rt" and "EchoResponse_ok rt m" and "es_message m \<noteq> []"
  shows "EchoResponse_serialize rt m \<noteq> []"
proof
  assume "EchoResponse_serialize rt m = []"
  then have "EchoResponse_deserialize rt [] = Some m" using pb_wire.EchoResponse_roundtrip [OF assms(1,2)] by simp
  moreover have "EchoResponse_deserialize rt [] = Some EchoResponse_default"
    by (simp add: EchoResponse_deserialize_def Serializer_deserialize_def EchoResponse_InternalParse_def
        pb_wire.parse_Nil [OF assms(1)] EchoResponse_Clear_default)
  ultimately show False using assms(3) by (auto simp: EchoResponse_default_def)
qed

lemma AddResponse_not_empty:
  assumes "pb_wire rt" and "AddResponse_ok rt m" and "ar_result m \<noteq> 0"
  shows "AddResponse_serialize rt m \<noteq> []"
proof
  assume "AddResponse_serialize rt m = []"
  then have "AddResponse_deserialize rt [] = Some m" using pb_wire.AddResponse_roundtrip [OF assms(1,2)] by simp
  moreover have "AddResponse_deserialize rt [] = Some AddResponse_default"
    by (simp add: AddResponse_deserialize_def Serializer_deserialize_def AddResponse_InternalParse_def
        pb_wire.parse_Nil [OF assms(1)] AddResponse_Clear_default)
  ultimately show False using assms(3) by (auto simp: AddResponse_default_def)
qed

text \<open>The echo service as the example client sees it: the test prints the message behind
  \<open>Echo: \<close>, through both serializers, both dispatches and the frames of the connection.\<close>

theorem echo_example:
  assumes "pb_wire rt" and "EchoRequest_ok rt (EchoRequest_default\<lparr>eq_message := message\<rparr>)"
    and "EchoResponse_ok rt (EchoResponse_default\<lparr>es_message := ''Echo: '' @ message\<rparr>)"
    and "call_fits rt request_id ''EchoService'' ''echo''
      (EchoRequest_serialize rt (EchoRequest_default\<lparr>eq_message := message\<rparr>))
      (EchoResponse_serialize rt (EchoResponse_default\<lparr>es_message := ''Echo: '' @ message\<rparr>))"
    and "sv_handlers s = sv_handlers (server_example rt anything)"
    and "map_of (ep_connections (sv_epoll s)) fd = Some conn"
  shows "echo_test rt (direct_call rt s fd request_id) message = Some (''Echo: '' @ message)"
proof -
  let ?q = "EchoRequest_default\<lparr>eq_message := message\<rparr>"
  let ?a = "EchoResponse_default\<lparr>es_message := ''Echo: '' @ message\<rparr>"
  have "echoHandler rt (EchoRequest_serialize rt ?q) = Inr (EchoResponse_serialize rt ?a)"
    using pb_wire.EchoRequest_roundtrip [OF assms(1,2)] by (simp add: echoHandler_def EchoRequest_default_def)
  from direct_call_result [where s = s and h = "echoHandler rt", OF assms(1,4) _ this assms(6)] server_example_handlers(1)
  have "direct_call rt s fd request_id ''EchoService'' ''echo'' (EchoRequest_serialize rt ?q) =
      EchoResponse_serialize rt ?a" by (simp add: assms(5))
  then show ?thesis
    using EchoResponse_not_empty [OF assms(1,3)] pb_wire.EchoResponse_roundtrip [OF assms(1,3)]
    by (simp add: echo_test_def Let_def)
qed


definition example_conn :: RpcServer where
  "example_conn = (server_example std_runtime (\<lambda>_. Inl []))\<lparr>sv_epoll :=
     (setConnectionHandler (EpollServer_new 9))\<lparr>ep_connections := [(7, ClientConnection_new 7)]\<rparr>\<rparr>"

lemma example_sizes:
  "EchoRequest_ByteSizeLong std_runtime (EchoRequest_default\<lparr>eq_message := ''hi''\<rparr>) = 4"
  "EchoResponse_ByteSizeLong std_runtime (EchoResponse_default\<lparr>es_message := ''Echo: hi''\<rparr>) = 10"
  "rt_VerifyUTF8 std_runtime ''hi''" "rt_VerifyUTF8 std_runtime ''Echo: hi''"
  "rt_VerifyUTF8 std_runtime ''EchoService''" "rt_VerifyUTF8 std_runtime ''echo''" "rt_VerifyUTF8 std_runtime ''7''"
  "rt_VerifyUTF8 std_runtime ''CalculatorService''" "rt_VerifyUTF8 std_runtime ''add''" "rt_VerifyUTF8 std_runtime ''''"
  by code_simp+

lemma echo_example_witness:
  "echo_test std_runtime (direct_call std_runtime example_conn 7 ''7'') ''hi'' = Some ''Echo: hi''"
proof -
  let ?q = "EchoRequest_default\<lparr>eq_message := ''hi''\<rparr>" let ?a = "EchoResponse_default\<lparr>es_message := ''Echo: '' @ ''hi''\<rparr>"
  have sizes: "RpcRequest_ByteSizeLong std_runtime (RpcRequest_default\<lparr>rq_service_name := ''EchoService'',
        rq_method_name := ''echo'', rq_request_data := EchoRequest_serialize std_runtime ?q, rq_request_id := ''7''\<rparr>) = 28"
    "length (EchoRequest_serialize std_runtime ?q) = 4" "length (EchoResponse_serialize std_runtime ?a) = 10"
    "RpcResponse_ByteSizeLong std_runtime (RpcResponse_default\<lparr>rs_request_id := ''7'',
        rs_response_data := EchoResponse_serialize std_runtime ?a\<rparr>) = 15"
    "length (RpcResponse_serialize std_runtime (RpcResponse_default\<lparr>rs_request_id := ''7'',
        rs_response_data := EchoResponse_serialize std_runtime ?a\<rparr>)) = 15" by code_simp+
  have "call_fits std_runtime ''7'' ''EchoService'' ''echo'' (EchoRequest_serialize std_runtime ?q)
      (EchoResponse_serialize std_runtime ?a)"
    using sizes example_sizes unfolding call_fits_def RpcRequest_ok_def RpcResponse_ok_def
    by (intro conjI) (auto simp: pb_limit_def max_message_def RpcRequest_default_def RpcResponse_default_def)
  moreover have "EchoRequest_ok std_runtime ?q" "EchoResponse_ok std_runtime ?a"
    using example_sizes by (simp_all add: EchoRequest_ok_def EchoResponse_ok_def EchoRequest_default_def
        EchoResponse_default_def pb_limit_def)
  ultimately show ?thesis
    using echo_example [OF std.pb_wire_axioms, of "''hi''" "''7''" example_conn "\<lambda>_. Inl []" 7]
    by (simp add: example_conn_def)
qed


section \<open>registry\_example.cpp\<close>

text \<open>\<open>main\<close>, and the signal handler, which stops the registry and exits.\<close>

definition registry_main :: "bool \<Rightarrow> i32 \<times> RegistryServer" where
  "registry_main listening = (0, RegistryServer_start listening RegistryServer_new)"

definition registry_signal :: "RegistryServer option \<Rightarrow> i32 \<times> RegistryServer option" where
  "registry_signal g_registry = (0, map_option RegistryServer_stop g_registry)"

section \<open>distributed\_registry\_example.cpp\<close>

text \<open>The nodes of the hard-coded configuration: id, host, client port and Raft port.\<close>

type_synonym node_config = "bytes \<times> bytes \<times> i32 \<times> i32"

definition node_configs :: "node_config list" where
  "node_configs = [(''registry-node-1'', ''127.0.0.1'', 8080, 9080), (''registry-node-2'', ''127.0.0.1'', 8081, 9081),
     (''registry-node-3'', ''127.0.0.1'', 8082, 9082)]"

definition config_peer :: "node_config \<Rightarrow> RaftPeer" where
  "config_peer = (\<lambda>(node_id, host, client_port, raft_port).
     \<lparr>peer_node_id = node_id, peer_host = host, peer_port = raft_port,
      peer_next_index = 1, peer_match_index = 0\<rparr>)"

text \<open>The loop over \<open>node_configs\<close>, and the server of the node; \<open>None\<close> for an index out of range.\<close>

definition config_peers :: "nat \<Rightarrow> RaftPeer list" where
  "config_peers node_index =
     concat (map (\<lambda>i. if i \<noteq> node_index then [config_peer (node_configs ! i)] else []) [0..<length node_configs])"

definition distributed_example :: "int \<Rightarrow> DistributedRegistryServer option" where
  "distributed_example node_index =
     (if node_index < 0 \<or> node_index > 2 then None
      else case node_configs ! nat node_index of (node_id, host, client_port, raft_port) \<Rightarrow>
        Some (DistributedRegistryServer_new node_id host client_port raft_port (config_peers (nat node_index))))"

text \<open>
  \<open>loadClusterConfig\<close> on the nodes of a configuration file: always the first node and the others as
  its peers. \<open>main\<close> does not call it.
\<close>

definition loadClusterConfig :: "node_config list \<Rightarrow> (node_config \<times> RaftPeer list) option" where
  "loadClusterConfig nodes = (if nodes = [] then None
     else Some (nodes ! 0, map (\<lambda>i. config_peer (nodes ! i)) [1..<length nodes]))"

text \<open>The three programs are one cluster of Raft_Cluster: each node has the two others as its peers.\<close>

lemma config_peers_others: "i < 3 \<Longrightarrow> config_peers i = others i (map config_peer node_configs)"
proof -
  assume "i < 3"
  then have "i = 0 \<or> i = 1 \<or> i = 2" by arith
  moreover have "config_peers 0 = others 0 (map config_peer node_configs)"
    "config_peers 1 = others 1 (map config_peer node_configs)"
    "config_peers 2 = others 2 (map config_peer node_configs)" by code_simp+
  ultimately show ?thesis by blast
qed

lemma example_cluster:
  assumes "i < 3"
  shows "map_option dr_raft (distributed_example (int i)) =
    Some (node (Cluster_new (map config_peer node_configs) RegistryStateMachine_new) i)"
proof -
  have len: "length node_configs = 3" by (simp add: node_configs_def)
  obtain node_id host client_port raft_port where n: "node_configs ! i = (node_id, host, client_port, raft_port)"
    by (rule prod_cases4)
  have "distributed_example (int i) =
      Some (DistributedRegistryServer_new node_id host client_port raft_port (config_peers i))"
    using assms n by (simp add: distributed_example_def)
  then show ?thesis using assms n len config_peers_others [OF assms]
    by (simp add: DistributedRegistryServer_new_def Cluster_new_def config_peer_def)
qed

lemma load_first_config:
  "loadClusterConfig node_configs = Some (node_configs ! 0, config_peers 0)"
  by (simp add: loadClusterConfig_def node_configs_def config_peers_def)

text \<open>
  \<open>std::atoi\<close>: leading white space, a sign, digits; 0 without digits, and undefined when the number is
  not an \<open>int\<close>.
\<close>

definition atoi :: "bytes \<Rightarrow> int res" where
  "atoi s = (let (negative, b) = sign_of (dropWhile blank s); (v, ok) = signed_value 32 negative (digits_val (takeWhile digit b))
     in if ok then Ret v else Undefined)"

text \<open>
  \<open>main\<close>: the exit code, and the server it started. \<open>argv\<close> holds the program's name and its
  arguments; the second one, the configuration file, is only printed.
\<close>

definition distributed_main :: "bytes list \<Rightarrow> bool \<Rightarrow> (i32 \<times> DistributedRegistryServer option) res" where
  "distributed_main argv listening =
     res_bind (if length argv \<ge> 2 then atoi (argv ! 1) else Ret 0) (\<lambda>node_index.
       case distributed_example node_index of
         None \<Rightarrow> Ret (1, None)
       | Some registry \<Rightarrow> Ret (0, Some (DistributedRegistryServer_start listening registry)))"

definition distributed_signal :: "DistributedRegistryServer option \<Rightarrow> i32 \<times> DistributedRegistryServer option" where
  "distributed_signal g_registry = (0, map_option DistributedRegistryServer_stop g_registry)"

text \<open>The configuration file changes nothing, an index out of range ends with 1, an argument that is no
  number starts the first node, and a server that cannot listen still ends with 0.\<close>

lemma config_file_ignored:
  "distributed_main [program, i, file] listening = distributed_main [program, i] listening"
  by (simp add: distributed_main_def)

lemma index_out_of_range: "distributed_main [program, ''3''] listening = Ret (1, None)"
  "distributed_main [program, ''-1''] listening = Ret (1, None)"
  by (simp_all add: distributed_main_def atoi_def blank_def digit_def digits_val_def signed_value_def distributed_example_def)

lemma no_number_is_first_node: "distributed_main [program, ''two''] listening = distributed_main [program] listening"
  by (simp add: distributed_main_def atoi_def blank_def digit_def digits_val_def signed_value_def)

lemma failed_start_exits_with_0:
  "\<exists>d. distributed_main [program] False = Ret (0, Some d) \<and> \<not> rn_running (dr_raft d)"
  by (simp add: distributed_main_def distributed_example_def node_configs_def DistributedRegistryServer_start_def
      DistributedRegistryServer_new_def RaftNode_new_def)

end
