(* ===== verification/Message_Text.thy ===== *)
theory Message_Text
  imports Pb_Service Registry_Protocol
begin

text \<open>
  The string fields of the messages. proto3 keeps text in \<open>string\<close> fields and the generated
  parsers check it: whatever bytes arrive, a parsed message holds valid UTF-8 in every string
  field, or nothing where the field was absent. No law of the runtime is needed for that. The
  tables of the registry inherit it, so what a discovery lists can be parsed by its receiver.
\<close>

section \<open>Invariants of the parse loop\<close>

text \<open>What holds of the fresh message and is kept by every case of the \<open>switch\<close> and by unknown
  fields holds of every parsed message.\<close>

lemma pb_loop_keeps:
  assumes "\<And>tag p m m' q. I m \<Longrightarrow> fld tag p m = Handled m' q \<Longrightarrow> I m'" and "\<And>u m. I m \<Longrightarrow> I (unk u m)"
  shows "I m \<Longrightarrow> pb_loop rt fld unk n p m = PDone m' q e \<Longrightarrow> I m'"
proof (induction n arbitrary: p m)
  case (Suc n)
  consider "m' = m"
    | tag r m1 r1 where "fld tag r m = Handled m1 r1" "pb_loop rt fld unk n r1 m1 = PDone m' q e"
    | u r1 where "pb_loop rt fld unk n r1 (unk u m) = PDone m' q e"
    using Suc.prems(2) by (force split: if_splits option.splits field_step.splits)
  then show ?case
  proof cases
    case (2 tag r m1 r1)
    show ?thesis by (rule Suc.IH [OF assms(1) [OF Suc.prems(1) 2(1)] 2(2)])
  next
    case (3 u r1)
    show ?thesis by (rule Suc.IH [OF assms(2) [OF Suc.prems(1)] 3])
  qed (simp add: Suc.prems(1))
qed simp

lemma parsed_keeps:
  assumes "Serializer_deserialize (\<lambda>data. pb_parse rt fld unk data m) data = Some m'" and "I m"
    and "\<And>tag p m m' q. I m \<Longrightarrow> fld tag p m = Handled m' q \<Longrightarrow> I m'" and "\<And>u m. I m \<Longrightarrow> I (unk u m)"
  shows "I m'"
proof (cases "pb_parse rt fld unk data m" rule: parse_result.cases)
  case (1 x q)
  then have "pb_loop rt fld unk (Suc (length data)) data m = PDone m' q False"
    using assms(1) by (simp add: Serializer_deserialize_def pb_parse_def del: pb_loop.simps)
  then show ?thesis by (rule pb_loop_keeps [where I = I, rotated 3]) (use assms(2-4) in blast)+
qed (use assms(1) in \<open>simp_all add: Serializer_deserialize_def\<close>)

section \<open>Text\<close>

definition is_text :: "pb_runtime \<Rightarrow> bytes \<Rightarrow> bool" where
  "is_text rt s \<longleftrightarrow> s = [] \<or> rt_VerifyUTF8 rt s"

lemma is_text_Nil [simp]: "is_text rt []"
  by (simp add: is_text_def)

text \<open>A field of type \<open>string\<close> is checked before it is stored; one of type \<open>bytes\<close> or a number
  is not text.\<close>

lemma get_string_text: "get_string rt True p f = Handled m q \<Longrightarrow> \<exists>s. is_text rt s \<and> m = f s"
  by (auto simp: get_string_def is_text_def split: option.splits if_splits)

lemma get_other:
  "get_string rt False p f = Handled m q \<Longrightarrow> \<exists>s. m = f s"
  "get_varint32 rt p g = Handled m q \<Longrightarrow> \<exists>v. m = g v"
  "get_varint64 rt p h = Handled m q \<Longrightarrow> \<exists>x. m = h x"
  by (auto simp: get_string_def get_varint32_def get_varint64_def split: option.splits)

lemmas got = get_string_text get_other

definition RpcRequest_text :: "pb_runtime \<Rightarrow> RpcRequest \<Rightarrow> bool" where
  "RpcRequest_text rt m \<longleftrightarrow> is_text rt (rq_service_name m) \<and> is_text rt (rq_method_name m) \<and> is_text rt (rq_request_id m)"

lemma RpcRequest_parsed:
  assumes "RpcRequest_deserialize rt data = Some m"
  shows "RpcRequest_text rt m"
  using assms unfolding RpcRequest_deserialize_def RpcRequest_InternalParse_def
  by (rule parsed_keeps [where I = "RpcRequest_text rt"])
    (auto simp: RpcRequest_text_def RpcRequest_Clear_def RpcRequest_field_def split: if_splits dest!: got)

definition RpcResponse_text :: "pb_runtime \<Rightarrow> RpcResponse \<Rightarrow> bool" where
  "RpcResponse_text rt m \<longleftrightarrow> is_text rt (rs_request_id m) \<and> is_text rt (rs_error_msg m)"

lemma RpcResponse_parsed:
  assumes "RpcResponse_deserialize rt data = Some m"
  shows "RpcResponse_text rt m"
  using assms unfolding RpcResponse_deserialize_def RpcResponse_InternalParse_def
  by (rule parsed_keeps [where I = "RpcResponse_text rt"])
    (auto simp: RpcResponse_text_def RpcResponse_Clear_def RpcResponse_field_def split: if_splits dest!: got)

definition ServiceRegisterRequest_text :: "pb_runtime \<Rightarrow> ServiceRegisterRequest \<Rightarrow> bool" where
  "ServiceRegisterRequest_text rt m \<longleftrightarrow> is_text rt (srq_service_name m) \<and> is_text rt (srq_host m)"

lemma ServiceRegisterRequest_parsed:
  assumes "ServiceRegisterRequest_deserialize rt data = Some m"
  shows "ServiceRegisterRequest_text rt m"
  using assms unfolding ServiceRegisterRequest_deserialize_def ServiceRegisterRequest_InternalParse_def
  by (rule parsed_keeps [where I = "ServiceRegisterRequest_text rt"])
    (auto simp: ServiceRegisterRequest_text_def ServiceRegisterRequest_Clear_def ServiceRegisterRequest_field_def split: if_splits dest!: got)

definition ServiceRegisterResponse_text :: "pb_runtime \<Rightarrow> ServiceRegisterResponse \<Rightarrow> bool" where
  "ServiceRegisterResponse_text rt m \<longleftrightarrow> is_text rt (srs_message m)"

lemma ServiceRegisterResponse_parsed:
  assumes "ServiceRegisterResponse_deserialize rt data = Some m"
  shows "ServiceRegisterResponse_text rt m"
  using assms unfolding ServiceRegisterResponse_deserialize_def ServiceRegisterResponse_InternalParse_def
  by (rule parsed_keeps [where I = "ServiceRegisterResponse_text rt"])
    (auto simp: ServiceRegisterResponse_text_def ServiceRegisterResponse_Clear_def ServiceRegisterResponse_field_def split: if_splits dest!: got)

definition ServiceDiscoveryRequest_text :: "pb_runtime \<Rightarrow> ServiceDiscoveryRequest \<Rightarrow> bool" where
  "ServiceDiscoveryRequest_text rt m \<longleftrightarrow> is_text rt (dq_service_name m)"

lemma ServiceDiscoveryRequest_parsed:
  assumes "ServiceDiscoveryRequest_deserialize rt data = Some m"
  shows "ServiceDiscoveryRequest_text rt m"
  using assms unfolding ServiceDiscoveryRequest_deserialize_def ServiceDiscoveryRequest_InternalParse_def
  by (rule parsed_keeps [where I = "ServiceDiscoveryRequest_text rt"])
    (auto simp: ServiceDiscoveryRequest_text_def ServiceDiscoveryRequest_Clear_def ServiceDiscoveryRequest_field_def split: if_splits dest!: got)

definition ServiceInfo_text :: "pb_runtime \<Rightarrow> ServiceInfo \<Rightarrow> bool" where
  "ServiceInfo_text rt m \<longleftrightarrow> is_text rt (info_host m)"

lemma ServiceInfo_parsed:
  assumes "ServiceInfo_deserialize rt data = Some m"
  shows "ServiceInfo_text rt m"
  using assms unfolding ServiceInfo_deserialize_def ServiceInfo_InternalParse_def
  by (rule parsed_keeps [where I = "ServiceInfo_text rt"])
    (auto simp: ServiceInfo_text_def ServiceInfo_Clear_def ServiceInfo_field_def split: if_splits dest!: got)

definition HeartbeatRequest_text :: "pb_runtime \<Rightarrow> HeartbeatRequest \<Rightarrow> bool" where
  "HeartbeatRequest_text rt m \<longleftrightarrow> is_text rt (hq_service_name m) \<and> is_text rt (hq_host m)"

lemma HeartbeatRequest_parsed:
  assumes "HeartbeatRequest_deserialize rt data = Some m"
  shows "HeartbeatRequest_text rt m"
  using assms unfolding HeartbeatRequest_deserialize_def HeartbeatRequest_InternalParse_def
  by (rule parsed_keeps [where I = "HeartbeatRequest_text rt"])
    (auto simp: HeartbeatRequest_text_def HeartbeatRequest_Clear_def HeartbeatRequest_field_def split: if_splits dest!: got)

definition HeartbeatResponse_text :: "pb_runtime \<Rightarrow> HeartbeatResponse \<Rightarrow> bool" where
  "HeartbeatResponse_text rt m \<longleftrightarrow> is_text rt (hs_message m)"

lemma HeartbeatResponse_parsed:
  assumes "HeartbeatResponse_deserialize rt data = Some m"
  shows "HeartbeatResponse_text rt m"
  using assms unfolding HeartbeatResponse_deserialize_def HeartbeatResponse_InternalParse_def
  by (rule parsed_keeps [where I = "HeartbeatResponse_text rt"])
    (auto simp: HeartbeatResponse_text_def HeartbeatResponse_Clear_def HeartbeatResponse_field_def split: if_splits dest!: got)

definition EchoRequest_text :: "pb_runtime \<Rightarrow> EchoRequest \<Rightarrow> bool" where
  "EchoRequest_text rt m \<longleftrightarrow> is_text rt (eq_message m)"

lemma EchoRequest_parsed:
  assumes "EchoRequest_deserialize rt data = Some m"
  shows "EchoRequest_text rt m"
  using assms unfolding EchoRequest_deserialize_def EchoRequest_InternalParse_def
  by (rule parsed_keeps [where I = "EchoRequest_text rt"])
    (auto simp: EchoRequest_text_def EchoRequest_Clear_def EchoRequest_field_def split: if_splits dest!: got)

definition EchoResponse_text :: "pb_runtime \<Rightarrow> EchoResponse \<Rightarrow> bool" where
  "EchoResponse_text rt m \<longleftrightarrow> is_text rt (es_message m)"

lemma EchoResponse_parsed:
  assumes "EchoResponse_deserialize rt data = Some m"
  shows "EchoResponse_text rt m"
  using assms unfolding EchoResponse_deserialize_def EchoResponse_InternalParse_def
  by (rule parsed_keeps [where I = "EchoResponse_text rt"])
    (auto simp: EchoResponse_text_def EchoResponse_Clear_def EchoResponse_field_def split: if_splits dest!: got)

section \<open>The registry\<close>

lemma dispatch_registers_text:
  assumes "registry_dispatch rt now data r = Some (resp, r')"
  shows "r' = r \<or> (\<exists>q. srq_service_name q \<noteq> [] \<and> srq_host q \<noteq> [] \<and> ServiceRegisterRequest_text rt q \<and>
    r' = snd (handleServiceRegister now q r))"
proof (cases "try_register rt now data r")
  case None
  then show ?thesis using assms
    by (auto simp: dispatch_two try_discovery_def split: option.splits if_splits)
next
  case (Some x)
  then show ?thesis using assms
    by (auto simp: dispatch_two try_register_def Let_def case_prod_unfold dest: ServiceRegisterRequest_parsed
        split: option.splits if_splits)
qed

definition names_are_text :: "pb_runtime \<Rightarrow> RegistryServer \<Rightarrow> bool" where
  "names_are_text rt r \<longleftrightarrow> (\<forall>n h p. registered (rg_services r) (n, h, p) \<noteq> None \<longrightarrow>
     rt_VerifyUTF8 rt n \<and> rt_VerifyUTF8 rt h)"

lemma names_register:
  "names_are_text rt r \<Longrightarrow> srq_service_name q \<noteq> [] \<Longrightarrow> srq_host q \<noteq> [] \<Longrightarrow> ServiceRegisterRequest_text rt q \<Longrightarrow>
   names_are_text rt (snd (handleServiceRegister now q r))"
  unfolding names_are_text_def register_view ServiceRegisterRequest_text_def is_text_def
  by (auto simp del: not_None_eq split: if_splits)

lemma names_check:
  "table_ok (rg_services r) \<Longrightarrow> names_are_text rt r \<Longrightarrow> names_are_text rt (checkHeartbeat now r)"
  by (auto simp: names_are_text_def check_view view_expire_def split: option.splits if_splits)

lemma names_connection:
  assumes "names_are_text rt r"
  shows "names_are_text rt (fst (RegistryServer_handleConnection rt now r conn s))"
proof -
  obtain data c1 s1 where rx: "TcpConnection_receive conn s = (data, c1, s1)"
    by (cases "TcpConnection_receive conn s")
  show ?thesis
  proof (cases "registry_dispatch rt now data r")
    case None
    then show ?thesis using assms by (simp add: RegistryServer_handleConnection_def rx)
  next
    case (Some x)
    obtain resp r' where x: "x = (resp, r')" by (cases x)
    show ?thesis using dispatch_registers_text [OF Some [unfolded x]] assms
      by (auto simp: RegistryServer_handleConnection_def rx Some x intro: names_register)
  qed
qed

lemma names_reachable: "registry_reachable rt r \<Longrightarrow> names_are_text rt r"
proof (induction rule: registry_reachable.induct)
  case init
  then show ?case by (simp add: names_are_text_def RegistryServer_new_def)
next
  case (step r r')
  have "table_ok (rg_services r)" using reachable_valid [OF step.hyps(1)] by (simp add: registry_valid_def)
  with step show ?case
    by (auto elim!: registry_stepE simp: names_connection names_check RegistryServer_start_def
        RegistryServer_stop_def) (simp_all add: names_are_text_def)
qed

text \<open>C29. Whatever bytes arrive on its connections, every name and host a running registry keeps is
  valid text, for every protobuf runtime, and so is every host a discovery lists; no
  provider can make the answers to the other clients unreadable by an invalid name.\<close>

theorem registry_texts:
  assumes "registry_reachable rt r"
  shows "(\<forall>n h p. registered (rg_services r) (n, h, p) \<noteq> None \<longrightarrow> rt_VerifyUTF8 rt n \<and> rt_VerifyUTF8 rt h) \<and>
    list_all (\<lambda>i. rt_VerifyUTF8 rt (info_host i)) (ds_services (handleServiceDiscovery q r))"
proof -
  have n: "names_are_text rt r" by (rule names_reachable [OF assms])
  have "rt_VerifyUTF8 rt (info_host i)" if i: "i \<in> set (ds_services (handleServiceDiscovery q r))" for i
  proof -
    obtain j where "i = instance_info j"
      "registered (rg_services r) (dq_service_name q, si_host j, si_port j) = Some (si_last_heartbeat j)"
      using i unfolding discovery_set [OF reachable_valid [OF assms], of q] by blast
    then show ?thesis using n by (auto simp: names_are_text_def instance_info_def)
  qed
  then show ?thesis using n by (auto simp: names_are_text_def list_all_iff)
qed

text \<open>A registration of service S at h, port 80, and one with a byte that is not text for its name.\<close>

definition register_bytes :: "nat \<Rightarrow> bytes" where
  "register_bytes c = map char_of [10, 1, c, 18, 1, 104, 24, 80]"

definition registered_over :: "bytes \<Rightarrow> RegistryServer" where
  "registered_over data = fst (RegistryServer_handleConnection std_runtime 7 RegistryServer_new
     (TcpConnection_new 3) \<lparr>sk_sends = [], sk_tx = [], sk_rx = frame data, sk_closed = False\<rparr>)"

lemma registry_texts_witness:
  "registered (rg_services (registered_over (register_bytes 83))) (''S'', ''h'', 80) = Some 7 \<and>
   rt_VerifyUTF8 std_runtime ''S'' \<and> rt_VerifyUTF8 std_runtime ''h''"
proof -
  have "registry_reachable std_runtime (registered_over (register_bytes 83))"
    unfolding registered_over_def by (blast intro: registry_reachable.intros registry_step.connection)
  moreover have "rg_services (registered_over (register_bytes 83)) =
      [(''S'', [\<lparr>si_host = ''h'', si_port = 80, si_last_heartbeat = 7\<rparr>])]" by code_simp
  moreover from this have "registered (rg_services (registered_over (register_bytes 83))) (''S'', ''h'', 80) = Some 7"
    by (simp add: registered_def instances_of_def endpoints_def)
  ultimately show ?thesis
    using registry_texts [of std_runtime "registered_over (register_bytes 83)"] by blast
qed

lemma invalid_name_refused: "registered_over (register_bytes 255) = RegistryServer_new"
  by code_simp

end
