(* ===== verification/Background_Loops.thy ===== *)
theory Background_Loops
  imports Server_Sockets Pool_Properties
begin

text \<open>
  The loops that run until their object stops: \<open>EpollServer::run\<close>, which the thread of the server
  executes, and \<open>ConnectionPool::runCleanupLoop\<close> with \<open>cleanupExpiredConnections\<close>. A list gives
  what each wait or sleep brings, together with what other threads do to the object meanwhile. The
  second component of a result says whether the loop has returned or is still running when the
  list is used up.
\<close>

section \<open>EpollServer::run\<close>

datatype wait_result = Events "epoll_event list" | Interrupted | WaitFailed

fun EpollServer_run ::
    "((EpollServer \<Rightarrow> EpollServer) \<times> wait_result) list \<Rightarrow> EpollServer \<Rightarrow> EpollServer \<times> bool" where
  "EpollServer_run [] s = (s, \<not> ep_running s)"
| "EpollServer_run ((others, w) # ws) s =
     (if \<not> ep_running s then (s, True)
      else let s = others s in
        case w of
          Interrupted \<Rightarrow> EpollServer_run ws s
        | WaitFailed \<Rightarrow> (s, True)
        | Events events \<Rightarrow> EpollServer_run ws (fold epoll_dispatch events s))"

text \<open>The batches in which the kernel accepts no descriptor that is still open.\<close>

fun batches_ok :: "((EpollServer \<Rightarrow> EpollServer) \<times> wait_result) list \<Rightarrow> EpollServer \<Rightarrow> bool" where
  "batches_ok [] s \<longleftrightarrow> True"
| "batches_ok ((others, Events events) # ws) s \<longleftrightarrow>
     events_ok events (others s) \<and> batches_ok ws (fold epoll_dispatch events (others s))"
| "batches_ok ((others, w) # ws) s \<longleftrightarrow> batches_ok ws (others s)"

text \<open>A worker of the thread pool answers on a connection.\<close>

definition responding :: "int \<Rightarrow> bytes \<Rightarrow> int \<Rightarrow> EpollServer \<Rightarrow> EpollServer" where
  "responding fd data result s = snd (snd (sendResponse fd data result s))"

lemma responding_running [simp]: "ep_running (responding fd data n s) = ep_running s"
  by (simp add: responding_def sendResponse_def Let_def split: option.split)

lemma reachable_batch:
  "epoll_reachable m s \<Longrightarrow> ep_running s \<Longrightarrow> events_ok evs s \<Longrightarrow>
   epoll_reachable m (fold epoll_dispatch evs s) \<and> ep_running (fold epoll_dispatch evs s)"
  by (induction evs arbitrary: s) (simp_all add: epoll_reachable.event)

definition answers_only :: "(EpollServer \<Rightarrow> EpollServer) \<times> wait_result \<Rightarrow> bool" where
  "answers_only x \<longleftrightarrow> (\<exists>fd data n. fst x = responding fd data n)"

lemma run_reachable:
  assumes "epoll_reachable m s" and "ep_running s" and "list_all answers_only ws" and "batches_ok ws s"
  shows "epoll_reachable m (fst (EpollServer_run ws s)) \<and> ep_running (fst (EpollServer_run ws s)) \<and>
    (snd (EpollServer_run ws s) \<longleftrightarrow> WaitFailed \<in> snd ` set ws)"
  using assms
proof (induction ws arbitrary: s)
  case (Cons x ws)
  obtain others w where x: "x = (others, w)" by (cases x)
  then obtain fd data n where o: "others = responding fd data n"
    using Cons.prems(3) by (auto simp: answers_only_def)
  have r: "epoll_reachable m (others s)" "ep_running (others s)"
    using epoll_reachable.respond [OF Cons.prems(1), of fd data n] Cons.prems(2) by (simp_all add: o responding_def [symmetric])
  show ?case
  proof (cases w)
    case (Events evs)
    then have "events_ok evs (others s)" and b: "batches_ok ws (fold epoll_dispatch evs (others s))"
      using Cons.prems(4) by (simp_all add: x)
    from reachable_batch [OF r this(1)] show ?thesis
      using Cons.IH [OF _ _ _ b] Cons.prems(2,3) by (simp add: x Events)
  qed (use Cons r x in auto)
qed simp


definition loop_inputs :: "((EpollServer \<Rightarrow> EpollServer) \<times> wait_result) list" where
  "loop_inputs = [(responding 5 ''x'' 5, Events [Incoming [(5, True, True)], Readable 5 [''abc''] WouldBlock]),
     (responding 5 ''x'' 5, Interrupted), (responding 5 ''x'' 5, WaitFailed)]"


text \<open>Once \<open>stop\<close> has cleared \<open>running_\<close> the loop does nothing more.\<close>

lemma loop_stopped: "\<not> ep_running s \<Longrightarrow> EpollServer_run ws s = (s, True)"
  by (cases ws) auto

lemma stop_ends_loop:
  "EpollServer_run ((\<lambda>s. EpollServer_stop (others s), Interrupted) # ws) s =
     (if ep_running s then (EpollServer_stop (others s), True) else (s, True))"
  by (simp add: loop_stopped EpollServer_stop_def Let_def)

section \<open>ConnectionPool::runCleanupLoop\<close>

text \<open>
  One cycle over the hosts whose keys were copied before; \<open>now key a\<close> is the time at which a
  connection of a host is examined. Other threads may act between two hosts: each host is one step
  of \<open>pool_move\<close>.
\<close>

definition cleanup_cycle :: "(bytes \<Rightarrow> nat \<Rightarrow> int) \<Rightarrow> ConnectionPool \<Rightarrow> ConnectionPool" where
  "cleanup_cycle now p = fold (\<lambda>key. cleanup_host (now key) key) (map fst (cp_pools p)) p"

text \<open>Each pass sleeps first, while \<open>others\<close> act.\<close>

fun cleanupExpiredConnections ::
    "((ConnectionPool \<Rightarrow> ConnectionPool) \<times> (bytes \<Rightarrow> nat \<Rightarrow> int)) list \<Rightarrow> ConnectionPool \<Rightarrow> ConnectionPool \<times> bool" where
  "cleanupExpiredConnections [] p = (p, \<not> cp_running p)"
| "cleanupExpiredConnections ((others, now) # passes) p =
     (if \<not> cp_running p then (p, True)
      else let p = others p in
        if \<not> cp_running p then (p, True) else cleanupExpiredConnections passes (cleanup_cycle now p))"

fun runCleanupLoop ::
    "((ConnectionPool \<Rightarrow> ConnectionPool) \<times> ((ConnectionPool \<Rightarrow> ConnectionPool) \<times> (bytes \<Rightarrow> nat \<Rightarrow> int)) list) list \<Rightarrow>
     ConnectionPool \<Rightarrow> ConnectionPool \<times> bool" where
  "runCleanupLoop [] p = (p, \<not> cp_running p)"
| "runCleanupLoop ((others, passes) # rest) p =
     (if \<not> cp_running p then (p, True)
      else let p = others p in
        if cp_running p
        then (case cleanupExpiredConnections passes p of (p, returned) \<Rightarrow>
                if returned then runCleanupLoop rest p else (p, False))
        else runCleanupLoop rest p)"

lemma cleanup_returned: "cleanupExpiredConnections passes p = (p', True) \<Longrightarrow> \<not> cp_running p'"
  by (induction passes p rule: cleanupExpiredConnections.induct) (auto simp: Let_def split: if_splits)

lemma cleanup_host_running [simp]: "cp_running (cleanup_host now key p) = cp_running p"
  by (simp add: cleanup_host_def put_pool_def Let_def split: option.split)

lemma fold_running:
  "cp_running (fold (\<lambda>key. cleanup_host (now key) key) keys p) = cp_running p"
  by (induction keys arbitrary: p) simp_all

lemma cleanup_cycle_running [simp]: "cp_running (cleanup_cycle now p) = cp_running p"
  by (simp add: cleanup_cycle_def fold_running)

text \<open>\<open>cleanup\<close>, which the users of a pool may call, does not return while no one stops the pool, and
  the outer loop never starts \<open>cleanupExpiredConnections\<close> a second time.\<close>

definition cleanup ::
    "((ConnectionPool \<Rightarrow> ConnectionPool) \<times> (bytes \<Rightarrow> nat \<Rightarrow> int)) list \<Rightarrow> ConnectionPool \<Rightarrow> ConnectionPool \<times> bool" where
  "cleanup passes p = cleanupExpiredConnections passes p"

lemma cleanup_never_returns:
  "cp_running p \<Longrightarrow> \<forall>(others, now) \<in> set passes. \<forall>q. cp_running (others q) = cp_running q \<Longrightarrow>
   snd (cleanup passes p) = False"
  unfolding cleanup_def
  by (induction passes p rule: cleanupExpiredConnections.induct) (auto simp: Let_def)

lemma stopped_loop: "\<not> cp_running p \<Longrightarrow> runCleanupLoop rest p = (p, True)"
  by (cases rest) auto

lemma runCleanupLoop_once:
  "runCleanupLoop ((others, passes) # rest) p =
     (if cp_running p \<and> cp_running (others p) then cleanupExpiredConnections passes (others p)
      else if cp_running p then (others p, True) else (p, True))"
  using cleanup_returned [of passes "others p"]
  by (auto simp: Let_def stopped_loop split: prod.split)

text \<open>A cycle is a sequence of steps of the pool.\<close>

lemma cycle_reached:
  "cp_running p \<Longrightarrow> pool_reached s0 (p, ts) \<Longrightarrow> pool_reached s0 (cleanup_cycle now p, ts)"
proof -
  have "cp_running p \<Longrightarrow> pool_reached s0 (p, ts) \<Longrightarrow>
      pool_reached s0 (fold (\<lambda>key. cleanup_host (now key) key) keys p, ts)" for keys p
    by (induction keys arbitrary: p) (simp_all add: pool_reached.move pool_move.cleanup)
  then show "cp_running p \<Longrightarrow> pool_reached s0 (p, ts) \<Longrightarrow> pool_reached s0 (cleanup_cycle now p, ts)"
    by (simp add: cleanup_cycle_def)
qed

lemma cleanup_other:
  "key \<noteq> key' \<Longrightarrow> map_of (cp_pools (cleanup_host now key' p)) key = map_of (cp_pools p) key"
  by (simp add: cleanup_host_def put_pool_def Let_def table_simps split: option.split)

lemma cleanup_params [simp]:
  "cp_min_connections_per_host (cleanup_host now key p) = cp_min_connections_per_host p \<and>
   cp_idle_timeout (cleanup_host now key p) = cp_idle_timeout p"
  by (simp add: cleanup_host_def put_pool_def Let_def split: option.split)

lemma fold_other: "key \<notin> set keys \<Longrightarrow>
    map_of (cp_pools (fold (\<lambda>key. cleanup_host (now key) key) keys p)) key = map_of (cp_pools p) key \<and>
    cp_min_connections_per_host (fold (\<lambda>key. cleanup_host (now key) key) keys p) = cp_min_connections_per_host p \<and>
    cp_idle_timeout (fold (\<lambda>key. cleanup_host (now key) key) keys p) = cp_idle_timeout p"
  by (induction keys arbitrary: p) (simp_all add: cleanup_other)

text \<open>After a cycle no host with more than the minimum of connections has an idle one left.\<close>

lemma cycle_drops_idle:
  assumes "distinct (map fst (cp_pools p))" and "map_of (cp_pools p) key = Some hp"
    and "cp_min_connections_per_host p < length (hp_all_connections hp)"
  shows "\<exists>hp'. map_of (cp_pools (cleanup_cycle now p)) key = Some hp' \<and> hp_idle_connections hp' = [] \<and>
    hp_all_connections hp' = filter (in_use hp) (hp_all_connections hp)"
proof -
  let ?f = "fold (\<lambda>key. cleanup_host (now key) key)"
  have "key \<in> set (map fst (cp_pools p))" using assms(2) by (force dest: map_of_SomeD)
  then obtain xs ys where k: "map fst (cp_pools p) = xs @ key # ys" by (meson split_list)
  then have n: "key \<notin> set xs" "key \<notin> set ys" using assms(1) by auto
  let ?q = "?f xs p"
  have q: "map_of (cp_pools ?q) key = Some hp" "cp_min_connections_per_host ?q < length (hp_all_connections hp)"
    using fold_other [OF n(1), of now p] assms(2,3) by simp_all
  have r: "cleanup_keep ?q hp (now key) = in_use hp"
    using q(2) by (auto simp: fun_eq_iff cleanup_keep_def in_use_def Let_def)
  show ?thesis
    using fold_other [OF n(2), of now "cleanup_host (now key) key ?q"] q(1)
    by (simp add: cleanup_cycle_def k) (simp add: cleanup_host_def r Let_def in_use_def)
qed

end
