(* ===== verification/Client_Threads.thy ===== *)
theory Client_Threads
  imports Rpc_Client
begin

text \<open>
  The calls of one \<open>RpcClient\<close> that run at the same time: \<open>callAsync\<close> starts a thread for each.
  They share the cache, which a mutex guards, the atomic counters, and \<open>round_robin_counters_\<close>,
  which nothing guards. \<open>call_step\<close> is what one call does between two points at which another may
  interfere; \<open>client_move\<close> lets any number of them interleave. What the registry and the servers
  answer and what the clock says may change with every step.
\<close>

section \<open>Steps of a call\<close>

datatype call_state =
    Launched
  | Looking
  | Missed
  | Discovering
  | Storing "ServiceEndpoint list"
  | Selecting "ServiceEndpoint list"
  | Calling ServiceEndpoint
  | Returned bytes

record call_thread =
  ct_service :: bytes
  ct_method :: bytes
  ct_data :: bytes
  ct_state :: call_state

definition callAsync :: "bytes \<Rightarrow> bytes \<Rightarrow> bytes \<Rightarrow> call_thread" where
  "callAsync service_name method_name request_data =
     \<lparr>ct_service = service_name, ct_method = method_name, ct_data = request_data, ct_state = Launched\<rparr>"

fun call_step ::
    "pb_runtime \<Rightarrow> exchange \<Rightarrow> (ServiceEndpoint \<Rightarrow> nat \<Rightarrow> exchange \<times> bytes) \<Rightarrow> int \<Rightarrow> bytes \<Rightarrow> bytes \<Rightarrow> bytes \<Rightarrow>
     call_state \<Rightarrow> RpcClient \<Rightarrow> call_state \<times> RpcClient" where
  "call_step rt registry net now s m d Launched c = (Looking, c\<lparr>cl_total_calls := cl_total_calls c + 1\<rparr>)"
| "call_step rt registry net now s m d Looking c =
     (case map_of (cl_service_cache c) s of
        Some es \<Rightarrow> if es \<noteq> [] \<and> \<not> isExpired (cl_service_cache_ttl c) now (es ! 0)
                   then (Selecting es, c\<lparr>cl_cache_hits := cl_cache_hits c + 1\<rparr>) else (Missed, c)
      | None \<Rightarrow> (Missed, c))"
| "call_step rt registry net now s m d Missed c = (Discovering, c\<lparr>cl_cache_misses := cl_cache_misses c + 1\<rparr>)"
| "call_step rt registry net now s m d Discovering c =
     (let endpoints = discoverServiceFromRegistry rt registry now s in
      if endpoints \<noteq> [] then (Storing endpoints, c)
      else (Returned [], c\<lparr>cl_failed_calls := cl_failed_calls c + 1\<rparr>))"
| "call_step rt registry net now s m d (Storing endpoints) c =
     (Selecting endpoints, c\<lparr>cl_service_cache := AList.update s endpoints (cl_service_cache c)\<rparr>)"
| "call_step rt registry net now s m d (Selecting endpoints) c =
     (case selectEndpoint endpoints c of
        None \<Rightarrow> (Returned [], c\<lparr>cl_failed_calls := cl_failed_calls c + 1\<rparr>)
      | Some (endpoint, c) \<Rightarrow> (Calling endpoint, c))"
| "call_step rt registry net now s m d (Calling endpoint) c =
     (let r = callWithRetry rt (net endpoint) s m d c in
      if r \<noteq> [] then (Returned r, c\<lparr>cl_successful_calls := cl_successful_calls c + 1\<rparr>)
      else (Returned r, c\<lparr>cl_failed_calls := cl_failed_calls c + 1\<rparr>))"
| "call_step rt registry net now s m d (Returned r) c = (Returned r, c)"

definition returned :: "call_thread \<Rightarrow> bool" where
  "returned t \<longleftrightarrow> (case ct_state t of Returned r \<Rightarrow> True | _ \<Rightarrow> False)"

definition advance ::
    "pb_runtime \<Rightarrow> exchange \<Rightarrow> (ServiceEndpoint \<Rightarrow> nat \<Rightarrow> exchange \<times> bytes) \<Rightarrow> int \<Rightarrow> nat \<Rightarrow>
     RpcClient \<times> call_thread list \<Rightarrow> RpcClient \<times> call_thread list" where
  "advance rt registry net now i = (\<lambda>(c, ts).
     let t = ts ! i; (st, c) = call_step rt registry net now (ct_service t) (ct_method t) (ct_data t) (ct_state t) c
     in (c, ts[i := t\<lparr>ct_state := st\<rparr>]))"

inductive client_move ::
    "pb_runtime \<Rightarrow> RpcClient \<times> call_thread list \<Rightarrow> RpcClient \<times> call_thread list \<Rightarrow> bool" for rt where
  launch: "client_move rt (c, ts) (c, ts @ [callAsync s m d])"
| step: "i < length ts \<Longrightarrow> \<not> returned (ts ! i) \<Longrightarrow> client_move rt (c, ts) (advance rt registry net now i (c, ts))"

inductive client_reached ::
    "pb_runtime \<Rightarrow> RpcClient \<Rightarrow> RpcClient \<times> call_thread list \<Rightarrow> bool" for rt c0 where
  init: "client_reached rt c0 (c0, [])"
| move: "client_reached rt c0 x \<Longrightarrow> client_move rt x y \<Longrightarrow> client_reached rt c0 y"

inductive_cases client_moveE: "client_move rt x y"

section \<open>The counters\<close>

text \<open>What a call in a state has contributed to each counter.\<close>

fun counted :: "call_state \<Rightarrow> u64" where
  "counted Launched = 0"
| "counted _ = 1"

fun looked :: "call_state \<Rightarrow> u64" where
  "looked Launched = 0"
| "looked Looking = 0"
| "looked Missed = 0"
| "looked _ = 1"

fun succeeded :: "call_state \<Rightarrow> u64" where
  "succeeded (Returned r) = (if r \<noteq> [] then 1 else 0)"
| "succeeded _ = 0"

fun failed :: "call_state \<Rightarrow> u64" where
  "failed (Returned r) = (if r = [] then 1 else 0)"
| "failed _ = 0"

definition total_of :: "(call_state \<Rightarrow> u64) \<Rightarrow> call_thread list \<Rightarrow> u64" where
  "total_of w ts = sum_list (map (\<lambda>t. w (ct_state t)) ts)"

lemma total_of_Nil [simp]: "total_of w [] = 0"
  by (simp add: total_of_def)

lemma total_of_launch: "w Launched = 0 \<Longrightarrow> total_of w (ts @ [callAsync s m d]) = total_of w ts"
  by (simp add: total_of_def callAsync_def)

lemma total_of_set: "i < length ts \<Longrightarrow>
    total_of w (ts[i := t\<lparr>ct_state := st\<rparr>]) + w (ct_state (ts ! i)) = total_of w ts + w st"
  using sum_list_set_nth [of i ts "\<lambda>t. w (ct_state t)"] by (simp add: total_of_def)

lemma call_step_counters:
  assumes "call_step rt registry net now s m d st c = (st', c')"
  shows "cl_total_calls c' + counted st = cl_total_calls c + counted st'"
    and "cl_cache_hits c' + cl_cache_misses c' + looked st = cl_cache_hits c + cl_cache_misses c + looked st'"
    and "cl_successful_calls c' + succeeded st = cl_successful_calls c + succeeded st'"
    and "cl_failed_calls c' + failed st = cl_failed_calls c + failed st'"
  using assms by (cases st; auto simp: Let_def selectEndpoint_def split: option.splits if_splits)+

definition books :: "RpcClient \<Rightarrow> call_thread list \<Rightarrow> bool" where
  "books c ts \<longleftrightarrow> cl_total_calls c = total_of counted ts \<and>
     cl_cache_hits c + cl_cache_misses c = total_of looked ts \<and>
     cl_successful_calls c = total_of succeeded ts \<and> cl_failed_calls c = total_of failed ts"

lemma books_step:
  assumes "books c ts" and "i < length ts" and "advance rt registry net now i (c, ts) = (c', ts')"
  shows "books c' ts'"
proof -
  let ?t = "ts ! i"
  obtain st' where st: "call_step rt registry net now (ct_service ?t) (ct_method ?t) (ct_data ?t) (ct_state ?t) c = (st', c')"
    and ts': "ts' = ts[i := ?t\<lparr>ct_state := st'\<rparr>]"
    using assms(3) by (auto simp: advance_def Let_def split: prod.splits)
  have eq: "x' = total_of w ts'" if "x' + w (ct_state ?t) = x + w st'" and "x = total_of w ts" for x x' and w :: "call_state \<Rightarrow> u64"
    using total_of_set [OF assms(2), of w st' ?t] that by (simp add: ts') (metis add_right_cancel)
  show ?thesis unfolding books_def
    using call_step_counters [OF st, THEN eq] assms(1) by (simp add: books_def)
qed

lemma books_reached:
  assumes "client_reached rt (RpcClient_new n ttl) x"
  shows "books (fst x) (snd x)"
  using assms
proof (induction rule: client_reached.induct)
  case init
  then show ?case by (simp add: books_def RpcClient_new_def)
next
  case (move x y)
  from move.hyps(2) show ?case
  proof (cases rule: client_move.cases)
    case (launch c ts s m d)
    then show ?thesis using move.IH by (simp add: books_def total_of_launch)
  next
    case (step i ts c registry net now)
    then show ?thesis using move.IH books_step [of c ts i rt registry net now]
      by (cases "advance rt registry net now i (c, ts)") simp
  qed
qed

lemma total_of_indicator:
  "(\<And>st. w st = (if P st then 1 else 0)) \<Longrightarrow> total_of w ts = of_nat (length (filter (\<lambda>t. P (ct_state t)) ts))"
  by (induction ts) (simp_all add: total_of_def)

lemma indicators:
  "counted st = (if st \<noteq> Launched then 1 else 0)"
  "succeeded st = (if \<exists>r. st = Returned r \<and> r \<noteq> [] then 1 else 0)"
  "failed st = (if st = Returned [] then 1 else 0)"
  by (cases st; simp)+

lemma returned_looked: "list_all returned ts \<Longrightarrow> total_of looked ts = of_nat (length ts)"
  by (induction ts) (auto simp: total_of_def returned_def split: call_state.splits)

lemma returned_counted: "list_all returned ts \<Longrightarrow> total_of counted ts = of_nat (length ts)"
  by (induction ts) (auto simp: total_of_def returned_def split: call_state.splits)

text \<open>C10. The statistics of a client add up whatever calls run at the same time: once all of them have
  returned, as many calls were counted as were started, each looked into the cache once, as a hit or
  a miss, those that returned a result are the successful and all others the failed ones.\<close>

theorem calls_accounted:
  assumes "client_reached rt (RpcClient_new n ttl) (c, ts)" and "list_all returned ts"
  shows "cl_total_calls c = of_nat (length ts) \<and> cl_cache_hits c + cl_cache_misses c = of_nat (length ts) \<and>
    cl_successful_calls c = of_nat (length (filter (\<lambda>t. ct_state t \<noteq> Returned []) ts)) \<and>
    cl_failed_calls c = of_nat (length (filter (\<lambda>t. ct_state t = Returned []) ts))"
proof -
  have "(\<exists>r. ct_state t = Returned r \<and> r \<noteq> []) \<longleftrightarrow> ct_state t \<noteq> Returned []" if "t \<in> set ts" for t
    using assms(2) that by (cases "ct_state t") (auto simp: list_all_iff returned_def)
  then have f: "filter (\<lambda>t. \<exists>r. ct_state t = Returned r \<and> r \<noteq> []) ts = filter (\<lambda>t. ct_state t \<noteq> Returned []) ts"
    by (auto intro: filter_cong)
  show ?thesis
    using books_reached [OF assms(1)] total_of_indicator [OF indicators(2), where ts = ts]
      total_of_indicator [OF indicators(3), where ts = ts] assms(2)
    by (simp add: books_def returned_looked returned_counted f)
qed

section \<open>Every call ends\<close>

text \<open>The number of steps a call still has at most.\<close>

fun rank :: "call_state \<Rightarrow> nat" where
  "rank Launched = 7"
| "rank Looking = 6"
| "rank Missed = 5"
| "rank Discovering = 4"
| "rank (Storing es) = 3"
| "rank (Selecting es) = 2"
| "rank (Calling e) = 1"
| "rank (Returned r) = 0"

lemma call_step_rank: "rank (fst (call_step rt registry net now s m d st c)) \<le> rank st - 1"
  by (cases st) (auto simp: Let_def split: option.split)

lemma rank_returned: "rank (ct_state t) = 0 \<longleftrightarrow> returned t"
  by (cases "ct_state t") (simp_all add: returned_def)

text \<open>A schedule: which thread takes the next step, and what its environment answers then.\<close>

type_synonym turn = "nat \<times> exchange \<times> (ServiceEndpoint \<Rightarrow> nat \<Rightarrow> exchange \<times> bytes) \<times> int"

definition run_turns :: "pb_runtime \<Rightarrow> turn list \<Rightarrow> RpcClient \<times> call_thread list \<Rightarrow> RpcClient \<times> call_thread list" where
  "run_turns rt = fold (\<lambda>(i, registry, net, now). advance rt registry net now i)"

lemma advance_rank:
  assumes "j < length ts" and "i < length ts"
  shows "length (snd (advance rt registry net now i (c, ts))) = length ts \<and>
    rank (ct_state (snd (advance rt registry net now i (c, ts)) ! j)) \<le>
      rank (ct_state (ts ! j)) - (if i = j then 1 else 0)"
  using assms call_step_rank [of rt registry net now "ct_service (ts ! i)" "ct_method (ts ! i)" "ct_data (ts ! i)" "ct_state (ts ! i)" c]
  by (auto simp: advance_def Let_def nth_list_update split: prod.split)

lemma run_turns_rank:
  assumes "j < length ts" and "list_all (\<lambda>turn. fst turn < length ts) turns"
  shows "length (snd (run_turns rt turns (c, ts))) = length ts \<and>
    rank (ct_state (snd (run_turns rt turns (c, ts)) ! j)) \<le>
      rank (ct_state (ts ! j)) - length (filter (\<lambda>turn. fst turn = j) turns)"
  using assms
proof (induction turns arbitrary: c ts)
  case (Cons turn turns)
  obtain i registry net now where turn: "turn = (i, registry, net, now)" by (cases turn)
  obtain c' ts' where a: "advance rt registry net now i (c, ts) = (c', ts')" by (cases "advance rt registry net now i (c, ts)")
  have i: "i < length ts" using Cons.prems(2) by (simp add: turn)
  note r = advance_rank [OF Cons.prems(1) i, of rt registry net now c, unfolded a snd_conv]
  have f: "run_turns rt (turn # turns) (c, ts) = run_turns rt turns (c', ts')" by (simp add: run_turns_def turn a)
  have l: "length (snd (run_turns rt turns (c', ts'))) = length ts \<and>
      rank (ct_state (snd (run_turns rt turns (c', ts')) ! j)) \<le>
        rank (ct_state (ts' ! j)) - length (filter (\<lambda>turn. fst turn = j) turns)"
    using Cons.IH [of ts' c'] r Cons.prems by simp
  have "length (filter (\<lambda>turn. fst turn = j) (turn # turns)) =
      (if i = j then 1 else 0) + length (filter (\<lambda>turn. fst turn = j) turns)" by (simp add: turn)
  then show ?case using l r unfolding f by linarith
qed (simp add: run_turns_def)



section \<open>One call at a time\<close>

abbreviation step_alone :: "pb_runtime \<Rightarrow> exchange \<Rightarrow> (ServiceEndpoint \<Rightarrow> nat \<Rightarrow> exchange \<times> bytes) \<Rightarrow> int \<Rightarrow> bytes \<Rightarrow> bytes \<Rightarrow>
    bytes \<Rightarrow> call_state \<times> RpcClient \<Rightarrow> call_state \<times> RpcClient" where
  "step_alone rt registry net now s m d \<equiv> (\<lambda>(st, c). call_step rt registry net now s m d st c)"

lemma alone_returned: "(step_alone rt registry net now s m d ^^ k) (Returned r, c) = (Returned r, c)"
  by (induction k) simp_all

lemma alone_selecting:
  "(step_alone rt registry net now s m d ^^ Suc (Suc k)) (Selecting es, c) =
    (case selectEndpoint es c of None \<Rightarrow> (Returned [], c\<lparr>cl_failed_calls := cl_failed_calls c + 1\<rparr>)
     | Some (e, c) \<Rightarrow> let r = callWithRetry rt (net e) s m d c in
         (Returned r, if r \<noteq> [] then c\<lparr>cl_successful_calls := cl_successful_calls c + 1\<rparr>
           else c\<lparr>cl_failed_calls := cl_failed_calls c + 1\<rparr>))"
  by (simp add: funpow_Suc_right alone_returned Let_def del: funpow.simps split: option.split)

text \<open>A call whose discovery found endpoints computes the rest from them.\<close>

lemma alone_found:
  assumes "discoverService rt registry now s (c\<lparr>cl_total_calls := cl_total_calls c + 1\<rparr>) = (es, c1)" and "es \<noteq> []"
    and "(step_alone rt registry net now s m d ^^ 7) (Launched, c) =
      (step_alone rt registry net now s m d ^^ Suc (Suc k)) (Selecting es, c1)"
  shows "(step_alone rt registry net now s m d ^^ 7) (Launched, c) =
    (let (r, c') = RpcClient_call rt registry net now s m d c in (Returned r, c'))"
  using assms unfolding assms(3) alone_selecting by (simp add: RpcClient_call_def Let_def split: option.split)

lemma seven_steps:
  "(f ^^ 7) x = (f ^^ 5) ((f ^^ 2) x)" "(f ^^ 5) x = (f ^^ 4) (f x)" "(f ^^ 4) x = (f ^^ 2) (f (f x))"
  for f :: "'a \<Rightarrow> 'a"
  by (simp_all add: numeral_eq_Suc funpow_swap1)


section \<open>The unguarded map\<close>

text \<open>
  A call in \<open>selectEndpoint\<close> with several endpoints is inside \<open>round_robin_counters_[key]\<close>, and
  inserts when the key is not there yet. An insertion while another call is inside is a data race:
  the behaviour of the program is undefined from there on.
\<close>

definition counter_key :: "ServiceEndpoint list \<Rightarrow> bytes" where
  "counter_key endpoints = en_host (endpoints ! 0) @ '':'' @ to_string (en_port (endpoints ! 0))"

fun inside_map :: "call_state \<Rightarrow> bool" where
  "inside_map (Selecting endpoints) \<longleftrightarrow> 1 < length endpoints"
| "inside_map _ \<longleftrightarrow> False"

fun inserting :: "RpcClient \<Rightarrow> call_state \<Rightarrow> bool" where
  "inserting c (Selecting endpoints) \<longleftrightarrow>
     1 < length endpoints \<and> map_of (cl_round_robin_counters c) (counter_key endpoints) = None"
| "inserting c _ \<longleftrightarrow> False"

definition racing :: "RpcClient \<times> call_thread list \<Rightarrow> bool" where
  "racing = (\<lambda>(c, ts). list_ex (\<lambda>i. list_ex (\<lambda>j. i \<noteq> j \<and> inserting c (ct_state (ts ! i)) \<and>
     inside_map (ct_state (ts ! j))) [0..<length ts]) [0..<length ts])"

lemma run_turns_reached:
  "client_reached rt c0 x \<Longrightarrow> list_all (\<lambda>turn. fst turn < length (snd x)) turns \<Longrightarrow>
   client_reached rt c0 (run_turns rt turns x)"
proof (induction turns arbitrary: x)
  case (Cons turn turns)
  obtain i registry net now where turn: "turn = (i, registry, net, now)" by (cases turn)
  obtain c ts where x: "x = (c, ts)" by (cases x)
  have i: "i < length ts" using Cons.prems(2) by (simp add: turn x)
  have "client_reached rt c0 (advance rt registry net now i (c, ts))"
  proof (cases "returned (ts ! i)")
    case True
    then obtain r where r: "ct_state (ts ! i) = Returned r" by (auto simp: returned_def split: call_state.splits)
    then have same: "(ts ! i)\<lparr>ct_state := Returned r\<rparr> = ts ! i" by (cases "ts ! i") simp
    have "advance rt registry net now i (c, ts) = (c, ts[i := ts ! i])"
      using r by (simp add: advance_def Let_def same)
    then show ?thesis using Cons.prems(1) by (simp add: x)
  qed (use Cons.prems(1) i in \<open>simp add: x client_reached.move client_move.step\<close>)
  moreover have "length (snd (advance rt registry net now i (c, ts))) = length ts"
    by (simp add: advance_def Let_def split: prod.split)
  ultimately show ?case
    using Cons.IH [of "advance rt registry net now i (c, ts)"] Cons.prems(2) by (simp add: run_turns_def turn x)
qed (simp add: run_turns_def)

lemma two_launched: "client_reached rt c0 (c0, [callAsync s m d, callAsync s m d])"
proof -
  have "client_reached rt c0 (c0, [] @ [callAsync s m d])"
    by (rule client_reached.move [OF client_reached.init client_move.launch])
  then have "client_reached rt c0 (c0, ([] @ [callAsync s m d]) @ [callAsync s m d])"
    by (rule client_reached.move [OF _ client_move.launch])
  then show ?thesis by simp
qed


section \<open>Witnesses\<close>

definition two_instances :: "bytes \<Rightarrow> bytes option" where
  "two_instances request = Some (ServiceDiscoveryResponse_serialize std_runtime (ServiceDiscoveryResponse_default
     \<lparr>ds_services := [ServiceInfo_default\<lparr>info_host := ''h'', info_port := 80\<rparr>,
        ServiceInfo_default\<lparr>info_host := ''g'', info_port := 81\<rparr>]\<rparr>))"


definition failing_turns :: "turn list" where
  "failing_turns = concat (replicate 7 [(0, \<lambda>_. None, \<lambda>_ _. (\<lambda>_. None, []), 5), (1, \<lambda>_. None, \<lambda>_ _. (\<lambda>_. None, []), 6)])"


lemma calls_accounted_witness:
  "cl_failed_calls (fst (run_turns std_runtime failing_turns
     (RpcClient_new 3 30, [callAsync ''S'' ''m'' ''x'', callAsync ''S'' ''m'' ''x'']))) = 2"
proof -
  let ?x = "run_turns std_runtime failing_turns
     (RpcClient_new 3 30, [callAsync ''S'' ''m'' ''x'', callAsync ''S'' ''m'' ''x''])"
  obtain c ts where x: "?x = (c, ts)" by (cases ?x)
  have "client_reached std_runtime (RpcClient_new 3 30) ?x"
    by (rule run_turns_reached [OF two_launched]) (simp add: failing_turns_def numeral_eq_Suc)
  moreover have "map ct_state (snd ?x) = [Returned [], Returned []]" by code_simp
  moreover from this have "list_all returned (snd ?x)" by (auto simp: x returned_def)
  ultimately show ?thesis using calls_accounted [of std_runtime 3 30 c ts] by (auto simp: x)
qed


end
