(* ===== verification/Message_Transfer.thy ===== *)
theory Message_Transfer
  imports Network_Properties Rpc_Properties "HOL-Library.Multiset"
begin

text \<open>
  Typed messages over the transports. \<open>wire_codec\<close> is what the protobuf messages promise to the
  connections that carry them: a well-formed message is read back from its bytes. What follows for
  every kind of message is that a stream of messages arrives as it was sent, on both transports.
  The RPC server is the client of two codecs: it takes requests off a stream, its thread pool handles
  them in some order, and the responses form a stream again.
\<close>

section \<open>Codecs\<close>

text \<open>The results of \<open>n\<close> calls of \<open>receive\<close>.\<close>

primrec receive_many :: "nat \<Rightarrow> TcpConnection \<Rightarrow> sock \<Rightarrow> bytes list" where
  "receive_many 0 c s = []"
| "receive_many (Suc n) c s = (let (data, c, s) = TcpConnection_receive c s in data # receive_many n c s)"

locale wire_codec =
  fixes ser :: "'m \<Rightarrow> bytes"
    and deser :: "bytes \<Rightarrow> 'm option"
    and valid :: "'m \<Rightarrow> bool"
  assumes decode: "valid m \<Longrightarrow> deser (ser m) = Some m"
begin

lemma decode_all: "list_all valid ms \<Longrightarrow> map (\<lambda>m. deser (ser m)) ms = map Some ms"
  by (induction ms) (simp_all add: decode)

text \<open>Two well-formed messages with the same bytes are the same message.\<close>

lemma ser_inj: "valid m \<Longrightarrow> valid m' \<Longrightarrow> ser m = ser m' \<Longrightarrow> m = m'"
  by (metis decode option.inject)

text \<open>The blocking transport: as many calls of \<open>receive\<close> as there are messages yield them.\<close>

lemma received_all:
  "list_all (\<lambda>m. valid m \<and> ser m \<noteq> [] \<and> length (ser m) \<le> max_message) ms \<Longrightarrow> tc_connected c \<Longrightarrow> sk_rx s = concat (map (\<lambda>m. frame (ser m)) ms) @ rest \<Longrightarrow>
   map deser (receive_many (length ms) c s) = map Some ms"
proof (induction ms arbitrary: s)
  case (Cons m ms)
  have "TcpConnection_receive c s = (ser m, c, s\<lparr>sk_rx := concat (map (\<lambda>m. frame (ser m)) ms) @ rest\<rparr>)"
    using receive_frame [of c s "ser m"] Cons.prems by simp
  then show ?case using Cons by (simp add: decode)
qed simp

text \<open>The event-driven transport: the tasks handed to the pool parse to the messages sent.\<close>

lemma extracted_all:
  assumes "list_all valid ms" and "list_all (\<lambda>m. short (ser m)) ms"
    and "concat chunks = concat (map (\<lambda>m. frame (ser m)) ms)"
    and "map_of (ep_connections s) fd = Some (ClientConnection_new fd)" and "ep_has_handler s"
  shows "ep_tasks (handleClientData fd chunks e s) = ep_tasks s @ map (\<lambda>m. (fd, ser m)) ms"
    and "map (\<lambda>m. deser (ser m)) ms = map Some ms"
proof -
  have "list_all short (map ser ms)" using assms(2) by (simp add: list_all_iff)
  moreover have "concat chunks = concat (map frame (map ser ms))" using assms(3) by (simp add: comp_def)
  ultimately have "fold (feed extractMessages) chunks ([], []) = (map ser ms, [])" by (rule ep.receive_all)
  then show "ep_tasks (handleClientData fd chunks e s) = ep_tasks s @ map (\<lambda>m. (fd, ser m)) ms"
    using handleClientData_open [OF assms(4) _ assms(5), of chunks "map ser ms" "[]" e]
    by (simp add: ClientConnection_new_def comp_def)
qed (rule decode_all [OF assms(1)])

end

text \<open>The messages of a call are codecs over every conforming runtime.\<close>

lemma request_codec:
  "pb_wire rt \<Longrightarrow> wire_codec (RpcRequest_serialize rt) (RpcRequest_deserialize rt) (RpcRequest_ok rt)"
  by unfold_locales (rule pb_wire.RpcRequest_roundtrip)

lemma response_codec:
  "pb_wire rt \<Longrightarrow> wire_codec (RpcResponse_serialize rt) (RpcResponse_deserialize rt) (RpcResponse_ok rt)"
  by unfold_locales (rule pb_wire.RpcResponse_roundtrip)

interpretation std_request: wire_codec "RpcRequest_serialize std_runtime" "RpcRequest_deserialize std_runtime"
    "RpcRequest_ok std_runtime"
  by (rule request_codec [OF std.pb_wire_axioms])

interpretation std_response: wire_codec "RpcResponse_serialize std_runtime" "RpcResponse_deserialize std_runtime"
    "RpcResponse_ok std_runtime"
  by (rule response_codec [OF std.pb_wire_axioms])

text \<open>The responses a connection can carry.\<close>

definition carried :: "pb_runtime \<Rightarrow> RpcResponse \<Rightarrow> bool" where
  "carried rt a \<longleftrightarrow> RpcResponse_ok rt a \<and> RpcResponse_serialize rt a \<noteq> [] \<and> length (RpcResponse_serialize rt a) \<le> max_message"

section \<open>A stream of requests\<close>

text \<open>
  The workers handle the tasks of the pool in the order of the list; \<open>result\<close> is what every
  \<open>send\<close> returns. The bytes on the wire and the server afterwards.
\<close>

fun serve :: "pb_runtime \<Rightarrow> int \<Rightarrow> (int \<times> bytes) list \<Rightarrow> RpcServer \<Rightarrow> bytes \<times> RpcServer" where
  "serve rt result [] s = ([], s)"
| "serve rt result ((fd, data) # tasks) s =
     (let (wire, s) = handleRpcRequest rt fd data result s; (rest, s) = serve rt result tasks s in (wire @ rest, s))"

lemma handle_keeps_connections:
  "ep_connections (sv_epoll (snd (handleRpcRequest rt fd data result s))) = ep_connections (sv_epoll s)"
proof -
  have "ep_connections (snd (snd (sendResponse fd d r e))) = ep_connections e" for d r e
    by (simp add: sendResponse_def Let_def split: option.split)
  then show ?thesis
    by (auto simp: handleRpcRequest_def sendErrorResponse_def count_failure_def Let_def case_prod_unfold
        split: option.splits sum.splits)
qed

lemma serve_answers:
  assumes "map_of (ep_connections (sv_epoll s)) fd = Some conn"
    and "list_all (\<lambda>q. RpcRequest_deserialize rt (RpcRequest_serialize rt q) = Some q \<and>
      int (length (frame (RpcResponse_serialize rt (answer (sv_handlers s) q)))) \<le> result) qs"
  shows "fst (serve rt result (map (\<lambda>q. (fd, RpcRequest_serialize rt q)) qs) s) =
    concat (map (\<lambda>q. frame (RpcResponse_serialize rt (answer (sv_handlers s) q))) qs)"
  using assms
proof (induction qs arbitrary: s)
  case (Cons q qs)
  let ?h = "handleRpcRequest rt fd (RpcRequest_serialize rt q) result s"
  have q: "RpcRequest_deserialize rt (RpcRequest_serialize rt q) = Some q"
    and r: "int (length (frame (RpcResponse_serialize rt (answer (sv_handlers s) q)))) \<le> result"
    using Cons.prems(2) by simp_all
  have "fst ?h = frame (RpcResponse_serialize rt (answer (sv_handlers s) q))"
    using handleRpcRequest_parsed(1) [OF q, of fd result s] sendResponse_complete [OF Cons.prems(1) r] by simp
  moreover have "sv_handlers (snd ?h) = sv_handlers s" by (rule handleRpcRequest_parsed(2) [OF q])
  moreover have "ep_connections (sv_epoll (snd ?h)) = ep_connections (sv_epoll s)" by (rule handle_keeps_connections)
  ultimately show ?case
    using Cons.IH [of "snd ?h"] Cons.prems by (simp add: case_prod_unfold Let_def)
qed simp

lemma data_keeps_connection:
  assumes "map_of (ep_connections s) fd = Some (ClientConnection_new fd)" and "ep_has_handler s"
  shows "\<exists>conn. map_of (ep_connections (handleClientData fd chunks WouldBlock s)) fd = Some conn"
proof -
  obtain ms r where "fold (feed extractMessages) chunks ([], cc_receive_buffer (ClientConnection_new fd)) = (ms, r)"
    by (cases "fold (feed extractMessages) chunks ([], cc_receive_buffer (ClientConnection_new fd))")
  from read_chunks [OF assms this] show ?thesis
    using assms(1) by (simp add: handleClientData_def ClientConnection_new_def Let_def)
qed

lemma mset_map_order:
  "mset xs = mset (map f ys) \<Longrightarrow> \<exists>ys'. mset ys' = mset ys \<and> xs = map f ys'"
proof (induction ys arbitrary: xs)
  case (Cons y ys)
  then have "f y \<in> set xs" by (metis list.set_intros(1) list.simps(9) mset_eq_setD)
  then obtain a b where xs: "xs = a @ f y # b" by (meson split_list)
  then have "mset (a @ b) = mset (map f ys)" using Cons.prems by simp
  from Cons.IH [OF this] obtain ys' where ys': "mset ys' = mset ys" "a @ b = map f ys'" by blast
  then obtain u v where "ys' = u @ v" "a = map f u" "b = map f v" by (metis append_eq_map_conv)
  then show ?case using ys'(1) by (intro exI [of _ "u @ y # v"]) (simp add: xs)
qed simp

text \<open>Requests that arrive on one connection without waiting for each other, however their bytes are
  cut into reads, are all answered: whatever order the workers take them in, the peer receives one
  response for each, the handler's result or the error the dispatch gives, in that order.\<close>

theorem requests_all_answered:
  assumes "pb_wire rt" and "list_all (RpcRequest_ok rt) qs" and "list_all (\<lambda>q. short (RpcRequest_serialize rt q)) qs"
    and "concat chunks = concat (map (\<lambda>q. frame (RpcRequest_serialize rt q)) qs)"
    and "map_of (ep_connections e) fd = Some (ClientConnection_new fd)" and "ep_has_handler e" and "ep_tasks e = []"
    and "sv_epoll s = handleClientData fd chunks WouldBlock e"
    and "mset tasks = mset (ep_tasks (sv_epoll s))"
    and "list_all (\<lambda>q. RpcResponse_ok rt (answer (sv_handlers s) q) \<and>
      RpcResponse_serialize rt (answer (sv_handlers s) q) \<noteq> [] \<and>
      length (RpcResponse_serialize rt (answer (sv_handlers s) q)) \<le> max_message) qs"
    and "int max_message + 4 \<le> result" and "tc_connected c" and "sk_rx k = fst (serve rt result tasks s)"
  shows "\<exists>qs'. mset qs' = mset qs \<and> tasks = map (\<lambda>q. (fd, RpcRequest_serialize rt q)) qs' \<and>
    map (RpcResponse_deserialize rt) (receive_many (length qs) c k) = map (\<lambda>q. Some (answer (sv_handlers s) q)) qs'"
proof -
  note codec = wire_codec.extracted_all [OF request_codec [OF assms(1)] assms(2-6)]
  have "ep_tasks (sv_epoll s) = map (\<lambda>q. (fd, RpcRequest_serialize rt q)) qs"
    using codec(1) [of WouldBlock] assms(7,8) by simp
  then obtain qs' where qs': "mset qs' = mset qs" and tasks: "tasks = map (\<lambda>q. (fd, RpcRequest_serialize rt q)) qs'"
    using mset_map_order assms(9) by metis
  have set: "set qs' = set qs" and len: "length qs' = length qs"
    using qs' by (metis mset_eq_setD, metis mset_eq_length)
  obtain conn where conn: "map_of (ep_connections (sv_epoll s)) fd = Some conn"
    using data_keeps_connection [OF assms(5,6)] assms(8) by auto
  let ?answer = "answer (sv_handlers s)"
  have ok: "list_all (\<lambda>a. RpcResponse_ok rt a \<and> RpcResponse_serialize rt a \<noteq> [] \<and>
      length (RpcResponse_serialize rt a) \<le> max_message) (map ?answer qs')"
    using assms(10) set by (simp add: list_all_iff)
  have "list_all (\<lambda>q. RpcRequest_deserialize rt (RpcRequest_serialize rt q) = Some q \<and>
      int (length (frame (RpcResponse_serialize rt (?answer q)))) \<le> result) qs'"
    using assms(2,10,11) set pb_wire.RpcRequest_roundtrip [OF assms(1)]
    by (force simp: list_all_iff length_frame)
  from serve_answers [OF conn this] have "sk_rx k = concat (map (\<lambda>a. frame (RpcResponse_serialize rt a)) (map ?answer qs')) @ []"
    by (simp add: assms(13) tasks comp_def)
  from wire_codec.received_all [OF response_codec [OF assms(1)] ok assms(12) this]
  have "map (RpcResponse_deserialize rt) (receive_many (length qs) c k) = map (\<lambda>q. Some (?answer q)) qs'"
    by (simp add: len comp_def)
  then show ?thesis using qs' tasks by blast
qed

text \<open>Two requests, cut into single bytes, handled in the opposite order.\<close>

definition pipelined :: "RpcRequest list" where
  "pipelined = map (\<lambda>i. RpcRequest_default\<lparr>rq_service_name := ''S'', rq_method_name := ''m'',
     rq_request_data := ''hi'', rq_request_id := i\<rparr>) [''1'', ''2'']"

definition pipelined_server :: RpcServer where
  "pipelined_server = server_ex\<lparr>sv_epoll := handleClientData 7
     (map (\<lambda>c. [c]) (concat (map (\<lambda>q. frame (RpcRequest_serialize std_runtime q)) pipelined))) WouldBlock epoll_ex\<rparr>"

definition reversed :: "(int \<times> bytes) list" where
  "reversed = map (\<lambda>q. (7, RpcRequest_serialize std_runtime q)) (rev pipelined)"

lemma pipelined_facts:
  "list_all (RpcRequest_ok std_runtime) pipelined"
  "list_all (\<lambda>q. short (RpcRequest_serialize std_runtime q)) pipelined"
  "list_all (\<lambda>q. RpcResponse_ok std_runtime (answer (sv_handlers server_ex) q) \<and>
     RpcResponse_serialize std_runtime (answer (sv_handlers server_ex) q) \<noteq> [] \<and>
     length (RpcResponse_serialize std_runtime (answer (sv_handlers server_ex) q)) \<le> max_message) pipelined"
proof -
  have size: "map (RpcRequest_ByteSizeLong std_runtime) pipelined = [13, 13]"
    "map (\<lambda>q. length (RpcRequest_serialize std_runtime q)) pipelined = [13, 13]"
    "map (\<lambda>q. RpcResponse_ByteSizeLong std_runtime (answer (sv_handlers server_ex) q)) pipelined = [8, 8]"
    "map (\<lambda>q. length (RpcResponse_serialize std_runtime (answer (sv_handlers server_ex) q))) pipelined = [8, 8]"
    by code_simp+
  have utf8: "rt_VerifyUTF8 std_runtime ''S''" "rt_VerifyUTF8 std_runtime ''m''" "rt_VerifyUTF8 std_runtime ''1''"
    "rt_VerifyUTF8 std_runtime ''2''" "rt_VerifyUTF8 std_runtime ''''" by code_simp+
  show "list_all (RpcRequest_ok std_runtime) pipelined"
    using size(1) utf8 by (simp add: pipelined_def RpcRequest_ok_def RpcRequest_default_def pb_limit_def)
  show "list_all (\<lambda>q. short (RpcRequest_serialize std_runtime q)) pipelined"
    using size(2) by (simp add: pipelined_def short_def)
  show "list_all (\<lambda>q. RpcResponse_ok std_runtime (answer (sv_handlers server_ex) q) \<and>
     RpcResponse_serialize std_runtime (answer (sv_handlers server_ex) q) \<noteq> [] \<and>
     length (RpcResponse_serialize std_runtime (answer (sv_handlers server_ex) q)) \<le> max_message) pipelined"
    using size(3,4) utf8 by (auto simp: pipelined_def RpcResponse_ok_def RpcResponse_default_def pb_limit_def
        max_message_def answer_def RpcRequest_default_def server_ex_defs echo_def method_key_def Let_def)
qed

lemma requests_all_answered_witness:
  "\<exists>qs'. mset qs' = mset pipelined \<and> reversed = map (\<lambda>q. (7, RpcRequest_serialize std_runtime q)) qs' \<and>
    map (RpcResponse_deserialize std_runtime) (receive_many 2 (TcpConnection_new 3)
      \<lparr>sk_sends = [], sk_tx = [], sk_rx = fst (serve std_runtime (int max_message + 4) reversed pipelined_server), sk_closed = False\<rparr>) =
    map (\<lambda>q. Some (answer (sv_handlers server_ex) q)) qs'"
proof -
  have h: "sv_handlers pipelined_server = sv_handlers server_ex" by (simp add: pipelined_server_def)
  have tasks: "ep_tasks (sv_epoll pipelined_server) = map (\<lambda>q. (7, RpcRequest_serialize std_runtime q)) pipelined"
    by (simp add: pipelined_server_def std_request.extracted_all(1) [OF pipelined_facts(1,2)] epoll_ex_def EpollServer_new_def)
  have two: "length pipelined = 2" by (simp add: pipelined_def)
  show ?thesis
    unfolding two [symmetric] h [symmetric]
    by (rule requests_all_answered [OF std.pb_wire_axioms pipelined_facts(1,2), where e = epoll_ex
          and chunks = "map (\<lambda>c. [c]) (concat (map (\<lambda>q. frame (RpcRequest_serialize std_runtime q)) pipelined))"
          and result = "int max_message + 4"])
      (simp_all add: h pipelined_facts(3) tasks reversed_def TcpConnection_new_def rev_map del: mset_map,
       simp_all add: epoll_ex_def EpollServer_new_def pipelined_server_def)
qed


end
