(* ===== verification/Raft_Cluster_Commit.thy ===== *)
theory Raft_Cluster_Commit
  imports Raft_Cluster_Properties Registry_State_Machine
begin

text \<open>
  What a cluster replicates: nothing. A leader never counts a reply as a replica, and its append
  requests are answered as vote requests, so in no run does any node commit or apply an entry,
  whatever clients propose. For the registry that means that no node ever knows an instance.
\<close>

section \<open>No step of a cluster commits\<close>

definition untouched :: "'m \<Rightarrow> 'm RaftNode \<Rightarrow> bool" where
  "untouched m n \<longleftrightarrow> rn_commit_index n = 0 \<and> rn_last_applied n = 0 \<and> rn_state_machine n = m"

lemma untouched_vote: "untouched m n \<Longrightarrow> untouched m (after_vote q n)"
  by (simp add: untouched_def after_vote_def becomeFollower_def Let_def)

lemma untouched_applier: "applier_round f n = Ret n' \<Longrightarrow> untouched m n \<Longrightarrow> untouched m n'"
  by (auto simp: applier_round_def with_lock_def untouched_def applyCommittedEntries.simps split: if_splits)

lemma untouched_quiet: "quiet_step f b n n' \<Longrightarrow> untouched m n \<Longrightarrow> untouched m n'"
proof (induction rule: quiet_step.induct)
  case (applier n n')
  show ?case by (rule untouched_applier [OF applier(3,4)])
qed (auto simp: untouched_def proposeLogEntry_eq RaftNode_start_def RaftNode_stop_def split: if_splits)

lemma untouched_hear_append:
  "sendAppendEntries [LogMutex, StateMutex] reply p n = Ret (ok, n') \<Longrightarrow> untouched m n \<Longrightarrow> untouched m n'"
  by (auto simp: sendAppendEntries_def with_lock_def updateCommitIndex_def untouched_def
      split: option.splits if_splits)

lemma untouched_finish: "finish_election votes n = Ret n' \<Longrightarrow> untouched m n \<Longrightarrow> untouched m n'"
  by (auto simp: finish_election_def becomeLeader_def getLastLogIndex_def with_lock_def becomeFollower_def
      untouched_def split: if_splits)

definition all_untouched :: "'m \<Rightarrow> 'm Cluster \<Rightarrow> bool" where
  "all_untouched m c \<longleftrightarrow> list_all (untouched m) (cl_nodes c)"

lemma all_untouched_set:
  "all_untouched m c \<Longrightarrow> (i < size_of c \<Longrightarrow> untouched m n) \<Longrightarrow> list_all (untouched m) ((cl_nodes c)[i := n])"
  by (cases "i < size_of c") (auto simp: all_untouched_def list_all_length nth_list_update)

lemma all_untouched_nth: "all_untouched m c \<Longrightarrow> i < size_of c \<Longrightarrow> untouched m (node c i)"
  by (simp add: all_untouched_def list_all_length)

lemma all_untouched_busy: "all_untouched m (c\<lparr>cl_busy := b\<rparr>) = all_untouched m c"
  by (simp add: all_untouched_def)

lemma untouched_visit:
  assumes "raft_wire k" and "visit k data j c = Some (reply, c')" and "all_untouched m c"
  shows "all_untouched m c' \<and> size_of c' = size_of c"
  using assms(1,2)
proof (cases rule: visit_cases)
  case (vote q)
  have "list_all (untouched m) ((cl_nodes c)[j := after_vote q (node c j)])"
    by (rule all_untouched_set [OF assms(3)]) (rule untouched_vote [OF all_untouched_nth [OF assms(3)]])
  then show ?thesis by (simp add: vote(3) all_untouched_def)
qed (use assms(3) in simp)

lemma all_untouched_hear_vote: "all_untouched m c \<Longrightarrow> all_untouched m (hear_vote i reply ps votes q c)"
  using all_untouched_set [of m c i] all_untouched_nth [of m c i]
  by (auto simp: hear_vote_def all_untouched_def dest!: sendRequestVote_locked split: res.split)

lemma all_untouched_hear_append: "all_untouched m c \<Longrightarrow> all_untouched m (hear_append i reply p ps c)"
  using all_untouched_set [of m c i] all_untouched_nth [of m c i] untouched_hear_append
  by (fastforce simp: hear_append_def all_untouched_def split: res.split)

lemma all_untouched_step:
  assumes "cluster_step k lossy f c c'" and "raft_wire k" and "all_untouched m c"
  shows "all_untouched m c'"
  using assms(1)
proof cases
  case (timeout i)
  have "untouched m (candidate (node c i))" if "i < size_of c"
    using all_untouched_nth [OF assms(3) that] by (simp add: untouched_def candidate_def becomeCandidate_def)
  from all_untouched_set [OF assms(3) this] show ?thesis
    by (simp add: timeout begin_election_def Let_def all_untouched_def)
next
  case (decided i votes q n)
  have "untouched m n" using untouched_finish [OF decided(4)] all_untouched_nth [OF assms(3) decided(2)] .
  from all_untouched_set [OF assms(3) this] show ?thesis by (simp add: decided(1) all_untouched_def)
next
  case (quiet i n)
  have "untouched m n" using untouched_quiet [OF quiet(3)] all_untouched_nth [OF assms(3) quiet(2)] .
  from all_untouched_set [OF assms(3) this] show ?thesis by (simp add: quiet(1) all_untouched_def)
next
  case (asked i p ps votes q j reply c1)
  then show ?thesis using untouched_visit [OF assms(2) asked(6) assms(3)] by (simp add: all_untouched_hear_vote)
next
  case (vote_lost i p ps votes q j reply c1)
  then show ?thesis using untouched_visit [OF assms(2) vote_lost(7) assms(3)] by (simp add: all_untouched_hear_vote)
next
  case (replicated i l p ps a j reply c1)
  then show ?thesis using untouched_visit [OF assms(2) replicated(7) assms(3)] by (simp add: all_untouched_hear_append)
next
  case (append_lost i l p ps a j reply c1)
  then show ?thesis using untouched_visit [OF assms(2) append_lost(8) assms(3)] by (simp add: all_untouched_hear_append)
qed (use assms(3) in \<open>simp_all add: all_untouched_hear_vote all_untouched_hear_append all_untouched_busy\<close>)

text \<open>C4. In every run of a cluster of the distributed registry, whatever is proposed and confirmed and
  whichever connections fail, every node's commit index stays 0 and its table of services empty: no
  discovery ever finds an instance.\<close>

theorem cluster_applies_nothing:
  assumes "raft_wire k" and "cluster_run k lossy f (Cluster_new ps RegistryStateMachine_new) c" and "i < size_of c"
  shows "rn_commit_index (node c i) = 0 \<and> rn_last_applied (node c i) = 0 \<and>
    getServiceInstances name (rn_state_machine (node c i)) = []"
proof -
  have "all_untouched RegistryStateMachine_new c"
    using assms(2)
  proof (induction rule: cluster_run.induct)
    case init
    then show ?case by (simp add: all_untouched_def Cluster_new_def list_all_iff RaftNode_new_def untouched_def)
  next
    case (step c c')
    then show ?case using all_untouched_step [OF step.hyps(2) assms(1)] by blast
  qed
  then show ?thesis using all_untouched_nth [OF _ assms(3)]
    by (simp add: untouched_def getServiceInstances_def RegistryStateMachine_new_def)
qed

text \<open>A leader that has confirmed a registration.\<close>

lemma cluster_applies_nothing_witness:
  "\<exists>c. cluster_run codec_ex True (\<lambda>e m. m) (Cluster_new abc RegistryStateMachine_new) c \<and>
     rn_log (node c 0) = [\<lparr>le_term = 1, le_index = 1, le_operation = ''service_operation'', le_data = ''x''\<rparr>] \<and>
     rn_commit_index (node c 0) = 0 \<and> getServiceInstances ''S'' (rn_state_machine (node c 0)) = []"
proof -
  let ?f = "\<lambda>(e :: LogEntry) m. m :: RegistryStateMachine"
  obtain c where c: "cluster_run codec_ex True ?f (Cluster_new abc RegistryStateMachine_new) c"
      "cl_nodes c = [nd RegistryStateMachine_new 0 LEADER 1 ''a'' ''a'', nd RegistryStateMachine_new 1 FOLLOWER 1 ''a'' [],
         nd RegistryStateMachine_new 2 FOLLOWER 1 ''a'' []]" "cl_busy c = [Idle, Idle, Idle]"
    using run_elected [OF codec_wire codec_delivers, of True ?f RegistryStateMachine_new] unfolding reaches_def by blast
  let ?n = "(node c 0)\<lparr>rn_log := [\<lparr>le_term = 1, le_index = 1, le_operation = ''service_operation'', le_data = ''x''\<rparr>]\<rparr>"
  have "proposeLogEntry ''service_operation'' ''x'' (node c 0) = Ret (True, ?n)"
    using c(2) by (simp add: proposeLogEntry_eq nd_simps)
  from cluster_run.step [OF c(1) cluster_step.quiet [OF _ quiet_step.propose [OF _ this]]]
  have run: "cluster_run codec_ex True ?f (Cluster_new abc RegistryStateMachine_new)
      (c\<lparr>cl_nodes := (cl_nodes c)[0 := ?n]\<rparr>)" using c(2,3) by simp
  show ?thesis
    using cluster_applies_nothing [OF codec_wire run, of 0 "''S''"] run c(2)
    by (intro exI [of _ "c\<lparr>cl_nodes := (cl_nodes c)[0 := ?n]\<rparr>"]) simp
qed


end
