(* ===== verification/Response_Routing.thy ===== *)
theory Response_Routing
  imports Message_Transfer Client_Properties
begin

text \<open>
  Which call a response reaches. A task of the event-driven server keeps the number of the
  descriptor its request came from, and the client takes the next message of a connection as the
  response to its call; request ids are sent and returned, and compared nowhere. The first section
  follows a request whose connection is closed while it waits in the pool; the second the calls of
  a client over one pooled connection; the third puts both together.
\<close>

section \<open>A descriptor that is reused\<close>

text \<open>The peer hangs up, and the next connection the kernel accepts has the same number.\<close>

definition reconnected :: "int \<Rightarrow> EpollServer \<Rightarrow> EpollServer" where
  "reconnected fd s = fold epoll_dispatch [HangUp fd, Incoming [(fd, True, True)]] s"

lemma reconnected_connection:
  assumes "map_of (ep_connections s) fd = Some conn" and "\<not> cc_closed conn"
    and "0 < ep_active_connections s" and "ep_active_connections s \<le> ep_max_connections s"
  shows "map_of (ep_connections (reconnected fd s)) fd = Some (ClientConnection_new fd)"
    and "ep_tasks (reconnected fd s) = ep_tasks s"
proof -
  have "ep_active_connections s - 1 < ep_active_connections s" using assms(3) measure_unat [of "ep_active_connections s"] by (fastforce simp: word_less_nat_alt)
  then have "\<not> ep_max_connections s \<le> ep_active_connections s - 1" using assms(4) by (simp add: not_le)
  then show "map_of (ep_connections (reconnected fd s)) fd = Some (ClientConnection_new fd)"
    and "ep_tasks (reconnected fd s) = ep_tasks s"
    using assms(1,2)
    by (simp_all add: reconnected_def closeConnection_def handleNewConnection_def accept_one_def map_of_AList_update)
qed

text \<open>A request whose connection is closed while it waits for a worker is still answered when the
  kernel gives the number of its descriptor to another client: the complete response of the first
  client's request is sent to the second one.\<close>

theorem response_reaches_other_client:
  assumes "map_of (ep_connections e) fd = Some conn" and "\<not> cc_closed conn"
    and "0 < ep_active_connections e" and "ep_active_connections e \<le> ep_max_connections e"
    and "(fd, data) \<in> set (ep_tasks e)" and "RpcRequest_deserialize rt data = Some q"
    and "sv_epoll s = reconnected fd e"
    and "int (length (frame (RpcResponse_serialize rt (answer (sv_handlers s) q)))) \<le> result"
  shows "(fd, data) \<in> set (ep_tasks (sv_epoll s)) \<and>
    map_of (ep_connections (sv_epoll s)) fd = Some (ClientConnection_new fd) \<and>
    fst (handleRpcRequest rt fd data result s) = frame (RpcResponse_serialize rt (answer (sv_handlers s) q))"
proof -
  note r = reconnected_connection [OF assms(1-4)]
  have c: "map_of (ep_connections (sv_epoll s)) fd = Some (ClientConnection_new fd)" using r(1) assms(7) by simp
  show ?thesis
    using handleRpcRequest_parsed(1) [OF assms(6), of fd result s] sendResponse_complete [OF c assms(8)] c r(2) assms(5,7)
    by simp
qed

section \<open>Calls over a pooled connection\<close>

text \<open>Calls of one thread, one after the other, to one endpoint; each with its environment.\<close>

primrec calls_in_turn ::
    "pb_runtime \<Rightarrow> ServiceEndpoint \<Rightarrow> (use_env \<times> RpcRequest) list \<Rightarrow> Network \<Rightarrow> (bytes option list \<times> Network) res option" where
  "calls_in_turn rt ep [] nw = Some (Ret ([], nw))"
| "calls_in_turn rt ep (u # us) nw =
     (case callEndpoint_pooled rt (fst u) (rq_request_id (snd u)) ep (rq_service_name (snd u))
         (rq_method_name (snd u)) (rq_request_data (snd u)) nw of
        None \<Rightarrow> None
      | Some Deadlock \<Rightarrow> Some Deadlock
      | Some Undefined \<Rightarrow> Some Undefined
      | Some (Ret (r, nw)) \<Rightarrow> map_option (\<lambda>x. res_bind x (\<lambda>(rs, nw). Ret (r # rs, nw)))
          (calls_in_turn rt ep us nw))"

text \<open>An environment in which no connection has a pending error.\<close>

definition healthy :: "use_env \<Rightarrow> bool" where
  "healthy e \<longleftrightarrow> (\<forall>fd. ue_valid e fd) \<and> (case ue_rounds e of [] \<Rightarrow> False | r # rs \<Rightarrow> \<forall>fd. ro_valid r fd)"

text \<open>A request as \<open>callEndpoint\<close> builds it.\<close>

definition client_request :: "RpcRequest \<Rightarrow> bool" where
  "client_request q \<longleftrightarrow> rq_unknown q = []"

text \<open>The socket takes the requests \<open>qs\<close>: no call of \<open>send\<close> takes fewer than four bytes.\<close>

definition roomy :: "bytes list \<Rightarrow> sock \<Rightarrow> bool" where
  "roomy qs s \<longleftrightarrow> list_all (\<lambda>r. 4 \<le> r) (sk_sends s) \<and>
     sum_list (map (\<lambda>q. Suc (length q)) qs) \<le> length (sk_sends s)"

text \<open>One connection of the endpoint is idle, the peer will send the messages \<open>ds\<close> on it, and it takes \<open>qs\<close>.\<close>

definition idle_stream :: "bytes \<Rightarrow> bytes list \<Rightarrow> bytes list \<Rightarrow> Network \<Rightarrow> bool" where
  "idle_stream key qs ds nw \<longleftrightarrow> (\<exists>p a. nw_pool nw = Some p \<and> cp_running p \<and> hosts_ok p \<and>
     hp_idle_connections (host_of p key) = [a] \<and> tc_connected (cp_conns p a) \<and>
     roomy qs (nw_socks nw a) \<and> sk_rx (nw_socks nw a) = concat (map frame ds))"

lemma send_loop_suffix:
  "send_loop data n s = Some (ok, s') \<Longrightarrow> \<exists>k. sk_sends s' = drop k (sk_sends s)"
proof (induction data n s rule: send_loop.induct)
  case (1 data n s)
  show ?case
  proof (cases "n < length data")
    case True
    obtain r rs where rs: "sk_sends s = r # rs"
      using "1.prems" True by (cases "sk_sends s") (auto simp: send_loop.simps [of data n s] os_send_def)
    obtain m s1 where s1: "os_send (drop n data) s = Some (m, s1)" "sk_sends s1 = rs"
      using rs by (simp add: os_send_def Let_def)
    show ?thesis
    proof (cases "m \<le> 0")
      case True
      then have "s' = s1" using "1.prems" \<open>n < length data\<close> s1(1) by (simp add: send_loop.simps [of data n s])
      then show ?thesis using s1(2) rs by (intro exI [of _ 1]) simp
    next
      case False
      then have "send_loop data (n + nat m) s1 = Some (ok, s')"
        using "1.prems" \<open>n < length data\<close> s1(1) by (simp add: send_loop.simps [of data n s])
      from "1.IH" [OF True s1(1) refl False this] obtain k where "sk_sends s' = drop k rs" using s1(2) by auto
      then show ?thesis using rs by (intro exI [of _ "Suc k"]) simp
    qed
  next
    case False
    then show ?thesis using "1.prems" by (intro exI [of _ 0]) (simp add: send_loop.simps [of data n s])
  qed
qed

lemma send_suffix:
  assumes "TcpConnection_send data c s = Some (ok, c', s')"
  shows "\<exists>k. sk_sends s' = drop k (sk_sends s)"
proof (cases "tc_connected c")
  case True
  obtain r rs where rs: "sk_sends s = r # rs"
    using assms True by (cases "sk_sends s") (auto simp: TcpConnection_send_def os_send_def)
  obtain n s1 where s1: "os_send (be32 (word_of_nat (length data))) s = Some (n, s1)" "sk_sends s1 = rs"
    using rs by (simp add: os_send_def Let_def)
  show ?thesis
  proof (cases "n \<noteq> 4")
    case True
    then have "s' = s1" using assms \<open>tc_connected c\<close> s1(1) by (simp add: TcpConnection_send_def)
    then show ?thesis using rs s1(2) by (intro exI [of _ 1]) simp
  next
    case False
    then obtain s2 where "send_loop data 0 s1 = Some (ok, s2)" "s' = s2"
      using assms \<open>tc_connected c\<close> s1(1) by (auto simp: TcpConnection_send_def split: option.splits)
    then obtain k where "sk_sends s' = drop k rs" using send_loop_suffix s1(2) by metis
    then show ?thesis using rs by (intro exI [of _ "Suc k"]) simp
  qed
next
  case False
  then show ?thesis using assms by (intro exI [of _ 0]) (simp add: TcpConnection_send_def)
qed

lemma roomy_takes: "roomy (q # qs) s \<Longrightarrow> takes (length q) s"
  by (cases "sk_sends s") (auto simp: roomy_def takes_def list_all_iff)

lemma exchange_roomy:
  assumes "roomy (q # qs) (socks c)" and "tc_connected (cp_conns p c)"
    and "sk_rx (socks c) = frame d @ rest" and "d \<noteq> []" and "length d \<le> max_message"
  obtains s' where "exchange_over q c p socks = Some (Some d, p, socks(c := s'))"
    and "roomy qs s'" and "sk_rx s' = rest"
proof -
  obtain s1 where s1: "TcpConnection_send q (cp_conns p c) (socks c) = Some (True, cp_conns p c, s1)"
    "sk_rx s1 = sk_rx (socks c)"
    using send_whole [OF assms(2) roomy_takes [OF assms(1)]] by metis
  have "length q < length (sk_sends (socks c))" using assms(1) by (simp add: roomy_def)
  from send_rest [OF this, of "cp_conns p c"] s1(1)
  have len: "length (sk_sends (socks c)) \<le> length (sk_sends s1) + Suc (length q)" by simp
  obtain k where "sk_sends s1 = drop k (sk_sends (socks c))" using send_suffix [OF s1(1)] by blast
  then have "list_all (\<lambda>r. 4 \<le> r) (sk_sends s1)"
    using assms(1) by (auto simp: roomy_def list_all_iff dest: in_set_dropD)
  then have roomy: "roomy qs (s1\<lparr>sk_rx := rest\<rparr>)" using len assms(1) by (simp add: roomy_def)
  have "TcpConnection_receive (cp_conns p c) s1 = (d, cp_conns p c, s1\<lparr>sk_rx := rest\<rparr>)"
    using receive_frame [OF assms(2) _ assms(4,5), of s1 rest] s1(2) assms(3) by simp
  then have "exchange_over q c p socks = Some (Some d, p, socks(c := s1\<lparr>sk_rx := rest\<rparr>))"
    using s1(1) assms(4) by (simp add: exchange_over_def)
  then show ?thesis using roomy by (rule that) simp
qed

lemma pooled_call_step:
  assumes st: "idle_stream (makeKey (en_host ep) (en_port ep)) (RpcRequest_serialize rt q # qs) (d # ds) nw"
    and e: "healthy e" and q: "client_request q" and d: "d \<noteq> []" "length d \<le> max_message"
  shows "\<exists>nw'. callEndpoint_pooled rt e (rq_request_id q) ep (rq_service_name q) (rq_method_name q) (rq_request_data q) nw =
      Some (Ret (reply_result rt (Some d), nw')) \<and> idle_stream (makeKey (en_host ep) (en_port ep)) qs ds nw'"
proof -
  let ?key = "makeKey (en_host ep) (en_port ep)"
  obtain p a where p: "nw_pool nw = Some p" "cp_running p" "hosts_ok p" "hp_idle_connections (host_of p ?key) = [a]"
    "tc_connected (cp_conns p a)" and socks: "roomy (RpcRequest_serialize rt q # qs) (nw_socks nw a)"
    "sk_rx (nw_socks nw a) = frame d @ concat (map frame ds)"
    using st by (auto simp: idle_stream_def)
  let ?p0 = "getOrCreateHostPool ?key p"
  obtain r rs where r: "ue_rounds e = r # rs" "\<forall>fd. ro_valid r fd" and v: "\<forall>fd. ue_valid e fd"
    using e by (auto simp: healthy_def split: list.splits)
  have a: "pc_connection (hp_objects (host_of p ?key) a) = a" using idle_own [OF p(3,4)] by simp
  obtain hp' where hp': "acquire_round r ?key (ue_now e + cp_acquire_timeout p) ?p0 =
      Ret (Holding ?key a, put_pool ?key hp' (cp_conns p) ?p0)" "hp_idle_connections hp' = []"
    using round_reuses [of ?p0 ?key "host_of p ?key" a r] getOrCreate_host p(2,4,5) a r(2) by force
  define p1 where "p1 = put_pool ?key hp' (cp_conns p) ?p0"
  note acq_call = acquire_call_first [OF p(2) r(1) hp'(1), folded p1_def]
  have took: "took ?key (Some a) p p1" by (rule acquire_took [OF p(3) acq_call])
  then have p1: "hosts_ok p1" "cp_running p1" "a \<in> busy p1 ?key" using p(2) by (auto simp: took_def)
  have p1': "cp_conns p1 = cp_conns p" "hp_idle_connections (host_of p1 ?key) = []" using hp'(2) by (simp_all add: p1_def)
  have conn: "tc_connected (cp_conns p1 a)" using p(5) by (simp add: p1'(1))
  obtain s' where x: "exchange_over (RpcRequest_serialize rt q) a p1 (nw_socks nw) = Some (Some d, p1, (nw_socks nw)(a := s'))"
    and s': "roomy qs s'" "sk_rx s' = concat (map frame ds)"
    by (rule exchange_roomy [where socks = "nw_socks nw", OF socks(1) conn socks(2) d])
  define p2 where "p2 = release (ue_valid e) (ue_released e) (en_host ep) (en_port ep) a p1"
  have "isConnectionValid (ue_valid e) (cp_conns p1 a)" using conn v by (simp add: isConnectionValid_def)
  from release_valid [OF p1 this, of "ue_released e"] obtain hp2 where hp2: "p2 = put_pool ?key hp2 (cp_conns p1) p1"
    "hp_idle_connections hp2 = [a]" using p1'(2) by (auto simp: p2_def release_def)
  have ok2: "hosts_ok p2"
    using release_busy(2) [OF p1, where so = "ue_valid e" and now = "ue_released e"] by (simp add: p2_def release_def)
  have q': "RpcRequest_default\<lparr>rq_service_name := rq_service_name q, rq_method_name := rq_method_name q,
      rq_request_data := rq_request_data q, rq_request_id := rq_request_id q\<rparr> = q"
    using q by (cases q) (simp add: client_request_def RpcRequest_default_def)
  have "callEndpoint_pooled rt e (rq_request_id q) ep (rq_service_name q) (rq_method_name q) (rq_request_data q) nw =
      Some (Ret (reply_result rt (Some d), \<lparr>nw_pool = Some p2, nw_socks = (nw_socks nw)(a := s')\<rparr>))"
    unfolding callEndpoint_pooled_def Let_def q' using p(1) acq_call x by (simp add: reply_result_def p2_def)
  moreover have "idle_stream ?key qs ds \<lparr>nw_pool = Some p2, nw_socks = (nw_socks nw)(a := s')\<rparr>"
    unfolding idle_stream_def
    by (intro exI [of _ p2] exI [of _ a]) (use hp2 ok2 p1(2) conn s' in simp)
  ultimately show ?thesis by blast
qed

text \<open>The calls over the connection return what its stream holds, in its order.\<close>

lemma calls_take_stream:
  "idle_stream (makeKey (en_host ep) (en_port ep)) (map (\<lambda>u. RpcRequest_serialize rt (snd u)) us) ds nw \<Longrightarrow>
   \<forall>u \<in> set us. healthy (fst u) \<and> client_request (snd u) \<Longrightarrow> \<forall>d \<in> set ds. d \<noteq> [] \<and> length d \<le> max_message \<Longrightarrow>
   length us \<le> length ds \<Longrightarrow>
   \<exists>nw'. calls_in_turn rt ep us nw = Some (Ret (map (reply_result rt \<circ> Some) (take (length us) ds), nw'))"
proof (induction us arbitrary: ds nw)
  case (Cons u us)
  obtain d ds' where ds: "ds = d # ds'" using Cons.prems(4) by (cases ds) auto
  have d: "d \<noteq> []" "length d \<le> max_message" and u: "healthy (fst u)" "client_request (snd u)"
    using Cons.prems(2,3) by (simp_all add: ds)
  have "idle_stream (makeKey (en_host ep) (en_port ep)) (RpcRequest_serialize rt (snd u) #
      map (\<lambda>u. RpcRequest_serialize rt (snd u)) us) (d # ds') nw" using Cons.prems(1) by (simp add: ds)
  from pooled_call_step [OF this u d] obtain nw1 where c:
    "callEndpoint_pooled rt (fst u) (rq_request_id (snd u)) ep (rq_service_name (snd u)) (rq_method_name (snd u))
       (rq_request_data (snd u)) nw = Some (Ret (reply_result rt (Some d), nw1))"
    "idle_stream (makeKey (en_host ep) (en_port ep)) (map (\<lambda>u. RpcRequest_serialize rt (snd u)) us) ds' nw1"
    by blast
  from Cons.IH [OF c(2)] Cons.prems obtain nw' where
    "calls_in_turn rt ep us nw1 = Some (Ret (map (reply_result rt \<circ> Some) (take (length us) ds'), nw'))" by (auto simp: ds)
  then show ?case using c(1) by (simp add: ds)
qed simp


section \<open>Calls and the server\<close>

text \<open>What a call returns that the server's response \<open>a\<close> reaches.\<close>

definition call_result :: "RpcResponse \<Rightarrow> bytes option" where
  "call_result a = (if rs_error_code a \<noteq> 0 then None else Some (rs_response_data a))"

text \<open>
  The server handles the tasks of one descriptor in the order of the requests \<open>served\<close>, and the client's
  pooled connection is at the other end of that descriptor: the calls return the responses in turn.
\<close>

lemma calls_over_server:
  assumes rt: "pb_wire rt" and conn: "map_of (ep_connections (sv_epoll s)) fd = Some conn"
    and served: "list_all (\<lambda>q. RpcRequest_ok rt q \<and> carried rt (answer (sv_handlers s) q)) served"
    and result: "int max_message + 4 \<le> result"
    and socks: "nw_pool nw = Some p" "cp_running p" "hosts_ok p"
      "hp_idle_connections (host_of p (makeKey (en_host ep) (en_port ep))) = [a]" "tc_connected (cp_conns p a)"
      "roomy (map (\<lambda>u. RpcRequest_serialize rt (snd u)) us) (nw_socks nw a)"
      "sk_rx (nw_socks nw a) = fst (serve rt result (map (\<lambda>q. (fd, RpcRequest_serialize rt q)) served) s)"
    and us: "\<forall>u \<in> set us. healthy (fst u) \<and> client_request (snd u)" and len: "length us \<le> length served"
  shows "\<exists>nw'. calls_in_turn rt ep us nw =
    Some (Ret (map (\<lambda>q. call_result (answer (sv_handlers s) q)) (take (length us) served), nw'))"
proof -
  let ?ds = "map (\<lambda>q. RpcResponse_serialize rt (answer (sv_handlers s) q)) served"
  have "list_all (\<lambda>q. RpcRequest_deserialize rt (RpcRequest_serialize rt q) = Some q \<and>
      int (length (frame (RpcResponse_serialize rt (answer (sv_handlers s) q)))) \<le> result) served"
    using served result pb_wire.RpcRequest_roundtrip [OF rt] by (force simp: list_all_iff length_frame carried_def)
  from serve_answers [OF conn this]
  have "idle_stream (makeKey (en_host ep) (en_port ep)) (map (\<lambda>u. RpcRequest_serialize rt (snd u)) us) ?ds nw"
    using socks by (auto simp: idle_stream_def comp_def)
  moreover have "\<forall>d \<in> set ?ds. d \<noteq> [] \<and> length d \<le> max_message"
    using served by (auto simp: list_all_iff carried_def)
  moreover have "reply_result rt (Some (RpcResponse_serialize rt (answer (sv_handlers s) q))) = call_result (answer (sv_handlers s) q)"
    if "q \<in> set served" for q
    using served that pb_wire.RpcResponse_roundtrip [OF rt] by (simp add: list_all_iff carried_def reply_result_def call_result_def)
  then have "map (reply_result rt \<circ> Some) (take (length us) ?ds) = map (\<lambda>q. call_result (answer (sv_handlers s) q)) (take (length us) served)"
    by (auto simp: take_map dest: in_set_takeD)
  ultimately show ?thesis using calls_take_stream [OF _ us, of ep rt ?ds nw] len by simp
qed




section \<open>Instances\<close>

definition asks :: "bytes \<Rightarrow> bytes \<Rightarrow> RpcRequest" where
  "asks d i = RpcRequest_default\<lparr>rq_service_name := ''S'', rq_method_name := ''m'', rq_request_data := d, rq_request_id := i\<rparr>"

definition abandoned :: EpollServer where
  "abandoned = epoll_ex\<lparr>ep_active_connections := 1,
     ep_tasks := [(7, RpcRequest_serialize std_runtime (asks ''x'' ''1''))]\<rparr>"

definition routing_server :: RpcServer where
  "routing_server = server_ex\<lparr>sv_epoll := reconnected 7 abandoned\<rparr>"

definition idle_pool :: ConnectionPool where
  "idle_pool = ConnectionPool_new 1 1 300 5\<lparr>cp_pools := [(makeKey ''h'' 81, HostPool_new
       \<lparr>hp_objects := (hp_objects HostPool_new)(0 := \<lparr>pc_connection = 0, pc_last_used = 0, pc_in_use = False\<rparr>),
        hp_all_connections := [0], hp_idle_connections := [0]\<rparr>)],
     cp_conns := (\<lambda>_. TcpConnection_new 7), cp_next := 1\<rparr>"

lemma idle_pool_facts:
  "cp_running idle_pool" "hosts_ok idle_pool" "hp_idle_connections (host_of idle_pool (makeKey ''h'' 81)) = [0]"
  "tc_connected (cp_conns idle_pool 0)"
proof -
  show "cp_running idle_pool" "hp_idle_connections (host_of idle_pool (makeKey ''h'' 81)) = [0]"
    "tc_connected (cp_conns idle_pool 0)"
    by (simp_all add: idle_pool_def ConnectionPool_new_def host_of_def TcpConnection_new_def)
  show "hosts_ok idle_pool"
    by (auto simp: idle_pool_def ConnectionPool_new_def hosts_ok_def host_of_def host_inv_def in_use_def HostPool_new_def)
qed

definition two_calls :: "(use_env \<times> RpcRequest) list" where
  "two_calls = [(prompt_env, asks ''a'' ''2''), (prompt_env, asks ''b'' ''3'')]"

definition routed :: "RpcRequest list \<Rightarrow> Network" where
  "routed served = \<lparr>nw_pool = Some idle_pool, nw_socks = (\<lambda>_. \<lparr>sk_sends = replicate 40 100, sk_tx = [],
     sk_rx = fst (serve std_runtime (int max_message + 4) (map (\<lambda>q. (7, RpcRequest_serialize std_runtime q)) served)
       routing_server), sk_closed = False\<rparr>)\<rparr>"

lemma routed_facts:
  "nw_pool (routed served) = Some idle_pool"
  "sk_rx (nw_socks (routed served) a) = fst (serve std_runtime (int max_message + 4)
     (map (\<lambda>q. (7, RpcRequest_serialize std_runtime q)) served) routing_server)"
  by (simp_all add: routed_def)

lemma routing_facts:
  "list_all (\<lambda>q. RpcRequest_ok std_runtime q \<and> carried std_runtime (answer (sv_handlers routing_server) q))
     (asks ''x'' ''1'' # map snd two_calls)"
  "roomy (map (\<lambda>u. RpcRequest_serialize std_runtime (snd u)) two_calls) (nw_socks (routed served) a)"
  "list_all (\<lambda>u. healthy (fst u) \<and> client_request (snd u)) two_calls"
  "map (\<lambda>q. call_result (answer (sv_handlers routing_server) q)) (asks ''x'' ''1'' # map snd two_calls) =
     [Some ''x!'', Some ''a!'', Some ''b!'']"
proof -
  let ?qs = "[asks ''x'' ''1'', asks ''a'' ''2'', asks ''b'' ''3'']"
  have size: "map (RpcRequest_ByteSizeLong std_runtime) ?qs = [12, 12, 12]"
    "map (\<lambda>q. length (RpcRequest_serialize std_runtime q)) ?qs = [12, 12, 12]"
    "map (\<lambda>q. RpcResponse_ByteSizeLong std_runtime (answer (sv_handlers server_ex) q)) ?qs = [7, 7, 7]"
    "map (\<lambda>q. length (RpcResponse_serialize std_runtime (answer (sv_handlers server_ex) q))) ?qs = [7, 7, 7]"
    by code_simp+
  have utf8: "rt_VerifyUTF8 std_runtime ''S''" "rt_VerifyUTF8 std_runtime ''m''" "rt_VerifyUTF8 std_runtime ''1''"
    "rt_VerifyUTF8 std_runtime ''2''" "rt_VerifyUTF8 std_runtime ''3''" "rt_VerifyUTF8 std_runtime ''''" by code_simp+
  have h: "sv_handlers routing_server = sv_handlers server_ex" by (simp add: routing_server_def)
  show "list_all (\<lambda>q. RpcRequest_ok std_runtime q \<and> carried std_runtime (answer (sv_handlers routing_server) q))
     (asks ''x'' ''1'' # map snd two_calls)"
    using size utf8 unfolding h
    by (auto simp: two_calls_def carried_def asks_def RpcRequest_ok_def RpcResponse_ok_def RpcRequest_default_def
        RpcResponse_default_def pb_limit_def max_message_def answer_def server_ex_defs echo_def method_key_def Let_def)
  show "roomy (map (\<lambda>u. RpcRequest_serialize std_runtime (snd u)) two_calls) (nw_socks (routed served) a)"
    using size(2) by (simp add: roomy_def routed_def two_calls_def list_all_iff)
  show "list_all (\<lambda>u. healthy (fst u) \<and> client_request (snd u)) two_calls"
    by (simp add: two_calls_def healthy_def prompt_env_def client_request_def asks_def RpcRequest_default_def)
  show "map (\<lambda>q. call_result (answer (sv_handlers routing_server) q)) (asks ''x'' ''1'' # map snd two_calls) =
     [Some ''x!'', Some ''a!'', Some ''b!'']"
    unfolding h by (simp add: two_calls_def asks_def call_result_def answer_def RpcRequest_default_def
        RpcResponse_default_def server_ex_defs echo_def method_key_def Let_def)
qed

lemma abandoned_facts:
  "map_of (ep_connections abandoned) 7 = Some (ClientConnection_new 7)" "\<not> cc_closed (ClientConnection_new 7)"
  "0 < ep_active_connections abandoned" "ep_active_connections abandoned \<le> ep_max_connections abandoned"
  by (simp_all add: abandoned_def epoll_ex_def EpollServer_new_def setConnectionHandler_def ClientConnection_new_def)

lemma response_reaches_other_client_witness:
  "fst (handleRpcRequest std_runtime 7 (RpcRequest_serialize std_runtime (asks ''x'' ''1'')) (int max_message + 4) routing_server) =
   frame (RpcResponse_serialize std_runtime (answer (sv_handlers routing_server) (asks ''x'' ''1'')))"
proof -
  have "RpcRequest_ok std_runtime (asks ''x'' ''1'')" "carried std_runtime (answer (sv_handlers routing_server) (asks ''x'' ''1''))"
    using routing_facts(1) by simp_all
  then have d: "RpcRequest_deserialize std_runtime (RpcRequest_serialize std_runtime (asks ''x'' ''1'')) = Some (asks ''x'' ''1'')"
    and l: "int (length (frame (RpcResponse_serialize std_runtime (answer (sv_handlers routing_server) (asks ''x'' ''1''))))) \<le>
      int max_message + 4"
    by (simp_all add: std_request.decode carried_def length_frame)
  have "(7, RpcRequest_serialize std_runtime (asks ''x'' ''1'')) \<in> set (ep_tasks abandoned)" by (simp add: abandoned_def)
  moreover have "sv_epoll routing_server = reconnected 7 abandoned" by (simp add: routing_server_def)
  ultimately show ?thesis using response_reaches_other_client [OF abandoned_facts _ d _ l] by blast
qed



end
