(* ===== verification/Registry_Replicas.thy ===== *)
theory Registry_Replicas
  imports State_Machine_Interface Distributed_Properties Registry_Snapshot
begin

text \<open>
  RegistryStateMachine as the machine that Raft replicates: the locales of State_Machine_Interface,
  interpreted on the operations of registry/raft_state_machine.cpp. What the replicas agree on is
  which instances of which services are registered.
\<close>

section \<open>The table and its snapshots\<close>

text \<open>What \<open>n\<close> entries can have made, with names and hosts of one word and times of 64 bits.\<close>

definition service_fits :: "nat \<Rightarrow> bytes \<times> ServiceInstance list \<Rightarrow> bool" where
  "service_fits n s \<longleftrightarrow> one_word (fst s) \<and> length (snd s) \<le> n \<and> (\<forall>i \<in> set (snd s). instance_ok i)"

definition holds_at_most :: "nat \<Rightarrow> RegistryStateMachine \<Rightarrow> bool" where
  "holds_at_most n m \<longleftrightarrow> length (sm_services m) \<le> n \<and> (\<forall>s \<in> set (sm_services m). service_fits n s)"

definition entry_readable :: "(bytes \<Rightarrow> ServiceOperation option) \<Rightarrow> LogEntry \<Rightarrow> int \<Rightarrow> bool" where
  "entry_readable parse e t \<longleftrightarrow> in64 t \<and> (case parse (le_data e) of
       None \<Rightarrow> True
     | Some op \<Rightarrow> one_word (so_service_name op) \<and> one_word (so_host op))"

lemma length_AList_update: "length (AList.update k v al) \<le> Suc (length al)"
  by (induction al) auto

lemma service_fits_Suc: "service_fits n s \<Longrightarrow> service_fits (Suc n) s"
  by (simp add: service_fits_def)

lemma holds_update:
  assumes "holds_at_most n m" and "one_word s" and "length is \<le> Suc n" and "\<forall>i \<in> set is. instance_ok i"
  shows "holds_at_most (Suc n) (m\<lparr>sm_services := AList.update s is (sm_services m)\<rparr>)"
proof -
  have "length (AList.update s is (sm_services m)) \<le> Suc n"
    using assms(1) length_AList_update [of s "is" "sm_services m"] by (simp add: holds_at_most_def)
  moreover have "service_fits (Suc n) x" if "x \<in> set (AList.update s is (sm_services m))" for x
  proof -
    have "x = (s, is) \<or> x \<in> set (sm_services m)" using that set_AList_update by fast
    then show ?thesis
    proof
      assume "x = (s, is)"
      then show ?thesis using assms(2-4) by (simp add: service_fits_def)
    next
      assume "x \<in> set (sm_services m)"
      then show ?thesis using assms(1) by (intro service_fits_Suc) (simp add: holds_at_most_def)
    qed
  qed
  ultimately show ?thesis by (simp add: holds_at_most_def)
qed

lemma holds_mono:
  assumes "holds_at_most n m" and "length (sm_services m') \<le> length (sm_services m)"
    and "set (sm_services m') \<subseteq> set (sm_services m)"
  shows "holds_at_most (Suc n) m'"
  using assms service_fits_Suc unfolding holds_at_most_def by fastforce

lemma holds_instances:
  assumes "holds_at_most n m"
  shows "length (instances_of (sm_services m) s) \<le> n" and "\<forall>i \<in> set (instances_of (sm_services m) s). instance_ok i"
proof -
  have "service_fits n (s, is)" if "map_of (sm_services m) s = Some is" for "is"
    using assms map_of_SomeD [OF that] by (auto simp: holds_at_most_def)
  then show "length (instances_of (sm_services m) s) \<le> n" "\<forall>i \<in> set (instances_of (sm_services m) s). instance_ok i"
    by (cases "map_of (sm_services m) s"; simp add: instances_of_def service_fits_def)+
qed

lemma instance_ok_touch:
  "in64 t \<Longrightarrow> \<forall>i \<in> set is. instance_ok i \<Longrightarrow>
   \<forall>i \<in> set (update_first P (\<lambda>i. i\<lparr>si_last_heartbeat := t\<rparr>) is). instance_ok i"
  by (induction "is") (auto simp: instance_ok_def)

lemma holds_apply:
  assumes m: "holds_at_most n m" and e: "entry_readable parse e t"
  shows "holds_at_most (Suc n) (applyLogEntry parse e t m)"
proof (cases "le_operation e = ''service_operation''")
  case False
  then show ?thesis using holds_mono [OF m, of m] by (simp add: applyLogEntry_def)
next
  case True
  note same = holds_mono [OF m, of m]
  show ?thesis
  proof (cases "parse (le_data e)")
    case None
    then show ?thesis using True same by (simp add: applyLogEntry_def)
  next
    case (Some op)
    let ?n = "so_service_name op" and ?h = "so_host op" and ?p = "so_port op"
    have t: "in64 t" "one_word ?n" "one_word ?h" using e Some by (simp_all add: entry_readable_def)
    note inst = holds_instances [OF m, of ?n]
    have len: "length (update_first P f is) = length is" for P f and "is" :: "ServiceInstance list"
      by (induction "is") auto
    have "holds_at_most (Suc n) (registerService ?n ?h ?p t m)"
      unfolding registerService_def Let_def
      using inst t instance_ok_touch [OF t(1) inst(2)] by (intro holds_update [OF m]) (auto simp: len instance_ok_def)
    moreover have "holds_at_most (Suc n) (unregisterService ?n ?h ?p m)"
    proof (cases "map_of (sm_services m) ?n")
      case None
      then show ?thesis using same by (simp add: unregisterService_def)
    next
      case (Some "is")
      then have "instances_of (sm_services m) ?n = is" by (simp add: instances_of_def)
      then have f: "length (filter Q is) \<le> Suc n" "\<forall>i \<in> set (filter Q is). instance_ok i" for Q
        using inst le_trans [OF length_filter_le [of Q "is"]] by (auto intro: le_SucI)
      have "holds_at_most (Suc n) (m\<lparr>sm_services := AList.delete ?n (sm_services m)\<rparr>)"
        by (rule holds_mono [OF m]) (auto simp: AList.delete_eq)
      then show ?thesis using Some holds_update [OF m t(2) f] by (simp add: unregisterService_def Let_def)
    qed
    moreover have "holds_at_most (Suc n) (updateHeartbeat ?n ?h ?p t m)"
    proof (cases "map_of (sm_services m) ?n")
      case None
      then show ?thesis using same by (simp add: updateHeartbeat_def)
    next
      case (Some "is")
      then have "instances_of (sm_services m) ?n = is" by (simp add: instances_of_def)
      then show ?thesis using Some inst instance_ok_touch [OF t(1)]
        unfolding updateHeartbeat_def Some option.case by (intro holds_update [OF m t(2)]) (auto simp: len)
    qed
    ultimately show ?thesis using True Some same by (simp add: applyLogEntry_def applyServiceOperation_def)
  qed
qed

text \<open>Restoring cuts the heartbeats to milliseconds and keeps the rest.\<close>

lemma stored_key [simp]: "key_of (stored i) = key_of i"
  by (simp add: stored_def)

lemma stored_table:
  assumes "table_ok sv"
  shows "table_ok (map (\<lambda>(n, is). (n, map stored is)) sv)"
    and "dom (registered (map (\<lambda>(n, is). (n, map stored is)) sv)) = dom (registered sv)"
proof -
  let ?sv = "map (\<lambda>(n, is). (n, map stored is)) sv"
  have keys: "map key_of (map stored is) = map key_of is" for "is" by simp
  have "map fst ?sv = map fst sv" by (induction sv) auto
  moreover have "\<forall>(n, is) \<in> set ?sv. is \<noteq> [] \<and> distinct (map key_of is)"
    using assms keys by (auto simp: table_ok_def comp_def)
  ultimately show "table_ok ?sv" using assms by (simp only: table_ok_def)
  have "instances_of ?sv n = map stored (instances_of sv n)" for n
    by (auto simp: instances_of_def map_of_map_val split: option.split)
  then have "registered ?sv (n, h, p) = None \<longleftrightarrow> registered sv (n, h, p) = None" for n h p
    unfolding registered_eq_None by (simp add: image_image)
  then have "registered ?sv k = None \<longleftrightarrow> registered sv k = None" for k by (cases k) simp
  then show "dom (registered ?sv) = dom (registered sv)" unfolding dom_def by (simp only:)
qed

lemma restored_known:
  assumes "sm_ok m" and "holds_at_most n m" and "n < 2 ^ 64"
  shows "\<exists>m2. restoreFromSnapshot (getSnapshot m) m' = Ret m2 \<and> sm_ok m2 \<and> known m2 = known m"
proof -
  have "length (sm_services m) < 2 ^ 64" and "\<forall>s \<in> set (sm_services m). service_fits n s"
    using assms(2) le_less_trans [OF _ assms(3)] unfolding holds_at_most_def by blast+
  moreover have "distinct (map fst (sm_services m))" using assms(1) by (simp add: sm_ok_def table_ok_def)
  moreover have "length (snd s) < 2 ^ 64" if "service_fits n s" for s
    using that le_less_trans [OF _ assms(3)] unfolding service_fits_def by blast
  ultimately have "snapshot_ok (sm_services m)" unfolding snapshot_ok_def by (auto simp: service_fits_def)
  from snapshot_restores [OF this] show ?thesis
    using stored_table [of "sm_services m"] assms(1) by (simp add: sm_ok_def sm_view_def)
qed


interpretation rm: snapshotting_machine "applyLogEntry parse" known sm_ok getSnapshot restoreFromSnapshot
    "entry_readable parse" holds_at_most for parse
  by unfold_locales (simp add: holds_apply, rule restored_known)

section \<open>Snapshots\<close>

lemma holds_new: "holds_at_most 0 RegistryStateMachine_new" and new_ok: "sm_ok RegistryStateMachine_new"
  by (simp_all add: holds_at_most_def sm_ok_def RegistryStateMachine_new_def)

text \<open>C36. A node that restores the snapshot another node took after the first entries of the log, and then
  applies the others, knows the same instances as a node that applied the whole log, whatever it
  held before and whatever the clocks of the nodes say, as long as the names and hosts in the
  snapshot are single words.\<close>

theorem snapshot_catches_up:
  assumes "\<forall>(e, t) \<in> set es. entry_readable parse e t" and "length es < 2 ^ 64" and "map fst rest = map fst rest'"
  shows "\<exists>m. restoreFromSnapshot (getSnapshot (replay (applyLogEntry parse) es RegistryStateMachine_new)) m0 = Ret m \<and>
    known (replay (applyLogEntry parse) rest m) = known (replay (applyLogEntry parse) (es @ rest') RegistryStateMachine_new)"
  using rm.catches_up [OF new_ok holds_new assms(1) _ assms(3), of m0] assms(2) by (simp only: add_0)

text \<open>Two registrations in the snapshot, one in the rest of the log.\<close>

definition entry_ex :: "bytes \<Rightarrow> LogEntry" where
  "entry_ex s = \<lparr>le_term = 1, le_index = 1, le_operation = ''service_operation'', le_data = s\<rparr>"

lemma snapshot_catches_up_witness:
  "\<exists>m. restoreFromSnapshot (getSnapshot (replay (applyLogEntry parse_ex) [(entry_ex ''A'', 7), (entry_ex ''B'', 8)]
      RegistryStateMachine_new)) RegistryStateMachine_new = Ret m \<and>
    known (replay (applyLogEntry parse_ex) [(entry_ex ''C'', 1)] m) =
    {(''A'', ''h'', 80), (''B'', ''h'', 80), (''C'', ''h'', 80)}"
proof -
  have "\<forall>(e, t) \<in> set [(entry_ex ''A'', 7), (entry_ex ''B'', 8)]. entry_readable parse_ex e t"
    by (simp add: entry_readable_def entry_ex_def parse_ex_def in64_def one_word_def blank_def)
  from snapshot_catches_up [OF this, of "[(entry_ex ''C'', 1)]" "[(entry_ex ''C'', 9)]" RegistryStateMachine_new]
  obtain m where "restoreFromSnapshot (getSnapshot (replay (applyLogEntry parse_ex) [(entry_ex ''A'', 7), (entry_ex ''B'', 8)]
      RegistryStateMachine_new)) RegistryStateMachine_new = Ret m"
    "known (replay (applyLogEntry parse_ex) [(entry_ex ''C'', 1)] m) =
     known (replay (applyLogEntry parse_ex) [(entry_ex ''A'', 7), (entry_ex ''B'', 8), (entry_ex ''C'', 9)] RegistryStateMachine_new)"
    by auto
  moreover have "sm_view (applyLogEntry parse_ex (entry_ex s) t m) = (sm_view m)((s, ''h'', 80) \<mapsto> t)" for s t m
    by (simp add: applyLogEntry_def entry_ex_def applyServiceOperation_def parse_ex_def sm_view_def registerService_view)
  then have "known (replay (applyLogEntry parse_ex) [(entry_ex ''A'', 7), (entry_ex ''B'', 8), (entry_ex ''C'', 9)]
      RegistryStateMachine_new) = {(''A'', ''h'', 80), (''B'', ''h'', 80), (''C'', ''h'', 80)}"
    by (auto simp: sm_view_def RegistryStateMachine_new_def)
  ultimately show ?thesis by auto
qed

end
