(* ===== verification/Server_System.thy ===== *)
theory Server_System
  imports Message_Transfer Pool_Properties "HOL-Library.Sublist"
begin

text \<open>
  The RPC server as it runs: the thread of the event loop (common/epoll_server.cpp), which accepts,
  reads and closes connections and hands every complete message to the thread pool; the workers of
  the pool (common/thread_pool.cpp); and the request handler (server/rpc_server.cpp), which a worker
  runs for each task and which sends the response. A step is what one thread does between two points
  where another one can be seen. The event loop goes on with the next read only when it has handed
  over the messages of the last one.

  \<open>ss_received\<close> and \<open>ss_sent\<close> are history: the bytes read from a descriptor and the bytes of the
  responses sent to it. \<open>result\<close> is what every \<open>send\<close> returns. Stopping the server is not a step.
\<close>

section \<open>State and steps\<close>

record ServerSystem =
  ss_server :: RpcServer
  ss_pool :: "(int \<times> bytes) ThreadPool"
  ss_received :: "int \<Rightarrow> bytes"
  ss_sent :: "int \<Rightarrow> bytes"

definition ServerSystem_new :: "nat \<Rightarrow> RpcServer \<Rightarrow> ServerSystem" where
  "ServerSystem_new n s = \<lparr>ss_server = s, ss_pool = ThreadPool_new n, ss_received = (\<lambda>_. []), ss_sent = (\<lambda>_. [])\<rparr>"

abbreviation ss_epoll :: "ServerSystem \<Rightarrow> EpollServer" where
  "ss_epoll X \<equiv> sv_epoll (ss_server X)"

definition on_epoll :: "(EpollServer \<Rightarrow> EpollServer) \<Rightarrow> ServerSystem \<Rightarrow> ServerSystem" where
  "on_epoll f X = X\<lparr>ss_server := (ss_server X)\<lparr>sv_epoll := f (ss_epoll X)\<rparr>\<rparr>"

text \<open>Every message read so far is in the hands of the pool.\<close>

definition handed_over :: "ServerSystem \<Rightarrow> bool" where
  "handed_over X \<longleftrightarrow> length (tp_accepted (ss_pool X)) = length (ep_tasks (ss_epoll X))"

text \<open>What the server does by itself.\<close>

inductive server_internal :: "pb_runtime \<Rightarrow> int \<Rightarrow> ServerSystem \<Rightarrow> ServerSystem \<Rightarrow> bool" for rt result where
  hand: "length (tp_accepted (ss_pool X)) < length (ep_tasks (ss_epoll X)) \<Longrightarrow> \<not> queue_locked (ss_pool X) \<Longrightarrow>
    enqueue (ep_tasks (ss_epoll X) ! length (tp_accepted (ss_pool X))) (ss_pool X) = Inr p \<Longrightarrow>
    server_internal rt result X (X\<lparr>ss_pool := p\<rparr>)"
| work: "pool_step (ss_pool X) p \<Longrightarrow> tp_completed p = tp_completed (ss_pool X) \<Longrightarrow>
    server_internal rt result X (X\<lparr>ss_pool := p\<rparr>)"
| execute: "i < length (tp_workers (ss_pool X)) \<Longrightarrow> tp_workers (ss_pool X) ! i = Running (fd, data) \<Longrightarrow>
    worker_step i (ss_pool X) = Some p \<Longrightarrow> handleRpcRequest rt fd data result (ss_server X) = (wire, s) \<Longrightarrow>
    server_internal rt result X
      (X\<lparr>ss_pool := p, ss_server := s, ss_sent := (ss_sent X)(fd := ss_sent X fd @ wire)\<rparr>)"

text \<open>
  What its clients and the kernel do. No connection of \<open>keep\<close> is closed; the kernel never accepts a
  descriptor that is open; a worker may wake up without being notified.
\<close>

inductive server_external :: "int set \<Rightarrow> ServerSystem \<Rightarrow> ServerSystem \<Rightarrow> bool" for keep where
  accept: "handed_over X \<Longrightarrow> map_of (ep_connections (ss_epoll X)) (fst a) = None \<Longrightarrow>
    server_external keep X (on_epoll (accept_one a) X)"
| read: "handed_over X \<Longrightarrow> map_of (ep_connections (ss_epoll X)) fd = Some conn \<Longrightarrow> \<not> cc_closed conn \<Longrightarrow>
    server_external keep X
      ((on_epoll (read_chunk fd chunk) X)\<lparr>ss_received := (ss_received X)(fd := ss_received X fd @ chunk)\<rparr>)"
| close: "handed_over X \<Longrightarrow> fd \<notin> keep \<Longrightarrow> server_external keep X (on_epoll (closeConnection fd) X)"
| wake: "i < length (tp_workers (ss_pool X)) \<Longrightarrow> tp_workers (ss_pool X) ! i = Asleep \<Longrightarrow>
    server_external keep X (X\<lparr>ss_pool := set_worker i Looping (ss_pool X)\<rparr>)"

inductive server_run :: "pb_runtime \<Rightarrow> int \<Rightarrow> int set \<Rightarrow> ServerSystem \<Rightarrow> ServerSystem \<Rightarrow> bool" for rt result keep X where
  init: "server_run rt result keep X X"
| internal: "server_run rt result keep X Y \<Longrightarrow> server_internal rt result Y Z \<Longrightarrow> server_run rt result keep X Z"
| external: "server_run rt result keep X Y \<Longrightarrow> server_external keep Y Z \<Longrightarrow> server_run rt result keep X Z"

text \<open>A server with its handlers registered, before the first connection.\<close>

definition fresh_server :: "RpcServer \<Rightarrow> bool" where
  "fresh_server s \<longleftrightarrow> ep_connections (sv_epoll s) = [] \<and> ep_tasks (sv_epoll s) = [] \<and> ep_has_handler (sv_epoll s)"

section \<open>Replies\<close>

text \<open>The response to a message, and the part of its frame that one \<open>send\<close> takes.\<close>

definition reply :: "pb_runtime \<Rightarrow> (bytes \<times> handler) list \<Rightarrow> bytes \<Rightarrow> RpcResponse" where
  "reply rt hs data = (case RpcRequest_deserialize rt data of
       None \<Rightarrow> RpcResponse_default\<lparr>rs_error_code := - 1, rs_error_msg := ''Failed to deserialize request''\<rparr>
     | Some q \<Rightarrow> answer hs q)"

definition sent_part :: "int \<Rightarrow> bytes \<Rightarrow> bytes" where
  "sent_part result message = take (nat (min result (int (length message)))) message"

lemma sendResponse_sent:
  "map_of (ep_connections e) fd = Some conn \<Longrightarrow> fst (snd (sendResponse fd data result e)) = sent_part result (frame data)"
  by (auto simp: sendResponse_def sent_part_def frame_def Let_def)

lemma handled_sent:
  assumes "map_of (ep_connections (sv_epoll s)) fd = Some conn"
  shows "fst (handleRpcRequest rt fd data result s) =
    sent_part result (frame (RpcResponse_serialize rt (reply rt (sv_handlers s) data)))"
proof (cases "RpcRequest_deserialize rt data")
  case None
  have "RpcResponse_default\<lparr>rs_request_id := [], rs_error_code := - 1, rs_error_msg := m\<rparr> =
      RpcResponse_default\<lparr>rs_error_code := - 1, rs_error_msg := m\<rparr>" for m
    by (simp add: RpcResponse_default_def)
  then show ?thesis
    using None sendResponse_sent [OF assms]
    by (simp add: handleRpcRequest_def sendErrorResponse_def reply_def count_failure_def case_prod_unfold Let_def)
next
  case (Some q)
  then show ?thesis using handleRpcRequest_parsed(1) [OF Some] sendResponse_sent [OF assms] by (simp add: reply_def)
qed

lemma sent_whole: "int (length m) \<le> result \<Longrightarrow> sent_part result m = m"
  by (simp add: sent_part_def)

lemma sendResponse_keeps:
  "ep_connections (snd (snd (sendResponse fd d r e))) = ep_connections e"
  "ep_tasks (snd (snd (sendResponse fd d r e))) = ep_tasks e"
  "ep_has_handler (snd (snd (sendResponse fd d r e))) = ep_has_handler e"
  by (simp_all add: sendResponse_def Let_def split: option.split)

lemma handled_keeps:
  assumes "handleRpcRequest rt fd data result s = (wire, s')"
  shows "ep_connections (sv_epoll s') = ep_connections (sv_epoll s)" and "ep_tasks (sv_epoll s') = ep_tasks (sv_epoll s)"
    and "ep_has_handler (sv_epoll s') = ep_has_handler (sv_epoll s)" and "sv_handlers s' = sv_handlers s"
proof -
  have "s' = snd (handleRpcRequest rt fd data result s)" using assms by simp
  then show "ep_connections (sv_epoll s') = ep_connections (sv_epoll s)" "ep_tasks (sv_epoll s') = ep_tasks (sv_epoll s)"
    "ep_has_handler (sv_epoll s') = ep_has_handler (sv_epoll s)" "sv_handlers s' = sv_handlers s"
    by (auto simp: handleRpcRequest_def sendErrorResponse_def count_failure_def Let_def case_prod_unfold
        sendResponse_keeps split: option.splits sum.splits)
qed

section \<open>Invariant\<close>

definition tasks_of :: "int \<Rightarrow> (int \<times> bytes) list \<Rightarrow> bytes list" where
  "tasks_of fd ts = map snd (filter (\<lambda>t. fst t = fd) ts)"

lemma tasks_of_simps [simp]:
  "tasks_of fd [] = []" "tasks_of fd (xs @ ys) = tasks_of fd xs @ tasks_of fd ys"
  "tasks_of fd (map (Pair fd') ms) = (if fd' = fd then ms else [])"
  "tasks_of fd [(fd', d)] = (if fd' = fd then [d] else [])"
  by (simp_all add: tasks_of_def filter_map comp_def)

lemma tasks_of_Nil: "tasks_of fd ts = [] \<longleftrightarrow> fd \<notin> fst ` set ts"
  by (auto simp: tasks_of_def filter_empty_conv)

text \<open>The pool: nobody stops it or waits for it, and it was handed the tasks in their order.\<close>

definition feeding_inv :: "nat \<Rightarrow> ServerSystem \<Rightarrow> bool" where
  "feeding_inv n X \<longleftrightarrow> pool_reachable n (ss_pool X) \<and> \<not> tp_stop (ss_pool X) \<and> tp_waiter (ss_pool X) = NotWaiting \<and>
     prefix (tp_accepted (ss_pool X)) (ep_tasks (ss_epoll X))"

text \<open>The connections that stay open: what was read is what was handed on and the buffer, what was sent
  are the replies to the completed tasks.\<close>

definition read_ok :: "EpollServer \<Rightarrow> bytes \<Rightarrow> int \<Rightarrow> bool" where
  "read_ok e received fd \<longleftrightarrow> (case map_of (ep_connections e) fd of
     None \<Rightarrow> received = [] \<and> tasks_of fd (ep_tasks e) = []
   | Some conn \<Rightarrow> extractMessages received = (tasks_of fd (ep_tasks e), cc_receive_buffer conn))"

definition reading_inv :: "int set \<Rightarrow> ServerSystem \<Rightarrow> bool" where
  "reading_inv keep X \<longleftrightarrow> ep_has_handler (ss_epoll X) \<and> (\<forall>fd \<in> keep. read_ok (ss_epoll X) (ss_received X fd) fd)"

lemma read_ok_same:
  "map_of (ep_connections e') fd = map_of (ep_connections e) fd \<Longrightarrow> ep_tasks e' = ep_tasks e \<Longrightarrow>
   read_ok e' received fd = read_ok e received fd"
  by (simp add: read_ok_def split: option.split)

definition replying_inv :: "pb_runtime \<Rightarrow> int \<Rightarrow> int set \<Rightarrow> (bytes \<times> handler) list \<Rightarrow> ServerSystem \<Rightarrow> bool" where
  "replying_inv rt result keep hs X \<longleftrightarrow> sv_handlers (ss_server X) = hs \<and>
     (\<forall>fd \<in> keep. ss_sent X fd = concat (map (\<lambda>data. sent_part result (frame (RpcResponse_serialize rt (reply rt hs data))))
        (tasks_of fd (tp_completed (ss_pool X)))))"

lemma pool_step_quiet:
  "pool_step p p' \<Longrightarrow> tp_waiter p = NotWaiting \<Longrightarrow> tp_waiter p' = NotWaiting \<and> tp_stop p' = tp_stop p"
  by (cases rule: pool_step.cases) (auto simp: worker_step_def notify_one_def stop_notify_def waiter_step_def
      split: worker.splits if_splits)

lemma step_completed:
  "worker_step i p = Some p' \<Longrightarrow> tp_workers p ! i = Running t \<Longrightarrow> tp_completed p' = tp_completed p @ [t]"
  by (auto simp: worker_step_def)

lemma running_accepted:
  assumes "pool_reachable n p" and "i < length (tp_workers p)" and "tp_workers p ! i = Running t"
  shows "t \<in> set (tp_accepted p)"
proof -
  have inv: "tasks_inv p" using pool_invs [OF assms(1)] by blast
  have "t \<in># in_hand (tp_workers p ! i)" using assms(3) by simp
  then have "t \<in># sum_list (map in_hand (tp_workers p))"
    using assms(2) by (auto simp: in_set_conv_nth set_mset_sum_list intro!: bexI [of _ "tp_workers p ! i"])
  then have "t \<in># mset (tp_taken p)" using inv by (simp add: tasks_inv_def)
  then show ?thesis using inv by (simp add: tasks_inv_def)
qed

lemma read_chunk_effect:
  assumes "map_of (ep_connections e) fd = Some conn" and "ep_has_handler e"
    and "extractMessages (cc_receive_buffer conn @ chunk) = (ms, r)"
  shows "ep_tasks (read_chunk fd chunk e) = ep_tasks e @ map (Pair fd) ms"
    and "ep_has_handler (read_chunk fd chunk e)"
    and "map_of (ep_connections (read_chunk fd chunk e)) k =
      (if k = fd then Some (conn\<lparr>cc_receive_buffer := r\<rparr>) else map_of (ep_connections e) k)"
  using assms by (simp_all add: read_chunk_def map_of_AList_update)

lemma accept_effect:
  "ep_tasks (accept_one a e) = ep_tasks e" "ep_has_handler (accept_one a e) = ep_has_handler e"
  "map_of (ep_connections (accept_one a e)) k = map_of (ep_connections e) k \<or>
   k = fst a \<and> map_of (ep_connections (accept_one a e)) k = Some (ClientConnection_new k)"
  by (cases a; auto simp: accept_one_def map_of_AList_update)+

lemma close_effect:
  "ep_tasks (closeConnection fd e) = ep_tasks e" "ep_has_handler (closeConnection fd e) = ep_has_handler e"
  "k \<noteq> fd \<Longrightarrow> map_of (ep_connections (closeConnection fd e)) k = map_of (ep_connections e) k"
  by (auto simp: closeConnection_def map_of_delete split: option.split)

lemma enqueue_effect:
  "enqueue t p = Inr p' \<Longrightarrow> tp_accepted p' = tp_accepted p @ [t] \<and> tp_stop p' = tp_stop p \<and>
   tp_waiter p' = tp_waiter p \<and> tp_completed p' = tp_completed p"
  by (auto simp: enqueue_def split: if_splits)

lemma feeding_internal:
  assumes "server_internal rt result X Y" and "feeding_inv n X"
  shows "feeding_inv n Y"
  using assms
proof (induction rule: server_internal.induct)
  case (hand X p)
  let ?ts = "ep_tasks (ss_epoll X)" and ?k = "length (tp_accepted (ss_pool X))"
  have "tp_accepted (ss_pool X) = take ?k ?ts" using hand(4) by (auto simp: feeding_inv_def prefix_def)
  then have "tp_accepted p = take (Suc ?k) ?ts"
    using enqueue_effect [OF hand(3)] hand(1) by (simp add: take_Suc_conv_app_nth)
  then have "prefix (tp_accepted p) ?ts" by (simp add: take_is_prefix)
  moreover have "pool_reachable n p"
    using pool_reachable.call [OF _ pool_call.enqueue [OF hand(2,3)]] hand(4) by (simp add: feeding_inv_def)
  ultimately show ?case using enqueue_effect [OF hand(3)] hand(4) by (simp add: feeding_inv_def)
next
  case (work X p)
  then show ?case using pool_reachable.step [OF _ work(1)] pool_step_quiet [OF work(1)] accepted_step [OF work(1)]
    by (simp add: feeding_inv_def)
next
  case (execute i X fd data p wire s)
  note step = pool_step.worker [OF execute(1,3)]
  show ?case using pool_reachable.step [OF _ step] pool_step_quiet [OF step] accepted_step [OF step] execute(5)
      handled_keeps(2) [OF execute(4)]
    by (simp add: feeding_inv_def)
qed

lemma feeding_external:
  assumes "server_external keep X Y" and "feeding_inv n X" and "reading_inv keep X"
  shows "feeding_inv n Y"
  using assms
proof (induction rule: server_external.induct)
  case (accept X a)
  then show ?case by (simp add: feeding_inv_def on_epoll_def accept_effect)
next
  case (read X fd conn chunk)
  obtain ms r where "extractMessages (cc_receive_buffer conn @ chunk) = (ms, r)"
    by (cases "extractMessages (cc_receive_buffer conn @ chunk)")
  then show ?case using read read_chunk_effect(1) [OF read(2)]
    by (auto simp: feeding_inv_def reading_inv_def on_epoll_def)
next
  case (close X fd)
  then show ?case by (simp add: feeding_inv_def on_epoll_def close_effect)
next
  case (wake i X)
  then show ?case using pool_reachable.call [OF _ pool_call.spurious [OF wake(1,2)]] by (simp add: feeding_inv_def)
qed

lemma reading_internal:
  "server_internal rt result X Y \<Longrightarrow> reading_inv keep X \<Longrightarrow> reading_inv keep Y"
proof (induction rule: server_internal.induct)
  case (execute i X fd data p wire s)
  note keeps = handled_keeps [OF execute(4)]
  have "read_ok (sv_epoll s) received k = read_ok (ss_epoll X) received k" for received k
    using keeps(1,2) by (intro read_ok_same) simp_all
  then show ?case using execute(5) keeps(3) by (simp add: reading_inv_def)
qed (simp_all add: reading_inv_def)

lemma reading_external:
  assumes "server_external keep X Y" and "reading_inv keep X"
  shows "reading_inv keep Y"
  using assms
proof (induction rule: server_external.induct)
  case (accept X a)
  have "read_ok (accept_one a (ss_epoll X)) (ss_received X fd) fd" if "fd \<in> keep" for fd
  proof -
    have inv: "read_ok (ss_epoll X) (ss_received X fd) fd" using accept(3) that by (simp add: reading_inv_def)
    show ?thesis using accept_effect(3) [of a "ss_epoll X" fd]
    proof
      assume "map_of (ep_connections (accept_one a (ss_epoll X))) fd = map_of (ep_connections (ss_epoll X)) fd"
      then show ?thesis using inv read_ok_same accept_effect(1) by metis
    next
      assume "fd = fst a \<and> map_of (ep_connections (accept_one a (ss_epoll X))) fd = Some (ClientConnection_new fd)"
      then show ?thesis using inv accept(2) by (auto simp: read_ok_def accept_effect(1) ClientConnection_new_def)
    qed
  qed
  then show ?case using accept(3) by (simp add: reading_inv_def on_epoll_def accept_effect(2))
next
  case (read X fd conn chunk)
  obtain ms r where e: "extractMessages (cc_receive_buffer conn @ chunk) = (ms, r)"
    by (cases "extractMessages (cc_receive_buffer conn @ chunk)")
  have h: "ep_has_handler (ss_epoll X)" using read(4) by (simp add: reading_inv_def)
  note eff = read_chunk_effect [OF read(2) h e]
  have r: "read_ok (read_chunk fd chunk (ss_epoll X)) (ss_received X k @ (if k = fd then chunk else [])) k" if "k \<in> keep" for k
  proof -
    have inv: "read_ok (ss_epoll X) (ss_received X k) k" using read(4) that by (simp add: reading_inv_def)
    show ?thesis
    proof (cases "k = fd")
      case True
      then have "extractMessages (ss_received X fd) = (tasks_of fd (ep_tasks (ss_epoll X)), cc_receive_buffer conn)"
        using inv read(2) by (simp add: read_ok_def)
      then have "extractMessages (ss_received X fd @ chunk) = (tasks_of fd (ep_tasks (ss_epoll X)) @ ms, r)"
        using ep.decode_append [of "ss_received X fd" chunk] e by simp
      then show ?thesis using True by (simp add: read_ok_def eff)
    next
      case False
      then show ?thesis using inv by (simp add: read_ok_def eff split: option.splits)
    qed
  qed
  have "read_ok (read_chunk fd chunk (ss_epoll X)) (ss_received X k) k" if "k \<in> keep" "k \<noteq> fd" for k
    using r [OF that(1)] that(2) by simp
  moreover have "fd \<in> keep \<Longrightarrow> read_ok (read_chunk fd chunk (ss_epoll X)) (ss_received X fd @ chunk) fd"
    using r [of fd] by simp
  ultimately show ?case using eff(2) by (simp add: reading_inv_def on_epoll_def)
next
  case (close X fd)
  have "read_ok (closeConnection fd (ss_epoll X)) (ss_received X k) k" if "k \<in> keep" for k
    using close(2,3) that read_ok_same [OF close_effect(3,1), of k fd "ss_epoll X"] by (auto simp: reading_inv_def)
  then show ?case using close(3) by (simp add: reading_inv_def on_epoll_def close_effect(2))
qed (simp add: reading_inv_def)

lemma replying_internal:
  assumes "server_internal rt result X Y" and "feeding_inv n X" and "reading_inv keep X"
    and "replying_inv rt result keep hs X"
  shows "replying_inv rt result keep hs Y"
  using assms
proof (induction rule: server_internal.induct)
  case (hand X p)
  then show ?case using enqueue_effect [OF hand(3)] by (simp add: replying_inv_def)
next
  case (work X p)
  then show ?case by (simp add: replying_inv_def)
next
  case (execute i X fd data p wire s)
  have hs: "sv_handlers (ss_server X) = hs" using execute(7) by (simp add: replying_inv_def)
  have "(fd, data) \<in> set (tp_accepted (ss_pool X))"
    using running_accepted [of n "ss_pool X"] execute(1,2,5) by (simp add: feeding_inv_def)
  then have "(fd, data) \<in> set (ep_tasks (ss_epoll X))" using execute(5) set_mono_prefix by (auto simp: feeding_inv_def)
  then have "tasks_of fd (ep_tasks (ss_epoll X)) \<noteq> []" by (force simp: tasks_of_Nil)
  then have "fd \<in> keep \<Longrightarrow> map_of (ep_connections (ss_epoll X)) fd \<noteq> None"
    using execute(6) by (force simp: reading_inv_def read_ok_def split: option.splits)
  then have "fd \<in> keep \<Longrightarrow> wire = sent_part result (frame (RpcResponse_serialize rt (reply rt hs data)))"
    using handled_sent [of "ss_server X" fd _ rt data result] execute(4) hs by (metis fst_conv not_None_eq)
  then show ?case using execute(7) step_completed [OF execute(3,2)] handled_keeps(4) [OF execute(4)]
    by (simp add: replying_inv_def)
qed

lemma replying_external:
  "server_external keep' X Y \<Longrightarrow> replying_inv rt result keep hs X \<Longrightarrow> replying_inv rt result keep hs Y"
  by (induction rule: server_external.induct) (simp_all add: replying_inv_def on_epoll_def)

lemma server_invs:
  assumes "server_run rt result keep (ServerSystem_new n s) X" and "fresh_server s"
  shows "feeding_inv n X \<and> reading_inv keep X \<and> replying_inv rt result keep (sv_handlers s) X"
  using assms(1)
proof (induction rule: server_run.induct)
  case init
  let ?p = "ThreadPool_new n :: (int \<times> bytes) ThreadPool"
  have "tp_accepted ?p = []" "\<not> tp_stop ?p" "tp_waiter ?p = NotWaiting" "tp_completed ?p = []"
    by (simp_all add: ThreadPool_new_def)
  then show ?case using assms(2) pool_reachable.init
    by (simp add: feeding_inv_def reading_inv_def read_ok_def replying_inv_def ServerSystem_new_def fresh_server_def)
next
  case (internal Y Z)
  then show ?case using feeding_internal reading_internal replying_internal by blast
next
  case (external Y Z)
  then show ?case using feeding_external reading_external replying_external by blast
qed


section \<open>Everything is answered\<close>

lemma pool_step_completes:
  assumes "pool_step p p'" and "tp_completed p' \<noteq> tp_completed p"
  shows "\<exists>i t. i < length (tp_workers p) \<and> tp_workers p ! i = Running t \<and> worker_step i p = Some p'"
  using assms(1)
proof (cases rule: pool_step.cases)
  case (worker i)
  then show ?thesis using assms(2) by (cases "tp_workers p ! i") (auto simp: worker_step_def split: if_splits)
qed (use assms(2) in \<open>auto simp: notify_one_def stop_notify_def waiter_step_def split: waiter.splits if_splits\<close>)

lemma enqueue_measure: "enqueue t p = Inr p' \<Longrightarrow> pool_measure p' = pool_measure p + 14"
  by (auto simp: enqueue_def pool_measure_def split: if_splits)

definition system_measure :: "ServerSystem \<Rightarrow> nat" where
  "system_measure X = 15 * (length (ep_tasks (ss_epoll X)) - length (tp_accepted (ss_pool X))) + pool_measure (ss_pool X)"

lemma internal_measure: "server_internal rt result X Y \<Longrightarrow> system_measure Y < system_measure X"
proof (induction rule: server_internal.induct)
  case (hand X p)
  then show ?case using enqueue_measure [OF hand(3)] enqueue_effect [OF hand(3)] by (simp add: system_measure_def)
next
  case (work X p)
  then show ?case using pool_step_measure [OF work(1)] accepted_step [OF work(1)] by (simp add: system_measure_def)
next
  case (execute i X fd data p wire s)
  note step = pool_step.worker [OF execute(1,3)]
  show ?case using pool_step_measure [OF step] accepted_step [OF step] handled_keeps(2) [OF execute(4)]
    by (simp add: system_measure_def)
qed

lemma wfp_internal: "wfp (\<lambda>Z Y. server_internal rt result Y Z)"
  by (rule wfp_if_convertible_to_nat [where f = system_measure]) (rule internal_measure)

lemma internal_ends: "\<exists>Y. (server_internal rt result)\<^sup>*\<^sup>* X Y \<and> \<not> (\<exists>Z. server_internal rt result Y Z)"
proof (induction X rule: wfp_induct_rule [OF wfp_internal [of rt result]])
  case (1 X)
  then show ?case by (cases "\<exists>Z. server_internal rt result X Z") (blast intro: converse_rtranclp_into_rtranclp)+
qed

lemma quiet_system:
  assumes inv: "feeding_inv n X" and n: "0 < n" and quiet: "\<not> (\<exists>Z. server_internal rt result X Z)"
  shows "mset (tp_completed (ss_pool X)) = mset (ep_tasks (ss_epoll X))"
proof -
  let ?p = "ss_pool X" let ?ts = "ep_tasks (ss_epoll X)"
  have pool: "pool_reachable n ?p" "\<not> tp_stop ?p" "tp_waiter ?p = NotWaiting" "prefix (tp_accepted ?p) ?ts"
    using inv by (simp_all add: feeding_inv_def)
  have "\<not> length (tp_accepted ?p) < length ?ts"
  proof
    assume l: "length (tp_accepted ?p) < length ?ts"
    have "\<not> queue_locked ?p" using pool(3) by (simp add: queue_locked_def)
    moreover obtain p' where "enqueue (?ts ! length (tp_accepted ?p)) ?p = Inr p'" using pool(2) by (simp add: enqueue_def)
    ultimately show False using quiet server_internal.hand [OF l] by blast
  qed
  then have "tp_accepted ?p = ?ts" using pool(4) by (metis not_equal_is_parallel parallelD1 prefix_length_less prefix_order.le_less)
  moreover have "\<not> pool_step ?p p'" for p'
  proof
    assume step: "pool_step ?p p'"
    show False
    proof (cases "tp_completed p' = tp_completed ?p")
      case True
      then show ?thesis using quiet server_internal.work [OF step] by blast
    next
      case False
      obtain i t where "i < length (tp_workers ?p)" "tp_workers ?p ! i = Running t" "worker_step i ?p = Some p'"
        using pool_step_completes [OF step False] by blast
      then show ?thesis using quiet server_internal.execute [of i X "fst t" "snd t" p' rt result]
        by (metis prod.collapse)
    qed
  qed
  ultimately show ?thesis using stuck_pool(2) [OF pool(1) n] by auto
qed

lemma run_internal:
  "(server_internal rt result)\<^sup>*\<^sup>* Y Z \<Longrightarrow> server_run rt result keep X Y \<Longrightarrow> server_run rt result keep X Z"
  by (induction rule: rtranclp_induct) (auto intro: server_run.internal)

lemma received_internal: "(server_internal rt result)\<^sup>*\<^sup>* X Y \<Longrightarrow> ss_received Y = ss_received X"
proof (induction rule: rtranclp_induct)
  case (step Y Z)
  from step(2,3) show ?case by (cases rule: server_internal.cases) simp_all
qed simp

lemma mset_tasks_of: "mset ts = mset ts' \<Longrightarrow> mset (tasks_of fd ts) = mset (tasks_of fd ts')"
  unfolding tasks_of_def by (simp flip: mset_filter) (metis mset_filter mset_map)

text \<open>A client that reads as many messages as it sent requests has the answers.\<close>

lemma answers_received:
  assumes "pb_wire rt" and "\<forall>q \<in> set qs. carried rt (answer hs q)" and "tc_connected c"
    and "sk_rx k = concat (map (\<lambda>q. frame (RpcResponse_serialize rt (answer hs q))) qs)"
  shows "map (RpcResponse_deserialize rt) (receive_many (length qs) c k) = map (\<lambda>q. Some (answer hs q)) qs"
proof -
  have "list_all (\<lambda>a. RpcResponse_ok rt a \<and> RpcResponse_serialize rt a \<noteq> [] \<and>
      length (RpcResponse_serialize rt a) \<le> max_message) (map (answer hs) qs)"
    using assms(2) by (simp add: list_all_iff carried_def)
  from wire_codec.received_all [OF response_codec [OF assms(1)] this assms(3), of k "[]"] show ?thesis
    using assms(4) by (simp add: comp_def)
qed

text \<open>C2. The server answers everything: whatever its clients do and however its threads interleave, if the
  requests of a connection that stays open have arrived whole, in whatever pieces, then the server
  comes to rest by itself, and by then it has sent each of them its response, the handler's result
  or the error of the dispatch, once and whole, and the client reads these responses one by one, in
  the order in which the workers finished them.\<close>

theorem server_answers_all:
  assumes "pb_wire rt" and "fresh_server s" and "server_run rt result keep (ServerSystem_new n s) X"
    and "0 < n" and "fd \<in> keep"
    and "ss_received X fd = concat (map (\<lambda>q. frame (RpcRequest_serialize rt q)) qs)"
    and "list_all (\<lambda>q. RpcRequest_ok rt q \<and> short (RpcRequest_serialize rt q) \<and> carried rt (answer (sv_handlers s) q)) qs"
    and "int max_message + 4 \<le> result"
  shows "(\<exists>Y. (server_internal rt result)\<^sup>*\<^sup>* X Y \<and> \<not> (\<exists>Z. server_internal rt result Y Z)) \<and>
    wfp (\<lambda>Z Y. server_internal rt result Y Z) \<and>
    (\<forall>Y. (server_internal rt result)\<^sup>*\<^sup>* X Y \<longrightarrow> \<not> (\<exists>Z. server_internal rt result Y Z) \<longrightarrow>
      (\<exists>qs'. mset qs' = mset qs \<and>
        ss_sent Y fd = concat (map (\<lambda>q. frame (RpcResponse_serialize rt (answer (sv_handlers s) q))) qs') \<and>
        (\<forall>c k. tc_connected c \<longrightarrow> sk_rx k = ss_sent Y fd \<longrightarrow>
          map (RpcResponse_deserialize rt) (receive_many (length qs) c k) = map (\<lambda>q. Some (answer (sv_handlers s) q)) qs')))"
proof (intro conjI allI impI)
  show "\<exists>Y. (server_internal rt result)\<^sup>*\<^sup>* X Y \<and> \<not> (\<exists>Z. server_internal rt result Y Z)" by (rule internal_ends)
  show "wfp (\<lambda>Z Y. server_internal rt result Y Z)" by (rule wfp_internal)
  fix Y assume run: "(server_internal rt result)\<^sup>*\<^sup>* X Y" and quiet: "\<not> (\<exists>Z. server_internal rt result Y Z)"
  let ?hs = "sv_handlers s" let ?ser = "RpcRequest_serialize rt"
  have inv: "feeding_inv n Y" "read_ok (ss_epoll Y) (ss_received Y fd) fd" "replying_inv rt result keep ?hs Y"
    using server_invs [OF run_internal [OF run assms(3)] assms(2)] assms(5) by (simp_all add: reading_inv_def)
  have received: "ss_received Y fd = concat (map frame (map ?ser qs))"
    using received_internal [OF run] assms(6) by (simp add: comp_def)
  have short: "list_all short (map ?ser qs)" using assms(7) by (simp add: list_all_iff)
  have "tasks_of fd (ep_tasks (ss_epoll Y)) = map ?ser qs"
    using inv(2) ep.decode_encoded [OF short, of "[]"] received
    by (auto simp: read_ok_def split: option.splits)
  then have "mset (tasks_of fd (tp_completed (ss_pool Y))) = mset (map ?ser qs)"
    using mset_tasks_of [OF quiet_system [OF inv(1) assms(4) quiet]] by simp
  then obtain qs' where qs': "mset qs' = mset qs" "tasks_of fd (tp_completed (ss_pool Y)) = map ?ser qs'"
    using mset_map_order by metis
  have set: "set qs' = set qs" and len: "length qs' = length qs"
    using qs'(1) by (metis mset_eq_setD, metis mset_eq_length)
  have sent: "sent_part result (frame (RpcResponse_serialize rt (reply rt ?hs (?ser q)))) =
      frame (RpcResponse_serialize rt (answer ?hs q))" if "q \<in> set qs'" for q
    using that set assms(7,8) pb_wire.RpcRequest_roundtrip [OF assms(1), of q]
    by (intro trans [OF sent_whole]) (auto simp: list_all_iff reply_def carried_def length_frame)
  have wire: "ss_sent Y fd = concat (map (\<lambda>q. frame (RpcResponse_serialize rt (answer ?hs q))) qs')"
    using inv(3) assms(5) qs'(2) sent by (simp add: replying_inv_def comp_def cong: map_cong)
  have "map (RpcResponse_deserialize rt) (receive_many (length qs) c k) = map (\<lambda>q. Some (answer ?hs q)) qs'"
    if "tc_connected c" "sk_rx k = ss_sent Y fd" for c k
    using answers_received [OF assms(1) _ that(1), of qs' ?hs k] assms(7) set that(2) wire len
    by (simp add: list_all_iff)
  then show "\<exists>qs'. mset qs' = mset qs \<and>
        ss_sent Y fd = concat (map (\<lambda>q. frame (RpcResponse_serialize rt (answer ?hs q))) qs') \<and>
        (\<forall>c k. tc_connected c \<longrightarrow> sk_rx k = ss_sent Y fd \<longrightarrow>
          map (RpcResponse_deserialize rt) (receive_many (length qs) c k) = map (\<lambda>q. Some (answer ?hs q)) qs')"
    using qs'(1) wire by blast
qed


section \<open>An instance\<close>

definition fresh_ex :: RpcServer where
  "fresh_ex = RpcServer_registerService ''S'' ''m'' echo (RpcServer_new 80 ''127.0.0.1'' 90 9)"

text \<open>One client connects and its bytes are read.\<close>

definition arrived :: "nat \<Rightarrow> RpcServer \<Rightarrow> bytes \<Rightarrow> ServerSystem" where
  "arrived n s stream = (let X = on_epoll (accept_one (7, True, True)) (ServerSystem_new n s)
   in (on_epoll (read_chunk 7 stream) X)\<lparr>ss_received := (ss_received X)(7 := ss_received X 7 @ stream)\<rparr>)"

lemma arrived_run:
  assumes "fresh_server s" and "ep_active_connections (sv_epoll s) < ep_max_connections (sv_epoll s)"
  shows "server_run rt result {7} (ServerSystem_new n s) (arrived n s stream)"
proof -
  let ?X0 = "ServerSystem_new n s" let ?X1 = "on_epoll (accept_one (7, True, True)) ?X0"
  have h: "handed_over ?X0" "handed_over ?X1"
    using assms(1) by (simp_all add: handed_over_def ServerSystem_new_def ThreadPool_new_def on_epoll_def
        accept_effect fresh_server_def)
  have c: "map_of (ep_connections (ss_epoll ?X0)) 7 = None"
    "map_of (ep_connections (ss_epoll ?X1)) 7 = Some (ClientConnection_new 7)"
    using assms by (simp_all add: ServerSystem_new_def on_epoll_def accept_one_def fresh_server_def not_le)
  have "server_run rt result {7} ?X0 ?X1"
    by (rule server_run.external [OF server_run.init server_external.accept [OF h(1)]]) (simp add: c)
  moreover have "server_external {7} ?X1 (arrived n s stream)"
    unfolding arrived_def Let_def
    by (rule server_external.read [OF h(2) c(2)]) (simp add: ClientConnection_new_def)
  ultimately show ?thesis by (rule server_run.external)
qed

lemma arrived_received: "ss_received (arrived n s stream) 7 = stream"
  by (simp add: arrived_def Let_def on_epoll_def ServerSystem_new_def)

definition two_requests :: ServerSystem where
  "two_requests = arrived 2 fresh_ex (concat (map (\<lambda>q. frame (RpcRequest_serialize std_runtime q)) pipelined))"

lemma fresh_ex_facts:
  "fresh_server fresh_ex" "ep_active_connections (sv_epoll fresh_ex) < ep_max_connections (sv_epoll fresh_ex)"
  "sv_handlers fresh_ex = sv_handlers server_ex"
  by (simp_all add: fresh_server_def fresh_ex_def server_ex_def RpcServer_registerService_def RpcServer_new_def
      setConnectionHandler_def EpollServer_new_def)

lemma server_answers_all_witness:
  "\<exists>Y qs'. (server_internal std_runtime (int max_message + 4))\<^sup>*\<^sup>* two_requests Y \<and> mset qs' = mset pipelined \<and>
    ss_sent Y 7 = concat (map (\<lambda>q. frame (RpcResponse_serialize std_runtime (answer (sv_handlers fresh_ex) q))) qs')"
proof -
  have run: "server_run std_runtime (int max_message + 4) {7} (ServerSystem_new 2 fresh_ex) two_requests"
    unfolding two_requests_def by (rule arrived_run [OF fresh_ex_facts(1,2)])
  have "ss_received two_requests 7 = concat (map (\<lambda>q. frame (RpcRequest_serialize std_runtime q)) pipelined)"
    by (simp add: two_requests_def arrived_received)
  moreover have "list_all (\<lambda>q. RpcRequest_ok std_runtime q \<and> short (RpcRequest_serialize std_runtime q) \<and>
      carried std_runtime (answer (sv_handlers fresh_ex) q)) pipelined"
    using pipelined_facts fresh_ex_facts(3) by (simp add: list_all_iff carried_def)
  ultimately have all: "(\<exists>Y. (server_internal std_runtime (int max_message + 4))\<^sup>*\<^sup>* two_requests Y \<and>
        \<not> (\<exists>Z. server_internal std_runtime (int max_message + 4) Y Z)) \<and>
      (\<forall>Y. (server_internal std_runtime (int max_message + 4))\<^sup>*\<^sup>* two_requests Y \<longrightarrow>
        \<not> (\<exists>Z. server_internal std_runtime (int max_message + 4) Y Z) \<longrightarrow>
        (\<exists>qs'. mset qs' = mset pipelined \<and> ss_sent Y 7 =
          concat (map (\<lambda>q. frame (RpcResponse_serialize std_runtime (answer (sv_handlers fresh_ex) q))) qs')))"
    using server_answers_all [OF std.pb_wire_axioms fresh_ex_facts(1) run, where qs = pipelined and fd = 7]
    by (simp only: insertI1 order_refl zero_less_numeral) blast
  then show ?thesis by blast
qed

end
