(* ===== verification/Configurations.thy ===== *)
theory Configurations
  imports Server_System Client_Properties
begin

text \<open>
  The configurations of the four classes that have one (the \<open>Config\<close> structs of epoll_server.h,
  connection_pool.h, rpc_server.h and rpc_client.h), their default values, and the constructors: the
  one without a configuration delegates to the other with the defaults, and the RPC server and the
  RPC client build the configuration of the epoll server and of the connection pool from their own.
  The default size of a thread pool is \<open>std::thread::hardware_concurrency()\<close>, the argument \<open>hc\<close>,
  which is 0 when the number of processors cannot be determined. Times are in the unit of the
  clocks, nanoseconds.
\<close>

section \<open>Configurations\<close>

definition milliseconds :: "int \<Rightarrow> int" where
  "milliseconds n = n * 1000000"

record EpollServer_Config =
  ec_max_events :: i32
  ec_epoll_timeout :: i32
  ec_thread_pool_size :: u64
  ec_max_connections :: u64
  ec_buffer_size :: u64

definition EpollServer_Config_default :: "u64 \<Rightarrow> EpollServer_Config" where
  "EpollServer_Config_default hc = \<lparr>ec_max_events = 1024, ec_epoll_timeout = 1000,
     ec_thread_pool_size = hc, ec_max_connections = 10000, ec_buffer_size = 4096\<rparr>"

record ConnectionPool_Config =
  pc_max_connections_per_host :: u64
  pc_min_connections_per_host :: u64
  pc_connection_timeout :: int
  pc_idle_timeout :: int
  pc_acquire_timeout :: int

definition ConnectionPool_Config_default :: ConnectionPool_Config where
  "ConnectionPool_Config_default = \<lparr>pc_max_connections_per_host = 10, pc_min_connections_per_host = 2,
     pc_connection_timeout = seconds 10, pc_idle_timeout = seconds 300, pc_acquire_timeout = seconds 5\<rparr>"

record RpcServer_Config =
  sc_thread_pool_size :: u64
  sc_max_connections :: u64
  sc_epoll_timeout :: i32

definition RpcServer_Config_default :: "u64 \<Rightarrow> RpcServer_Config" where
  "RpcServer_Config_default hc = \<lparr>sc_thread_pool_size = hc, sc_max_connections = 10000, sc_epoll_timeout = 1000\<rparr>"

record RpcClient_Config =
  cc_max_connections_per_host :: u64
  cc_min_connections_per_host :: u64
  cc_connection_timeout :: int
  cc_idle_timeout :: int
  cc_acquire_timeout :: int
  cc_request_timeout :: int
  cc_retry_count :: i32
  cc_retry_delay :: int
  cc_service_cache_ttl :: int

definition RpcClient_Config_default :: RpcClient_Config where
  "RpcClient_Config_default = \<lparr>cc_max_connections_per_host = 10, cc_min_connections_per_host = 2,
     cc_connection_timeout = seconds 10, cc_idle_timeout = seconds 300, cc_acquire_timeout = seconds 5,
     cc_request_timeout = milliseconds 30000, cc_retry_count = 3, cc_retry_delay = milliseconds 100,
     cc_service_cache_ttl = seconds 60\<rparr>"

section \<open>Constructors\<close>

text \<open>The epoll server and the thread pool it creates.\<close>

definition EpollServer_create :: "EpollServer_Config \<Rightarrow> EpollServer \<times> 'a ThreadPool" where
  "EpollServer_create config =
     (EpollServer_new (ec_max_connections config), ThreadPool_new (unat (ec_thread_pool_size config)))"

definition EpollServer_create_default :: "u64 \<Rightarrow> EpollServer \<times> 'a ThreadPool" where
  "EpollServer_create_default hc = EpollServer_create (EpollServer_Config_default hc)"

text \<open>The configuration the RPC server gives its epoll server.\<close>

definition epoll_config :: "RpcServer_Config \<Rightarrow> EpollServer_Config" where
  "epoll_config config = \<lparr>ec_max_events = 1024, ec_epoll_timeout = sc_epoll_timeout config,
     ec_thread_pool_size = sc_thread_pool_size config, ec_max_connections = sc_max_connections config,
     ec_buffer_size = 4096\<rparr>"

definition RpcServer_create :: "i32 \<Rightarrow> bytes \<Rightarrow> i32 \<Rightarrow> RpcServer_Config \<Rightarrow> RpcServer \<times> (int \<times> bytes) ThreadPool" where
  "RpcServer_create port registry_host registry_port config =
     (let (epoll, pool) = EpollServer_create (epoll_config config)
      in ((RpcServer_new port registry_host registry_port (sc_max_connections config))
            \<lparr>sv_epoll := setConnectionHandler epoll\<rparr>, pool))"

definition RpcServer_create_default :: "u64 \<Rightarrow> i32 \<Rightarrow> bytes \<Rightarrow> i32 \<Rightarrow> RpcServer \<times> (int \<times> bytes) ThreadPool" where
  "RpcServer_create_default hc port registry_host registry_port =
     RpcServer_create port registry_host registry_port (RpcServer_Config_default hc)"

definition ConnectionPool_create :: "ConnectionPool_Config \<Rightarrow> ConnectionPool" where
  "ConnectionPool_create config = ConnectionPool_new (unat (pc_max_connections_per_host config))
     (unat (pc_min_connections_per_host config)) (pc_idle_timeout config) (pc_acquire_timeout config)"

definition ConnectionPool_create_default :: ConnectionPool where
  "ConnectionPool_create_default = ConnectionPool_create ConnectionPool_Config_default"

text \<open>The configuration the RPC client gives its connection pool, and the client with the connections it will open.\<close>

definition pool_config :: "RpcClient_Config \<Rightarrow> ConnectionPool_Config" where
  "pool_config config = \<lparr>pc_max_connections_per_host = cc_max_connections_per_host config,
     pc_min_connections_per_host = cc_min_connections_per_host config,
     pc_connection_timeout = cc_connection_timeout config, pc_idle_timeout = cc_idle_timeout config,
     pc_acquire_timeout = cc_acquire_timeout config\<rparr>"

definition RpcClient_create :: "RpcClient_Config \<Rightarrow> (nat \<Rightarrow> sock) \<Rightarrow> RpcClient \<times> Network" where
  "RpcClient_create config socks =
     (RpcClient_new (sint (cc_retry_count config)) (cc_service_cache_ttl config),
      \<lparr>nw_pool = Some (ConnectionPool_create (pool_config config)), nw_socks = socks\<rparr>)"

definition RpcClient_create_default :: "(nat \<Rightarrow> sock) \<Rightarrow> RpcClient \<times> Network" where
  "RpcClient_create_default socks = RpcClient_create RpcClient_Config_default socks"

section \<open>What the configurations mean\<close>

text \<open>The default client configures its pool as a pool would itself.\<close>

lemma default_pools: "pool_config RpcClient_Config_default = ConnectionPool_Config_default"
  and default_epoll: "epoll_config (RpcServer_Config_default hc) = EpollServer_Config_default hc"
  by (simp_all add: pool_config_def RpcClient_Config_default_def ConnectionPool_Config_default_def
      epoll_config_def RpcServer_Config_default_def EpollServer_Config_default_def)

lemma default_client:
  "RpcClient_create_default socks = (RpcClient_new 3 (seconds 60),
     \<lparr>nw_pool = Some (ConnectionPool_new 10 2 (seconds 300) (seconds 5)), nw_socks = socks\<rparr>)"
  by (simp add: RpcClient_create_default_def RpcClient_create_def default_pools ConnectionPool_create_def)
    (simp add: RpcClient_Config_default_def ConnectionPool_Config_default_def)

text \<open>The time-out of a request and the delay between retries are configured and change nothing the
  client computes: nothing in the client reads the former, and a receive ends after the
  connection's time-out instead.\<close>

lemma request_timeout_unused:
  "RpcClient_create (config\<lparr>cc_request_timeout := t, cc_retry_delay := d\<rparr>) socks = RpcClient_create config socks"
  by (simp add: RpcClient_create_def pool_config_def)

lemma created_fresh: "fresh_server (fst (RpcServer_create port registry_host registry_port config))"
  by (simp add: RpcServer_create_def EpollServer_create_def fresh_server_def setConnectionHandler_def EpollServer_new_def)

lemma register_fresh: "fresh_server s \<Longrightarrow> fresh_server (RpcServer_registerService service_name method_name h s)"
  by (simp add: fresh_server_def RpcServer_registerService_def)

section \<open>A server without workers\<close>

lemma idle_reachable:
  assumes "server_run rt result keep (ServerSystem_new 0 s) X"
  shows "tp_workers (ss_pool X) = [] \<and> tp_completed (ss_pool X) = [] \<and> ss_sent X = (\<lambda>_. [])"
  using assms
proof (induction rule: server_run.induct)
  case init
  then show ?case by (simp add: ServerSystem_new_def ThreadPool_new_def)
next
  case (internal Y Z)
  have keep: "tp_workers p' = tp_workers p" if "pool_step p p'" "tp_workers p = []" for p p' :: "(int \<times> bytes) ThreadPool"
    using that by (cases rule: pool_step.cases) (auto simp: notify_one_def stop_notify_def waiter_step_def
        split: waiter.splits if_splits)
  from internal(2,3) show ?case
  proof (cases rule: server_internal.cases)
    case (hand p)
    then show ?thesis using internal(3) by (auto simp: enqueue_def split: if_splits)
  next
    case (work p)
    then show ?thesis using internal(3) keep [OF work(2)] by simp
  qed (use internal(3) in simp)
next
  case (external Y Z)
  from external(2,3) show ?case by (cases rule: server_external.cases) (simp_all add: on_epoll_def)
qed

text \<open>C38. On a machine whose number of processors cannot be determined the default configuration makes a
  server without workers: it starts, accepts connections and requests, and never answers one.\<close>

theorem no_workers_no_answers:
  assumes "RpcServer_create_default 0 port registry_host registry_port = (s, pool)"
    and "server_run rt result keep \<lparr>ss_server = fold (\<lambda>(service_name, method_name, h).
        RpcServer_registerService service_name method_name h) services s, ss_pool = pool,
      ss_received = (\<lambda>_. []), ss_sent = (\<lambda>_. [])\<rparr> X"
  shows "ss_sent X fd = [] \<and> tp_completed (ss_pool X) = []"
proof -
  have "pool = ThreadPool_new 0"
    using assms(1) by (auto simp: RpcServer_create_default_def RpcServer_create_def EpollServer_create_def
        epoll_config_def RpcServer_Config_default_def)
  from idle_reachable [OF assms(2) [unfolded this, folded ServerSystem_new_def]] show ?thesis by simp
qed

definition default_ex :: "RpcServer \<times> (int \<times> bytes) ThreadPool" where
  "default_ex = RpcServer_create_default 0 80 ''127.0.0.1'' 90"

text \<open>A request of three bytes has been read and is waiting for ever.\<close>

lemma no_workers_no_answers_witness:
  "\<exists>X. ss_received X 7 = frame ''abc'' \<and> ep_tasks (ss_epoll X) = [(7, ''abc'')] \<and> ss_sent X 7 = []"
proof -
  let ?s = "fst default_ex" let ?X = "arrived 0 (RpcServer_registerService ''S'' ''m'' echo ?s) (frame ''abc'')"
  have new: "default_ex = (?s, ThreadPool_new 0)" and max: "ep_active_connections (sv_epoll ?s) < ep_max_connections (sv_epoll ?s)"
    by (simp_all add: default_ex_def RpcServer_create_default_def RpcServer_create_def EpollServer_create_def
        epoll_config_def RpcServer_Config_default_def setConnectionHandler_def EpollServer_new_def)
  have fresh: "fresh_server ?s" unfolding default_ex_def RpcServer_create_default_def by (rule created_fresh)
  have run: "server_run std_runtime 9 {7} (ServerSystem_new 0 (RpcServer_registerService ''S'' ''m'' echo ?s)) ?X"
    by (rule arrived_run [OF register_fresh [OF fresh]]) (simp add: RpcServer_registerService_def max)
  have "ss_sent ?X 7 = []"
    using no_workers_no_answers [OF new [unfolded default_ex_def], where services = "[(''S'', ''m'', echo)]" and X = ?X
        and rt = std_runtime and result = 9 and keep = "{7}" and fd = 7] run
    by (simp add: default_ex_def ServerSystem_new_def)
  moreover have "extractMessages (frame ''abc'') = ([''abc''], [])"
    using extract_frame [of "''abc''" "[]"] by (simp add: short_def)
  then have "ep_tasks (ss_epoll ?X) = [(7, ''abc'')]"
    using fresh max by (simp add: arrived_def Let_def on_epoll_def ServerSystem_new_def accept_one_def read_chunk_def
        fresh_server_def RpcServer_registerService_def ClientConnection_new_def not_le)
  moreover have "ss_received ?X 7 = frame ''abc''" by (rule arrived_received)
  ultimately show ?thesis by blast
qed

end
