(* ===== verification/Statistics.thy ===== *)
theory Statistics
  imports Complex_Main Client_Threads Server_System
begin

text \<open>
  The statistics the classes print: the average response time of \<open>RpcClient::call\<close>, the success rate of
  \<open>RpcServer::printStats\<close> and the utilization of \<open>ConnectionPool::printStats\<close>. The code computes them
  in \<open>double\<close>; here they are rational numbers, without the rounding. Counters are 64 bits wide.
\<close>

section \<open>The average response time\<close>

text \<open>\<open>total_response_time_\<close> is an average: \<open>old\<close> is its value, \<open>n\<close> is \<open>successful_calls_\<close>, already counted up.\<close>

definition new_avg :: "rat \<Rightarrow> u64 \<Rightarrow> int \<Rightarrow> rat" where
  "new_avg old n duration = (old * of_nat (unat (n - 1)) + of_int duration) / of_nat (unat n)"

text \<open>The successful calls of a client, one after the other.\<close>

primrec averaged :: "int list \<Rightarrow> rat \<times> u64 \<Rightarrow> rat \<times> u64" where
  "averaged [] s = s"
| "averaged (d # ds) s = averaged ds (new_avg (fst s) (snd s + 1) d, snd s + 1)"

lemma averaged_from:
  fixes sum :: int
  assumes "avg * of_nat k = of_int sum" and "k + length ds < 2 ^ 64"
  shows "snd (averaged ds (avg, of_nat k)) = of_nat (k + length ds) \<and>
    fst (averaged ds (avg, of_nat k)) * of_nat (k + length ds) = of_int (sum + sum_list ds)"
  using assms
proof (induction ds arbitrary: avg k sum)
  case (Cons d ds)
  have u: "unat (of_nat k + 1 :: u64) = Suc k" "unat (of_nat k :: u64) = k"
  proof -
    have "of_nat k + 1 = (of_nat (Suc k) :: u64)" by simp
    moreover have "unat (of_nat m :: u64) = m" if "m < 2 ^ 64" for m using that by (simp add: unat_of_nat)
    ultimately show "unat (of_nat k + 1 :: u64) = Suc k" "unat (of_nat k :: u64) = k"
      using Cons.prems(2) by (simp_all del: of_nat_Suc)
  qed
  have avg: "new_avg avg (of_nat k + 1) d * of_nat (Suc k) = of_int (sum + d)"
    using Cons.prems(1) by (simp add: new_avg_def u del: of_nat_Suc)
  have s: "of_nat k + 1 = (of_nat (Suc k) :: u64)" by simp
  have "Suc k + length ds < 2 ^ 64" using Cons.prems(2) by simp
  from Cons.IH [OF avg this] show ?case by (simp add: s add.assoc del: of_nat_Suc)
qed simp

text \<open>Calls that run one after the other: the average is the mean of their durations.\<close>

theorem average_is_mean:
  assumes "ds \<noteq> []" and "length ds < 2 ^ 64"
  shows "fst (averaged ds (0, 0)) = of_int (sum_list ds) / of_nat (length ds)"
  using averaged_from [of 0 0 0 ds] assms by (simp add: nonzero_eq_divide_eq)

text \<open>
  Calls at the same time: each counts its success, loads the average, and stores the new one with
  the number of successes it reads then.
\<close>

datatype average_step = CountSuccess | LoadAverage | StoreAverage

record average_call =
  av_duration :: int
  av_old :: rat

definition average_act :: "nat \<times> average_step \<Rightarrow> (rat \<times> u64) \<times> average_call list \<Rightarrow> (rat \<times> u64) \<times> average_call list" where
  "average_act = (\<lambda>(i, step) ((avg, n), calls). case step of
       CountSuccess \<Rightarrow> ((avg, n + 1), calls)
     | LoadAverage \<Rightarrow> ((avg, n), calls[i := (calls ! i)\<lparr>av_old := avg\<rparr>])
     | StoreAverage \<Rightarrow> ((new_avg (av_old (calls ! i)) n (av_duration (calls ! i)), n), calls))"

text \<open>Alone, the three steps are one of the sequence above; interleaved, two calls of 100 ms leave an average of 50.\<close>

lemma average_alone:
  "i < length calls \<Longrightarrow>
   fst (fold average_act [(i, CountSuccess), (i, LoadAverage), (i, StoreAverage)] (s, calls)) =
     averaged [av_duration (calls ! i)] s"
  by (cases s) (simp add: average_act_def)

theorem average_race:
  "fst (fst (fold average_act [(0, CountSuccess), (1, CountSuccess), (0, LoadAverage), (1, LoadAverage), (0, StoreAverage),
      (1, StoreAverage)] ((0, 0), [\<lparr>av_duration = 100, av_old = 0\<rparr>, \<lparr>av_duration = 100, av_old = 0\<rparr>]))) = 50"
  by (simp add: average_act_def new_avg_def)

section \<open>Success rate\<close>

text \<open>What \<open>printStats\<close> prints after \<open>getStats\<close>; the rate is in per cent.\<close>

record server_report =
  rp_stats :: rpc_stats
  rp_success_rate :: rat
  rp_services :: nat

definition success_rate :: "u64 \<Rightarrow> u64 \<Rightarrow> rat" where
  "success_rate requests failures = (if requests > 0 then 100 * of_nat (unat (requests - failures)) / of_nat (unat requests) else 0)"

definition RpcServer_printStats :: "RpcServer \<Rightarrow> server_report" where
  "RpcServer_printStats s = (let stats = RpcServer_getStats s in
     \<lparr>rp_stats = stats,
      rp_success_rate = success_rate (rpc_stats.st_total_requests stats) (rpc_stats.st_failed_requests stats),
      rp_services = length (sv_handlers s)\<rparr>)"

lemma percentage:
  fixes m n :: nat
  assumes "m \<le> n"
  shows "0 \<le> (100 :: rat) * of_nat m / of_nat n \<and> (100 :: rat) * of_nat m / of_nat n \<le> 100"
  using assms by (cases "n = 0") (simp_all add: field_simps)

lemma success_rate_bounds:
  assumes "failures \<le> requests"
  shows "0 \<le> success_rate requests failures \<and> success_rate requests failures \<le> 100"
proof -
  have "unat (requests - failures) \<le> unat requests" using assms by (simp add: unat_sub)
  from percentage [OF this] show ?thesis unfolding success_rate_def by (cases "requests > 0") (simp_all only: if_True if_False, simp_all)
qed

text \<open>One request that fails twice is reported as a success rate of far more than 100 per cent.\<close>

lemma success_rate_absurd: "success_rate 1 2 = 100 * (2 ^ 64 - 1)"
  by (simp add: success_rate_def unsigned_minus_1_eq_mask mask_eq_exp_minus_1)

section \<open>Pool utilization\<close>

record pool_report =
  pp_stats :: Stats
  pp_utilization :: rat
  pp_hosts :: "(bytes \<times> u64 \<times> nat \<times> nat) list"

definition ConnectionPool_printStats :: "ConnectionPool \<Rightarrow> pool_report" where
  "ConnectionPool_printStats p = (let stats = ConnectionPool_getStats p in
     \<lparr>pp_stats = stats,
      pp_utilization = (if Stats.st_total_connections stats > 0
        then 100 * of_nat (unat (Stats.st_active_connections stats)) / of_nat (Stats.st_total_connections stats) else 0),
      pp_hosts = map (\<lambda>(key, hp). (key, hp_active_count hp, length (hp_all_connections hp), length (hp_idle_connections hp)))
        (cp_pools p)\<rparr>)"


lemma sum_active:
  "\<forall>hp \<in> set hps. hp_active_count hp = of_nat (card {a \<in> set (hp_all_connections hp). in_use hp a}) \<Longrightarrow>
   \<exists>m \<le> sum_list (map (length \<circ> hp_all_connections) hps). sum_list (map hp_active_count hps) = of_nat m"
proof (induction hps)
  case (Cons hp hps)
  obtain m where m: "m \<le> sum_list (map (length \<circ> hp_all_connections) hps)"
    "sum_list (map hp_active_count hps) = of_nat m"
  proof -
    have "\<forall>hp \<in> set hps. hp_active_count hp = of_nat (card {a \<in> set (hp_all_connections hp). in_use hp a})"
      using Cons.prems by simp
    from Cons.IH [OF this] show ?thesis using that by blast
  qed
  let ?c = "card {a \<in> set (hp_all_connections hp). in_use hp a}"
  have "?c \<le> length (hp_all_connections hp)" by (rule order_trans [OF card_mono card_length]) auto
  moreover have "hp_active_count hp = of_nat ?c" using Cons.prems by simp
  ultimately show ?case using m by (intro exI [of _ "?c + m"]) (simp add: comp_def)
qed simp

text \<open>Under every interleaving the utilization lies between 0 and 100 per cent.\<close>

theorem utilization_bounds:
  assumes "pool_reached (cpool limit n) (p, ts)" and "cp_running p"
  shows "0 \<le> pp_utilization (ConnectionPool_printStats p) \<and> pp_utilization (ConnectionPool_printStats p) \<le> 100"
proof -
  have inv: "pools_inv p" using inv_running [OF assms] by (simp add: inv_parts_def)
  have active: "\<forall>hp \<in> set (map snd (cp_pools p)).
      hp_active_count hp = of_nat (card {a \<in> set (hp_all_connections hp). in_use hp a})"
  proof
    fix hp assume "hp \<in> set (map snd (cp_pools p))"
    then obtain k where "(k, hp) \<in> set (cp_pools p)" by auto
    then have "map_of (cp_pools p) k = Some hp" using inv by (intro map_of_is_SomeI) (auto simp: pools_inv_def)
    then show "hp_active_count hp = of_nat (card {a \<in> set (hp_all_connections hp). in_use hp a})"
      using inv unfolding pools_inv_def host_inv_def by blast
  qed
  obtain m where m: "m \<le> Stats.st_total_connections (ConnectionPool_getStats p)"
    "Stats.st_active_connections (ConnectionPool_getStats p) = of_nat m"
    using sum_active [OF active] unfolding ConnectionPool_getStats_def Let_def by auto
  have "unat (of_nat m :: u64) \<le> m" by (simp only: unat_of_nat mod_less_eq_dividend)
  then have "unat (Stats.st_active_connections (ConnectionPool_getStats p)) \<le> Stats.st_total_connections (ConnectionPool_getStats p)"
    using m by simp
  from percentage [OF this] show ?thesis
    unfolding ConnectionPool_printStats_def Let_def pool_report.simps by (simp split: if_splits)
qed

end
