(* ===== verification/Client_Session.thy ===== *)
theory Client_Session
  imports Client_Properties
begin

text \<open>
  What a client of two services sees, as in client\_example.cpp: the first call of one service finds
  it through the registry, and its connection to the registry stays in the pool although the registry
  has closed it. The attempts of that call go over connections to another host and leave it alone, so the first call of
  a second service takes it for its discovery.
\<close>

section \<open>Other hosts are left alone\<close>

text \<open>The connection at \<open>a\<close> is not one of the host \<open>key\<close>.\<close>

definition apart :: "bytes \<Rightarrow> nat \<Rightarrow> ConnectionPool \<Rightarrow> bool" where
  "apart key a p \<longleftrightarrow> hosts_ok p \<and> a < cp_next p \<and> a \<notin> set (hp_all_connections (host_of p key))"

text \<open>Only the host \<open>key\<close> has changed, and the connection at \<open>a\<close> is still apart from it.\<close>

definition spares :: "bytes \<Rightarrow> nat \<Rightarrow> ConnectionPool \<Rightarrow> ConnectionPool \<Rightarrow> bool" where
  "spares key a p p' \<longleftrightarrow> apart key a p' \<and> (\<forall>k. k \<noteq> key \<longrightarrow> host_of p' k = host_of p k) \<and>
     cp_conns p' a = cp_conns p a \<and> cp_running p' = cp_running p"

lemma spares_refl: "apart key a p \<Longrightarrow> spares key a p p"
  by (simp add: spares_def)

lemma spares_trans: "spares key a p p1 \<Longrightarrow> spares key a p1 p2 \<Longrightarrow> spares key a p p2"
  by (simp add: spares_def)

lemma take_idle_conns:
  assumes "host_inv n hp" and "hp_idle_connections hp = idle"
    and "take_idle so now idle hp conns = (r, hp', conns')" and "a \<notin> set (hp_all_connections hp)"
  shows "conns' a = conns a"
  using assms
proof (induction idle arbitrary: hp conns)
  case (Cons b idle)
  have b: "pc_connection (hp_objects hp b) = b" "b \<in> set (hp_all_connections hp)"
    using Cons.prems(1,2) by (auto simp: host_inv_def)
  show ?case
  proof (cases "isConnectionValid so (conns b)")
    case True
    then show ?thesis using Cons.prems(3) b by (auto simp: Let_def split: if_splits)
  next
    case False
    obtain hp2 conns2 where rem: "removeConnection b (hp\<lparr>hp_idle_connections := idle\<rparr>) conns = (hp2, conns2)" by fastforce
    then have hp2: "hp_idle_connections hp2 = idle" "host_inv n hp2" "a \<notin> set (hp_all_connections hp2)" "conns2 a = conns a"
      using host_inv_remove [OF Cons.prems(1,2), of conns] Cons.prems(4) b
      by (auto simp: removeConnection_def close_conn_def dest: set_remove1_subset [THEN subsetD])
    have "take_idle so now idle hp2 conns2 = (r, hp', conns')" using Cons.prems(3) False rem b by simp
    from Cons.IH [OF hp2(2,1) this hp2(3)] show ?thesis using hp2(4) by simp
  qed
qed simp

lemma scan_spares:
  assumes ap: "apart key a p" and s: "acquire_scan so now now' key d p = Ret (t, p')"
  shows "spares key a p p'"
proof (cases "cp_running p")
  case False
  then show ?thesis using s spares_refl [OF ap] by (auto simp: acquire_scan_def)
next
  case True
  have ok: "hosts_ok p" using ap by (simp add: apart_def)
  obtain hp where hp: "map_of (cp_pools p) key = Some hp" using s True by (auto simp: acquire_scan_def split: option.splits)
  then have h: "host_of p key = hp" by (simp add: host_of_def)
  then have inv: "host_inv (cp_next p) hp" and a: "a \<notin> set (hp_all_connections hp)" using ap by (auto simp: hosts_ok_def apart_def)
  obtain r hp' conns' where take: "take_idle so now (hp_idle_connections hp) hp (cp_conns p) = (r, hp', conns')"
    by (rule prod_cases3)
  have p': "p' = put_pool key hp' conns' p"
    using s True hp take by (auto simp: acquire_scan_def split: option.splits if_splits)
  have "hosts_ok p'" using scan_took [OF ok s] by (simp add: took_def)
  then show ?thesis
    using take_idle_only [OF inv refl take] take_idle_conns [OF inv refl take a] a ap
    by (auto simp: spares_def apart_def p')
qed

lemma connect_spares:
  assumes ap: "apart key a p" and s: "acquire_connect fd now key d p = Ret (t, p')"
  shows "spares key a p p'"
proof -
  have ok: "hosts_ok p" using ap by (simp add: apart_def)
  have ok': "hosts_ok p'" using connect_took [OF ok s] by (simp add: took_def)
  obtain hp where hp: "map_of (cp_pools p) key = Some hp" using s by (auto simp: acquire_connect_def split: option.splits)
  then have h: "host_of p key = hp" by (simp add: host_of_def)
  show ?thesis
  proof (cases fd)
    case None
    then show ?thesis using s hp spares_refl [OF ap] by (auto simp: acquire_connect_def)
  next
    case (Some f)
    then show ?thesis using s hp ap h ok' by (auto simp: acquire_connect_def Let_def spares_def apart_def)
  qed
qed

lemma round_spares:
  assumes "apart key a p" and "acquire_round r key d p = Ret (t, p')"
  shows "spares key a p p'"
proof -
  obtain t1 p1 where s: "acquire_scan (ro_valid r) (ro_taken r) (ro_checked r) key d p = Ret (t1, p1)"
    "(case t1 of Connecting key d \<Rightarrow> acquire_connect (fst (createConnection (ro_fd r) (ro_address_ok r)
       (ro_connected r))) (ro_tried r) key d p1 | _ \<Rightarrow> Ret (t1, p1)) = Ret (t, p')"
    using assms(2) by (auto simp: acquire_round_def)
  note t1 = scan_spares [OF assms(1) s(1)]
  have ap: "apart key a p1" using t1 by (simp add: spares_def)
  have "t1 = Threw \<or> t1 = Connecting key d \<or> t1 = Waiting key d \<or> (\<exists>c. t1 = Holding key c)" by (rule scan_thread [OF s(1)])
  then show ?thesis using s(2) t1 connect_spares [OF ap] spares_trans [OF t1] by auto
qed

lemma loop_spares:
  "apart key a p \<Longrightarrow> acquire_loop rs key d p = Some (Ret (r, p')) \<Longrightarrow> spares key a p p'"
proof (induction rs arbitrary: p)
  case (Cons b rs)
  obtain t p1 where t: "acquire_round b key d p = Ret (t, p1)"
    using Cons.prems(2) by (auto split: res.splits)
  note s = round_spares [OF Cons.prems(1) t]
  then have ap: "apart key a p1" by (simp add: spares_def)
  show ?case using Cons.IH [OF ap] Cons.prems(2) t s spares_trans [OF s] by (auto split: thread.splits)
qed simp

lemma acquire_spares:
  assumes "apart (makeKey host port) a p" and "acquire_call host port now rs p = Some (Ret (r, p'))"
  shows "spares (makeKey host port) a p p'"
proof (cases "cp_running p")
  case False
  then show ?thesis using assms spares_refl by (auto simp: acquire_call_def acquire_def)
next
  case True
  let ?p1 = "getOrCreateHostPool (makeKey host port) p"
  have "apart (makeKey host port) a ?p1" using assms(1) by (simp add: apart_def hosts_ok_def)
  moreover have "acquire_loop rs (makeKey host port) (now + cp_acquire_timeout p) ?p1 = Some (Ret (r, p'))"
    using assms(2) True by (simp add: acquire_call_def acquire_def)
  ultimately have "spares (makeKey host port) a ?p1 p'" by (rule loop_spares)
  then show ?thesis by (simp add: spares_def)
qed

lemma exchange_spares:
  assumes "apart key a p" and "c \<noteq> a" and "exchange_over request c p socks = Some (reply, p', socks')"
  shows "spares key a p p' \<and> socks' a = socks a"
proof -
  have "socks' a = socks a" using assms(2,3)
    by (auto simp: exchange_over_def Let_def split: option.splits prod.splits if_splits)
  moreover have "spares key a p p'" using exchange_over_cases [OF assms(3)] assms(1,2)
    by (auto simp: spares_def apart_def hosts_ok_def)
  ultimately show ?thesis by blast
qed

lemma release_spares:
  assumes ap: "apart key a p" and run: "cp_running p" and c: "c \<in> busy p key"
  shows "spares key a p (release_key so now key c p)"
proof -
  have ok: "hosts_ok p" and ca: "c \<noteq> a" using ap c by (auto simp: apart_def busy_def)
  have ok': "hosts_ok (release_key so now key c p)" by (rule release_busy(2) [OF ok run c])
  show ?thesis
  proof (cases "map_of (cp_pools p) key")
    case None
    then show ?thesis using ok' ap run ca by (simp add: release_key_def spares_def apart_def close_conn_def)
  next
    case (Some hp)
    then have h: "host_of p key = hp" by (simp add: host_of_def)
    have inv: "host_inv (cp_next p) hp" using ok h by (auto simp: hosts_ok_def)
    have "find (\<lambda>x. pc_connection (hp_objects hp x) = c) (hp_all_connections hp) = Some c"
      using inv c by (intro find_own) (auto simp: host_inv_def busy_def h)
    then show ?thesis using ok' ap run ca Some h inv c
      by (auto simp: release_key_def spares_def apart_def close_conn_def removeConnection_def Let_def host_inv_def busy_def
          dest: set_remove1_subset [THEN subsetD])
  qed
qed

lemma endpoint_spares:
  assumes p: "nw_pool nw = Some p" and ap: "apart (makeKey (en_host ep) (en_port ep)) a p"
    and "callEndpoint_pooled rt e i ep s m d nw = Some (Ret (r, nw'))"
  shows "\<exists>p'. nw_pool nw' = Some p' \<and> spares (makeKey (en_host ep) (en_port ep)) a p p' \<and> nw_socks nw' a = nw_socks nw a"
  using p assms(3)
proof (cases rule: endpoint_cases)
  case (threw p')
  then show ?thesis using acquire_spares [OF ap threw(1)] by simp
next
  case (talked c p1 reply p2 socks)
  let ?key = "makeKey (en_host ep) (en_port ep)"
  have ok: "hosts_ok p" using ap by (simp add: apart_def)
  have c: "c \<in> busy p1 ?key" "cp_running p1"
    using acquire_took [OF ok talked(1)] acquire_running [OF talked(1)] by (auto simp: took_def)
  note s1 = acquire_spares [OF ap talked(1)]
  then have ap1: "apart ?key a p1" by (simp add: spares_def)
  have ca: "c \<noteq> a" using c(1) ap1 by (auto simp: busy_def apart_def)
  note s2 = exchange_spares [OF ap1 ca talked(2)]
  have ap2: "apart ?key a p2" "cp_running p2" "c \<in> busy p2 ?key"
    using s2 c exchange_over_busy [OF talked(2)] by (auto simp: spares_def)
  note s3 = release_spares [OF ap2, of "ue_valid e" "ue_released e"]
  show ?thesis using spares_trans [OF s1 spares_trans [OF conjunct1 [OF s2] s3]] s2 talked(4) by (simp add: release_def)
qed

lemma retry_spares:
  "nw_pool nw = Some p \<Longrightarrow> apart (makeKey (en_host ep) (en_port ep)) a p \<Longrightarrow>
   retry_pooled rt as ep s m d nw = Some (Ret (r, nw')) \<Longrightarrow>
   \<exists>p'. nw_pool nw' = Some p' \<and> spares (makeKey (en_host ep) (en_port ep)) a p p' \<and> nw_socks nw' a = nw_socks nw a"
proof (induction as arbitrary: nw p)
  case Nil
  then show ?case using spares_refl by auto
next
  case (Cons x as)
  obtain r1 nw1 where r1: "callEndpoint_pooled rt (fst x) (snd x) ep s m d nw = Some (Ret (r1, nw1))"
    "if r1 = None \<or> r1 = Some [] then retry_pooled rt as ep s m d nw1 = Some (Ret (r, nw'))
     else r1 = Some r \<and> nw' = nw1"
    by (rule retry_step [OF Cons.prems(3)])
  obtain p1 where p1: "nw_pool nw1 = Some p1" "spares (makeKey (en_host ep) (en_port ep)) a p p1"
    "nw_socks nw1 a = nw_socks nw a"
    using endpoint_spares [OF Cons.prems(1,2) r1(1)] by blast
  show ?case
  proof (cases "r1 = None \<or> r1 = Some []")
    case True
    have "apart (makeKey (en_host ep) (en_port ep)) a p1" using p1(2) by (simp add: spares_def)
    from Cons.IH [OF p1(1) this] r1(2) True p1(3) spares_trans [OF p1(2)] show ?thesis by auto
  next
    case False
    then show ?thesis using r1(2) p1 by auto
  qed
qed

section \<open>Two services\<close>

lemma frame_inject: "frame d = frame d' \<longleftrightarrow> d = d'"
proof
  assume "frame d = frame d'"
  then have "drop 4 (frame d) = drop 4 (frame d')" by simp
  then show "d = d'" by (simp add: frame_def)
qed simp

text \<open>The registry's reply has an instance, and none whose address is the registry's own.\<close>

definition lists_others :: "pb_runtime \<Rightarrow> bytes \<Rightarrow> bytes \<Rightarrow> bool" where
  "lists_others rt key data \<longleftrightarrow> (case ServiceDiscoveryResponse_deserialize rt data of
       None \<Rightarrow> False
     | Some response \<Rightarrow> list_all (\<lambda>s. makeKey (info_host s) (info_port s) \<noteq> key) (ds_services response))"

text \<open>After the first call of a service: the registry's connection is idle and closed by its peer.\<close>

definition leftover :: "nat \<Rightarrow> bytes \<Rightarrow> Network \<Rightarrow> bool" where
  "leftover bound key nw \<longleftrightarrow> (\<exists>p a. nw_pool nw = Some p \<and> cp_running p \<and> hosts_ok p \<and>
     hp_idle_connections (host_of p key) = [a] \<and> tc_connected (cp_conns p a) \<and> stale bound (nw_socks nw a))"

lemma retry_leftover:
  assumes p: "nw_pool nw = Some p" "cp_running p" "hosts_ok p" "hp_idle_connections (host_of p key) = [a]"
    "tc_connected (cp_conns p a)" "stale bound (nw_socks nw a)"
    and other: "makeKey (en_host ep) (en_port ep) \<noteq> key" "a \<notin> set (hp_all_connections (host_of p (makeKey (en_host ep) (en_port ep))))"
    and run: "retry_pooled rt as ep s m d nw = Some (Ret (r, nw'))"
  shows "leftover bound key nw'"
proof -
  let ?k = "makeKey (en_host ep) (en_port ep)"
  have "apart ?k a p" using p(3) other(2) idle_own(2) [OF p(3,4)] by (simp add: apart_def)
  from retry_spares [OF p(1) this run] obtain p' where p': "nw_pool nw' = Some p'" "spares ?k a p p'"
    "nw_socks nw' a = nw_socks nw a" by blast
  have "host_of p' key = host_of p key" using p'(2) not_sym [OF other(1)] by (simp add: spares_def)
  then show ?thesis unfolding leftover_def using p p'
    by (intro exI [of _ p'] exI [of _ a]) (simp add: spares_def apart_def)
qed

lemma leftover_call:
  assumes st: "leftover bound (makeKey host port) nw" and e: "prompt acq e"
    and len: "length (discovery_bytes rt name) \<le> bound" and miss: "map_of (cl_service_cache c) name = None"
  shows "\<exists>nw'. RpcClient_call_pooled rt e env host port now name m d c nw = Some (Ret ([], c\<lparr>
    cl_total_calls := cl_total_calls c + 1, cl_cache_misses := cl_cache_misses c + 1,
    cl_failed_calls := cl_failed_calls c + 1\<rparr>, nw'))"
proof -
  obtain p a where p: "nw_pool nw = Some p" "cp_running p" "hosts_ok p" "hp_idle_connections (host_of p (makeKey host port)) = [a]"
    "tc_connected (cp_conns p a)" "stale bound (nw_socks nw a)" using st by (auto simp: leftover_def)
  obtain p2 socks' where "discoverServiceFromRegistry_pooled rt e host port now name nw =
      Some (Ret ([], \<lparr>nw_pool = Some p2, nw_socks = socks'\<rparr>))"
    using stale_discovery [OF p e len, of now] by blast
  then show ?thesis using miss by (simp add: RpcClient_call_pooled_def discoverService_pooled_def Let_def)
qed

lemma hosts_disjoint:
  assumes "pooled (ConnectionPool_new limit low idle acq, [Outside]) nw" and "nw_pool nw = Some p" and "cp_running p"
    and "a \<in> set (hp_all_connections (host_of p k))" and "k' \<noteq> k"
  shows "a \<notin> set (hp_all_connections (host_of p k'))"
proof -
  have "pool_reached (ConnectionPool_new limit low idle acq, replicate 1 Outside) (p, [Outside])"
    using assms(1,2) by (auto simp: pooled_def)
  from pool_inv_reached [OF this] have inv: "pools_inv p" using assms(3) by (simp add: pool_inv_def inv_parts_def)
  obtain hp where hp: "map_of (cp_pools p) k = Some hp" "a \<in> set (hp_all_connections hp)"
    using assms(4) by (cases "map_of (cp_pools p) k") (auto simp: host_of_def HostPool_new_def)
  show ?thesis
  proof (cases "map_of (cp_pools p) k'")
    case None
    then show ?thesis by (simp add: host_of_def HostPool_new_def)
  next
    case (Some hp')
    then show ?thesis using inv hp assms(5) unfolding pools_inv_def by (fastforce simp: host_of_def)
  qed
qed

text \<open>The first call of a new client leaves the registry's connection behind.\<close>

lemma first_call:
  assumes once: "answers_once rt bound (socks 0)" and data: "sk_rx (socks 0) = frame data"
    and others: "lists_others rt (makeKey host port) data" and e: "prompt acq e"
    and len: "length (discovery_bytes rt s) \<le> bound" and limit: "0 < limit"
    and call: "RpcClient_call_pooled rt e env host port now s m d (RpcClient_new n ttl)
      \<lparr>nw_pool = Some (ConnectionPool_new limit low idle acq), nw_socks = socks\<rparr> = Some (Ret (r, c', nw'))"
  shows "leftover bound (makeKey host port) nw' \<and> (s' \<noteq> s \<longrightarrow> map_of (cl_service_cache c') s' = None)"
proof -
  let ?p = "ConnectionPool_new limit low idle acq" and ?key = "makeKey host port"
  let ?nw = "\<lparr>nw_pool = Some ?p, nw_socks = socks\<rparr>"
  have h: "host_of ?p k = HostPool_new" for k by (simp add: host_of_def ConnectionPool_new_def)
  have "\<exists>response :: ServiceDiscoveryResponse. \<exists>p2 s'.
      ServiceDiscoveryResponse_deserialize rt data = Some response \<and> ds_services response \<noteq> [] \<and>
      discoverServiceFromRegistry_pooled rt e host port now s ?nw =
        Some (Ret (map (\<lambda>s. \<lparr>en_host = info_host s, en_port = info_port s, en_cached_time = now\<rparr>) (ds_services response),
          \<lparr>nw_pool = Some p2, nw_socks = socks(0 := s')\<rparr>)) \<and>
      stale bound s' \<and> hosts_ok p2 \<and> cp_running p2 \<and> hp_idle_connections (host_of p2 ?key) = [0] \<and> tc_connected (cp_conns p2 0)"
    using fresh_discovery [of ?nw ?p host port rt bound e s now] once data e len limit frame_inject
    by (simp add: h hosts_ok_def host_inv_new) (auto simp: ConnectionPool_new_def HostPool_new_def)
  then obtain response :: ServiceDiscoveryResponse and p2 s2 where d:
    "ServiceDiscoveryResponse_deserialize rt data = Some response" "ds_services response \<noteq> []"
    "discoverServiceFromRegistry_pooled rt e host port now s ?nw =
      Some (Ret (map (\<lambda>s. \<lparr>en_host = info_host s, en_port = info_port s, en_cached_time = now\<rparr>) (ds_services response),
        \<lparr>nw_pool = Some p2, nw_socks = socks(0 := s2)\<rparr>))"
    "stale bound s2" "hosts_ok p2" "cp_running p2" "hp_idle_connections (host_of p2 ?key) = [0]" "tc_connected (cp_conns p2 0)"
    by blast
  let ?es = "map (\<lambda>s. \<lparr>en_host = info_host s, en_port = info_port s, en_cached_time = now\<rparr>) (ds_services response)"
  let ?nw2 = "\<lparr>nw_pool = Some p2, nw_socks = socks(0 := s2)\<rparr>"
  let ?c = "(RpcClient_new n ttl)\<lparr>cl_total_calls := 1, cl_cache_misses := 1, cl_service_cache := [(s, ?es)]\<rparr>"
  have disc: "discoverService_pooled rt e host port now s ((RpcClient_new n ttl)\<lparr>cl_total_calls := 1\<rparr>) ?nw = Some (Ret (?es, ?c, ?nw2))"
    using d(2,3) by (simp add: discoverService_pooled_def RpcClient_new_def Let_def)
  obtain ep c2 where sel: "selectEndpoint ?es ?c = Some (ep, c2)" "ep \<in> set ?es"
    using selectEndpoint_Some [of ?es ?c] d(2) by auto
  have cache: "cl_service_cache c2 = [(s, ?es)]"
    using sel(1) by (auto simp: selectEndpoint_def Let_def split: if_splits)
  obtain as where ret: "retry_pooled rt as ep s m d ?nw2 = Some (Ret (r, nw'))" and c': "cl_service_cache c' = cl_service_cache c2"
    using call disc sel(1) d(2)
    by (auto simp: RpcClient_call_pooled_def RpcClient_new_def callWithRetry_pooled_def split: if_splits res.splits)
  have other: "makeKey (en_host ep) (en_port ep) \<noteq> ?key"
    using sel(2) others d(1) by (auto simp: lists_others_def list_all_iff)
  have "pooled (?p, [Outside]) ?nw" using pool_reached.init [of "(?p, [Outside])"] by (simp add: pooled_def)
  from discovery_run [OF this d(3)] have run: "pooled (?p, [Outside]) ?nw2" .
  have "(0 :: nat) \<in> set (hp_all_connections (host_of p2 ?key))"
    using d(5,7) unfolding hosts_ok_def host_inv_def by (metis (no_types, lifting) list.set_intros(1) mem_Collect_eq)
  from hosts_disjoint [OF run _ d(6) this other] have "0 \<notin> set (hp_all_connections (host_of p2 (makeKey (en_host ep) (en_port ep))))"
    by simp
  from retry_leftover [OF _ d(6,5,7,8) _ other this ret] have "leftover bound ?key nw'" using d(4) by simp
  then show ?thesis using c' cache by simp
qed

text \<open>C6. A new client that calls one service and then another one fails with the second: whatever became of the
  first call, the discovery of the second service goes over the connection the registry has
  closed, and the call returns nothing and counts as failed.\<close>

theorem second_service_fails:
  assumes "answers_once rt bound (socks 0)" and "sk_rx (socks 0) = frame data"
    and "lists_others rt (makeKey host port) data" and "prompt acq e1" and "prompt acq e2" and "0 < limit"
    and "length (discovery_bytes rt s1) \<le> bound" and "length (discovery_bytes rt s2) \<le> bound" and "s2 \<noteq> s1"
    and "RpcClient_call_pooled rt e1 env1 host port now1 s1 m1 d1 (RpcClient_new n ttl)
      \<lparr>nw_pool = Some (ConnectionPool_new limit low idle acq), nw_socks = socks\<rparr> = Some (Ret (r1, c1, nw1))"
  shows "\<exists>c2 nw2. RpcClient_call_pooled rt e2 env2 host port now2 s2 m2 d2 c1 nw1 = Some (Ret ([], c2, nw2)) \<and>
    cl_failed_calls c2 = cl_failed_calls c1 + 1"
proof -
  have "leftover bound (makeKey host port) nw1" and "map_of (cl_service_cache c1) s2 = None"
    using first_call [OF assms(1-4,7,6,10), of s2] assms(9) by blast+
  from leftover_call [OF this(1) assms(5,8) this(2)] show ?thesis by fastforce
qed

text \<open>The first call returns the result of the handler, the second one nothing.\<close>

lemma second_service_fails_witness:
  "\<exists>c1 nw1 c2 nw2. RpcClient_call_pooled std_runtime prompt_env (\<lambda>_. (prompt_env, ''1'')) ''r'' 80 0 ''E'' ''m'' ''d''
      (RpcClient_new 1 60) network_ex = Some (Ret (''ok'', c1, nw1)) \<and>
    RpcClient_call_pooled std_runtime prompt_env (\<lambda>_. (prompt_env, ''1'')) ''r'' 80 0 ''C'' ''m'' ''d'' c1 nw1 =
      Some (Ret ([], c2, nw2))"
proof -
  obtain r c1 nw1 where call: "RpcClient_call_pooled std_runtime prompt_env (\<lambda>_. (prompt_env, ''1'')) ''r'' 80 0
      ''E'' ''m'' ''d'' (RpcClient_new 1 60) network_ex = Some (Ret (r, c1, nw1))" "r = ''ok''"
    using call_ex by (auto dest: ret_of_Some simp: client_ex_def)
  have p: "prompt 5 prompt_env" by (simp add: prompt_def prompt_env_def)
  have len: "length (discovery_bytes std_runtime ''E'') \<le> 9" "length (discovery_bytes std_runtime ''C'') \<le> 9" by code_simp+
  have others: "lists_others std_runtime (makeKey ''r'' 80) discovery_reply" by code_simp
  have nw: "\<lparr>nw_pool = Some (ConnectionPool_new 1 1 300 5), nw_socks = nw_socks network_ex\<rparr> = network_ex"
    by (simp add: network_ex_def)
  have once: "answers_once std_runtime 9 (nw_socks network_ex 0)" "sk_rx (nw_socks network_ex 0) = frame discovery_reply"
    using once_sock_answers by (simp_all add: network_ex_def once_sock_def)
  have call': "RpcClient_call_pooled std_runtime prompt_env (\<lambda>_. (prompt_env, ''1'')) ''r'' 80 0 ''E'' ''m'' ''d''
      (RpcClient_new 1 60) \<lparr>nw_pool = Some (ConnectionPool_new 1 1 300 5), nw_socks = nw_socks network_ex\<rparr> =
      Some (Ret (r, c1, nw1))" unfolding nw by (rule call(1))
  have "\<exists>c2 nw2. RpcClient_call_pooled std_runtime prompt_env (\<lambda>_. (prompt_env, ''1'')) ''r'' 80 0 ''C'' ''m'' ''d'' c1 nw1 =
      Some (Ret ([], c2, nw2)) \<and> cl_failed_calls c2 = cl_failed_calls c1 + 1"
    by (rule second_service_fails [OF once others p p _ len _ call']) simp_all
  then show ?thesis using call by blast
qed

end
