(* ===== verification/Spec2Isabelle.thy ===== *)
theory Spec2Isabelle
  imports Raft_Properties Registry_Properties Network_Properties Wire_Properties Rpc_Properties
    Pool_Properties Distributed_Properties Server_Sockets Registry_Session
    Raft_Cluster_Properties Client_Properties Registry_Snapshot Example_Programs
    Message_Text Background_Loops Client_Threads Message_Transfer
    Raft_Cluster_Commit Response_Routing Registry_Replicas Server_System Configurations
    Statistics Client_Session
begin

text \<open>
  A verification library for an RPC framework written in C++ with Protocol Buffers.

  \<^bold>\<open>The program.\<close> Service providers run an \<open>RpcServer\<close> (server/rpc_server.cpp) on top of the
  event-driven \<open>EpollServer\<close> (common/epoll_server.cpp). They announce themselves to a registry
  and send it heartbeats. Consumers use an \<open>RpcClient\<close> (client/rpc_client.cpp), which asks the
  registry for the instances of a service, caches the answer, chooses one and calls it, with
  retries. The registry is either \<open>RegistryServer\<close> (registry/registry_server.cpp), one process,
  or a cluster in which a \<open>RaftNode\<close> (registry/raft_node.cpp, raft_node_rpc.cpp) replicates a log
  whose committed entries a \<open>RegistryStateMachine\<close> (registry/raft_state_machine.cpp) applies. All
  of them exchange protobuf messages (proto/rpc_message.pb.cc, proto/service.pb.cc) in frames of
  a four-byte length and the message (common/network.cpp).

  \<^bold>\<open>The theories.\<close>

  \<^item> \<open>Rpc_Prelude\<close>: bytes, machine integers, the result of a call that may deadlock or be
    undefined, the length prefix, lemmas on lists and tables.

  \<^item> \<open>Pb_Runtime\<close>: the entry points of the protobuf runtime as a record, its documented laws as
    the locale \<open>pb_wire\<close>, the parse loop the generated code shares, and common/serializer.cpp.
    \<open>Pb_Rpc_Message\<close> and \<open>Pb_Service\<close>: the generated code of the thirteen messages, function by
    function, with the round trip of each. \<open>Pb_Reference\<close>: a runtime for which the laws hold.
    \<open>Wire_Properties\<close>: what the code promises about messages on the wire.

  \<^item> \<open>Message_Text\<close>: parsed messages hold valid text in every string field, whatever the bytes
    were, and so do the tables of the registry.

  \<^item> \<open>Tcp_Connection\<close>: classes \<open>TcpConnection\<close> and \<open>TcpClient\<close> over a socket with arbitrary
    results of the system calls. \<open>Stream_Framing\<close>: the locale of a framing and what follows for any
    segmentation of the stream. \<open>Epoll_Server\<close>: set-up, connections, frame extraction, responses
    and counters, the interpretation of the locale, and the steps of the server with their
    invariant. \<open>Network_Properties\<close>: the properties of both transports. \<open>Server_Sockets\<close>: class
    \<open>TcpServer\<close>, and the descriptors of both servers from \<open>start\<close> to \<open>stop\<close>. \<open>Background_Loops\<close>:
    the event loop and the loop of the clean-up thread.

  \<^item> \<open>Thread_Pool\<close>: the worker threads, \<open>enqueue\<close>, \<open>stop\<close> and \<open>waitForCompletion\<close> of
    common/thread_pool.cpp as single steps, with the mutex, the notifications and the atomic
    counter. \<open>Connection_Pool\<close>: the operations of common/connection_pool.cpp. \<open>Connection_Pool_System\<close>:
    any number of threads that share a pool, and the invariant of every reachable state.
    \<open>Pool_Properties\<close>: the properties of both pools.

  \<^item> \<open>Service_Table\<close>: the table of instances and its view as a map from (service, host, port)
    to the last heartbeat. \<open>Registry_Interface\<close>: the locales \<open>service_registry\<close> and
    \<open>unregistering_registry\<close>, the contract over that view. \<open>Registry_Server\<close> and
    \<open>Registry_State_Machine\<close>: the two implementations, each with its interpretation.
    \<open>Registry_Protocol\<close>: from the bytes of a request to the handler it reaches.
    \<open>Registry_Properties\<close>: the properties of both registries and of the protocol.
    \<open>Registry_Snapshot\<close>: \<open>getSnapshot\<close> and \<open>restoreFromSnapshot\<close> with their round trip.
    \<open>State_Machine_Interface\<close>: the class \<open>RaftStateMachine\<close> as two locales, \<open>raft_state_machine\<close>
    and \<open>snapshotting_machine\<close>; \<open>Registry_Replicas\<close>: a node that catches up from a snapshot.

  \<^item> \<open>Distributed_Registry_Messages\<close>: the data of proto/distributed_registry.proto. \<open>Raft_Node\<close>:
    the node, handler by handler. \<open>Raft_Safety\<close>: lemmas per handler. \<open>Raft_System\<close>: the steps of
    a running node and the invariants of every reachable state. \<open>Raft_Properties\<close>: its
    properties, and the runs in which the guarantees of the protocol fail. \<open>Raft_Cluster\<close>: nodes
    that talk to each other over connections, each request answered when its receiver is not
    blocked. \<open>Raft_Cluster_Properties\<close>: one leader per term, and how a cluster halts.
    \<open>Raft_Cluster_Commit\<close>: no run of a cluster ever commits or applies an entry.

  \<^item> \<open>Distributed_Registry\<close>: registry/distributed_registry_server.cpp over the Raft node and the
    state machine. \<open>Distributed_Properties\<close>: what a confirmed registration means, and when
    replicas agree.

  \<^item> \<open>Load_Balancer\<close>, \<open>Rpc_Server\<close>, \<open>Rpc_Client\<close>: the classes of those names, the client over
    abstract exchanges. \<open>Client_Connections\<close>: the client over the connection pool, operation by
    operation. \<open>Client_Properties\<close>: that it refines the client over exchanges, and what becomes
    of its connections. \<open>Client_Session\<close>: a client of two services, whose second discovery fails.
    \<open>Client_Threads\<close>: calls that run at the same time, their statistics and the map they race on.
    \<open>Registry_Session\<close>: registrations and heartbeats of the RPC server against the registry, both
    ends running their code. \<open>Rpc_Properties\<close>: a remote call from end to end.
    \<open>Message_Transfer\<close>: the locale of a codec, typed messages over both transports, and a stream
    of requests that is answered completely. \<open>Response_Routing\<close>: which call a response reaches,
    for calls in turn over a pooled connection and for a descriptor that is reused.

  \<^item> \<open>Server_System\<close>: the whole server, its event loop, thread pool and request handler as one step
    relation: every request is answered, once, whatever the interleaving. \<open>Configurations\<close>: the
    configurations of the four classes with their defaults, the constructors, and a server whose
    default pool is empty. \<open>Statistics\<close>: the average response time and the numbers the classes
    print. \<open>Example_Programs\<close>: the services, tests and main functions under examples/.

  \<^bold>\<open>State and operations.\<close> An object is a record of its fields; a method is a function from
  arguments and state to result and state, under the name of the method. An \<open>unordered_map\<close> is
  an association list with distinct keys, whose order nothing depends on; \<open>int\<close> and \<open>int32\<close> are
  32-bit words, \<open>size_t\<close> a 64-bit word where it can wrap around. Time is an argument. A method
  that holds one mutex for its whole body is one step of the system. Where a thread holds
  several, the mutexes held are an argument and locking one twice is the outcome \<open>Deadlock\<close>.

  \<^bold>\<open>Loops and bounds.\<close> Loops are structural recursions over lists, or recursions with a
  measure. \<open>pb_loop\<close> has fuel: one more than the length of the input, which is enough because
  reading a tag consumes a byte (\<open>parse_not_PFuel\<close>, \<open>parsers_terminate\<close>). \<open>TcpConnection_send\<close>
  returns \<open>None\<close> when a system call never returns; \<open>send_completes\<close> states when it does return.
  The round trips are stated for messages below \<open>pb_limit\<close>, 2^30 bytes, which keeps the sizes in
  the range of an \<open>int\<close>.

  \<^bold>\<open>Parameters.\<close> The protobuf runtime (\<open>pb_wire\<close>), the results of system calls, the random
  generator, the clock, the answers of other nodes, the registered handlers, and the generated
  parsers of the Raft messages, which are not part of the repository.

  The answers of the connection's peer, where only one end is modelled, are the bytes its socket
  receives; \<open>Client_Connections\<close> takes the results of \<open>connect\<close> and the clock from an environment
  record.

  \<^bold>\<open>Interfaces.\<close> The locale \<open>pb_wire\<close> is interpreted on the runtime of \<open>Pb_Reference\<close>, the
  framing on \<open>extractMessages\<close>, \<open>wire_codec\<close> on the messages of a call, the two registry
  interfaces on the registry server and the state machine, and the two interfaces of a replicated
  state machine on \<open>RegistryStateMachine\<close>; the properties that compare or compose components rest
  on these.

  \<^bold>\<open>Not modelled.\<close> Printing, and the rounding of the floating-point numbers that are printed,
  which are exact rationals here; sleeps, which only delay a step; the arenas, the reflection and
  the accessor variants of the generated code; the futures of \<open>callAsync\<close> and of the thread pool;
  the JSON reader of \<open>loadClusterConfig\<close>, which no program calls; tests and scripts. The C++ code of
  the Raft messages is generated at build time and is a parameter.
\<close>

end
